(* ===== verification/Prelude.thy ===== *)
theory Prelude
  imports Main "HOL-Library.Word" "HOL-Library.Char_ord" "HOL-Library.List_Lexorder"
    "HOL-Library.Product_Lexorder" "HOL-Library.Monad_Syntax"
begin

text \<open>
  Shared vocabulary of the development: machine integers with their width written out, results
  with early return, the pieces of Rust's \<^verbatim>\<open>str\<close> and slice library the sources use, and
  decimal printing and parsing.  Strings are lists of 8-bit characters; the sources only handle
  ASCII names here, so a character and a byte coincide.
\<close>

named_theorems result_simps \<open>unfolding rules of the early-return combinators\<close>
named_theorems str_simps \<open>facts on strings, splitting and decimal text\<close>

section \<open>Machine integers\<close>

text \<open>
  Unsigned integers are kept as \<open>nat\<close> with the width of the Rust type spelled out at every
  operation that can leave the range: \<open>wrap\<close> is the release-mode operator, \<open>checked_add\<close> and
  its kin are the \<^verbatim>\<open>checked_*\<close> methods.
\<close>

type_synonym byte = "8 word"

definition wrap :: "nat \<Rightarrow> nat \<Rightarrow> nat" where
  "wrap bits n = n mod 2 ^ bits"

definition fits :: "nat \<Rightarrow> nat \<Rightarrow> bool" where
  "fits bits n \<longleftrightarrow> n < 2 ^ bits"

definition checked_add :: "nat \<Rightarrow> nat \<Rightarrow> nat \<Rightarrow> nat option" where
  "checked_add bits a b = (if fits bits (a + b) then Some (a + b) else None)"

definition checked_mul :: "nat \<Rightarrow> nat \<Rightarrow> nat \<Rightarrow> nat option" where
  "checked_mul bits a b = (if fits bits (a * b) then Some (a * b) else None)"

definition checked_sub :: "nat \<Rightarrow> nat \<Rightarrow> nat option" where
  "checked_sub a b = (if b \<le> a then Some (a - b) else None)"

text \<open>Release-mode subtraction of \<open>bits\<close>-wide operands, \<open>b \<le> 2 ^ bits\<close>.\<close>

definition wrapping_sub :: "nat \<Rightarrow> nat \<Rightarrow> nat \<Rightarrow> nat" where
  "wrapping_sub bits a b = (a + (2 ^ bits - b)) mod 2 ^ bits"

definition abs_diff :: "nat \<Rightarrow> nat \<Rightarrow> nat" where
  "abs_diff a b = (if a \<le> b then b - a else a - b)"

text \<open>Rust's \<^verbatim>\<open>ilog2\<close> on a positive argument.\<close>

fun ilog2 :: "nat \<Rightarrow> nat" where
  "ilog2 n = (if n < 2 then 0 else Suc (ilog2 (n div 2)))"

declare ilog2.simps [simp del]

fun is_power_of_two :: "nat \<Rightarrow> bool" where
  "is_power_of_two n =
     (if n = 0 then False else if n = 1 then True else even n \<and> is_power_of_two (n div 2))"

declare is_power_of_two.simps [simp del]

section \<open>Early return\<close>

definition bindR :: "'e + 'a \<Rightarrow> ('a \<Rightarrow> 'e + 'b) \<Rightarrow> 'e + 'b" where
  "bindR m f = (case m of Inl e \<Rightarrow> Inl e | Inr x \<Rightarrow> f x)"

definition ok_or :: "'e \<Rightarrow> 'a option \<Rightarrow> 'e + 'a" where
  "ok_or e m = (case m of None \<Rightarrow> Inl e | Some x \<Rightarrow> Inr x)"

definition map_err :: "('e \<Rightarrow> 'f) \<Rightarrow> 'e + 'a \<Rightarrow> 'f + 'a" where
  "map_err f m = (case m of Inl e \<Rightarrow> Inl (f e) | Inr x \<Rightarrow> Inr x)"

definition check :: "bool \<Rightarrow> 'e \<Rightarrow> 'e + unit" where
  "check b e = (if b then Inr () else Inl e)"

text \<open>The two ways a call leaves without a value: a returned error, or a panic.\<close>

datatype 'e fault = Err 'e | Panicked

text \<open>A \<^verbatim>\<open>for\<close> loop whose body threads a state and may return early.\<close>

fun foldR :: "('s \<Rightarrow> 'a \<Rightarrow> 'e + 's) \<Rightarrow> 's \<Rightarrow> 'a list \<Rightarrow> 'e + 's" where
  "foldR f s [] = Inr s"
| "foldR f s (x # xs) = bindR (f s x) (\<lambda>s'. foldR f s' xs)"

text \<open>A \<^verbatim>\<open>map\<close> collected into a \<^verbatim>\<open>Result\<close>.\<close>

fun mapR :: "('a \<Rightarrow> 'e + 'b) \<Rightarrow> 'a list \<Rightarrow> 'e + 'b list" where
  "mapR f [] = Inr []"
| "mapR f (x # xs) = bindR (f x) (\<lambda>y. bindR (mapR f xs) (\<lambda>ys. Inr (y # ys)))"

section \<open>Slices and strings\<close>

definition is_ascii_digit :: "char \<Rightarrow> bool" where
  "is_ascii_digit c \<longleftrightarrow> 48 \<le> (of_char c :: nat) \<and> (of_char c :: nat) \<le> 57"

definition is_ascii_alphabetic :: "char \<Rightarrow> bool" where
  "is_ascii_alphabetic c \<longleftrightarrow>
     65 \<le> (of_char c :: nat) \<and> (of_char c :: nat) \<le> 90 \<or>
     97 \<le> (of_char c :: nat) \<and> (of_char c :: nat) \<le> 122"

definition is_ascii_alphanumeric :: "char \<Rightarrow> bool" where
  "is_ascii_alphanumeric c \<longleftrightarrow> is_ascii_alphabetic c \<or> is_ascii_digit c"

text \<open>White space of \<^verbatim>\<open>str::trim\<close>, on ASCII text.\<close>

definition is_whitespace :: "char \<Rightarrow> bool" where
  "is_whitespace c \<longleftrightarrow> (of_char c :: nat) = 32 \<or> 9 \<le> (of_char c :: nat) \<and> (of_char c :: nat) \<le> 13"

definition trim :: "string \<Rightarrow> string" where
  "trim s = rev (dropWhile is_whitespace (rev (dropWhile is_whitespace s)))"

fun strip_prefix :: "string \<Rightarrow> string \<Rightarrow> string option" where
  "strip_prefix [] s = Some s"
| "strip_prefix (p # ps) [] = None"
| "strip_prefix (p # ps) (c # cs) = (if p = c then strip_prefix ps cs else None)"

definition strip_suffix :: "string \<Rightarrow> string \<Rightarrow> string option" where
  "strip_suffix p s = map_option rev (strip_prefix (rev p) (rev s))"

text \<open>\<^verbatim>\<open>str::split_once\<close>: the parts around the first occurrence of the separator.\<close>

fun split_once :: "string \<Rightarrow> string \<Rightarrow> (string \<times> string) option" where
  "split_once sep [] = (if sep = [] then Some ([], []) else None)"
| "split_once sep (c # cs) =
     (case strip_prefix sep (c # cs) of
        Some rest \<Rightarrow> Some ([], rest)
      | None \<Rightarrow> map_option (\<lambda>(l, r). (c # l, r)) (split_once sep cs))"

text \<open>Decimal text.\<close>

definition digit_char :: "nat \<Rightarrow> char" where
  "digit_char d = char_of (48 + d)"

definition digit_val :: "char \<Rightarrow> nat" where
  "digit_val c = of_char c - 48"

fun show_nat :: "nat \<Rightarrow> string" where
  "show_nat n = (if n < 10 then [digit_char n] else show_nat (n div 10) @ [digit_char (n mod 10)])"

declare show_nat.simps [simp del]

definition read_digits :: "string \<Rightarrow> nat" where
  "read_digits s = foldl (\<lambda>acc c. 10 * acc + digit_val c) 0 s"

text \<open>
  \<^verbatim>\<open>str::parse\<close> for an unsigned integer of the given width: an optional plus sign, at least
  one digit, nothing else, and no overflow.
\<close>

definition parse_uint :: "nat \<Rightarrow> string \<Rightarrow> nat option" where
  "parse_uint bits s =
     (let ds = (case s of [] \<Rightarrow> [] | c # cs \<Rightarrow> if c = CHR ''+'' then cs else s)
      in if ds \<noteq> [] \<and> list_all is_ascii_digit ds \<and> fits bits (read_digits ds)
         then Some (read_digits ds) else None)"

section \<open>Facts on integers\<close>

lemma wrap_id [simp]: "fits bits n \<Longrightarrow> wrap bits n = n"
  by (simp add: fits_def wrap_def)

lemma fits_wrap [simp]: "fits bits (wrap bits n)"
  by (simp add: fits_def wrap_def)

lemma checked_add_Some: "checked_add bits a b = Some c \<longleftrightarrow> c = a + b \<and> fits bits (a + b)"
  by (auto simp: checked_add_def)

lemma checked_mul_Some: "checked_mul bits a b = Some c \<longleftrightarrow> c = a * b \<and> fits bits (a * b)"
  by (auto simp: checked_mul_def)

lemma checked_sub_Some: "checked_sub a b = Some c \<longleftrightarrow> b \<le> a \<and> c = a - b"
  by (auto simp: checked_sub_def)

lemma wrapping_sub_eq:
  assumes "fits bits a" and "b \<le> a"
  shows "wrapping_sub bits a b = a - b"
proof -
  have "a + (2 ^ bits - b) = (a - b) + 2 ^ bits"
    using assms by (auto simp: fits_def)
  then have "wrapping_sub bits a b = (a - b) mod 2 ^ bits"
    by (simp only: wrapping_sub_def mod_add_self2)
  then show ?thesis
    using assms by (simp add: fits_def)
qed

lemma fits_mono: "fits bits n \<Longrightarrow> m \<le> n \<Longrightarrow> fits bits m"
  by (simp add: fits_def)

lemma ilog2_bounds: "0 < n \<Longrightarrow> 2 ^ ilog2 n \<le> n \<and> n < 2 ^ Suc (ilog2 n)"
proof (induction n rule: ilog2.induct)
  case (1 n)
  show ?case
  proof (cases "n < 2")
    case True
    with "1.prems" show ?thesis by (simp add: ilog2.simps [of n])
  next
    case False
    then have "0 < n div 2" by simp
    with "1.IH" False have "2 ^ ilog2 (n div 2) \<le> n div 2 \<and> n div 2 < 2 ^ Suc (ilog2 (n div 2))"
      by blast
    then have "2 * 2 ^ ilog2 (n div 2) \<le> n \<and> n < 2 * (2 * 2 ^ ilog2 (n div 2))"
      by (simp only: power_Suc) arith
    with False show ?thesis by (simp add: ilog2.simps [of n])
  qed
qed

lemma is_power_of_two_iff: "is_power_of_two n \<longleftrightarrow> (\<exists>k. n = 2 ^ k)"
proof (induction n rule: is_power_of_two.induct)
  case (1 n)
  show ?case
  proof (cases "n = 0 \<or> n = 1")
    case True
    then show ?thesis
      by (auto simp: is_power_of_two.simps [of n] intro: exI [of _ "0::nat"])
  next
    case False
    then have IH: "is_power_of_two (n div 2) \<longleftrightarrow> (\<exists>k. n div 2 = 2 ^ k)"
      using "1.IH" by simp
    have "even n \<and> (\<exists>k. n div 2 = 2 ^ k) \<longleftrightarrow> (\<exists>k. n = 2 ^ k)"
    proof
      assume "even n \<and> (\<exists>k. n div 2 = 2 ^ k)"
      then obtain k where "n = 2 ^ Suc k" by auto
      then show "\<exists>k. n = 2 ^ k" ..
    next
      assume "\<exists>k. n = 2 ^ k"
      then obtain k where k: "n = 2 ^ k" ..
      with False obtain j where "k = Suc j" by (cases k) auto
      with k show "even n \<and> (\<exists>k. n div 2 = 2 ^ k)" by auto
    qed
    with False IH show ?thesis by (simp add: is_power_of_two.simps [of n])
  qed
qed

lemma ilog2_power: "ilog2 (2 ^ k) = k"
proof (induction k)
  case 0
  show ?case by (subst ilog2.simps) simp
next
  case (Suc k)
  have "ilog2 (2 ^ Suc k) = Suc (ilog2 (2 ^ k))"
    by (subst ilog2.simps) simp
  with Suc show ?case by simp
qed

section \<open>Facts on results\<close>

lemma find_key:
  assumes "distinct (map f xs)" and "c \<in> set xs"
  shows "find (\<lambda>x. f x = s) xs = Some c \<longleftrightarrow> s = f c"
proof
  assume "find (\<lambda>x. f x = s) xs = Some c"
  then show "s = f c" by (auto simp: find_Some_iff)
next
  assume "s = f c"
  with assms show "find (\<lambda>x. f x = s) xs = Some c" by (induction xs) (auto simp: rev_image_eqI)
qed

lemma ex_bool [simp]: "Ex Not" "\<exists>b. b"
  by (rule exI [of _ False], simp) (rule exI [of _ True], simp)

lemma bindR_Inl [simp, result_simps]: "bindR (Inl e) f = Inl e"
  by (simp add: bindR_def)

lemma bindR_Inr [simp, result_simps]: "bindR (Inr x) f = f x"
  by (simp add: bindR_def)

lemma bindR_eq_Inr: "bindR m f = Inr y \<longleftrightarrow> (\<exists>x. m = Inr x \<and> f x = Inr y)"
  by (cases m) auto

lemma bindR_eq_Inl: "bindR m f = Inl e \<longleftrightarrow> m = Inl e \<or> (\<exists>x. m = Inr x \<and> f x = Inl e)"
  by (cases m) auto

lemma ok_or_eq_Inr [simp]: "ok_or e m = Inr x \<longleftrightarrow> m = Some x"
  by (cases m) (auto simp: ok_or_def)

lemma ok_or_eq_Inl [simp]: "ok_or e m = Inl e' \<longleftrightarrow> m = None \<and> e' = e"
  by (cases m) (auto simp: ok_or_def)

lemma ok_or_simps [simp, result_simps]: "ok_or e (Some x) = Inr x" "ok_or e None = Inl e"
  by (simp_all add: ok_or_def)

lemma map_err_simps [simp, result_simps]: "map_err f (Inl e) = Inl (f e)" "map_err f (Inr x) = Inr x"
  by (simp_all add: map_err_def)

lemma check_simps [simp, result_simps]: "check True e = Inr ()" "check False e = Inl e"
  by (simp_all add: check_def)

lemma check_eq_Inr [simp]: "check b e = Inr u \<longleftrightarrow> b"
  by (cases b) simp_all

lemma check_eq_Inl [simp]: "check b e = Inl e' \<longleftrightarrow> \<not> b \<and> e' = e"
  by (cases b) auto

lemma foldR_append: "foldR f s (xs @ ys) = bindR (foldR f s xs) (\<lambda>s'. foldR f s' ys)"
proof (induction xs arbitrary: s)
  case (Cons x xs)
  then show ?case by (cases "f s x") simp_all
qed simp

text \<open>The loop rule of \<open>foldR\<close>: an invariant every successful body step keeps.\<close>

lemma foldR_invariant:
  assumes "foldR f s xs = Inr s'" and "I s"
    and "\<And>t x t'. x \<in> set xs \<Longrightarrow> I t \<Longrightarrow> f t x = Inr t' \<Longrightarrow> I t'"
  shows "I s'"
  using assms
proof (induction xs arbitrary: s)
  case (Cons x xs)
  then obtain s1 where s1: "f s x = Inr s1" "foldR f s1 xs = Inr s'"
    by (auto simp: bindR_eq_Inr)
  have "I s1"
    by (rule Cons.prems(3) [OF _ Cons.prems(2) s1(1)]) simp
  then show ?case
    using Cons.IH [OF s1(2)] Cons.prems(3) by (metis list.set_intros(2))
qed simp

lemma foldR_map: "foldR f s (map g xs) = foldR (\<lambda>s x. f s (g x)) s xs"
  by (induction xs arbitrary: s) simp_all

lemma foldR_concat: "foldR f s (concat xss) = foldR (foldR f) s xss"
  by (induction xss arbitrary: s) (simp_all add: foldR_append)

text \<open>A loop that only checks.\<close>

lemma foldR_checks_Inr: "foldR (\<lambda>_ x. c x) () xs = Inr () \<longleftrightarrow> (\<forall>x \<in> set xs. c x = Inr ())"
  by (induction xs) (auto simp: bindR_eq_Inr)

lemma foldR_checks_Inl: "foldR (\<lambda>_ x. c x) () xs = Inl e \<Longrightarrow> \<exists>x \<in> set xs. c x = Inl e"
  by (induction xs) (auto simp: bindR_eq_Inl)

lemma ex_list: "(\<exists>xs. P xs) \<longleftrightarrow> P [] \<or> (\<exists>x xs. P (x # xs))"
  by (metis list.exhaust)

lemma foldR_first_error:
  "foldR (\<lambda>_ x. c x) () xs = Inl e \<longleftrightarrow> (\<exists>pre x post. xs = pre @ x # post \<and> (\<forall>y \<in> set pre. c y = Inr ()) \<and> c x = Inl e)"
proof (induction xs)
  case (Cons x xs)
  then show ?case by (subst ex_list) (cases "c x"; auto)
qed simp

text \<open>An error of a loop comes from an iteration.\<close>

lemma foldR_Inl: "foldR f s xs = Inl e \<Longrightarrow> \<exists>s' x. x \<in> set xs \<and> f s' x = Inl e"
  by (induction xs arbitrary: s) (auto simp: bindR_eq_Inl, blast+)

text \<open>Two loop bodies that agree up to one error run alike up to that error.\<close>

lemma foldR_mono:
  assumes "foldR f s xs \<noteq> Inl d" and "\<And>s x. x \<in> set xs \<Longrightarrow> f s x \<noteq> Inl d \<Longrightarrow> f' s x = f s x"
  shows "foldR f' s xs = foldR f s xs"
  using assms
proof (induction xs arbitrary: s)
  case (Cons x xs)
  have x: "f s x \<noteq> Inl d" using Cons.prems(1) by auto
  then have "f' s x = f s x" using Cons.prems(2) by simp
  then show ?case using Cons by (cases "f s x") auto
qed simp

lemma foldR_total:
  assumes "\<And>s x. x \<in> set xs \<Longrightarrow> \<exists>s'. f s x = Inr s'"
  shows "\<exists>s'. foldR f s xs = Inr s'"
  using assms
proof (induction xs arbitrary: s)
  case (Cons x xs)
  then obtain s1 where "f s x = Inr s1" by force
  with Cons show ?case by simp
qed simp

lemma mapR_Inl: "mapR f xs = Inl e \<Longrightarrow> \<exists>x \<in> set xs. f x = Inl e"
  by (induction xs) (auto simp: bindR_eq_Inl)

lemma mapR_eq_Inr: "mapR f xs = Inr ys \<longleftrightarrow> list_all2 (\<lambda>x y. f x = Inr y) xs ys"
proof (induction xs arbitrary: ys)
  case (Cons x xs)
  then show ?case by (cases ys) (auto simp: bindR_eq_Inr)
qed auto

section \<open>Facts on strings\<close>

lemma strip_prefix_Some [str_simps]: "strip_prefix p s = Some r \<longleftrightarrow> s = p @ r"
  by (induction p s rule: strip_prefix.induct) auto

lemma strip_prefix_append [simp]: "strip_prefix p (p @ r) = Some r"
  by (simp add: strip_prefix_Some)

lemma strip_suffix_Some [str_simps]: "strip_suffix p s = Some r \<longleftrightarrow> s = r @ p"
proof
  assume "strip_suffix p s = Some r"
  then show "s = r @ p"
    by (auto simp: strip_suffix_def strip_prefix_Some rev_eq_append_conv)
next
  assume "s = r @ p"
  then show "strip_suffix p s = Some r"
    by (auto simp: strip_suffix_def strip_prefix_Some intro!: exI [of _ "rev r"])
qed

lemma strip_suffix_append [simp]: "strip_suffix p (r @ p) = Some r"
  by (simp add: strip_suffix_Some)

lemma split_once_char:
  assumes "c \<notin> set l"
  shows "split_once [c] (l @ c # r) = Some (l, r)"
  using assms by (induction l) auto

text \<open>Text without the first character of the separator is skipped.\<close>

lemma split_once_skip:
  "a \<notin> set l \<Longrightarrow> split_once (a # sep) (l @ s) = map_option (\<lambda>(x, y). (l @ x, y)) (split_once (a # sep) s)"
  by (induction l) (auto simp: option.map_comp comp_def case_prod_unfold option.map_ident split: option.split)

lemma split_once_here: "split_once (a # sep) ((a # sep) @ r) = Some ([], r)"
  by simp

lemma split_once_join:
  assumes "split_once sep s = Some (l, r)"
  shows "s = l @ sep @ r"
  using assms
proof (induction sep s arbitrary: l r rule: split_once.induct)
  case (2 sep c cs)
  then show ?case
    by (auto simp: strip_prefix_Some split: option.splits)
qed (simp split: if_splits)

lemma digit_char_less [simp]:
  assumes "d < 10"
  shows "is_ascii_digit (digit_char d)" and "digit_val (digit_char d) = d"
  using assms by (simp_all add: is_ascii_digit_def digit_char_def digit_val_def)

lemma show_nat_digits: "list_all is_ascii_digit (show_nat n)"
proof (induction n rule: show_nat.induct)
  case (1 n)
  then show ?case by (cases "n < 10") (simp_all add: show_nat.simps [of n])
qed

lemma show_nat_not_Nil [simp]: "show_nat n \<noteq> []"
  by (subst show_nat.simps) simp

lemma read_digits_snoc: "read_digits (s @ [c]) = 10 * read_digits s + digit_val c"
  by (simp add: read_digits_def)

lemma read_digits_show_nat [simp, str_simps]: "read_digits (show_nat n) = n"
proof (induction n rule: show_nat.induct)
  case (1 n)
  then show ?case
    by (cases "n < 10")
      (simp_all add: show_nat.simps [of n] read_digits_snoc, simp add: read_digits_def)
qed

lemma show_nat_set:
  assumes "c \<in> set (show_nat n)"
  shows "is_ascii_digit c"
  using assms show_nat_digits [of n] by (simp add: list_all_iff)

lemma parse_uint_show_nat [simp, str_simps]:
  assumes "fits bits n"
  shows "parse_uint bits (show_nat n) = Some n"
proof -
  obtain c cs where s: "show_nat n = c # cs" by (cases "show_nat n") simp_all
  have "is_ascii_digit c"
    using show_nat_set [of c n] s by simp
  then have "c \<noteq> CHR ''+''" by (auto simp: is_ascii_digit_def)
  then show ?thesis
    using assms s show_nat_digits [of n] read_digits_show_nat [of n] by (simp add: parse_uint_def)
qed

lemma parse_uint_fits: "parse_uint bits s = Some n \<Longrightarrow> fits bits n"
  by (auto simp: parse_uint_def Let_def split: if_splits)

lemma show_nat_inject [simp]: "show_nat m = show_nat n \<longleftrightarrow> m = n"
proof
  assume "show_nat m = show_nat n"
  then have "read_digits (show_nat m) = read_digits (show_nat n)" by simp
  then show "m = n" by simp
qed simp

lemma trim_id:
  assumes "\<And>c. c \<in> set s \<Longrightarrow> \<not> is_whitespace c"
  shows "trim s = s"
proof -
  have "dropWhile is_whitespace t = t" if "set t \<subseteq> set s" for t
    using that assms by (cases t) auto
  then show ?thesis by (simp add: trim_def)
qed

lemma digit_not_whitespace: "is_ascii_digit c \<Longrightarrow> \<not> is_whitespace c"
  by (auto simp: is_ascii_digit_def is_whitespace_def)

end
