(* ===== verification/Bytes.thy ===== *)
theory Bytes
  imports Prelude
begin

text \<open>
  Byte buffers: little-endian fields of a \<^verbatim>\<open>repr(C)\<close> structure viewed through a pointer cast, the
  sub-slice \<^verbatim>\<open>&buf[off..off + n]\<close>, and \<^verbatim>\<open>copy_from_slice\<close> into a sub-slice.
\<close>

fun le_bytes :: "nat \<Rightarrow> nat \<Rightarrow> byte list" where
  "le_bytes 0 v = []"
| "le_bytes (Suc n) v = of_nat (v mod 256) # le_bytes n (v div 256)"

fun le_val :: "byte list \<Rightarrow> nat" where
  "le_val [] = 0"
| "le_val (b # bs) = unat b + 256 * le_val bs"

definition subslice :: "nat \<Rightarrow> nat \<Rightarrow> byte list \<Rightarrow> byte list" where
  "subslice off n m = take n (drop off m)"

definition blit :: "nat \<Rightarrow> byte list \<Rightarrow> byte list \<Rightarrow> byte list" where
  "blit off src m = take off m @ src @ drop (off + length src) m"

lemma length_le_bytes [simp]: "length (le_bytes n v) = n"
  by (induction n arbitrary: v) auto

lemma le_val_le_bytes: "le_val (le_bytes n v) = v mod 256 ^ n"
proof (induction n arbitrary: v)
  case (Suc n)
  have "unat (of_nat (v mod 256) :: byte) = v mod 256"
    by (simp add: unat_of_nat)
  moreover have "v mod 256 + 256 * (v div 256 mod 256 ^ n) = v mod (256 * 256 ^ n)"
    by (simp add: mod_mult2_eq)
  ultimately show ?case using Suc by simp
qed simp

lemma le_val_less: "le_val bs < 256 ^ length bs"
proof (induction bs)
  case (Cons b bs)
  have "unat b < 2 ^ LENGTH(8)" by (rule unsigned_less)
  with Cons show ?case by simp
qed simp

lemma length_subslice: "off + n \<le> length m \<Longrightarrow> length (subslice off n m) = n"
  by (simp add: subslice_def)

lemma length_blit [simp]: "off + length src \<le> length m \<Longrightarrow> length (blit off src m) = length m"
  by (simp add: blit_def)

lemma nth_subslice: "off + n \<le> length m \<Longrightarrow> i < n \<Longrightarrow> subslice off n m ! i = m ! (off + i)"
  by (simp add: subslice_def)

lemma nth_blit:
  assumes "off + length src \<le> length m" and "i < length m"
  shows "blit off src m ! i =
    (if off \<le> i \<and> i < off + length src then src ! (i - off) else m ! i)"
proof -
  consider "i < off" | "off \<le> i" "i < off + length src" | "off + length src \<le> i" by linarith
  then show ?thesis
  proof cases
    case 3
    then have "\<not> i < off" "\<not> i - off < length src" "off + length src + (i - off - length src) = i"
      by linarith+
    with 3 assms show ?thesis
      by (simp add: blit_def nth_append)
  qed (use assms in \<open>auto simp: blit_def nth_append\<close>)
qed

text \<open>Reading back what was written, and the frame of a write.\<close>

lemma subslice_blit_same [simp]:
  assumes "off + length src \<le> length m"
  shows "subslice off (length src) (blit off src m) = src"
  using assms by (simp add: subslice_def blit_def)

lemma subslice_blit_other:
  assumes "off + length src \<le> length m" and "o' + n \<le> length m"
    and "o' + n \<le> off \<or> off + length src \<le> o'"
  shows "subslice o' n (blit off src m) = subslice o' n m"
proof (rule nth_equalityI)
  show "length (subslice o' n (blit off src m)) = length (subslice o' n m)"
    using assms by (simp add: length_subslice)
next
  fix i
  assume "i < length (subslice o' n (blit off src m))"
  then have i: "i < n" using assms by (simp add: length_subslice)
  have "\<not> (off \<le> o' + i \<and> o' + i < off + length src)"
    using assms(3) i by linarith
  then show "subslice o' n (blit off src m) ! i = subslice o' n m ! i"
    using assms i nth_blit [of off src m "o' + i"] by (simp only: nth_subslice length_blit) auto
qed

lemma le_val_blit_field:
  assumes "off + 8 \<le> length m" and "v < 2 ^ 64"
  shows "le_val (subslice off 8 (blit off (le_bytes 8 v) m)) = v"
proof -
  have "subslice off 8 (blit off (le_bytes 8 v) m) = le_bytes 8 v"
    using subslice_blit_same [of off "le_bytes 8 v" m] assms by simp
  then show ?thesis using assms by (simp add: le_val_le_bytes)
qed

lemma le_val_slice8_less: "le_val (subslice off 8 m) < 2 ^ 64"
proof -
  have "le_val (subslice off 8 m) < 256 ^ length (subslice off 8 m)" by (rule le_val_less)
  also have "\<dots> \<le> 256 ^ 8" by (rule power_increasing) (simp_all add: subslice_def)
  finally show ?thesis by simp
qed

end
