(* ===== verification/Mmap_Segment.thy ===== *)
theory Mmap_Segment
  imports Bytes
begin

text \<open>
  \<^verbatim>\<open>fpga-runtime/frt-shm/src/mmap_segment.rs\<close>: named shared-memory segments.  The file system of
  \<^verbatim>\<open>/dev/shm\<close> is explicit: names point to inodes, an inode holds the bytes, and two handles on one
  inode see the same bytes, which is what \<^verbatim>\<open>MAP_SHARED\<close> promises.  Failures of the operating
  system other than a missing file are not modelled.
\<close>

record shm =
  shm_names :: "string \<Rightarrow> nat option"
  shm_bytes :: "nat \<Rightarrow> byte list"
  shm_next :: nat
  shm_counter :: nat

record MmapSegment =
  seg_path :: string
  seg_inode :: nat
  seg_owner :: bool

datatype os_error = NotFound string

definition safe_char :: "char \<Rightarrow> char" where
  "safe_char c =
     (if is_ascii_alphanumeric c \<or> c = CHR ''_'' \<or> c = CHR ''-'' then c else CHR ''_'')"

definition shm_path :: "string \<Rightarrow> nat \<Rightarrow> nat \<Rightarrow> string" where
  "shm_path name pid nonce =
     ''/dev/shm/tapa_'' @ map safe_char name @ ''_'' @ show_nat pid @ ''_'' @ show_nat nonce"

text \<open>
  \<open>create\<close>: the path takes the next value of the process-wide counter; an existing file is
  truncated in place, and \<^verbatim>\<open>set_len\<close> fills the segment with zeros.
\<close>

definition segment_create :: "nat \<Rightarrow> shm \<Rightarrow> string \<Rightarrow> nat \<Rightarrow> shm \<times> MmapSegment" where
  "segment_create pid s name size_bytes =
     (let p = shm_path name pid (shm_counter s);
          s1 = s\<lparr>shm_counter := wrap 64 (shm_counter s + 1)\<rparr>;
          (i, s2) = (case shm_names s1 p of
                       Some i \<Rightarrow> (i, s1)
                     | None \<Rightarrow> (shm_next s1, s1\<lparr>shm_names := (shm_names s1)(p \<mapsto> shm_next s1),
                                             shm_next := Suc (shm_next s1)\<rparr>))
      in (s2\<lparr>shm_bytes := (shm_bytes s2)(i := replicate size_bytes 0)\<rparr>,
          \<lparr>seg_path = p, seg_inode = i, seg_owner = True\<rparr>))"

definition segment_open :: "shm \<Rightarrow> string \<Rightarrow> os_error + MmapSegment" where
  "segment_open s p =
     (case shm_names s p of
        None \<Rightarrow> Inl (NotFound p)
      | Some i \<Rightarrow> Inr \<lparr>seg_path = p, seg_inode = i, seg_owner = False\<rparr>)"

definition as_slice :: "shm \<Rightarrow> MmapSegment \<Rightarrow> byte list" where
  "as_slice s seg = shm_bytes s (seg_inode seg)"

definition set_slice :: "shm \<Rightarrow> MmapSegment \<Rightarrow> byte list \<Rightarrow> shm" where
  "set_slice s seg m = s\<lparr>shm_bytes := (shm_bytes s)(seg_inode seg := m)\<rparr>"

definition segment_len :: "shm \<Rightarrow> MmapSegment \<Rightarrow> nat" where
  "segment_len s seg = length (as_slice s seg)"

definition segment_write_at :: "shm \<Rightarrow> MmapSegment \<Rightarrow> nat \<Rightarrow> byte list \<Rightarrow> shm" where
  "segment_write_at s seg off src = set_slice s seg (blit off src (as_slice s seg))"

definition segment_drop :: "shm \<Rightarrow> MmapSegment \<Rightarrow> shm" where
  "segment_drop s seg =
     (if seg_owner seg then s\<lparr>shm_names := (shm_names s)(seg_path seg := None)\<rparr> else s)"

section \<open>Facts\<close>

definition shm_ok :: "shm \<Rightarrow> bool" where
  "shm_ok s \<longleftrightarrow> (\<forall>p i. shm_names s p = Some i \<longrightarrow> i < shm_next s)"

lemma as_slice_set [simp]:
  "as_slice (set_slice s seg m) seg' = (if seg_inode seg' = seg_inode seg then m else as_slice s seg')"
  by (simp add: as_slice_def set_slice_def)

lemma shm_names_set_slice [simp]: "shm_names (set_slice s seg m) = shm_names s"
  by (simp add: set_slice_def)

lemma set_slice_as_slice [simp]: "set_slice s seg (as_slice s seg) = s"
  by (simp add: as_slice_def set_slice_def)

lemma set_slice_twice [simp]: "set_slice (set_slice s seg m) seg m' = set_slice s seg m'"
  by (simp add: set_slice_def)

lemma segment_create_slice:
  assumes "segment_create pid s name size_bytes = (s', seg)"
  shows "as_slice s' seg = replicate size_bytes 0" and "shm_names s' (seg_path seg) = Some (seg_inode seg)"
    and "seg_path seg = shm_path name pid (shm_counter s)"
  using assms by (auto simp: segment_create_def as_slice_def Let_def split: option.splits)

lemma digits_after_last_underscore:
  assumes "xs @ CHR ''_'' # show_nat m = ys @ CHR ''_'' # show_nat n"
  shows "m = n"
proof -
  have ns: "CHR ''_'' \<notin> set (show_nat k)" for k
    using show_nat_set [of "CHR ''_''" k] by (auto simp: is_ascii_digit_def)
  have "takeWhile (\<lambda>c. c \<noteq> CHR ''_'') (rev (zs @ CHR ''_'' # show_nat k)) = rev (show_nat k)" for zs k
    using ns [of k] by (subst rev_append) (auto intro!: takeWhile_append2 [THEN trans])
  then have "rev (show_nat m) = rev (show_nat n)"
    using assms by metis
  then show ?thesis by simp
qed

lemma shm_path_nonce:
  assumes "shm_path name pid n = shm_path name' pid' n'"
  shows "n = n'"
  by (rule digits_after_last_underscore
      [of "''/dev/shm/tapa_'' @ map safe_char name @ ''_'' @ show_nat pid" _
          "''/dev/shm/tapa_'' @ map safe_char name' @ ''_'' @ show_nat pid'"])
    (use assms in \<open>simp add: shm_path_def\<close>)

end
