(* ===== verification/Shm_Queue.thy ===== *)
theory Shm_Queue
  imports Mmap_Segment
begin

text \<open>
  \<^verbatim>\<open>fpga-runtime/frt-shm/src/queue.rs\<close>: the single-producer single-consumer token queue that the
  host program and the simulator share.  The model works on the segment's bytes: a 32-byte header
  (magic, version, depth, width, tail, head, little-endian) followed by \<open>depth\<close> slots of \<open>width\<close>
  bytes.  \<open>None\<close> is a panic (a subslice index out of range).
\<close>

section \<open>Data\<close>

record QueueHeader =
  hdr_magic :: "byte list"
  hdr_version :: nat
  hdr_depth :: nat
  hdr_width :: nat
  hdr_tail :: nat
  hdr_head :: nat

record QueueLayout =
  lay_depth :: nat
  lay_width :: nat
  lay_byte_len :: nat

record SharedMemoryQueue =
  q_seg :: MmapSegment
  q_layout :: QueueLayout

datatype io_error_kind = InvalidInput | InvalidData | OsNotFound

text \<open>The reason carries the arguments of the formatted message.\<close>

datatype queue_reason =
    EmptyShape nat nat
  | ShapeTooLarge nat nat
  | FileTooSmall nat
  | UnexpectedMagic "byte list"
  | UnsupportedVersion nat
  | PayloadTooSmall nat nat
  | NoSuchFile string

type_synonym io_error = "io_error_kind \<times> queue_reason"

datatype push_error = QueueFull | SizeMismatch

abbreviation header_size :: nat where
  "header_size \<equiv> 32"

definition tapa_magic :: "byte list" where
  "tapa_magic = [116, 97, 112, 97]"

text \<open>The \<^verbatim>\<open>repr(C)\<close> view of the first 32 bytes.\<close>

definition header_of :: "byte list \<Rightarrow> QueueHeader" where
  "header_of m =
     \<lparr>hdr_magic = subslice 0 4 m, hdr_version = le_val (subslice 4 4 m),
      hdr_depth = le_val (subslice 8 4 m), hdr_width = le_val (subslice 12 4 m),
      hdr_tail = le_val (subslice 16 8 m), hdr_head = le_val (subslice 24 8 m)\<rparr>"

definition load_tail :: "byte list \<Rightarrow> nat" where
  "load_tail m = hdr_tail (header_of m)"

definition load_head :: "byte list \<Rightarrow> nat" where
  "load_head m = hdr_head (header_of m)"

definition store_tail :: "nat \<Rightarrow> byte list \<Rightarrow> byte list" where
  "store_tail v m = blit 16 (le_bytes 8 v) m"

definition store_head :: "nat \<Rightarrow> byte list \<Rightarrow> byte list" where
  "store_head v m = blit 24 (le_bytes 8 v) m"

section \<open>Layout\<close>

definition QueueLayout_new :: "nat \<Rightarrow> nat \<Rightarrow> io_error + QueueLayout" where
  "QueueLayout_new depth width =
     (if depth = 0 \<or> width = 0 then Inl (InvalidInput, EmptyShape depth width)
      else case Option.bind (checked_mul 64 depth width) (\<lambda>len. checked_add 64 len header_size) of
             None \<Rightarrow> Inl (InvalidInput, ShapeTooLarge depth width)
           | Some len \<Rightarrow>
               if fits 63 len
               then Inr \<lparr>lay_depth = depth, lay_width = width, lay_byte_len = len\<rparr>
               else Inl (InvalidInput, ShapeTooLarge depth width))"

definition slot :: "QueueLayout \<Rightarrow> nat \<Rightarrow> nat" where
  "slot l index = header_size + index mod lay_depth l * lay_width l"

definition validate_header :: "byte list \<Rightarrow> io_error + QueueLayout" where
  "validate_header bytes =
     (if length bytes < header_size then Inl (InvalidData, FileTooSmall (length bytes))
      else let hdr = header_of bytes in
        if hdr_magic hdr \<noteq> tapa_magic then Inl (InvalidData, UnexpectedMagic (hdr_magic hdr))
        else if hdr_version hdr \<noteq> 1 then Inl (InvalidData, UnsupportedVersion (hdr_version hdr))
        else bindR (map_err (\<lambda>(_, r). (InvalidData, r)) (QueueLayout_new (hdr_depth hdr) (hdr_width hdr)))
          (\<lambda>layout. if length bytes < lay_byte_len layout
             then Inl (InvalidData, PayloadTooSmall (length bytes) (lay_byte_len layout))
             else Inr layout))"

section \<open>Operations on the shared bytes\<close>

definition mem_is_empty :: "byte list \<Rightarrow> bool" where
  "mem_is_empty m \<longleftrightarrow> load_tail m = load_head m"

definition mem_is_full :: "QueueLayout \<Rightarrow> byte list \<Rightarrow> bool" where
  "mem_is_full l m \<longleftrightarrow> wrapping_sub 64 (load_tail m) (load_head m) \<ge> lay_depth l"

definition mem_push :: "QueueLayout \<Rightarrow> byte list \<Rightarrow> byte list \<Rightarrow>
    (byte list \<times> (push_error + bool)) option" where
  "mem_push l data m =
     (let tail = load_tail m; head = load_head m in
      if wrapping_sub 64 tail head \<ge> lay_depth l then Some (m, Inl QueueFull)
      else if length data \<noteq> lay_width l then Some (m, Inl SizeMismatch)
      else if slot l tail + lay_width l > length m then None
      else let m' = blit (slot l tail) data m; new_tail = wrap 64 (tail + 1)
           in Some (store_tail new_tail m', Inr (wrapping_sub 64 new_tail head \<ge> lay_depth l)))"

text \<open>\<open>read_front\<close>: the buffer after the call and the head index that was read, if any.\<close>

definition mem_read_front :: "QueueLayout \<Rightarrow> byte list \<Rightarrow> byte list \<Rightarrow>
    (byte list \<times> nat option) option" where
  "mem_read_front l m buf =
     (let head = load_head m in
      if load_tail m = head then Some (buf, None)
      else if length buf < lay_width l then Some (buf, None)
      else if slot l head + lay_width l > length m then None
      else Some (blit 0 (subslice (slot l head) (lay_width l) m) buf, Some head))"

definition mem_pop :: "QueueLayout \<Rightarrow> byte list \<Rightarrow> byte list \<Rightarrow>
    (byte list \<times> byte list \<times> bool) option" where
  "mem_pop l m buf =
     (case mem_read_front l m buf of
        None \<Rightarrow> None
      | Some (buf', None) \<Rightarrow> Some (m, buf', False)
      | Some (buf', Some head) \<Rightarrow> Some (store_head (wrap 64 (head + 1)) m, buf', True))"

definition mem_peek :: "QueueLayout \<Rightarrow> byte list \<Rightarrow> byte list \<Rightarrow> (byte list \<times> bool) option" where
  "mem_peek l m buf = map_option (\<lambda>(buf', h). (buf', h \<noteq> None)) (mem_read_front l m buf)"

section \<open>Operations on a handle\<close>

definition queue_create :: "nat \<Rightarrow> shm \<Rightarrow> string \<Rightarrow> nat \<Rightarrow> nat \<Rightarrow> io_error + (shm \<times> SharedMemoryQueue)" where
  "queue_create pid s name depth width =
     bindR (QueueLayout_new depth width) (\<lambda>layout.
       let (s1, seg) = segment_create pid s name (lay_byte_len layout);
           m = as_slice s1 seg;
           m1 = blit 0 tapa_magic m;
           m2 = blit 4 (le_bytes 4 1) m1;
           m3 = blit 8 (le_bytes 4 depth) m2;
           m4 = blit 12 (le_bytes 4 width) m3;
           m5 = store_head 0 (store_tail 0 m4)
       in Inr (set_slice s1 seg m5, \<lparr>q_seg = seg, q_layout = layout\<rparr>))"

definition queue_open :: "shm \<Rightarrow> string \<Rightarrow> io_error + SharedMemoryQueue" where
  "queue_open s path =
     bindR (map_err (\<lambda>e. case e of NotFound p \<Rightarrow> (OsNotFound, NoSuchFile p)) (segment_open s path))
       (\<lambda>seg. bindR (validate_header (as_slice s seg))
          (\<lambda>layout. Inr \<lparr>q_seg = seg, q_layout = layout\<rparr>))"

definition q_mem :: "shm \<Rightarrow> SharedMemoryQueue \<Rightarrow> byte list" where
  "q_mem s q = as_slice s (q_seg q)"

definition head_tail :: "shm \<Rightarrow> SharedMemoryQueue \<Rightarrow> nat \<times> nat" where
  "head_tail s q = (load_head (q_mem s q), load_tail (q_mem s q))"

definition q_is_empty :: "shm \<Rightarrow> SharedMemoryQueue \<Rightarrow> bool" where
  "q_is_empty s q = mem_is_empty (q_mem s q)"

definition is_full :: "shm \<Rightarrow> SharedMemoryQueue \<Rightarrow> bool" where
  "is_full s q = mem_is_full (q_layout q) (q_mem s q)"

definition try_push_check_full :: "shm \<Rightarrow> SharedMemoryQueue \<Rightarrow> byte list \<Rightarrow>
    (shm \<times> (push_error + bool)) option" where
  "try_push_check_full s q data =
     map_option (\<lambda>(m, r). (set_slice s (q_seg q) m, r)) (mem_push (q_layout q) data (q_mem s q))"

definition try_push :: "shm \<Rightarrow> SharedMemoryQueue \<Rightarrow> byte list \<Rightarrow> (shm \<times> (push_error + unit)) option" where
  "try_push s q data =
     map_option (\<lambda>(s', r). (s', bindR r (\<lambda>_. Inr ()))) (try_push_check_full s q data)"

definition pop_into :: "shm \<Rightarrow> SharedMemoryQueue \<Rightarrow> byte list \<Rightarrow> (shm \<times> byte list \<times> bool) option" where
  "pop_into s q buf =
     map_option (\<lambda>(m, buf', r). (set_slice s (q_seg q) m, buf', r)) (mem_pop (q_layout q) (q_mem s q) buf)"

definition peek_into :: "shm \<Rightarrow> SharedMemoryQueue \<Rightarrow> byte list \<Rightarrow> (byte list \<times> bool) option" where
  "peek_into s q buf = mem_peek (q_layout q) (q_mem s q) buf"

section \<open>Invariant and abstraction\<close>

definition layout_ok :: "QueueLayout \<Rightarrow> bool" where
  "layout_ok l \<longleftrightarrow> 0 < lay_depth l \<and> lay_depth l < 2 ^ 32 \<and> 0 < lay_width l \<and> lay_width l < 2 ^ 32 \<and>
     lay_byte_len l = lay_depth l * lay_width l + header_size"

definition mem_ok :: "QueueLayout \<Rightarrow> byte list \<Rightarrow> bool" where
  "mem_ok l m \<longleftrightarrow> layout_ok l \<and> lay_byte_len l \<le> length m \<and>
     load_head m \<le> load_tail m \<and> load_tail m - load_head m \<le> lay_depth l"

text \<open>The queue a segment holds: the tokens from head to tail.\<close>

definition token :: "QueueLayout \<Rightarrow> byte list \<Rightarrow> nat \<Rightarrow> byte list" where
  "token l m i = subslice (slot l i) (lay_width l) m"

definition mem_tokens :: "QueueLayout \<Rightarrow> byte list \<Rightarrow> byte list list" where
  "mem_tokens l m = map (token l m) [load_head m..<load_tail m]"

section \<open>Counters\<close>

lemma load_less: "load_tail m < 2 ^ 64" "load_head m < 2 ^ 64"
  unfolding load_tail_def load_head_def header_of_def QueueHeader.simps
  by (rule le_val_slice8_less)+

lemma load_fits [simp]: "fits 64 (load_tail m)" "fits 64 (load_head m)"
  using load_less by (simp_all add: fits_def)

lemma length_store [simp]:
  "32 \<le> length m \<Longrightarrow> length (store_tail v m) = length m"
  "32 \<le> length m \<Longrightarrow> length (store_head v m) = length m"
  by (simp_all add: store_tail_def store_head_def)

lemma load_store [simp]:
  assumes "32 \<le> length m" and "fits 64 v"
  shows "load_tail (store_tail v m) = v" "load_head (store_head v m) = v"
    "load_head (store_tail v m) = load_head m" "load_tail (store_head v m) = load_tail m"
  using assms
  by (simp_all add: load_tail_def load_head_def store_tail_def store_head_def header_of_def
      le_val_blit_field subslice_blit_other fits_def)

lemma layout_okD:
  assumes "layout_ok l"
  shows "0 < lay_depth l" "0 < lay_width l" "32 \<le> lay_byte_len l"
    "slot l i + lay_width l \<le> lay_byte_len l" "32 \<le> slot l i"
proof -
  show d: "0 < lay_depth l" and w: "0 < lay_width l" and "32 \<le> lay_byte_len l"
    using assms by (auto simp: layout_ok_def)
  have "i mod lay_depth l + 1 \<le> lay_depth l" using d by (simp add: Suc_leI)
  then have "(i mod lay_depth l + 1) * lay_width l \<le> lay_depth l * lay_width l"
    by (rule mult_right_mono) simp
  then show "slot l i + lay_width l \<le> lay_byte_len l"
    using assms by (simp add: slot_def layout_ok_def algebra_simps)
  show "32 \<le> slot l i" by (simp add: slot_def)
qed

text \<open>Two slots of one round of the ring do not overlap.\<close>

lemma slots_disjoint:
  assumes "i mod lay_depth l \<noteq> j mod lay_depth l"
  shows "slot l i + lay_width l \<le> slot l j \<or> slot l j + lay_width l \<le> slot l i"
proof -
  have *: "a * w + w \<le> b * w" if "a < b" for a b w :: nat
  proof -
    have "(a + 1) * w \<le> b * w" using that by (intro mult_right_mono) simp_all
    then show ?thesis by (simp add: algebra_simps)
  qed
  show ?thesis
    using * [of "i mod lay_depth l" "j mod lay_depth l" "lay_width l"]
      * [of "j mod lay_depth l" "i mod lay_depth l" "lay_width l"] assms
    by (auto simp: slot_def nat_neq_iff)
qed

lemma mod_neq_in_window:
  fixes i j d :: nat
  assumes "i < j" and "j < i + d"
  shows "i mod d \<noteq> j mod d"
proof
  assume "i mod d = j mod d"
  then have "d dvd (j - i)" using assms(1) mod_eq_dvd_iff_nat [of i j d] by simp
  then show False using assms by (auto dest: dvd_imp_le)
qed

lemma token_store [simp]:
  assumes "layout_ok l" and "lay_byte_len l \<le> length m"
  shows "token l (store_tail v m) i = token l m i" "token l (store_head v m) i = token l m i"
proof -
  note lo = layout_okD(1-3) [OF assms(1)] layout_okD(4,5) [OF assms(1), of i]
  show "token l (store_tail v m) i = token l m i" "token l (store_head v m) i = token l m i"
    using lo assms(2) unfolding token_def store_tail_def store_head_def
    by (intro subslice_blit_other; simp)+
qed

lemma load_blit_payload:
  assumes "32 \<le> off" and "off + length src \<le> length m"
  shows "load_tail (blit off src m) = load_tail m" "load_head (blit off src m) = load_head m"
  using assms
  by (simp_all add: load_tail_def load_head_def header_of_def subslice_blit_other)

lemma token_blit_other:
  assumes "layout_ok l" and "lay_byte_len l \<le> length m" and "length src \<le> lay_width l - k"
    and "k \<le> lay_width l" and "i mod lay_depth l \<noteq> j mod lay_depth l"
  shows "token l (blit (slot l j + k) src m) i = token l m i"
proof -
  note i = layout_okD(4,5) [OF assms(1), of i] and j = layout_okD(4,5) [OF assms(1), of j]
  show ?thesis
    unfolding token_def
    by (rule subslice_blit_other)
      (use i j assms slots_disjoint [OF assms(5)] in linarith)+
qed

section \<open>The queue the bytes implement\<close>

lemma length_mem_tokens [simp]: "length (mem_tokens l m) = load_tail m - load_head m"
  by (simp add: mem_tokens_def)

lemma full_iff:
  assumes "mem_ok l m"
  shows "lay_depth l \<le> wrapping_sub 64 (load_tail m) (load_head m) \<longleftrightarrow>
    length (mem_tokens l m) = lay_depth l"
  using assms by (auto simp: mem_ok_def wrapping_sub_eq)

lemma mem_push_full:
  assumes "mem_ok l m" and "length (mem_tokens l m) = lay_depth l"
  shows "mem_push l data m = Some (m, Inl QueueFull)"
  using assms full_iff [OF assms(1)] by (simp add: mem_push_def Let_def)

lemma mem_push_mismatch:
  assumes "mem_ok l m" and "length (mem_tokens l m) < lay_depth l" and "length data \<noteq> lay_width l"
  shows "mem_push l data m = Some (m, Inl SizeMismatch)"
  using assms full_iff [OF assms(1)] by (simp add: mem_push_def Let_def)

lemma mem_push_accept:
  assumes ok: "mem_ok l m" and room: "length (mem_tokens l m) < lay_depth l"
    and len: "length data = lay_width l" and cnt: "load_tail m + 1 < 2 ^ 64"
  obtains m' where
    "mem_push l data m = Some (m', Inr (length (mem_tokens l m') = lay_depth l))"
    "mem_ok l m'" "mem_tokens l m' = mem_tokens l m @ [data]"
    "load_head m' = load_head m" "load_tail m' = load_tail m + 1" "length m' = length m"
proof -
  let ?t = "load_tail m" and ?h = "load_head m"
  let ?m1 = "blit (slot l ?t) data m"
  let ?m' = "store_tail (Suc ?t) ?m1"
  from ok have lo: "layout_ok l" and bl: "lay_byte_len l \<le> length m" and ht: "?h \<le> ?t"
    and d: "?t - ?h \<le> lay_depth l" by (simp_all add: mem_ok_def)
  note slot_b = layout_okD [OF lo]
  have in1: "slot l ?t + lay_width l \<le> length m" using slot_b(4) [of ?t] bl by linarith
  have len1: "length ?m1 = length m" using in1 len by simp
  have big: "32 \<le> length m" using slot_b(3) bl by linarith
  have f: "fits 64 (Suc ?t)" using cnt by (simp add: fits_def)
  have load1: "load_tail ?m1 = ?t" "load_head ?m1 = ?h"
    using load_blit_payload [of "slot l ?t" data m] in1 len slot_b(5) by simp_all
  have load': "load_tail ?m' = Suc ?t" "load_head ?m' = ?h"
    using big len1 f load1 by simp_all
  have tok_old: "token l ?m' i = token l m i" if "i \<in> set [?h..<?t]" for i
  proof -
    have "i mod lay_depth l \<noteq> ?t mod lay_depth l"
      using that room by (intro mod_neq_in_window) auto
    then have "token l ?m1 i = token l m i"
      using token_blit_other [OF lo bl, where k = 0 and src = data] len by simp
    then show ?thesis using lo bl len1 by simp
  qed
  have tok_new: "token l ?m' ?t = data"
    using token_store(1) [OF lo, of ?m1] bl len1 subslice_blit_same [of "slot l ?t" data m] in1 len
    by (simp add: token_def)
  have toks: "mem_tokens l ?m' = mem_tokens l m @ [data]"
    using tok_old tok_new ht by (simp add: mem_tokens_def load')
  have ok': "mem_ok l ?m'"
    using lo bl len1 big ht room by (simp add: mem_ok_def load')
  have "mem_push l data m = Some (?m', Inr (lay_depth l \<le> wrapping_sub 64 (Suc ?t) ?h))"
    using room full_iff [OF ok] len in1 f by (simp add: mem_push_def Let_def)
  moreover have "(lay_depth l \<le> wrapping_sub 64 (Suc ?t) ?h) = (length (mem_tokens l ?m') = lay_depth l)"
    using full_iff [OF ok'] by (simp only: load')
  ultimately show ?thesis
    using that ok' toks load' len1 big by simp
qed

lemma mem_read_front_eq:
  assumes ok: "mem_ok l m"
  shows "mem_read_front l m buf =
    (if mem_tokens l m = [] \<or> length buf < lay_width l then Some (buf, None)
     else Some (hd (mem_tokens l m) @ drop (lay_width l) buf, Some (load_head m)))"
proof (cases "mem_tokens l m = []")
  case True
  then have "load_tail m = load_head m" using ok by (auto simp: mem_tokens_def mem_ok_def)
  with True show ?thesis by (simp add: mem_read_front_def Let_def)
next
  case False
  then have lt: "load_head m < load_tail m" using ok by (simp add: mem_tokens_def)
  from ok have lo: "layout_ok l" and bl: "lay_byte_len l \<le> length m" by (simp_all add: mem_ok_def)
  have in1: "slot l (load_head m) + lay_width l \<le> length m"
    using layout_okD(4) [OF lo, of "load_head m"] bl by linarith
  have "hd (mem_tokens l m) = token l m (load_head m)"
    using lt by (simp add: mem_tokens_def upt_conv_Cons)
  moreover have "blit 0 (token l m (load_head m)) buf = token l m (load_head m) @ drop (lay_width l) buf"
    using in1 by (simp add: blit_def token_def length_subslice)
  ultimately show ?thesis
    using False lt in1 by (simp add: mem_read_front_def Let_def token_def)
qed

lemma mem_pop_empty:
  assumes "mem_ok l m" and "mem_tokens l m = [] \<or> length buf < lay_width l"
  shows "mem_pop l m buf = Some (m, buf, False)"
  using assms mem_read_front_eq [OF assms(1), of buf] by (simp add: mem_pop_def)

lemma mem_pop_accept:
  assumes ok: "mem_ok l m" and ne: "mem_tokens l m \<noteq> []" and len: "lay_width l \<le> length buf"
  obtains m' where
    "mem_pop l m buf = Some (m', hd (mem_tokens l m) @ drop (lay_width l) buf, True)"
    "mem_ok l m'" "mem_tokens l m' = tl (mem_tokens l m)"
    "load_tail m' = load_tail m" "load_head m' = load_head m + 1" "length m' = length m"
proof -
  let ?h = "load_head m" and ?m' = "store_head (load_head m + 1) m"
  from ok have lo: "layout_ok l" and bl: "lay_byte_len l \<le> length m" by (simp_all add: mem_ok_def)
  have lt: "?h < load_tail m" using ok ne by (simp add: mem_tokens_def)
  have f: "fits 64 (?h + 1)" using lt load_less(1) [of m] by (simp add: fits_def)
  have big: "32 \<le> length m" using layout_okD(3) [OF lo] bl by linarith
  have "mem_tokens l ?m' = tl (mem_tokens l m)"
    using lo bl big f by (simp add: mem_tokens_def map_tl [symmetric])
  moreover have "mem_ok l ?m'"
    using ok big f lt by (auto simp: mem_ok_def)
  moreover have "mem_pop l m buf = Some (?m', hd (mem_tokens l m) @ drop (lay_width l) buf, True)"
    using mem_read_front_eq [OF ok, of buf] ne len f by (simp add: mem_pop_def)
  ultimately show ?thesis
    using that big f by simp
qed

end
