(* ===== verification/Queue_Contract.thy ===== *)
theory Queue_Contract
  imports Shm_Queue
begin

text \<open>
  What the layers above \<^verbatim>\<open>SharedMemoryQueue\<close> rely on, as the locale \<open>bounded_queue\<close>: a first-in
  first-out list of tokens of bounded length, with a counter that must not run over.  The locale is
  interpreted on the byte-level operations; runs of any length follow once, from the contract.
\<close>

datatype 'a queue_op = Push 'a | Pop

record 'a queue_log =
  log_accepted :: "'a list"
  log_popped :: "'a list"

text \<open>Running a sequence of calls; a panic stops the run.\<close>

fun run_ops :: "('a \<Rightarrow> 'm \<Rightarrow> ('m \<times> (push_error + bool)) option) \<Rightarrow> ('m \<Rightarrow> ('m \<times> 'a option) option) \<Rightarrow>
    'm \<Rightarrow> 'a queue_log \<Rightarrow> 'a queue_op list \<Rightarrow> ('m \<times> 'a queue_log) option" where
  "run_ops push pop m g [] = Some (m, g)"
| "run_ops push pop m g (Push x # ops) =
     (case push x m of
        None \<Rightarrow> None
      | Some (m', Inl e) \<Rightarrow> run_ops push pop m' g ops
      | Some (m', Inr b) \<Rightarrow> run_ops push pop m' (g\<lparr>log_accepted := log_accepted g @ [x]\<rparr>) ops)"
| "run_ops push pop m g (Pop # ops) =
     (case pop m of
        None \<Rightarrow> None
      | Some (m', None) \<Rightarrow> run_ops push pop m' g ops
      | Some (m', Some x) \<Rightarrow> run_ops push pop m' (g\<lparr>log_popped := log_popped g @ [x]\<rparr>) ops)"

locale bounded_queue =
  fixes push :: "'a \<Rightarrow> 'm \<Rightarrow> ('m \<times> (push_error + bool)) option"
    and pop :: "'m \<Rightarrow> ('m \<times> 'a option) option"
    and toks :: "'m \<Rightarrow> 'a list"
    and ok :: "'m \<Rightarrow> bool"
    and valid :: "'a \<Rightarrow> bool"
    and cap :: nat
    and ctr :: "'m \<Rightarrow> nat"
    and lim :: nat
  assumes bounded: "ok m \<Longrightarrow> length (toks m) \<le> cap"
    and push_full: "ok m \<Longrightarrow> length (toks m) = cap \<Longrightarrow> push x m = Some (m, Inl QueueFull)"
    and push_invalid: "ok m \<Longrightarrow> length (toks m) < cap \<Longrightarrow> \<not> valid x \<Longrightarrow>
          push x m = Some (m, Inl SizeMismatch)"
    and push_valid: "ok m \<Longrightarrow> length (toks m) < cap \<Longrightarrow> valid x \<Longrightarrow> ctr m + 1 < lim \<Longrightarrow>
          \<exists>m'. push x m = Some (m', Inr (length (toks m') = cap)) \<and> ok m' \<and>
            toks m' = toks m @ [x] \<and> ctr m' = ctr m + 1"
    and pop_empty: "ok m \<Longrightarrow> toks m = [] \<Longrightarrow> pop m = Some (m, None)"
    and pop_nonempty: "ok m \<Longrightarrow> toks m \<noteq> [] \<Longrightarrow>
          \<exists>m'. pop m = Some (m', Some (hd (toks m))) \<and> ok m' \<and> toks m' = tl (toks m) \<and> ctr m' = ctr m"
begin

lemma push_cases:
  assumes "ok m" and "ctr m + 1 < lim"
  obtains (rejected) e where "push x m = Some (m, Inl e)"
  | (accepted) m' b where "push x m = Some (m', Inr b)" "valid x" "ok m'" "toks m' = toks m @ [x]"
      "ctr m' = ctr m + 1"
  using assms bounded [OF assms(1)] push_full [OF assms(1)] push_invalid [OF assms(1)]
    push_valid [OF assms(1) _ _ assms(2)] by (metis le_neq_implies_less)

lemma pop_cases:
  assumes "ok m"
  obtains (empty) "pop m = Some (m, None)" "toks m = []"
  | (popped) m' x where "pop m = Some (m', Some x)" "ok m'" "toks m = x # toks m'" "ctr m' = ctr m"
  using assms pop_empty pop_nonempty by (metis list.collapse)

text \<open>Every run ends without a panic, and what was accepted is what was popped and what is left.\<close>

lemma run_fifo:
  assumes "ok m" and "ctr m + length ops < lim" and "log_accepted g = log_popped g @ toks m"
  shows "\<exists>m' g'. run_ops push pop m g ops = Some (m', g') \<and> ok m' \<and>
    log_accepted g' = log_popped g' @ toks m'"
  using assms
proof (induction ops arbitrary: m g)
  case (Cons a ops)
  show ?case
  proof (cases a)
    case (Push x)
    from Cons.prems have lim: "ctr m + 1 < lim" by simp
    from Cons.prems(1) lim show ?thesis
    proof (cases rule: push_cases [where x = x])
      case (rejected e)
      then show ?thesis using Push Cons.IH [of m g] Cons.prems by simp
    next
      case (accepted m' b)
      then show ?thesis
        using Push Cons.IH [of m' "g\<lparr>log_accepted := log_accepted g @ [x]\<rparr>"] Cons.prems by simp
    qed
  next
    case Pop
    from Cons.prems(1) show ?thesis
    proof (cases rule: pop_cases)
      case empty
      then show ?thesis using Pop Cons.IH [of m g] Cons.prems by simp
    next
      case (popped m' x)
      then show ?thesis
        using Pop Cons.IH [of m' "g\<lparr>log_popped := log_popped g @ [x]\<rparr>"] Cons.prems by simp
    qed
  qed
qed simp

end

section \<open>The shared-memory queue meets the contract\<close>

text \<open>\<open>pop_into\<close> called with a zeroed buffer of the queue's width.\<close>

definition mem_pop_token :: "QueueLayout \<Rightarrow> byte list \<Rightarrow> (byte list \<times> byte list option) option" where
  "mem_pop_token l m =
     map_option (\<lambda>(m', buf, b). (m', if b then Some buf else None))
       (mem_pop l m (replicate (lay_width l) 0))"

interpretation sq: bounded_queue
  "mem_push l" "mem_pop_token l" "mem_tokens l" "mem_ok l" "\<lambda>x. length x = lay_width l"
  "lay_depth l" load_tail "2 ^ 64" for l
proof unfold_locales
  fix m :: "byte list"
  assume "mem_ok l m"
  then show "length (mem_tokens l m) \<le> lay_depth l" by (simp add: mem_ok_def)
next
  fix m x :: "byte list"
  assume "mem_ok l m" "length (mem_tokens l m) < lay_depth l" "length x = lay_width l"
    "load_tail m + 1 < 2 ^ 64"
  from mem_push_accept [OF this]
  show "\<exists>m'. mem_push l x m = Some (m', Inr (length (mem_tokens l m') = lay_depth l)) \<and> mem_ok l m' \<and>
      mem_tokens l m' = mem_tokens l m @ [x] \<and> load_tail m' = load_tail m + 1"
    by metis
next
  fix m
  assume "mem_ok l m" "mem_tokens l m = []"
  then show "mem_pop_token l m = Some (m, None)"
    by (simp add: mem_pop_token_def mem_pop_empty)
next
  fix m
  assume a: "mem_ok l m" "mem_tokens l m \<noteq> []"
  have "lay_width l \<le> length (replicate (lay_width l) (0 :: byte))" by simp
  from mem_pop_accept [OF a this]
  obtain m' where "mem_pop l m (replicate (lay_width l) 0) = Some (m', hd (mem_tokens l m), True)"
    "mem_ok l m'" "mem_tokens l m' = tl (mem_tokens l m)" "load_tail m' = load_tail m"
    by (metis append_Nil2 drop_replicate diff_self_eq_0 replicate_0)
  then show "\<exists>m'. mem_pop_token l m = Some (m', Some (hd (mem_tokens l m))) \<and> mem_ok l m' \<and>
      mem_tokens l m' = tl (mem_tokens l m) \<and> load_tail m' = load_tail m"
    by (simp add: mem_pop_token_def)
qed (simp_all add: mem_push_full mem_push_mismatch)

section \<open>Creating and opening\<close>

lemma QueueLayout_new_ok:
  assumes "QueueLayout_new depth width = Inr l" and "depth < 2 ^ 32" and "width < 2 ^ 32"
  shows "layout_ok l" "lay_depth l = depth" "lay_width l = width"
  using assms
  by (auto simp: QueueLayout_new_def layout_ok_def checked_mul_Some checked_add_Some bind_eq_Some_conv
      split: if_splits option.splits)

lemma le_val_bytes4: "v < 2 ^ 32 \<Longrightarrow> le_val (le_bytes 4 v) = v"
  by (simp add: le_val_le_bytes)

text \<open>The bytes \<open>queue_create\<close> leaves in a fresh segment of \<open>n\<close> bytes.\<close>

lemma created_header:
  assumes "32 \<le> n" and "depth < 2 ^ 32" and "width < 2 ^ 32"
  defines "m \<equiv> store_head 0 (store_tail 0 (blit 12 (le_bytes 4 width) (blit 8 (le_bytes 4 depth)
      (blit 4 (le_bytes 4 1) (blit 0 tapa_magic (replicate n 0))))))"
  shows "length m = n"
    and "header_of m = \<lparr>hdr_magic = tapa_magic, hdr_version = 1, hdr_depth = depth, hdr_width = width,
      hdr_tail = 0, hdr_head = 0\<rparr>"
proof -
  have l0: "length tapa_magic = 4" by (simp add: tapa_magic_def)
  let ?m1 = "blit 0 tapa_magic (replicate n 0)"
  let ?m2 = "blit 4 (le_bytes 4 1) ?m1"
  let ?m3 = "blit 8 (le_bytes 4 depth) ?m2"
  let ?m4 = "blit 12 (le_bytes 4 width) ?m3"
  have len: "length ?m1 = n" "length ?m2 = n" "length ?m3 = n" "length ?m4 = n"
    using assms(1) l0 by simp_all
  then show "length m = n" using assms(1) by (simp add: m_def)
  have four: "subslice off 4 (blit off (le_bytes 4 v) x) = le_bytes 4 v"
    if "off + 4 \<le> length x" for off v x
    using subslice_blit_same [of off "le_bytes 4 v" x] that by simp
  have "subslice 0 4 m = tapa_magic"
    using len assms(1) l0 subslice_blit_same [of 0 tapa_magic "replicate n 0"]
    by (simp add: m_def store_head_def store_tail_def subslice_blit_other)
  moreover have "le_val (subslice 4 4 m) = 1"
    using len assms(1)
    by (simp add: m_def store_head_def store_tail_def subslice_blit_other four le_val_bytes4)
  moreover have "le_val (subslice 8 4 m) = depth"
    using len assms(1,2)
    by (simp add: m_def store_head_def store_tail_def subslice_blit_other four le_val_bytes4)
  moreover have "le_val (subslice 12 4 m) = width"
    using len assms(1,3)
    by (simp add: m_def store_head_def store_tail_def subslice_blit_other four le_val_bytes4)
  moreover have "load_tail m = 0" "load_head m = 0"
    using len assms(1) by (simp_all add: m_def fits_def)
  ultimately show "header_of m = \<lparr>hdr_magic = tapa_magic, hdr_version = 1, hdr_depth = depth,
      hdr_width = width, hdr_tail = 0, hdr_head = 0\<rparr>"
    by (simp add: header_of_def load_tail_def load_head_def)
qed

text \<open>C3: Any sequence of pushes and pops on a well-formed queue segment runs without a panic, keeps the
  segment well-formed, and is first-in first-out: the tokens accepted so far are the tokens popped so
  far followed by the tokens the bytes still hold.  The 64-bit tail must not run over, which takes
  \<open>2 ^ 64\<close> pushes.\<close>

theorem queue_fifo:
  assumes "mem_ok l m" and "load_tail m + length ops < 2 ^ 64"
  shows "\<exists>m' g. run_ops (mem_push l) (mem_pop_token l) m \<lparr>log_accepted = mem_tokens l m, log_popped = []\<rparr> ops
      = Some (m', g) \<and> mem_ok l m' \<and> log_accepted g = log_popped g @ mem_tokens l m'"
  using sq.run_fifo [OF assms] by simp

definition demo_layout :: QueueLayout where
  "demo_layout = \<lparr>lay_depth = 2, lay_width = 1, lay_byte_len = 34\<rparr>"

definition demo_mem :: "byte list" where
  "demo_mem = [116, 97, 112, 97, 1, 0, 0, 0, 2, 0, 0, 0, 1, 0, 0, 0,
     0, 0, 0, 0, 0, 0, 0, 0, 0, 0, 0, 0, 0, 0, 0, 0, 0, 0]"

lemma demo_header: "header_of demo_mem =
  \<lparr>hdr_magic = tapa_magic, hdr_version = 1, hdr_depth = 2, hdr_width = 1, hdr_tail = 0, hdr_head = 0\<rparr>"
  by (simp add: header_of_def demo_mem_def subslice_def tapa_magic_def)

lemma demo_length: "length demo_mem = 34"
  by (simp add: demo_mem_def)

lemma demo_ok: "mem_ok demo_layout demo_mem" "mem_tokens demo_layout demo_mem = []"
  "load_tail demo_mem = 0" "load_head demo_mem = 0" "validate_header demo_mem = Inr demo_layout"
  by (simp_all add: demo_layout_def mem_ok_def layout_ok_def mem_tokens_def load_tail_def demo_header
      demo_length load_head_def validate_header_def QueueLayout_new_def checked_mul_def checked_add_def
      fits_def)

theorem queue_fifo_witness:
  "mem_ok demo_layout demo_mem \<and>
   (\<exists>m' g. run_ops (mem_push demo_layout) (mem_pop_token demo_layout) demo_mem
       \<lparr>log_accepted = mem_tokens demo_layout demo_mem, log_popped = []\<rparr> [Push [7], Push [8], Push [9], Pop]
     = Some (m', g) \<and> mem_ok demo_layout m' \<and> log_accepted g = log_popped g @ mem_tokens demo_layout m')"
  using queue_fifo [OF demo_ok(1), of "[Push [7], Push [8], Push [9], Pop]"] demo_ok by simp

text \<open>C7: A queue that was created can be opened by its path: the second handle has the same layout and
  maps the same bytes, and the queue is well-formed and empty.\<close>

theorem queue_create_open:
  assumes "queue_create pid s name depth width = Inr (s', q)" and "depth < 2 ^ 32" and "width < 2 ^ 32"
  shows "\<exists>q'. queue_open s' (seg_path (q_seg q)) = Inr q' \<and> q_layout q' = q_layout q \<and>
    lay_depth (q_layout q) = depth \<and> lay_width (q_layout q) = width \<and>
    seg_inode (q_seg q') = seg_inode (q_seg q) \<and>
    mem_ok (q_layout q') (q_mem s' q') \<and> mem_tokens (q_layout q') (q_mem s' q') = []"
proof -
  from assms(1) obtain layout where lay: "QueueLayout_new depth width = Inr layout"
    by (auto simp: queue_create_def bindR_eq_Inr)
  obtain s1 seg where seg: "segment_create pid s name (lay_byte_len layout) = (s1, seg)" by force
  have q: "q = \<lparr>q_seg = seg, q_layout = layout\<rparr>" and s': "s' = set_slice s1 seg
      (store_head 0 (store_tail 0 (blit 12 (le_bytes 4 width) (blit 8 (le_bytes 4 depth)
        (blit 4 (le_bytes 4 1) (blit 0 tapa_magic (as_slice s1 seg)))))))"
    using assms(1) lay seg by (simp_all add: queue_create_def Let_def)
  note lo = QueueLayout_new_ok [OF lay assms(2,3)]
  have big: "32 \<le> lay_byte_len layout" using layout_okD(3) [OF lo(1)] .
  note hd = created_header [OF big assms(2,3)]
  let ?q' = "\<lparr>q_seg = \<lparr>seg_path = seg_path seg, seg_inode = seg_inode seg, seg_owner = False\<rparr>,
    q_layout = layout\<rparr>"
  have opened: "segment_open s' (seg_path seg) = Inr (q_seg ?q')"
    using segment_create_slice(2) [OF seg] by (simp add: segment_open_def s')
  have bytes: "q_mem s' ?q' = store_head 0 (store_tail 0 (blit 12 (le_bytes 4 width)
      (blit 8 (le_bytes 4 depth) (blit 4 (le_bytes 4 1) (blit 0 tapa_magic
        (replicate (lay_byte_len layout) 0))))))"
    using segment_create_slice(1) [OF seg] by (simp add: q_mem_def s')
  have valid: "validate_header (q_mem s' ?q') = Inr layout"
    unfolding validate_header_def bytes hd using big lay by (simp add: map_err_def)
  have zero: "load_tail (q_mem s' ?q') = 0" "load_head (q_mem s' ?q') = 0"
    unfolding load_tail_def load_head_def bytes hd by simp_all
  have "length (q_mem s' ?q') = lay_byte_len layout" unfolding bytes by (rule hd(1))
  then have "mem_ok layout (q_mem s' ?q')" using lo(1) zero by (simp add: mem_ok_def)
  moreover have "mem_tokens layout (q_mem s' ?q') = []" by (simp add: mem_tokens_def zero)
  moreover have "queue_open s' (seg_path seg) = Inr ?q'"
    using opened valid by (simp add: queue_open_def q_mem_def map_err_def)
  ultimately show ?thesis using lo(2,3) by (intro exI [of _ ?q']) (simp add: q)
qed

definition demo_shm :: shm where
  "demo_shm = \<lparr>shm_names = (\<lambda>_. None), shm_bytes = (\<lambda>_. []), shm_next = 0, shm_counter = 0\<rparr>"

lemma demo_create: "\<exists>s' q. queue_create 1 demo_shm ''s'' 2 1 = Inr (s', q)"
  by (simp add: queue_create_def QueueLayout_new_def checked_mul_def checked_add_def fits_def Let_def
      split: prod.splits)

theorem queue_create_open_witness:
  "\<exists>s' q q'. queue_create 1 demo_shm ''s'' 2 1 = Inr (s', q) \<and> queue_open s' (seg_path (q_seg q)) = Inr q' \<and>
     seg_inode (q_seg q') = seg_inode (q_seg q) \<and> mem_tokens (q_layout q') (q_mem s' q') = []"
proof -
  obtain s' q where c: "queue_create 1 demo_shm ''s'' 2 1 = Inr (s', q)" using demo_create by blast
  show ?thesis using c queue_create_open [OF c] by auto
qed

text \<open>C11: A shape is accepted exactly when depth and width are positive and the file stays below the
  largest \<open>isize\<close>; for an accepted shape every slot lies in the payload, whatever the counter.\<close>

theorem queue_layout_bounds:
  assumes "depth < 2 ^ 32" and "width < 2 ^ 32"
  shows "((\<exists>l. QueueLayout_new depth width = Inr l) \<longleftrightarrow>
      0 < depth \<and> 0 < width \<and> depth * width + 32 < 2 ^ 63) \<and>
    (\<forall>l index. QueueLayout_new depth width = Inr l \<longrightarrow>
      header_size \<le> slot l index \<and> slot l index + lay_width l \<le> lay_byte_len l)"
proof -
  have "depth * width \<le> (2 ^ 32 - 1) * (2 ^ 32 - 1)" using assms by (intro mult_mono) auto
  then have "depth * width + 32 < 2 ^ 64" by simp
  then have "(\<exists>l. QueueLayout_new depth width = Inr l) \<longleftrightarrow>
      0 < depth \<and> 0 < width \<and> depth * width + 32 < 2 ^ 63"
    by (auto simp: QueueLayout_new_def checked_mul_def checked_add_def fits_def)
  moreover have "header_size \<le> slot l index \<and> slot l index + lay_width l \<le> lay_byte_len l"
    if "QueueLayout_new depth width = Inr l" for l index
    using layout_okD(4,5) [OF QueueLayout_new_ok(1) [OF that assms]] by blast
  ultimately show ?thesis by blast
qed

theorem queue_layout_bounds_witness:
  "(\<exists>l. QueueLayout_new 2 1 = Inr l) \<and> slot demo_layout 5 + lay_width demo_layout \<le> lay_byte_len demo_layout"
  using queue_layout_bounds [of 2 1]
  by (simp add: QueueLayout_new_def checked_mul_def checked_add_def fits_def demo_layout_def)

section \<open>Opening a file of any content\<close>

lemma validate_header_ok:
  assumes "validate_header m = Inr l"
  shows "layout_ok l" "lay_byte_len l \<le> length m"
proof -
  have lt: "hdr_depth (header_of m) < 2 ^ 32" "hdr_width (header_of m) < 2 ^ 32"
    using le_val_less [of "subslice 8 4 m"] le_val_less [of "subslice 12 4 m"]
      power_increasing [of "length (subslice 8 4 m)" 4 "256 :: nat"]
      power_increasing [of "length (subslice 12 4 m)" 4 "256 :: nat"]
    by (simp_all add: header_of_def subslice_def)
  from assms have new: "QueueLayout_new (hdr_depth (header_of m)) (hdr_width (header_of m)) = Inr l"
    and len: "lay_byte_len l \<le> length m"
    by (auto simp: validate_header_def Let_def bindR_eq_Inr map_err_def split: if_splits sum.splits)
  show "layout_ok l" using QueueLayout_new_ok(1) [OF new lt] .
  show "lay_byte_len l \<le> length m" by (rule len)
qed

lemma validate_header_cong:
  assumes "length m' = length m" and "\<And>off. off \<le> 12 \<Longrightarrow> subslice off 4 m' = subslice off 4 m"
  shows "validate_header m' = validate_header m"
proof -
  have h: "hdr_magic (header_of m') = hdr_magic (header_of m)"
    "hdr_version (header_of m') = hdr_version (header_of m)"
    "hdr_depth (header_of m') = hdr_depth (header_of m)"
    "hdr_width (header_of m') = hdr_width (header_of m)"
    using assms(2) by (simp_all add: header_of_def)
  show ?thesis unfolding validate_header_def Let_def assms(1) h ..
qed

lemma validate_header_frame:
  assumes "32 \<le> length m"
  shows "validate_header (store_tail v m) = validate_header m"
    "validate_header (store_head v m) = validate_header m"
    "32 \<le> off \<Longrightarrow> off + length src \<le> length m \<Longrightarrow> validate_header (blit off src m) = validate_header m"
  using assms
  by (auto intro!: validate_header_cong simp: store_tail_def store_head_def subslice_blit_other)

lemma validated_slots:
  assumes "validate_header m = Inr l"
  shows "32 \<le> length m" "slot l i + lay_width l \<le> length m" "32 \<le> slot l i"
proof -
  note lo = validate_header_ok [OF assms]
  show "32 \<le> length m" using layout_okD(3) [OF lo(1)] lo(2) by linarith
  show "slot l i + lay_width l \<le> length m" "32 \<le> slot l i"
    using layout_okD(4,5) [OF lo(1), of i] lo(2) by linarith+
qed

lemma validated_push:
  assumes "validate_header m = Inr l"
  obtains m' r where "mem_push l data m = Some (m', r)" "validate_header m' = Inr l"
  using validated_slots(1) [OF assms] validated_slots(2,3) [OF assms, of "load_tail m"] assms
  by (fastforce simp: mem_push_def Let_def validate_header_frame split: if_splits)

lemma validated_read_front:
  assumes "validate_header m = Inr l"
  obtains buf' h where "mem_read_front l m buf = Some (buf', h)" "length buf' = length buf"
  using validated_slots(2,3) [OF assms, of "load_head m"]
  by (fastforce simp: mem_read_front_def Let_def length_subslice split: if_splits)

lemma validated_pop:
  assumes "validate_header m = Inr l"
  obtains m' buf' b where "mem_pop l m buf = Some (m', buf', b)" "length buf' = length buf"
    "validate_header m' = Inr l"
proof -
  obtain buf' h where "mem_read_front l m buf = Some (buf', h)" "length buf' = length buf"
    using validated_read_front [OF assms] .
  then show ?thesis
    using that assms validated_slots(1) [OF assms]
    by (cases h) (auto simp: mem_pop_def validate_header_frame)
qed

lemma validated_peek:
  assumes "validate_header m = Inr l"
  obtains buf' b where "mem_peek l m buf = Some (buf', b)" "length buf' = length buf"
proof -
  obtain buf' h where "mem_read_front l m buf = Some (buf', h)" "length buf' = length buf"
    using validated_read_front [OF assms] .
  then show ?thesis using that by (simp add: mem_peek_def)
qed

text \<open>C8: Opening is safe on bytes of any content: once \<open>validate_header\<close> accepts a file, no push, pop or
  peek indexes out of range, whatever the head and tail in the file are, and the file is accepted
  with the same layout after every operation.\<close>

theorem validated_queue_never_panics:
  assumes "validate_header m = Inr l"
  shows "(\<exists>m' r. mem_push l data m = Some (m', r) \<and> validate_header m' = Inr l) \<and>
    (\<exists>m' buf' b. mem_pop l m buf = Some (m', buf', b) \<and> length buf' = length buf \<and>
      validate_header m' = Inr l) \<and>
    (\<exists>buf' b. mem_peek l m buf = Some (buf', b) \<and> length buf' = length buf)"
  by (metis validated_push [OF assms] validated_pop [OF assms] validated_peek [OF assms])

theorem validated_queue_never_panics_witness:
  "validate_header demo_mem = Inr demo_layout \<and>
   (\<exists>m' r. mem_push demo_layout [7] demo_mem = Some (m', r) \<and> validate_header m' = Inr demo_layout)"
  using validated_queue_never_panics [OF demo_ok(5), of "[7]" "[0]"] demo_ok(5) by blast

end
