(* ===== verification/Shm_Spsc.thy ===== *)
theory Shm_Spsc
  imports Queue_Contract "HOL-Library.Sublist"
begin

text \<open>
  The queue of \<^verbatim>\<open>queue.rs\<close> under concurrency: one producer in \<^verbatim>\<open>try_push_check_full\<close>, one consumer in
  \<^verbatim>\<open>pop_into\<close> or \<^verbatim>\<open>peek_into\<close>, in two processes on the same bytes.  Every atomic load and store is a
  step, and so is the copy of every single byte of a token, so the model has every interleaving in
  which a reader could see a half-written token.  The release stores and acquire loads of the two
  counters order the copies, hence steps interleave sequentially consistently.
\<close>

datatype producer =
    P_idle
  | P_tail "byte list" nat
  | P_write "byte list" nat nat nat

datatype consumer =
    C_idle
  | C_head nat
  | C_read nat "byte list"

text \<open>
  \<open>sp_pushed\<close> and \<open>sp_popped\<close> log the tokens whose \<open>try_push_check_full\<close> and \<open>pop_into\<close> succeeded.
  \<open>P_write d t h k\<close> has loaded tail \<open>t\<close> and head \<open>h\<close> and copied \<open>k\<close> bytes of \<open>d\<close>; \<open>C_read h bs\<close> has
  loaded head \<open>h\<close> and copied the bytes \<open>bs\<close>.
\<close>

record spsc =
  sp_mem :: "byte list"
  sp_prod :: producer
  sp_cons :: consumer
  sp_pushed :: "byte list list"
  sp_popped :: "byte list list"

inductive spsc_step :: "QueueLayout \<Rightarrow> spsc \<Rightarrow> spsc \<Rightarrow> bool" for l where
  push_load_tail: "sp_prod s = P_idle \<Longrightarrow>
    spsc_step l s (s\<lparr>sp_prod := P_tail d (load_tail (sp_mem s))\<rparr>)"
| push_is_full: "sp_prod s = P_tail d t \<Longrightarrow> lay_depth l \<le> wrapping_sub 64 t (load_head (sp_mem s)) \<Longrightarrow>
    spsc_step l s (s\<lparr>sp_prod := P_idle\<rparr>)"
| push_bad_size: "sp_prod s = P_tail d t \<Longrightarrow> \<not> lay_depth l \<le> wrapping_sub 64 t (load_head (sp_mem s)) \<Longrightarrow>
    length d \<noteq> lay_width l \<Longrightarrow> spsc_step l s (s\<lparr>sp_prod := P_idle\<rparr>)"
| push_load_head: "sp_prod s = P_tail d t \<Longrightarrow> \<not> lay_depth l \<le> wrapping_sub 64 t (load_head (sp_mem s)) \<Longrightarrow>
    length d = lay_width l \<Longrightarrow> spsc_step l s (s\<lparr>sp_prod := P_write d t (load_head (sp_mem s)) 0\<rparr>)"
| push_byte: "sp_prod s = P_write d t h k \<Longrightarrow> k < lay_width l \<Longrightarrow>
    spsc_step l s (s\<lparr>sp_prod := P_write d t h (Suc k),
      sp_mem := blit (slot l t + k) [d ! k] (sp_mem s)\<rparr>)"
| push_store_tail: "sp_prod s = P_write d t h (lay_width l) \<Longrightarrow>
    spsc_step l s (s\<lparr>sp_prod := P_idle, sp_mem := store_tail (wrap 64 (t + 1)) (sp_mem s),
      sp_pushed := sp_pushed s @ [d]\<rparr>)"
| pop_load_head: "sp_cons s = C_idle \<Longrightarrow>
    spsc_step l s (s\<lparr>sp_cons := C_head (load_head (sp_mem s))\<rparr>)"
| pop_is_empty: "sp_cons s = C_head h \<Longrightarrow> load_tail (sp_mem s) = h \<Longrightarrow>
    spsc_step l s (s\<lparr>sp_cons := C_idle\<rparr>)"
| pop_short_buffer: "sp_cons s = C_head h \<Longrightarrow> load_tail (sp_mem s) \<noteq> h \<Longrightarrow>
    spsc_step l s (s\<lparr>sp_cons := C_idle\<rparr>)"
| pop_load_tail: "sp_cons s = C_head h \<Longrightarrow> load_tail (sp_mem s) \<noteq> h \<Longrightarrow>
    spsc_step l s (s\<lparr>sp_cons := C_read h []\<rparr>)"
| pop_byte: "sp_cons s = C_read h bs \<Longrightarrow> length bs < lay_width l \<Longrightarrow>
    spsc_step l s (s\<lparr>sp_cons := C_read h (bs @ [sp_mem s ! (slot l h + length bs)])\<rparr>)"
| pop_store_head: "sp_cons s = C_read h bs \<Longrightarrow> length bs = lay_width l \<Longrightarrow>
    spsc_step l s (s\<lparr>sp_cons := C_idle, sp_mem := store_head (wrap 64 (h + 1)) (sp_mem s),
      sp_popped := sp_popped s @ [bs]\<rparr>)"
| peek_done: "sp_cons s = C_read h bs \<Longrightarrow> length bs = lay_width l \<Longrightarrow>
    spsc_step l s (s\<lparr>sp_cons := C_idle\<rparr>)"

definition spsc_init :: "byte list \<Rightarrow> spsc" where
  "spsc_init m = \<lparr>sp_mem = m, sp_prod = P_idle, sp_cons = C_idle, sp_pushed = [], sp_popped = []\<rparr>"

section \<open>The invariant\<close>

definition prod_inv :: "QueueLayout \<Rightarrow> byte list \<Rightarrow> producer \<Rightarrow> bool" where
  "prod_inv l m p =
     (case p of
        P_idle \<Rightarrow> True
      | P_tail d t \<Rightarrow> t = load_tail m
      | P_write d t h k \<Rightarrow> t = load_tail m \<and> length d = lay_width l \<and>
          load_tail m < load_head m + lay_depth l \<and> k \<le> lay_width l \<and>
          take k (token l m t) = take k d)"

definition cons_inv :: "QueueLayout \<Rightarrow> byte list \<Rightarrow> consumer \<Rightarrow> bool" where
  "cons_inv l m c =
     (case c of
        C_idle \<Rightarrow> True
      | C_head h \<Rightarrow> h = load_head m
      | C_read h bs \<Rightarrow> h = load_head m \<and> load_head m < load_tail m \<and> length bs \<le> lay_width l \<and>
          bs = take (length bs) (token l m h))"

definition spsc_inv :: "QueueLayout \<Rightarrow> nat \<Rightarrow> spsc \<Rightarrow> bool" where
  "spsc_inv l t0 s \<longleftrightarrow>
     mem_ok l (sp_mem s) \<and> length (sp_pushed s) + t0 = load_tail (sp_mem s) \<and>
     sp_pushed s = sp_popped s @ mem_tokens l (sp_mem s) \<and>
     prod_inv l (sp_mem s) (sp_prod s) \<and> cons_inv l (sp_mem s) (sp_cons s)"

lemmas spsc_invs = spsc_inv_def prod_inv_def cons_inv_def

section \<open>Steps that write\<close>

text \<open>Copying a byte of the slot behind the tail leaves every queued token alone.\<close>

lemma push_byte_frame:
  fixes b :: byte
  assumes ok: "mem_ok l m" and room: "load_tail m < load_head m + lay_depth l" and k: "k < lay_width l"
  defines "m' \<equiv> blit (slot l (load_tail m) + k) [b] m"
  shows "length m' = length m" "load_tail m' = load_tail m" "load_head m' = load_head m" "mem_ok l m'"
    "load_head m \<le> i \<Longrightarrow> i < load_tail m \<Longrightarrow> token l m' i = token l m i"
    "mem_tokens l m' = mem_tokens l m"
    "token l m' (load_tail m) = (token l m (load_tail m)) [k := b]"
proof -
  let ?t = "load_tail m"
  from ok have lo: "layout_ok l" and bl: "lay_byte_len l \<le> length m" by (simp_all add: mem_ok_def)
  have in1: "slot l ?t + lay_width l \<le> length m" and hd: "32 \<le> slot l ?t"
    using layout_okD(4,5) [OF lo, of ?t] bl by linarith+
  show len: "length m' = length m" using in1 k by (simp add: m'_def)
  show ld: "load_tail m' = ?t" "load_head m' = load_head m"
    using load_blit_payload [of "slot l ?t + k" "[b]" m] in1 hd k by (simp_all add: m'_def)
  show "mem_ok l m'" using ok by (simp add: mem_ok_def len ld)
  have tok: "token l m' i = token l m i" if "load_head m \<le> i" "i < ?t" for i
  proof -
    have "i mod lay_depth l \<noteq> ?t mod lay_depth l"
      using that room by (intro mod_neq_in_window) auto
    then show ?thesis
      using token_blit_other [OF lo bl, of "[b]" k i ?t] k by (simp add: m'_def)
  qed
  then show "load_head m \<le> i \<Longrightarrow> i < load_tail m \<Longrightarrow> token l m' i = token l m i" .
  show "mem_tokens l m' = mem_tokens l m" using tok by (simp add: mem_tokens_def ld)
  show "token l m' ?t = (token l m ?t) [k := b]"
  proof (rule nth_equalityI)
    show "length (token l m' ?t) = length ((token l m ?t) [k := b])"
      using in1 len by (simp add: token_def length_subslice)
    fix j assume "j < length (token l m' ?t)"
    then have "j < lay_width l" using in1 len by (simp add: token_def length_subslice)
    then show "token l m' ?t ! j = (token l m ?t) [k := b] ! j"
      using in1 len k by (auto simp: token_def nth_subslice length_subslice m'_def nth_blit nth_list_update)
  qed
qed

text \<open>Publishing the tail appends the token that the slot behind it holds.\<close>

lemma store_tail_frame:
  assumes ok: "mem_ok l m" and room: "load_tail m < load_head m + lay_depth l"
    and cnt: "load_tail m + 1 < 2 ^ 64"
  defines "m' \<equiv> store_tail (wrap 64 (load_tail m + 1)) m"
  shows "load_tail m' = load_tail m + 1" "load_head m' = load_head m" "mem_ok l m'"
    "token l m' i = token l m i" "mem_tokens l m' = mem_tokens l m @ [token l m (load_tail m)]"
proof -
  from ok have lo: "layout_ok l" and bl: "lay_byte_len l \<le> length m" and ht: "load_head m \<le> load_tail m"
    by (simp_all add: mem_ok_def)
  have big: "32 \<le> length m" using layout_okD(3) [OF lo] bl by linarith
  have w: "wrap 64 (load_tail m + 1) = load_tail m + 1" and f: "fits 64 (load_tail m + 1)"
    using cnt by (simp_all add: fits_def wrap_def)
  show ld: "load_tail m' = load_tail m + 1" "load_head m' = load_head m"
    using big f by (simp_all add: m'_def w)
  have tok: "token l m' i = token l m i" for i using lo bl by (simp add: m'_def)
  then show "token l m' i = token l m i" .
  show "mem_ok l m'" using ok room big by (simp add: mem_ok_def ld) (simp add: m'_def)
  show "mem_tokens l m' = mem_tokens l m @ [token l m (load_tail m)]"
    using ht tok by (simp add: mem_tokens_def ld)
qed

lemma store_head_frame:
  assumes ok: "mem_ok l m" and ne: "load_head m < load_tail m"
  defines "m' \<equiv> store_head (wrap 64 (load_head m + 1)) m"
  shows "load_head m' = load_head m + 1" "load_tail m' = load_tail m" "mem_ok l m'"
    "token l m' i = token l m i" "mem_tokens l m = token l m (load_head m) # mem_tokens l m'"
proof -
  from ok have lo: "layout_ok l" and bl: "lay_byte_len l \<le> length m" by (simp_all add: mem_ok_def)
  have big: "32 \<le> length m" using layout_okD(3) [OF lo] bl by linarith
  have f: "fits 64 (load_head m + 1)" using ne load_less(1) [of m] by (simp add: fits_def)
  have m'_len: "length m' = length m" using big by (simp add: m'_def)
  from f have w: "wrap 64 (load_head m + 1) = load_head m + 1" by (simp add: fits_def wrap_def)
  show ld: "load_head m' = load_head m + 1" "load_tail m' = load_tail m"
    using big f by (simp_all add: m'_def w)
  have tok: "token l m' i = token l m i" for i using lo bl by (simp add: m'_def)
  then show "token l m' i = token l m i" .
  show "mem_ok l m'" using ok ne big m'_len by (auto simp: mem_ok_def ld)
  show "mem_tokens l m = token l m (load_head m) # mem_tokens l m'"
    using ne tok by (simp add: mem_tokens_def ld upt_conv_Cons)
qed

lemma length_token: "mem_ok l m \<Longrightarrow> length (token l m i) = lay_width l"
  using layout_okD(4) [of l i] by (simp add: mem_ok_def token_def length_subslice)

lemma nth_token: "mem_ok l m \<Longrightarrow> k < lay_width l \<Longrightarrow> token l m i ! k = m ! (slot l i + k)"
  using layout_okD(4) [of l i] by (simp add: mem_ok_def token_def nth_subslice)

section \<open>Preservation\<close>

lemma room_from_load:
  assumes "mem_ok l m" and "\<not> lay_depth l \<le> wrapping_sub 64 (load_tail m) (load_head m)"
  shows "load_tail m < load_head m + lay_depth l"
  using assms full_iff [OF assms(1)] by (auto simp: mem_ok_def)

lemma spsc_step_inv:
  assumes "spsc_step l s s'" and "spsc_inv l t0 s" and "t0 + length (sp_pushed s') < 2 ^ 64"
  shows "spsc_inv l t0 s'"
  using assms
proof (cases rule: spsc_step.cases)
  case (push_load_head d t)
  then show ?thesis using assms(2) room_from_load [of l "sp_mem s"] by (auto simp: spsc_invs)
next
  case (push_byte d t h k)
  let ?m = "sp_mem s"
  from assms(2) push_byte have ok: "mem_ok l ?m" and room: "load_tail ?m < load_head ?m + lay_depth l"
    and t: "t = load_tail ?m" and d: "length d = lay_width l" "take k (token l ?m t) = take k d"
    by (auto simp: spsc_invs)
  note fr = push_byte_frame [OF ok room push_byte(3), where b = "d ! k"]
  have "take (Suc k) ((token l ?m t)[k := d ! k]) = take (Suc k) d"
    using d length_token [OF ok] push_byte(3) by (simp add: take_Suc_conv_app_nth)
  then have p: "prod_inv l (sp_mem s') (sp_prod s')"
    using push_byte t d room fr(2,3,7) by (simp add: prod_inv_def)
  have "cons_inv l (sp_mem s') (sp_cons s')"
    using assms(2) push_byte t fr(2,3) fr(5) [of "load_head ?m"]
    by (auto simp: spsc_invs split: consumer.splits)
  with p show ?thesis using assms(2) push_byte t fr by (auto simp: spsc_inv_def)
next
  case (push_store_tail d t h)
  let ?m = "sp_mem s"
  from assms(2) push_store_tail have ok: "mem_ok l ?m" and room: "load_tail ?m < load_head ?m + lay_depth l"
    and t: "t = load_tail ?m" and d: "token l ?m t = d"
    using length_token [of l ?m] by (auto simp: spsc_invs)
  have cnt: "load_tail ?m + 1 < 2 ^ 64" using assms(2,3) push_store_tail by (auto simp: spsc_inv_def)
  note fr = store_tail_frame [OF ok room cnt]
  have "cons_inv l (sp_mem s') (sp_cons s')"
    using assms(2) push_store_tail t fr by (auto simp: spsc_invs split: consumer.splits)
  then show ?thesis using assms(2) push_store_tail t d fr by (auto simp: spsc_inv_def prod_inv_def)
next
  case (pop_load_tail h)
  then show ?thesis using assms(2) by (auto simp: spsc_invs mem_ok_def)
next
  case (pop_byte h bs)
  let ?m = "sp_mem s"
  from assms(2) pop_byte have ok: "mem_ok l ?m" and bs: "bs = take (length bs) (token l ?m h)"
    unfolding spsc_inv_def cons_inv_def by simp_all metis
  have "take (Suc (length bs)) (token l ?m h) = bs @ [?m ! (slot l h + length bs)]"
    using bs pop_byte(3) length_token [OF ok] nth_token [OF ok] by (simp add: take_Suc_conv_app_nth)
  moreover have "h = load_head ?m" "load_head ?m < load_tail ?m"
    using assms(2) pop_byte by (auto simp: spsc_invs)
  ultimately have "cons_inv l ?m (C_read h (bs @ [?m ! (slot l h + length bs)]))"
    using pop_byte(3) by (simp add: cons_inv_def)
  then show ?thesis using assms(2) pop_byte by (auto simp: spsc_inv_def)
next
  case (pop_store_head h bs)
  let ?m = "sp_mem s"
  from assms(2) pop_store_head have ok: "mem_ok l ?m" and ne: "load_head ?m < load_tail ?m"
    and h: "h = load_head ?m" and bs: "bs = token l ?m h"
    using length_token [of l ?m] by (auto simp: spsc_invs)
  note fr = store_head_frame [OF ok ne]
  have "prod_inv l (sp_mem s') (sp_prod s')"
    using assms(2) pop_store_head h fr by (auto simp: spsc_invs split: producer.splits)
  then show ?thesis using assms(2) pop_store_head h bs fr by (auto simp: spsc_inv_def cons_inv_def)
qed (auto simp: spsc_invs)

lemma spsc_step_pushed: "spsc_step l s s' \<Longrightarrow> length (sp_pushed s) \<le> length (sp_pushed s')"
  by (induction rule: spsc_step.induct) auto

lemma spsc_reach_inv:
  assumes "(spsc_step l)\<^sup>*\<^sup>* s s'" and "spsc_inv l t0 s" and "t0 + length (sp_pushed s') < 2 ^ 64"
  shows "spsc_inv l t0 s'"
  using assms
proof (induction rule: rtranclp_induct)
  case (step y z)
  then show ?case using spsc_step_pushed [OF step(2)] spsc_step_inv [OF step(2)] by simp
qed

lemma spsc_init_inv:
  assumes "mem_ok l m" and "mem_tokens l m = []"
  shows "spsc_inv l (load_tail m) (spsc_init m)"
  using assms by (simp add: spsc_invs spsc_init_def)

text \<open>C1: In every interleaving of one producer and one consumer, down to single copied bytes, the tokens
  popped and the tokens still queued are exactly the tokens pushed, in order.  So no token is lost,
  duplicated, reordered or read half-written, as long as the tail counter has not run over.\<close>

theorem spsc_fifo:
  assumes "mem_ok l m" and "mem_tokens l m = []" and "(spsc_step l)\<^sup>*\<^sup>* (spsc_init m) s"
    and "load_tail m + length (sp_pushed s) < 2 ^ 64"
  shows "sp_pushed s = sp_popped s @ mem_tokens l (sp_mem s) \<and> mem_ok l (sp_mem s)"
  using spsc_reach_inv [OF assms(3) spsc_init_inv [OF assms(1,2)] assms(4)] by (simp add: spsc_inv_def)

text \<open>A run in which the consumer looks at the queue between the copy and the publication of a token.\<close>

definition demo_end :: spsc where
  "demo_end = \<lparr>sp_mem = store_tail 1 (blit 32 [7] demo_mem), sp_prod = P_idle, sp_cons = C_idle,
     sp_pushed = [[7]], sp_popped = []\<rparr>"

lemma demo_run: "(spsc_step demo_layout)\<^sup>*\<^sup>* (spsc_init demo_mem) demo_end"
proof -
  let ?l = demo_layout and ?m = demo_mem and ?m1 = "blit 32 [7] demo_mem"
  let ?s = "\<lambda>m p c. \<lparr>sp_mem = m, sp_prod = p, sp_cons = c, sp_pushed = [], sp_popped = []\<rparr>"
  have l1: "load_tail ?m1 = 0" "load_head ?m1 = 0"
    using load_blit_payload [of 32 "[7]" ?m] demo_ok demo_length by simp_all
  have s1: "spsc_step ?l (?s ?m P_idle C_idle) (?s ?m (P_tail [7] 0) C_idle)"
    using spsc_step.push_load_tail [of "?s ?m P_idle C_idle" ?l "[7]"] demo_ok by simp
  have s2: "spsc_step ?l (?s ?m (P_tail [7] 0) C_idle) (?s ?m (P_write [7] 0 0 0) C_idle)"
    using spsc_step.push_load_head [of "?s ?m (P_tail [7] 0) C_idle" "[7]" 0 ?l] demo_ok
    by (simp add: demo_layout_def wrapping_sub_def)
  have s3: "spsc_step ?l (?s ?m (P_write [7] 0 0 0) C_idle) (?s ?m1 (P_write [7] 0 0 1) C_idle)"
    using spsc_step.push_byte [of "?s ?m (P_write [7] 0 0 0) C_idle" "[7]" 0 0 0 ?l]
    by (simp add: demo_layout_def slot_def)
  have s4: "spsc_step ?l (?s ?m1 (P_write [7] 0 0 1) C_idle) (?s ?m1 (P_write [7] 0 0 1) (C_head 0))"
    using spsc_step.pop_load_head [of "?s ?m1 (P_write [7] 0 0 1) C_idle" ?l] l1 by simp
  have s5: "spsc_step ?l (?s ?m1 (P_write [7] 0 0 1) (C_head 0)) (?s ?m1 (P_write [7] 0 0 1) C_idle)"
    using spsc_step.pop_is_empty [of "?s ?m1 (P_write [7] 0 0 1) (C_head 0)" 0 ?l] l1 by simp
  have s6: "spsc_step ?l (?s ?m1 (P_write [7] 0 0 1) C_idle) demo_end"
    using spsc_step.push_store_tail [of "?s ?m1 (P_write [7] 0 0 1) C_idle" "[7]" 0 0 ?l]
    by (simp add: demo_layout_def demo_end_def wrap_def)
  note step = converse_rtranclp_into_rtranclp [of "spsc_step ?l"]
  show ?thesis
    unfolding spsc_init_def
    by (rule step [OF s1 step [OF s2 step [OF s3 step [OF s4 step [OF s5 r_into_rtranclp [of "spsc_step ?l", OF s6]]]]]])
qed

theorem spsc_fifo_witness:
  "[[7]] = sp_popped demo_end @ mem_tokens demo_layout (sp_mem demo_end)"
  using spsc_fifo [OF demo_ok(1,2) demo_run] demo_ok(3) by (simp add: demo_end_def)

section \<open>Delivery\<close>

text \<open>
  An infinite run in which the consumer keeps acting.  \<open>abandons\<close> is a consumer that gives up a token it could pop: the buffer was
  too short, or the call was a peek.
\<close>

definition abandons :: "spsc \<Rightarrow> spsc \<Rightarrow> bool" where
  "abandons s s' \<longleftrightarrow> sp_cons s \<noteq> C_idle \<and> sp_cons s' = C_idle \<and> sp_popped s' = sp_popped s \<and>
     (\<forall>h. sp_cons s = C_head h \<longrightarrow> load_tail (sp_mem s) \<noteq> h)"

definition fair_run :: "QueueLayout \<Rightarrow> (nat \<Rightarrow> spsc) \<Rightarrow> bool" where
  "fair_run l run \<longleftrightarrow> (\<forall>i. spsc_step l (run i) (run (Suc i)) \<and> \<not> abandons (run i) (run (Suc i))) \<and>
     (\<forall>i. \<exists>j \<ge> i. sp_cons (run (Suc j)) \<noteq> sp_cons (run j))"

definition cons_left :: "QueueLayout \<Rightarrow> consumer \<Rightarrow> nat" where
  "cons_left l c = (case c of C_idle \<Rightarrow> lay_width l + 2 | C_head h \<Rightarrow> lay_width l + 1 | C_read h bs \<Rightarrow> lay_width l - length bs)"

lemma spsc_logs:
  assumes "spsc_step l s s'"
  shows "sp_popped s' = sp_popped s \<or> (\<exists>bs. sp_popped s' = sp_popped s @ [bs])"
    and "sp_cons s' = sp_cons s \<Longrightarrow> sp_popped s' = sp_popped s" and "prefix (sp_pushed s) (sp_pushed s')"
  using assms by (induction rule: spsc_step.induct) auto

lemma consumer_progress:
  assumes "spsc_step l s s'" and "spsc_inv l t0 s" and "length (sp_popped s) < length (sp_pushed s)" and "\<not> abandons s s'"
    and "sp_cons s' \<noteq> sp_cons s"
  shows "length (sp_popped s) < length (sp_popped s') \<or> cons_left l (sp_cons s') < cons_left l (sp_cons s)"
proof -
  have "sp_pushed s = sp_popped s @ mem_tokens l (sp_mem s)" using assms(2) by (simp add: spsc_inv_def)
  then have "mem_tokens l (sp_mem s) \<noteq> []" using assms(3) by (metis append_Nil2 less_irrefl)
  then have ne: "load_tail (sp_mem s) \<noteq> load_head (sp_mem s)" by (auto simp: mem_tokens_def)
  show ?thesis using assms(1,2,4,5) ne
    by (induction rule: spsc_step.induct) (auto simp: spsc_invs cons_left_def abandons_def)
qed

lemma run_inv:
  assumes "fair_run l run" and "spsc_inv l t0 (run 0)" and "\<And>i. t0 + length (sp_pushed (run i)) < 2 ^ 64"
  shows "spsc_inv l t0 (run i)"
proof (induction i)
  case (Suc i)
  then show ?case using assms(1) spsc_step_inv [of l "run i" "run (Suc i)" t0] assms(3) [of "Suc i"] by (simp add: fair_run_def)
qed (rule assms(2))

lemma run_logs:
  assumes "fair_run l run" and "i \<le> j"
  shows "prefix (sp_pushed (run i)) (sp_pushed (run j))" and "length (sp_popped (run i)) \<le> length (sp_popped (run j))"
proof -
  have step: "spsc_step l (run k) (run (Suc k))" for k using assms(1) by (simp add: fair_run_def)
  show "prefix (sp_pushed (run i)) (sp_pushed (run j))"
    using assms(2) by (induction rule: dec_induct) (use spsc_logs(3) [OF step] in \<open>auto intro: prefix_order.trans\<close>)
  show "length (sp_popped (run i)) \<le> length (sp_popped (run j))"
    using assms(2)
  proof (induction rule: dec_induct)
    case (step n)
    then show ?case using spsc_logs(1) [OF \<open>spsc_step l (run n) (run (Suc n))\<close>] by auto
  qed simp
qed

lemma run_pops:
  assumes "fair_run l run" and "\<And>i. spsc_inv l t0 (run i)" and "length (sp_popped (run i)) < length (sp_pushed (run i))"
  shows "\<exists>j. length (sp_popped (run i)) < length (sp_popped (run j))"
  using assms(3)
proof (induction "cons_left l (sp_cons (run i))" arbitrary: i rule: less_induct)
  case less
  have step: "spsc_step l (run k) (run (Suc k))" "\<not> abandons (run k) (run (Suc k))" for k using assms(1) by (simp_all add: fair_run_def)
  obtain j0 where "i \<le> j0" "sp_cons (run (Suc j0)) \<noteq> sp_cons (run j0)" using assms(1) unfolding fair_run_def by blast
  then obtain j where j: "i \<le> j" "sp_cons (run (Suc j)) \<noteq> sp_cons (run j)" and first: "\<And>k. i \<le> k \<Longrightarrow> k < j \<Longrightarrow> sp_cons (run (Suc k)) = sp_cons (run k)"
    using LeastI [of "\<lambda>j. i \<le> j \<and> sp_cons (run (Suc j)) \<noteq> sp_cons (run j)"]
      not_less_Least [of _ "\<lambda>j. i \<le> j \<and> sp_cons (run (Suc j)) \<noteq> sp_cons (run j)"] by blast
  have same: "sp_cons (run k) = sp_cons (run i) \<and> sp_popped (run k) = sp_popped (run i)" if "i \<le> k" "k \<le> j" for k
    using that by (induction k rule: dec_induct) (auto simp: first spsc_logs(2) [OF step(1)])
  have "length (sp_popped (run j)) < length (sp_pushed (run j))"
    using same [OF j(1)] less(2) prefix_length_le [OF run_logs(1) [OF assms(1) j(1)]] by simp
  from consumer_progress [OF step(1) assms(2) this step(2) j(2)] consider "length (sp_popped (run i)) < length (sp_popped (run (Suc j)))"
    | "cons_left l (sp_cons (run (Suc j))) < cons_left l (sp_cons (run i))" using same [OF j(1)] by auto
  then show ?case
  proof cases
    case 2
    have le: "length (sp_popped (run i)) \<le> length (sp_popped (run (Suc j)))" "length (sp_pushed (run i)) \<le> length (sp_pushed (run (Suc j)))"
      using run_logs [OF assms(1), of i "Suc j"] j(1) by (auto dest: prefix_length_le)
    show ?thesis
    proof (cases "length (sp_popped (run (Suc j))) < length (sp_pushed (run (Suc j)))")
      case True
      show ?thesis using less(1) [OF 2 True] le(1) by (meson le_less_trans)
    qed (use le less(2) in \<open>auto intro!: exI [of _ "Suc j"]\<close>)
  qed blast
qed

lemma run_delivers:
  assumes "fair_run l run" and "\<And>i. spsc_inv l t0 (run i)" and "n \<le> length (sp_pushed (run i))"
  shows "\<exists>j. n \<le> length (sp_popped (run j))"
  using assms(3)
proof (induction n)
  case (Suc n)
  then obtain j where "n \<le> length (sp_popped (run j))" by auto
  then have j: "n \<le> length (sp_popped (run (max i j)))" using run_logs(2) [OF assms(1), of j "max i j"] by simp
  show ?case
  proof (cases "length (sp_popped (run (max i j))) < length (sp_pushed (run (max i j)))")
    case True
    then show ?thesis using run_pops [OF assms(1,2) True] j by (meson Suc_leI le_less_trans)
  next
    case False
    then show ?thesis using Suc(2) prefix_length_le [OF run_logs(1) [OF assms(1), of i "max i j"]] by (auto intro!: exI [of _ "max i j"])
  qed
qed simp

lemma delivered:
  assumes "fair_run l run" and "\<And>i. spsc_inv l t0 (run i)"
  shows "\<exists>j. prefix (sp_pushed (run i)) (sp_popped (run j))"
proof -
  obtain j where "length (sp_pushed (run i)) \<le> length (sp_popped (run j))" using run_delivers [OF assms order_refl] by blast
  then have len: "length (sp_pushed (run i)) \<le> length (sp_popped (run (max i j)))" using run_logs(2) [OF assms(1), of j "max i j"] by simp
  have "prefix (sp_popped (run (max i j))) (sp_pushed (run (max i j)))" using assms(2) [of "max i j"] by (simp add: spsc_inv_def)
  moreover have "prefix (sp_pushed (run i)) (sp_pushed (run (max i j)))" by (rule run_logs(1) [OF assms(1)]) simp
  ultimately show ?thesis using len prefix_length_prefix by blast
qed

text \<open>C2: No accepted token is stuck.  In every infinite interleaving in which the consumer keeps acting and never gives up a token
  it found, whatever the producer does, every token that was pushed is eventually popped, in the order of the pushes.\<close>

theorem spsc_delivers:
  assumes "mem_ok l m" and "mem_tokens l m = []" and "fair_run l run" and "run 0 = spsc_init m"
    and "\<And>i. load_tail m + length (sp_pushed (run i)) < 2 ^ 64"
  shows "\<exists>j. prefix (sp_pushed (run i)) (sp_popped (run j))"
  using delivered [OF assms(3) run_inv [OF assms(3) _ assms(5)]] spsc_init_inv [OF assms(1,2)] assms(4) by simp

text \<open>A run that pushes one token, pops it and then polls the empty queue for ever.\<close>

definition demo_states :: "spsc list" where
  "demo_states =
     (let m1 = blit 32 [7] demo_mem; m2 = store_tail 1 m1;
          s = (\<lambda>m p c. \<lparr>sp_mem = m, sp_prod = p, sp_cons = c, sp_pushed = [], sp_popped = []\<rparr>);
          t = (\<lambda>c. \<lparr>sp_mem = m2, sp_prod = P_idle, sp_cons = c, sp_pushed = [[7]], sp_popped = []\<rparr>)
      in [s demo_mem P_idle C_idle, s demo_mem (P_tail [7] 0) C_idle, s demo_mem (P_write [7] 0 0 0) C_idle, s m1 (P_write [7] 0 0 1) C_idle,
          t C_idle, t (C_head 0), t (C_read 0 []), t (C_read 0 [7])])"

definition demo_idle :: "consumer \<Rightarrow> spsc" where
  "demo_idle c = \<lparr>sp_mem = store_head 1 (store_tail 1 (blit 32 [7] demo_mem)), sp_prod = P_idle, sp_cons = c, sp_pushed = [[7]], sp_popped = [[7]]\<rparr>"

definition demo_forever :: "nat \<Rightarrow> spsc" where
  "demo_forever i = (if i < 8 then demo_states ! i else demo_idle (if even i then C_idle else C_head 1))"

lemma demo_tail: "load_tail (store_tail 1 (blit 32 [7] demo_mem)) = 1" "load_head (store_tail 1 (blit 32 [7] demo_mem)) = 0"
  "store_tail 1 (blit 32 [7] demo_mem) ! 32 = 7"
  "load_tail (store_head 1 (store_tail 1 (blit 32 [7] demo_mem))) = 1" "load_head (store_head 1 (store_tail 1 (blit 32 [7] demo_mem))) = 1"
  by code_simp+

lemma demo_pushes:
  "spsc_step demo_layout (demo_states ! 0) (demo_states ! 1)" "spsc_step demo_layout (demo_states ! 1) (demo_states ! 2)"
  "spsc_step demo_layout (demo_states ! 2) (demo_states ! 3)" "spsc_step demo_layout (demo_states ! 3) (demo_states ! 4)"
proof -
  let ?l = demo_layout
  note st = demo_states_def Let_def demo_layout_def
  show "spsc_step ?l (demo_states ! 0) (demo_states ! 1)"
    using spsc_step.push_load_tail [of "demo_states ! 0" ?l "[7]"] demo_ok by (simp add: st)
  show "spsc_step ?l (demo_states ! 1) (demo_states ! 2)"
    using spsc_step.push_load_head [of "demo_states ! 1" "[7]" 0 ?l] demo_ok by (simp add: st wrapping_sub_def)
  show "spsc_step ?l (demo_states ! 2) (demo_states ! 3)"
    using spsc_step.push_byte [of "demo_states ! 2" "[7]" 0 0 0 ?l] by (simp add: st slot_def)
  show "spsc_step ?l (demo_states ! 3) (demo_states ! 4)"
    using spsc_step.push_store_tail [of "demo_states ! 3" "[7]" 0 0 ?l] by (simp add: st wrap_def)
qed

lemma demo_pops:
  "spsc_step demo_layout (demo_states ! 4) (demo_states ! 5)" "spsc_step demo_layout (demo_states ! 5) (demo_states ! 6)"
  "spsc_step demo_layout (demo_states ! 6) (demo_states ! 7)" "spsc_step demo_layout (demo_states ! 7) (demo_idle C_idle)"
  "spsc_step demo_layout (demo_idle C_idle) (demo_idle (C_head 1))" "spsc_step demo_layout (demo_idle (C_head 1)) (demo_idle C_idle)"
proof -
  let ?l = demo_layout
  note st = demo_states_def demo_idle_def Let_def demo_layout_def demo_tail demo_tail [unfolded One_nat_def]
  show "spsc_step ?l (demo_states ! 4) (demo_states ! 5)"
    using spsc_step.pop_load_head [of "demo_states ! 4" ?l] by (simp add: st)
  show "spsc_step ?l (demo_states ! 5) (demo_states ! 6)"
    using spsc_step.pop_load_tail [of "demo_states ! 5" 0 ?l] by (simp add: st)
  show "spsc_step ?l (demo_states ! 6) (demo_states ! 7)"
    using spsc_step.pop_byte [of "demo_states ! 6" 0 "[]" ?l] by (simp add: st slot_def)
  show "spsc_step ?l (demo_states ! 7) (demo_idle C_idle)"
    using spsc_step.pop_store_head [of "demo_states ! 7" 0 "[7]" ?l] by (simp add: st wrap_def)
  show "spsc_step ?l (demo_idle C_idle) (demo_idle (C_head 1))"
    using spsc_step.pop_load_head [of "demo_idle C_idle" ?l] by (simp add: st)
  show "spsc_step ?l (demo_idle (C_head 1)) (demo_idle C_idle)"
    using spsc_step.pop_is_empty [of "demo_idle (C_head 1)" 1 ?l] by (simp add: st)
qed

lemma demo_forever_fair: "fair_run demo_layout demo_forever"
  unfolding fair_run_def
proof (intro conjI allI)
  fix i :: nat
  consider "i = 0" | "i = 1" | "i = 2" | "i = 3" | "i = 4" | "i = 5" | "i = 6" | "i = 7" | "8 \<le> i" by linarith
  then show "spsc_step demo_layout (demo_forever i) (demo_forever (Suc i))"
    using demo_pushes demo_pops by cases (simp_all add: demo_forever_def numeral_2_eq_2 [symmetric])
  show "\<not> abandons (demo_forever i) (demo_forever (Suc i))"
  proof (cases "i < 8")
    case True
    then have "i \<in> {0, 1, 2, 3, 4, 5, 6, 7}" by auto
    then show ?thesis by (auto simp: demo_forever_def demo_states_def demo_idle_def abandons_def Let_def)
  next
    case False
    then show ?thesis using demo_tail by (simp add: demo_forever_def demo_idle_def abandons_def)
  qed
  show "\<exists>j \<ge> i. sp_cons (demo_forever (Suc j)) \<noteq> sp_cons (demo_forever j)"
    by (rule exI [of _ "i + 8"]) (simp add: demo_forever_def demo_idle_def)
qed

theorem spsc_delivers_witness:
  "sp_pushed (demo_forever 4) = [[7]] \<and> (\<exists>j. prefix [[7]] (sp_popped (demo_forever j)))"
proof -
  have bound: "load_tail demo_mem + length (sp_pushed (demo_forever i)) < 2 ^ 64" for i
  proof (cases "i < 8")
    case True
    then have "i \<in> {0, 1, 2, 3, 4, 5, 6, 7}" by auto
    then show ?thesis using demo_ok by (auto simp: demo_forever_def demo_states_def Let_def)
  next
    case False
    then show ?thesis using demo_ok by (simp add: demo_forever_def demo_idle_def)
  qed
  have "demo_forever 0 = spsc_init demo_mem" by (simp add: demo_forever_def demo_states_def spsc_init_def Let_def)
  from spsc_delivers [OF demo_ok(1,2) demo_forever_fair this bound, of 4] show ?thesis by (simp add: demo_forever_def demo_states_def Let_def)
qed

end
