(* ===== verification/Dpi.thy ===== *)
theory Dpi
  imports Queue_Contract
begin

text \<open>
  \<^verbatim>\<open>fpga-runtime/frt-dpi/src\<close>: the library a simulator calls each clock cycle.  AXI ports read and write
  buffers in shared memory; stream ports push and pop the queues of \<^verbatim>\<open>frt-shm\<close>.  A DPI buffer is the
  byte list the simulator passes.  The wall clock is an argument, the configuration parser
  (\<^verbatim>\<open>serde_json\<close>) a parameter, and the lines written to the error stream are kept where the code
  updates a counter to decide on them.

  An output buffer is returned, so the length it has on the caller's side is not part of the model: the
  calls are those that meet the safety contract the code states for it (room for the bytes requested, or
  for the width of the port).
\<close>

section \<open>State\<close>

record DpiStreamInner =
  ds_queue :: SharedMemoryQueue
  ds_bytes :: "byte list"
  ds_last_istream_valid :: bool

record DpiStream =
  st_inner :: DpiStreamInner
  st_dpi_width_bytes :: nat

record DpiContext =
  ctx_buffers :: "string \<Rightarrow> (MmapSegment \<times> nat) option"
  ctx_streams :: "string \<Rightarrow> DpiStream option"

record dpi_stats =
  READ_OK :: nat
  READ_MISS :: nat
  WRITE_OK :: nat
  WRITE_FULL :: nat
  LAST_REPORT :: nat
  MISS_COUNTER :: nat

text \<open>\<open>dpi_reports\<close> holds the progress lines: port, the four counters, head and tail.\<close>

record dpi =
  dpi_shm :: shm
  dpi_ctx :: DpiContext
  dpi_stats :: dpi_stats
  dpi_reports :: "(string \<times> nat list) list"

record BufferEntry =
  be_base_addr :: nat
  be_path :: string

record StreamEntry =
  se_dpi_width_bytes :: nat
  se_path :: string

record DpiConfig =
  cfg_buffers :: "(string \<times> BufferEntry) list"
  cfg_streams :: "(string \<times> StreamEntry) list"

datatype 'p DpiError = EnvMissing | ParseError 'p | Io io_error

section \<open>Set-up\<close>

definition open_segment :: "shm \<Rightarrow> string \<Rightarrow> 'p DpiError + MmapSegment" where
  "open_segment s path =
     map_err (\<lambda>e. case e of NotFound p \<Rightarrow> Io (OsNotFound, NoSuchFile p)) (segment_open s path)"

definition open_stream :: "shm \<Rightarrow> StreamEntry \<Rightarrow> 'p DpiError + DpiStream" where
  "open_stream s entry =
     bindR (map_err Io (queue_open s (se_path entry))) (\<lambda>q.
       Inr \<lparr>st_inner = \<lparr>ds_queue = q, ds_bytes = replicate (lay_width (q_layout q)) 0,
              ds_last_istream_valid = False\<rparr>,
            st_dpi_width_bytes = se_dpi_width_bytes entry\<rparr>)"

text \<open>The loop that opens every entry of a table and inserts it under its name.\<close>

definition open_entries :: "('a \<Rightarrow> 'e + 'b) \<Rightarrow> (string \<times> 'a) list \<Rightarrow> 'e + (string \<Rightarrow> 'b option)" where
  "open_entries f es =
     foldR (\<lambda>m (name, entry). bindR (f entry) (\<lambda>v. Inr (m(name \<mapsto> v)))) Map.empty es"

definition open_buffer :: "shm \<Rightarrow> BufferEntry \<Rightarrow> 'p DpiError + (MmapSegment \<times> nat)" where
  "open_buffer s entry =
     bindR (open_segment s (be_path entry)) (\<lambda>seg. Inr (seg, be_base_addr entry))"

definition from_env :: "(string \<Rightarrow> 'p + DpiConfig) \<Rightarrow> string option \<Rightarrow> shm \<Rightarrow> 'p DpiError + DpiContext" where
  "from_env parse raw s =
     bindR (ok_or EnvMissing raw) (\<lambda>text.
     bindR (map_err ParseError (parse text)) (\<lambda>cfg.
     bindR (open_entries (open_buffer s) (cfg_buffers cfg)) (\<lambda>buffers.
     bindR (open_entries (open_stream s) (cfg_streams cfg)) (\<lambda>streams.
       Inr \<lparr>ctx_buffers = buffers, ctx_streams = streams\<rparr>))))"

section \<open>AXI ports\<close>

definition resolve_span :: "dpi \<Rightarrow> string \<Rightarrow> nat \<Rightarrow> nat \<Rightarrow> (MmapSegment \<times> nat) option" where
  "resolve_span d port addr len =
     (case ctx_buffers (dpi_ctx d) port of
        None \<Rightarrow> None
      | Some (seg, base) \<Rightarrow>
          (case checked_sub addr base of
             None \<Rightarrow> None
           | Some offset \<Rightarrow>
               (case checked_add 64 offset len of
                  None \<Rightarrow> None
                | Some end_ \<Rightarrow>
                    if end_ > segment_len (dpi_shm d) seg then None else Some (seg, offset))))"

definition axi_read_impl :: "dpi \<Rightarrow> string \<Rightarrow> nat \<Rightarrow> nat \<Rightarrow> byte list \<Rightarrow> byte list" where
  "axi_read_impl d port addr width out =
     (case resolve_span d port addr width of
        None \<Rightarrow> out
      | Some (seg, offset) \<Rightarrow> blit 0 (subslice offset width (as_slice (dpi_shm d) seg)) out)"

definition axi_write_impl :: "dpi \<Rightarrow> string \<Rightarrow> nat \<Rightarrow> nat \<Rightarrow> byte list \<Rightarrow> dpi" where
  "axi_write_impl d port addr width data =
     (case resolve_span d port addr width of
        None \<Rightarrow> d
      | Some (seg, offset) \<Rightarrow>
          d\<lparr>dpi_shm := segment_write_at (dpi_shm d) seg offset (take width data)\<rparr>)"

section \<open>Stream ports\<close>

definition stream_pop :: "shm \<Rightarrow> DpiStreamInner \<Rightarrow> (shm \<times> DpiStreamInner \<times> bool) option" where
  "stream_pop s i =
     map_option (\<lambda>(s', bytes, ok). (s', i\<lparr>ds_bytes := bytes\<rparr>, ok)) (pop_into s (ds_queue i) (ds_bytes i))"

definition stream_peek :: "shm \<Rightarrow> DpiStreamInner \<Rightarrow> (DpiStreamInner \<times> bool) option" where
  "stream_peek s i =
     map_option (\<lambda>(bytes, ok). (i\<lparr>ds_bytes := bytes\<rparr>, ok)) (peek_into s (ds_queue i) (ds_bytes i))"

definition copy_to_dpi :: "byte list \<Rightarrow> byte list \<Rightarrow> byte list" where
  "copy_to_dpi bytes buf =
     (let n = min (length buf) (length bytes) in take n bytes @ replicate (length buf - n) 0)"

definition push_from_dpi :: "shm \<Rightarrow> DpiStreamInner \<Rightarrow> byte list \<Rightarrow> nat \<Rightarrow>
    (shm \<times> DpiStreamInner \<times> (push_error + bool)) option" where
  "push_from_dpi s i data dpi_width_bytes =
     (let n = min (length (ds_bytes i)) dpi_width_bytes;
          i' = i\<lparr>ds_bytes := take n data @ replicate (length (ds_bytes i) - n) 0\<rparr>
      in map_option (\<lambda>(s', r). (s', i', r)) (try_push_check_full s (ds_queue i') (ds_bytes i')))"

definition put_stream :: "string \<Rightarrow> DpiStream \<Rightarrow> DpiStreamInner \<Rightarrow> shm \<Rightarrow> dpi \<Rightarrow> dpi" where
  "put_stream port st i s d =
     d\<lparr>dpi_shm := s, dpi_ctx := (dpi_ctx d)\<lparr>ctx_streams :=
        (ctx_streams (dpi_ctx d))(port \<mapsto> st\<lparr>st_inner := i\<rparr>)\<rparr>\<rparr>"

abbreviation count :: "(dpi_stats \<Rightarrow> dpi_stats) \<Rightarrow> dpi \<Rightarrow> dpi" where
  "count f d \<equiv> d\<lparr>dpi_stats := f (dpi_stats d)\<rparr>"

definition maybe_report_progress :: "nat \<Rightarrow> string \<Rightarrow> SharedMemoryQueue \<Rightarrow> dpi \<Rightarrow> dpi" where
  "maybe_report_progress now port q d =
     (let misses = MISS_COUNTER (dpi_stats d);
          d1 = count (\<lambda>c. c\<lparr>MISS_COUNTER := wrap 64 (misses + 1)\<rparr>) d;
          c = dpi_stats d1
      in if misses mod 1000000 \<noteq> 0 then d1
         else if now > wrap 64 (LAST_REPORT c + 10) then
           let d2 = count (\<lambda>c. c\<lparr>LAST_REPORT := now\<rparr>) d1;
               (head, tail) = head_tail (dpi_shm d2) q
           in if wrap 64 (READ_OK c + READ_MISS c + WRITE_OK c + WRITE_FULL c) > 0
              then d2\<lparr>dpi_reports := dpi_reports d2 @
                [(port, [READ_OK c, READ_MISS c, WRITE_OK c, WRITE_FULL c, head, tail])]\<rparr>
              else d2
         else d1)"

definition read_miss :: "nat \<Rightarrow> string \<Rightarrow> SharedMemoryQueue \<Rightarrow> dpi \<Rightarrow> dpi" where
  "read_miss now port q d =
     maybe_report_progress now port q (count (\<lambda>c. c\<lparr>READ_MISS := wrap 64 (READ_MISS c + 1)\<rparr>) d)"

definition write_ready :: "nat \<Rightarrow> dpi \<Rightarrow> DpiStreamInner \<Rightarrow> string \<Rightarrow> bool \<Rightarrow> dpi \<times> bool" where
  "write_ready now d i port known_full =
     (let can = \<not> known_full \<and> \<not> is_full (dpi_shm d) (ds_queue i)
      in if can then (d, True)
         else (maybe_report_progress now port (ds_queue i)
                 (count (\<lambda>c. c\<lparr>WRITE_FULL := wrap 64 (WRITE_FULL c + 1)\<rparr>) d), False))"

definition stream_try_read_impl :: "nat \<Rightarrow> dpi \<Rightarrow> string \<Rightarrow> byte list \<Rightarrow> (dpi \<times> byte list \<times> bool) option" where
  "stream_try_read_impl now d port out =
     (case ctx_streams (dpi_ctx d) port of
        None \<Rightarrow> Some (d, out, False)
      | Some st \<Rightarrow>
          (case stream_pop (dpi_shm d) (st_inner st) of
             None \<Rightarrow> None
           | Some (s, i, ok) \<Rightarrow>
               let d1 = put_stream port st i s d in
               if \<not> ok then Some (read_miss now port (ds_queue i) d1, out, False)
               else Some (count (\<lambda>c. c\<lparr>READ_OK := wrap 64 (READ_OK c + 1)\<rparr>) d1,
                      blit 0 (copy_to_dpi (ds_bytes i) (take (st_dpi_width_bytes st) out)) out, True)))"

text \<open>The optional pop of the element the previous step presented.\<close>

definition istream_consume :: "dpi \<Rightarrow> string \<Rightarrow> DpiStream \<Rightarrow> bool \<Rightarrow> (dpi \<times> DpiStreamInner) option" where
  "istream_consume d port st consume =
     (if ds_last_istream_valid (st_inner st) \<and> consume
      then case stream_pop (dpi_shm d) (st_inner st) of
             None \<Rightarrow> None
           | Some (s, i, ok) \<Rightarrow>
               let d1 = put_stream port st i s d in
               Some (if ok then count (\<lambda>c. c\<lparr>READ_OK := wrap 64 (READ_OK c + 1)\<rparr>) d1 else d1, i)
      else Some (d, st_inner st))"

definition stream_istream_step_impl :: "nat \<Rightarrow> dpi \<Rightarrow> string \<Rightarrow> bool \<Rightarrow> byte list \<Rightarrow>
    (dpi \<times> byte list \<times> bool) option" where
  "stream_istream_step_impl now d port consume out =
     (case ctx_streams (dpi_ctx d) port of
        None \<Rightarrow> Some (d, out, False)
      | Some st \<Rightarrow>
          (case istream_consume d port st consume of
             None \<Rightarrow> None
           | Some (d1, i1) \<Rightarrow>
               (case stream_peek (dpi_shm d1) i1 of
                  None \<Rightarrow> None
                | Some (i2, ok) \<Rightarrow>
                    let d2 = put_stream port st (i2\<lparr>ds_last_istream_valid := ok\<rparr>) (dpi_shm d1) d1 in
                    if \<not> ok then Some (read_miss now port (ds_queue i2) d2, out, False)
                    else Some (d2, blit 0 (copy_to_dpi (ds_bytes i2) (take (st_dpi_width_bytes st) out)) out,
                           True))))"

definition stream_try_write_impl :: "dpi \<Rightarrow> string \<Rightarrow> byte list \<Rightarrow> (dpi \<times> bool) option" where
  "stream_try_write_impl d port data =
     (case ctx_streams (dpi_ctx d) port of
        None \<Rightarrow> Some (d, False)
      | Some st \<Rightarrow>
          (case push_from_dpi (dpi_shm d) (st_inner st) data (st_dpi_width_bytes st) of
             None \<Rightarrow> None
           | Some (s, i, r) \<Rightarrow>
               let d1 = put_stream port st i s d in
               (case r of
                  Inl e \<Rightarrow> Some (d1, False)
                | Inr b \<Rightarrow> Some (count (\<lambda>c. c\<lparr>WRITE_OK := wrap 64 (WRITE_OK c + 1)\<rparr>) d1, True))))"

definition stream_hls_ostream_step_impl :: "nat \<Rightarrow> dpi \<Rightarrow> string \<Rightarrow> bool \<Rightarrow> byte list \<Rightarrow> (dpi \<times> bool) option" where
  "stream_hls_ostream_step_impl now d port write data =
     (case ctx_streams (dpi_ctx d) port of
        None \<Rightarrow> Some (d, False)
      | Some st \<Rightarrow>
          if \<not> write then Some (write_ready now d (st_inner st) port False)
          else (case push_from_dpi (dpi_shm d) (st_inner st) data (st_dpi_width_bytes st) of
                  None \<Rightarrow> None
                | Some (s, i, r) \<Rightarrow>
                    let d1 = put_stream port st i s d in
                    (case r of
                       Inl e \<Rightarrow> Some (write_ready now d1 i port True)
                     | Inr full_after \<Rightarrow>
                         Some (write_ready now
                           (count (\<lambda>c. c\<lparr>WRITE_OK := wrap 64 (WRITE_OK c + 1)\<rparr>) d1) i port full_after))))"

definition stream_can_write_impl :: "nat \<Rightarrow> dpi \<Rightarrow> string \<Rightarrow> dpi \<times> bool" where
  "stream_can_write_impl now d port =
     (case ctx_streams (dpi_ctx d) port of
        None \<Rightarrow> (d, False)
      | Some st \<Rightarrow> write_ready now d (st_inner st) port False)"

section \<open>The entry points\<close>

text \<open>\<^verbatim>\<open>dpi_export!\<close>: the calls a simulator can make.\<close>

datatype dpi_call =
    tapa_axi_read string nat nat "byte list"
  | tapa_axi_write string nat nat "byte list"
  | tapa_stream_try_read string "byte list"
  | tapa_stream_try_write string "byte list"
  | tapa_stream_can_write string
  | tapa_stream_istream_step string bool "byte list"
  | tapa_hls_stream_ostream_step string bool "byte list"

text \<open>The state after the call, the output buffer where the call has one, and the flag where it returns one.\<close>

fun dpi_export :: "nat \<Rightarrow> dpi \<Rightarrow> dpi_call \<Rightarrow> (dpi \<times> byte list option \<times> bool option) option" where
  "dpi_export now d (tapa_axi_read port addr width out) =
     Some (d, Some (axi_read_impl d port addr width out), None)"
| "dpi_export now d (tapa_axi_write port addr width data) =
     Some (axi_write_impl d port addr width data, None, None)"
| "dpi_export now d (tapa_stream_try_read port out) =
     map_option (\<lambda>(d', out', r). (d', Some out', Some r)) (stream_try_read_impl now d port out)"
| "dpi_export now d (tapa_stream_try_write port data) =
     map_option (\<lambda>(d', r). (d', None, Some r)) (stream_try_write_impl d port data)"
| "dpi_export now d (tapa_stream_can_write port) =
     (case stream_can_write_impl now d port of (d', r) \<Rightarrow> Some (d', None, Some r))"
| "dpi_export now d (tapa_stream_istream_step port consume out) =
     map_option (\<lambda>(d', out', r). (d', Some out', Some r)) (stream_istream_step_impl now d port consume out)"
| "dpi_export now d (tapa_hls_stream_ostream_step port write data) =
     map_option (\<lambda>(d', r). (d', None, Some r)) (stream_hls_ostream_step_impl now d port write data)"

text \<open>A simulation: calls with the clock at each call.\<close>

fun dpi_run :: "dpi \<Rightarrow> (nat \<times> dpi_call) list \<Rightarrow> dpi option" where
  "dpi_run d [] = Some d"
| "dpi_run d ((now, c) # cs) =
     (case dpi_export now d c of None \<Rightarrow> None | Some (d', _) \<Rightarrow> dpi_run d' cs)"

section \<open>The invariant of a context\<close>

definition stream_ok :: "shm \<Rightarrow> DpiStreamInner \<Rightarrow> bool" where
  "stream_ok s i \<longleftrightarrow> validate_header (q_mem s (ds_queue i)) = Inr (q_layout (ds_queue i)) \<and>
     length (ds_bytes i) = lay_width (q_layout (ds_queue i))"

definition dpi_inv :: "dpi \<Rightarrow> bool" where
  "dpi_inv d \<longleftrightarrow>
     (\<forall>p st. ctx_streams (dpi_ctx d) p = Some st \<longrightarrow> stream_ok (dpi_shm d) (st_inner st)) \<and>
     (\<forall>p seg base p' st. ctx_buffers (dpi_ctx d) p = Some (seg, base) \<longrightarrow>
        ctx_streams (dpi_ctx d) p' = Some st \<longrightarrow>
        seg_inode seg \<noteq> seg_inode (q_seg (ds_queue (st_inner st))))"

lemma dpi_inv_cong: "dpi_shm d' = dpi_shm d \<Longrightarrow> dpi_ctx d' = dpi_ctx d \<Longrightarrow> dpi_inv d' = dpi_inv d"
  by (simp add: dpi_inv_def)

lemma report_frame [simp]:
  "dpi_shm (maybe_report_progress now port q d) = dpi_shm d"
  "dpi_ctx (maybe_report_progress now port q d) = dpi_ctx d"
  by (simp_all add: maybe_report_progress_def Let_def split: prod.split)

lemma read_miss_frame [simp]:
  "dpi_shm (read_miss now port q d) = dpi_shm d" "dpi_ctx (read_miss now port q d) = dpi_ctx d"
  by (simp_all add: read_miss_def)

lemma write_ready_frame [simp]:
  "dpi_shm (fst (write_ready now d i port k)) = dpi_shm d"
  "dpi_ctx (fst (write_ready now d i port k)) = dpi_ctx d"
  by (simp_all add: write_ready_def Let_def)

lemma put_stream_sel [simp]:
  "dpi_shm (put_stream port st i s d) = s"
  "ctx_streams (dpi_ctx (put_stream port st i s d)) = (ctx_streams (dpi_ctx d))(port \<mapsto> st\<lparr>st_inner := i\<rparr>)"
  "ctx_buffers (dpi_ctx (put_stream port st i s d)) = ctx_buffers (dpi_ctx d)"
  by (simp_all add: put_stream_def)

text \<open>Replacing the bytes of one accepted queue by bytes of the same layout keeps every stream.\<close>

lemma dpi_inv_put_stream:
  assumes inv: "dpi_inv d" and st: "ctx_streams (dpi_ctx d) port = Some st"
    and i: "ds_queue i = ds_queue (st_inner st)" "length (ds_bytes i) = lay_width (q_layout (ds_queue i))"
    and m: "validate_header m = Inr (q_layout (ds_queue i))"
  shows "dpi_inv (put_stream port st i (set_slice (dpi_shm d) (q_seg (ds_queue i)) m) d)"
proof -
  have here: "stream_ok (dpi_shm d) (st_inner st)" using inv st by (simp add: dpi_inv_def)
  have old: "stream_ok (set_slice (dpi_shm d) (q_seg (ds_queue i)) m) (st_inner st')"
    if "ctx_streams (dpi_ctx d) p = Some st'" for p st'
  proof -
    have "stream_ok (dpi_shm d) (st_inner st')" using inv that by (simp add: dpi_inv_def)
    then show ?thesis
      using here i m by (auto simp: stream_ok_def q_mem_def as_slice_def set_slice_def)
  qed
  have "stream_ok (set_slice (dpi_shm d) (q_seg (ds_queue i)) m) i"
    using i m by (simp add: stream_ok_def q_mem_def)
  then show ?thesis using inv old st i by (auto simp: dpi_inv_def)
qed

lemma stream_pop_inv:
  assumes "stream_ok s i"
  obtains m i' b where "stream_pop s i = Some (set_slice s (q_seg (ds_queue i)) m, i', b)"
    "ds_queue i' = ds_queue i" "length (ds_bytes i') = lay_width (q_layout (ds_queue i))"
    "validate_header m = Inr (q_layout (ds_queue i))"
proof -
  from assms obtain m buf b where "mem_pop (q_layout (ds_queue i)) (q_mem s (ds_queue i)) (ds_bytes i) = Some (m, buf, b)"
    "length buf = length (ds_bytes i)" "validate_header m = Inr (q_layout (ds_queue i))"
    unfolding stream_ok_def by (metis validated_pop)
  then show ?thesis using that [of m "i\<lparr>ds_bytes := buf\<rparr>" b] assms
    by (simp add: stream_pop_def pop_into_def stream_ok_def)
qed

lemma push_from_dpi_inv:
  assumes "stream_ok s i" and "dpi_width \<le> length data"
  obtains m i' r where "push_from_dpi s i data dpi_width = Some (set_slice s (q_seg (ds_queue i)) m, i', r)"
    "ds_queue i' = ds_queue i" "length (ds_bytes i') = lay_width (q_layout (ds_queue i))"
    "validate_header m = Inr (q_layout (ds_queue i))"
proof -
  let ?n = "min (length (ds_bytes i)) dpi_width"
  let ?bytes = "take ?n data @ replicate (length (ds_bytes i) - ?n) 0"
  from assms obtain m r where "mem_push (q_layout (ds_queue i)) ?bytes (q_mem s (ds_queue i)) = Some (m, r)"
    "validate_header m = Inr (q_layout (ds_queue i))"
    unfolding stream_ok_def by (metis validated_push)
  then show ?thesis using that [of m "i\<lparr>ds_bytes := ?bytes\<rparr>" r] assms
    by (simp add: push_from_dpi_def try_push_check_full_def stream_ok_def Let_def)
qed

lemma stream_peek_inv:
  assumes "stream_ok s i"
  obtains i' b where "stream_peek s i = Some (i', b)"
    "ds_queue i' = ds_queue i" "length (ds_bytes i') = lay_width (q_layout (ds_queue i))"
proof -
  from assms obtain buf b where "mem_peek (q_layout (ds_queue i)) (q_mem s (ds_queue i)) (ds_bytes i) = Some (buf, b)"
    "length buf = length (ds_bytes i)"
    unfolding stream_ok_def by (metis validated_peek)
  then show ?thesis using that [of "i\<lparr>ds_bytes := buf\<rparr>" b] assms
    by (simp add: stream_peek_def peek_into_def stream_ok_def)
qed

section \<open>Every call keeps the invariant\<close>

definition stream_port_width :: "dpi \<Rightarrow> string \<Rightarrow> nat option" where
  "stream_port_width d port = map_option st_dpi_width_bytes (ctx_streams (dpi_ctx d) port)"

text \<open>The simulator passes input buffers of at least the width of the port.\<close>

definition call_ok :: "(string \<Rightarrow> nat option) \<Rightarrow> dpi_call \<Rightarrow> bool" where
  "call_ok width c =
     (case c of
        tapa_axi_write port addr w data \<Rightarrow> w \<le> length data
      | tapa_stream_try_write port data \<Rightarrow> (case width port of None \<Rightarrow> True | Some n \<Rightarrow> n \<le> length data)
      | tapa_hls_stream_ostream_step port write data \<Rightarrow>
          (case width port of None \<Rightarrow> True | Some n \<Rightarrow> n \<le> length data)
      | _ \<Rightarrow> True)"

abbreviation keeps :: "dpi \<Rightarrow> dpi \<Rightarrow> bool" where
  "keeps d d' \<equiv> dpi_inv d' \<and> stream_port_width d' = stream_port_width d"

lemma stream_port_width_put: "ctx_streams (dpi_ctx d) port = Some st \<Longrightarrow>
    stream_port_width (put_stream port st i s d) = stream_port_width d"
  by (auto simp: stream_port_width_def)

lemma stream_port_width_cong: "dpi_ctx d' = dpi_ctx d \<Longrightarrow> stream_port_width d' = stream_port_width d"
  by (auto simp: stream_port_width_def)

lemmas keeps_frame = dpi_inv_cong [of "read_miss now port q d" d for now port q d]
  dpi_inv_cong [of "fst (write_ready now d i port k)" d for now d i port k]
  dpi_inv_cong [of "count f d" d for f d]
  stream_port_width_cong [of "read_miss now port q d" d for now port q d]
  stream_port_width_cong [of "fst (write_ready now d i port k)" d for now d i port k]
  stream_port_width_cong [of "count f d" d for f d]
  dpi_inv_put_stream stream_port_width_put

lemma resolve_span_Some:
  "resolve_span d port addr len = Some (seg, offset) \<longleftrightarrow>
    (\<exists>base. ctx_buffers (dpi_ctx d) port = Some (seg, base) \<and> base \<le> addr \<and> offset = addr - base \<and>
      offset + len < 2 ^ 64 \<and> offset + len \<le> length (as_slice (dpi_shm d) seg))"
  by (auto simp: resolve_span_def checked_sub_def checked_add_def fits_def segment_len_def
      split: option.splits if_splits)

lemma axi_write_keeps:
  assumes "dpi_inv d"
  shows "keeps d (axi_write_impl d port addr width data)"
proof (cases "resolve_span d port addr width")
  case None
  with assms show ?thesis by (simp add: axi_write_impl_def)
next
  case (Some p)
  obtain seg offset where p: "p = (seg, offset)" by force
  with Some obtain base where b: "ctx_buffers (dpi_ctx d) port = Some (seg, base)"
    by (auto simp: resolve_span_Some)
  have "seg_inode (q_seg (ds_queue (st_inner st))) \<noteq> seg_inode seg"
    if "ctx_streams (dpi_ctx d) q = Some st" for q st
    using assms b that unfolding dpi_inv_def by metis
  then show ?thesis
    using assms Some p
    by (auto simp: axi_write_impl_def segment_write_at_def dpi_inv_def stream_ok_def q_mem_def stream_port_width_def)
qed

lemma try_read_keeps:
  assumes inv: "dpi_inv d"
  shows "\<exists>d' o' r. stream_try_read_impl now d port out = Some (d', o', r) \<and> keeps d d'"
proof (cases "ctx_streams (dpi_ctx d) port")
  case None
  with inv show ?thesis by (simp add: stream_try_read_impl_def)
next
  case (Some st)
  then have "stream_ok (dpi_shm d) (st_inner st)" using inv by (simp add: dpi_inv_def)
  then obtain m i b where "stream_pop (dpi_shm d) (st_inner st)
      = Some (set_slice (dpi_shm d) (q_seg (ds_queue (st_inner st))) m, i, b)"
    "ds_queue i = ds_queue (st_inner st)" "length (ds_bytes i) = lay_width (q_layout (ds_queue (st_inner st)))"
    "validate_header m = Inr (q_layout (ds_queue (st_inner st)))"
    by (rule stream_pop_inv)
  with Some dpi_inv_put_stream [OF inv Some, of i m] show ?thesis
    by (simp add: stream_try_read_impl_def Let_def keeps_frame)
qed

lemma istream_consume_keeps:
  assumes inv: "dpi_inv d" and st: "ctx_streams (dpi_ctx d) port = Some st"
  obtains d' i where "istream_consume d port st consume = Some (d', i)" "keeps d d'"
    "ds_queue i = ds_queue (st_inner st)" "stream_ok (dpi_shm d') i"
    "\<exists>st'. ctx_streams (dpi_ctx d') port = Some st' \<and> st_inner st' = i"
proof (cases "ds_last_istream_valid (st_inner st) \<and> consume")
  case False
  then show ?thesis using that [of d "st_inner st"] inv st by (auto simp: istream_consume_def dpi_inv_def)
next
  case True
  have "stream_ok (dpi_shm d) (st_inner st)" using inv st by (simp add: dpi_inv_def)
  then obtain m i b where i: "stream_pop (dpi_shm d) (st_inner st)
      = Some (set_slice (dpi_shm d) (q_seg (ds_queue (st_inner st))) m, i, b)"
    "ds_queue i = ds_queue (st_inner st)" "length (ds_bytes i) = lay_width (q_layout (ds_queue (st_inner st)))"
    "validate_header m = Inr (q_layout (ds_queue (st_inner st)))"
    by (rule stream_pop_inv)
  let ?d1 = "put_stream port st i (set_slice (dpi_shm d) (q_seg (ds_queue i)) m) d"
  have inv1: "dpi_inv ?d1" using dpi_inv_put_stream [OF inv st] i by simp
  have ok: "stream_ok (dpi_shm ?d1) i" using inv1 unfolding dpi_inv_def by (auto split: if_splits)
  define d' where "d' = (if b then count (\<lambda>c. c\<lparr>READ_OK := wrap 64 (READ_OK c + 1)\<rparr>) ?d1 else ?d1)"
  have e: "istream_consume d port st consume = Some (d', i)"
    using True i by (simp add: istream_consume_def Let_def d'_def)
  have "dpi_shm d' = dpi_shm ?d1" "dpi_ctx d' = dpi_ctx ?d1" by (simp_all add: d'_def)
  then show ?thesis
    using that [OF e] inv1 ok i(2) dpi_inv_cong [of d' ?d1] stream_port_width_cong [of d' ?d1]
      stream_port_width_put [OF st] by simp
qed

lemma istream_step_keeps:
  assumes inv: "dpi_inv d"
  shows "\<exists>d' o' r. stream_istream_step_impl now d port consume out = Some (d', o', r) \<and> keeps d d'"
proof (cases "ctx_streams (dpi_ctx d) port")
  case None
  with inv show ?thesis by (simp add: stream_istream_step_impl_def)
next
  case (Some st)
  obtain d1 i where c: "istream_consume d port st consume = Some (d1, i)" and k: "keeps d d1"
    and i: "ds_queue i = ds_queue (st_inner st)" "stream_ok (dpi_shm d1) i"
    and st1: "\<exists>st'. ctx_streams (dpi_ctx d1) port = Some st' \<and> st_inner st' = i"
    using istream_consume_keeps [OF inv Some] .
  from st1 obtain st' where st': "ctx_streams (dpi_ctx d1) port = Some st'" "st_inner st' = i" by blast
  have w: "st_dpi_width_bytes st' = st_dpi_width_bytes st"
    using k st' Some by (metis option.inject option.map(2) stream_port_width_def)
  then have same: "st\<lparr>st_inner := x\<rparr> = st'\<lparr>st_inner := x\<rparr>" for x by simp
  obtain i' b where p: "stream_peek (dpi_shm d1) i = Some (i', b)" "ds_queue i' = ds_queue i"
    "length (ds_bytes i') = lay_width (q_layout (ds_queue i))"
    using i(2) by (rule stream_peek_inv)
  let ?i = "i'\<lparr>ds_last_istream_valid := b\<rparr>"
  let ?d2 = "put_stream port st' ?i (set_slice (dpi_shm d1) (q_seg (ds_queue ?i)) (q_mem (dpi_shm d1) (ds_queue i))) d1"
  have "dpi_inv ?d2"
    by (rule dpi_inv_put_stream [OF conjunct1 [OF k] st'(1)]) (use st' p i(2) in \<open>simp_all add: stream_ok_def\<close>)
  moreover have "?d2 = put_stream port st ?i (dpi_shm d1) d1"
    using p by (simp add: put_stream_def same q_mem_def)
  ultimately have "keeps d (put_stream port st ?i (dpi_shm d1) d1)"
    using k stream_port_width_put [OF st'(1)] by metis
  then show ?thesis
    using Some c p by (cases b) (simp_all add: stream_istream_step_impl_def Let_def keeps_frame)
qed

lemma try_write_keeps:
  assumes inv: "dpi_inv d" and data: "call_ok (stream_port_width d) (tapa_stream_try_write port data)"
  shows "\<exists>d' r. stream_try_write_impl d port data = Some (d', r) \<and> keeps d d'"
proof (cases "ctx_streams (dpi_ctx d) port")
  case None
  with inv show ?thesis by (simp add: stream_try_write_impl_def)
next
  case (Some st)
  then have ok: "stream_ok (dpi_shm d) (st_inner st)" using inv by (simp add: dpi_inv_def)
  have "st_dpi_width_bytes st \<le> length data" using data Some by (simp add: call_ok_def stream_port_width_def)
  from push_from_dpi_inv [OF ok this] obtain m i r where
    "push_from_dpi (dpi_shm d) (st_inner st) data (st_dpi_width_bytes st)
      = Some (set_slice (dpi_shm d) (q_seg (ds_queue (st_inner st))) m, i, r)"
    "ds_queue i = ds_queue (st_inner st)" "length (ds_bytes i) = lay_width (q_layout (ds_queue (st_inner st)))"
    "validate_header m = Inr (q_layout (ds_queue (st_inner st)))" .
  with Some dpi_inv_put_stream [OF inv Some, of i m] show ?thesis
    by (cases r) (simp_all add: stream_try_write_impl_def Let_def keeps_frame)
qed

lemma ostream_step_keeps:
  assumes inv: "dpi_inv d" and data: "call_ok (stream_port_width d) (tapa_hls_stream_ostream_step port write data)"
  shows "\<exists>d' r. stream_hls_ostream_step_impl now d port write data = Some (d', r) \<and> keeps d d'"
proof (cases "ctx_streams (dpi_ctx d) port")
  case None
  with inv show ?thesis by (simp add: stream_hls_ostream_step_impl_def)
next
  case (Some st)
  have ready: "\<exists>d'. (\<exists>r. write_ready now e i port k = (d', r)) \<and> keeps d d'" if "keeps d e" for e i k
    using that by (metis dpi_inv_cong stream_port_width_cong prod.collapse write_ready_frame)
  have ok: "stream_ok (dpi_shm d) (st_inner st)" using inv Some by (simp add: dpi_inv_def)
  have "st_dpi_width_bytes st \<le> length data" using data Some by (simp add: call_ok_def stream_port_width_def)
  from push_from_dpi_inv [OF ok this] obtain m i r where
    "push_from_dpi (dpi_shm d) (st_inner st) data (st_dpi_width_bytes st)
      = Some (set_slice (dpi_shm d) (q_seg (ds_queue (st_inner st))) m, i, r)"
    "ds_queue i = ds_queue (st_inner st)" "length (ds_bytes i) = lay_width (q_layout (ds_queue (st_inner st)))"
    "validate_header m = Inr (q_layout (ds_queue (st_inner st)))" .
  with Some dpi_inv_put_stream [OF inv Some, of i m] show ?thesis
    using inv by (cases r) (simp_all add: stream_hls_ostream_step_impl_def Let_def keeps_frame ready)
qed

lemma can_write_keeps: "dpi_inv d \<Longrightarrow> keeps d (fst (stream_can_write_impl now d port))"
  by (simp add: stream_can_write_impl_def keeps_frame split: option.split)

lemma dpi_export_keeps:
  assumes "dpi_inv d" and "call_ok (stream_port_width d) c"
  shows "\<exists>d' o' r. dpi_export now d c = Some (d', o', r) \<and> keeps d d'"
proof (cases c)
  case (tapa_stream_can_write port)
  then show ?thesis using can_write_keeps [OF assms(1), of now port]
    by (cases "stream_can_write_impl now d port") simp
qed (use assms axi_write_keeps try_read_keeps istream_step_keeps try_write_keeps ostream_step_keeps in fastforce)+

text \<open>C4: A simulation never panics and never corrupts a queue: from a context whose streams are accepted
  queues apart from its AXI buffers, any sequence of DPI calls with large enough input buffers runs
  to its end, and every stream is still an accepted queue of the same layout.\<close>

theorem dpi_run_safe:
  assumes "dpi_inv d" and "list_all (\<lambda>(now, c). call_ok (stream_port_width d) c) cs"
  shows "\<exists>d'. dpi_run d cs = Some d' \<and> dpi_inv d'"
  using assms
proof (induction cs arbitrary: d)
  case (Cons nc cs)
  obtain now c where nc: "nc = (now, c)" by force
  with Cons.prems obtain d' o' r where e: "dpi_export now d c = Some (d', o', r)" "keeps d d'"
    using dpi_export_keeps [of d c now] by auto
  then show ?case using Cons.IH [of d'] Cons.prems nc by simp
qed simp

definition demo_queue :: SharedMemoryQueue where
  "demo_queue = \<lparr>q_seg = \<lparr>seg_path = ''q'', seg_inode = 0, seg_owner = False\<rparr>, q_layout = demo_layout\<rparr>"

definition demo_stream :: DpiStream where
  "demo_stream = \<lparr>st_inner = \<lparr>ds_queue = demo_queue, ds_bytes = [0], ds_last_istream_valid = False\<rparr>,
     st_dpi_width_bytes = 1\<rparr>"

text \<open>A context with one queue, on inode 0, and one 4-byte buffer, on inode 1 at base address 16.\<close>

definition demo_dpi :: dpi where
  "demo_dpi = \<lparr>dpi_shm = \<lparr>shm_names = [''q'' \<mapsto> 0, ''b'' \<mapsto> 1],
       shm_bytes = (\<lambda>i. if i = 0 then demo_mem else [1, 2, 3, 4]), shm_next = 2, shm_counter = 0\<rparr>,
     dpi_ctx = \<lparr>ctx_buffers = [''b'' \<mapsto> (\<lparr>seg_path = ''b'', seg_inode = 1, seg_owner = False\<rparr>, 16)],
       ctx_streams = [''q'' \<mapsto> demo_stream]\<rparr>,
     dpi_stats = \<lparr>READ_OK = 0, READ_MISS = 0, WRITE_OK = 0, WRITE_FULL = 0, LAST_REPORT = 0, MISS_COUNTER = 0\<rparr>,
     dpi_reports = []\<rparr>"

lemma demo_dpi_sel:
  "ctx_streams (dpi_ctx demo_dpi) ''q'' = Some demo_stream"
  "q_mem (dpi_shm demo_dpi) demo_queue = demo_mem"
  "dpi_inv demo_dpi"
  using demo_ok
  by (auto simp: demo_dpi_def demo_stream_def demo_queue_def q_mem_def as_slice_def dpi_inv_def stream_ok_def
      demo_layout_def)

theorem dpi_run_safe_witness:
  "\<exists>d'. dpi_run demo_dpi [(5, tapa_stream_try_write ''q'' [7]), (6, tapa_axi_write ''b'' 17 2 [8, 9])] = Some d' \<and> dpi_inv d'"
  using dpi_run_safe [OF demo_dpi_sel(3),
      of "[(5, tapa_stream_try_write ''q'' [7]), (6, tapa_axi_write ''b'' 17 2 [8, 9])]"]
  by (simp add: call_ok_def stream_port_width_def demo_dpi_sel demo_stream_def)

section \<open>Set-up\<close>

lemma queue_open_validated:
  "queue_open s path = Inr q \<Longrightarrow> validate_header (q_mem s q) = Inr (q_layout q)"
  by (auto simp: queue_open_def bindR_eq_Inr q_mem_def)

lemma open_stream_ok: "open_stream s entry = Inr st \<Longrightarrow> stream_ok s (st_inner st)"
  by (auto simp: open_stream_def bindR_eq_Inr stream_ok_def map_err_def
      dest!: queue_open_validated split: sum.splits)

lemma open_entries_Some:
  assumes "open_entries f es = Inr m" and "m k = Some v"
  shows "\<exists>entry. (k, entry) \<in> set es \<and> f entry = Inr v"
proof -
  have "m0 k = Some v \<or> (\<exists>entry. (k, entry) \<in> set es \<and> f entry = Inr v)"
    if "foldR (\<lambda>m (name, entry). bindR (f entry) (\<lambda>v. Inr (m(name \<mapsto> v)))) m0 es = Inr m" for m0
    using that
  proof (induction es arbitrary: m0)
    case (Cons e es)
    obtain name entry where e: "e = (name, entry)" by force
    with Cons.prems obtain v' where v': "f entry = Inr v'" by (cases "f entry") simp_all
    show ?case using Cons.IH [of "m0(name \<mapsto> v')"] Cons.prems e v' by (auto split: if_splits)
  qed (use assms(2) in simp)
  from this [of Map.empty] show ?thesis using assms(1) by (simp add: open_entries_def)
qed

lemma open_stream_path:
  "open_stream s entry = Inr st \<Longrightarrow> shm_names s (se_path entry) = Some (seg_inode (q_seg (ds_queue (st_inner st))))"
  by (auto simp: open_stream_def queue_open_def segment_open_def bindR_eq_Inr map_err_def
      split: sum.splits option.splits)

lemma open_buffer_path:
  "open_buffer s entry = Inr (seg, base) \<Longrightarrow> shm_names s (be_path entry) = Some (seg_inode seg)"
  by (auto simp: open_buffer_def open_segment_def segment_open_def bindR_eq_Inr map_err_def
      split: sum.splits option.splits)

text \<open>C12: A context made from the environment satisfies the invariant, provided no buffer entry of the
  configuration names the file of a stream entry: every stream is a queue its header validates, with a
  token buffer of the queue's width.\<close>

theorem from_env_inv:
  assumes "from_env parse (Some raw) s = Inr ctx" and "parse raw = Inr cfg"
    and apart: "\<And>b be t se i. (b, be) \<in> set (cfg_buffers cfg) \<Longrightarrow> (t, se) \<in> set (cfg_streams cfg) \<Longrightarrow>
      shm_names s (be_path be) = Some i \<Longrightarrow> shm_names s (se_path se) \<noteq> Some i"
  shows "dpi_inv \<lparr>dpi_shm = s, dpi_ctx = ctx, dpi_stats = stats, dpi_reports = []\<rparr>"
proof -
  from assms(1,2) obtain buffers streams where
    b: "open_entries (open_buffer s :: _ \<Rightarrow> 'a DpiError + _) (cfg_buffers cfg) = Inr buffers"
    and t: "open_entries (open_stream s :: _ \<Rightarrow> 'a DpiError + _) (cfg_streams cfg) = Inr streams"
    and ctx: "ctx = \<lparr>ctx_buffers = buffers, ctx_streams = streams\<rparr>"
    by (auto simp: from_env_def bindR_eq_Inr)
  have "stream_ok s (st_inner st)" if "streams p = Some st" for p st
    using open_entries_Some [OF t that] open_stream_ok by blast
  moreover have "seg_inode seg \<noteq> seg_inode (q_seg (ds_queue (st_inner st)))"
    if bp: "buffers p = Some (seg, base)" and tp: "streams p' = Some st" for p p' seg base st
  proof -
    obtain be where be: "(p, be) \<in> set (cfg_buffers cfg)" "shm_names s (be_path be) = Some (seg_inode seg)"
      using open_entries_Some [OF b bp] open_buffer_path by blast
    obtain se where se: "(p', se) \<in> set (cfg_streams cfg)"
      "shm_names s (se_path se) = Some (seg_inode (q_seg (ds_queue (st_inner st))))"
      using open_entries_Some [OF t tp] open_stream_path by blast
    show ?thesis using apart [OF be(1) se(1) be(2)] se(2) by auto
  qed
  ultimately show ?thesis by (simp add: dpi_inv_def ctx)
qed

definition demo_cfg :: DpiConfig where
  "demo_cfg = \<lparr>cfg_buffers = [(''b'', \<lparr>be_base_addr = 16, be_path = ''b''\<rparr>)],
     cfg_streams = [(''q'', \<lparr>se_dpi_width_bytes = 1, se_path = ''q''\<rparr>)]\<rparr>"

lemma demo_from_env:
  "from_env (\<lambda>_. Inr demo_cfg :: unit + DpiConfig) (Some ''{}'') (dpi_shm demo_dpi) = Inr (dpi_ctx demo_dpi)"
  using demo_ok(5)
  by (simp add: from_env_def demo_cfg_def open_entries_def open_buffer_def open_segment_def segment_open_def
      open_stream_def queue_open_def demo_dpi_def as_slice_def demo_stream_def demo_queue_def demo_layout_def)

theorem from_env_inv_witness:
  "dpi_inv \<lparr>dpi_shm = dpi_shm demo_dpi, dpi_ctx = dpi_ctx demo_dpi, dpi_stats = dpi_stats demo_dpi, dpi_reports = []\<rparr>"
  by (rule from_env_inv [OF demo_from_env, where cfg = demo_cfg])
    (auto simp: demo_cfg_def demo_dpi_def split: if_splits)

end
