(* ===== verification/Dpi_Behaviour.thy ===== *)
theory Dpi_Behaviour
  imports Dpi
begin

text \<open>
  What the DPI calls do, seen from the simulator: AXI spans read back what was written and nothing else
  changes; a stream port is the abstract token list of its queue, with the valid and ready flags of the
  hardware handshake.
\<close>

section \<open>AXI ports\<close>

text \<open>C9: An AXI write that resolves is read back by a read of the same span, whatever buffer the read is
  given, and changes no byte outside the span and no other segment.\<close>

theorem axi_write_then_read:
  assumes "resolve_span d port addr width = Some (seg, offset)" and "length data = width"
    and "width \<le> length out"
  defines "d' \<equiv> axi_write_impl d port addr width data"
  shows "axi_read_impl d' port addr width out = data @ drop width out \<and>
    length (as_slice (dpi_shm d') seg) = length (as_slice (dpi_shm d) seg) \<and>
    (\<forall>i < length (as_slice (dpi_shm d) seg). \<not> (offset \<le> i \<and> i < offset + width) \<longrightarrow>
      as_slice (dpi_shm d') seg ! i = as_slice (dpi_shm d) seg ! i) \<and>
    (\<forall>seg'. seg_inode seg' \<noteq> seg_inode seg \<longrightarrow> as_slice (dpi_shm d') seg' = as_slice (dpi_shm d) seg')"
proof -
  let ?m = "as_slice (dpi_shm d) seg"
  have d': "d' = d\<lparr>dpi_shm := set_slice (dpi_shm d) seg (blit offset data ?m)\<rparr>"
    using assms(1,2) by (simp add: d'_def axi_write_impl_def segment_write_at_def)
  have inb: "offset + width \<le> length ?m" using assms(1) by (auto simp: resolve_span_Some)
  then have len: "length (blit offset data ?m) = length ?m" using assms(2) by simp
  have r': "resolve_span d' port addr width = Some (seg, offset)"
    using assms(1) len by (auto simp: resolve_span_Some d')
  have "axi_read_impl d' port addr width out = blit 0 data out"
    using r' subslice_blit_same [of offset data ?m] inb assms(2) by (simp add: axi_read_impl_def d')
  moreover have "blit 0 data out = data @ drop width out" using assms(2) by (simp add: blit_def)
  moreover have "blit offset data ?m ! i = ?m ! i"
    if "i < length ?m" "\<not> (offset \<le> i \<and> i < offset + width)" for i
    using that inb assms(2) by (auto simp: nth_blit)
  ultimately show ?thesis using len by (simp add: d')
qed

theorem axi_write_then_read_witness:
  "axi_read_impl (axi_write_impl demo_dpi ''b'' 17 2 [8, 9]) ''b'' 17 2 [0, 0, 5] = [8, 9, 5]"
  using axi_write_then_read [of demo_dpi "''b''" 17 2 "\<lparr>seg_path = ''b'', seg_inode = 1, seg_owner = False\<rparr>" 1 "[8, 9]" "[0, 0, 5]"]
  by (simp add: resolve_span_Some demo_dpi_def as_slice_def)

text \<open>C10: An AXI access outside the buffer does nothing: unless the port is known, the address is not below
  the base, and the whole span lies in the segment, a write leaves the state and a read leaves the
  output buffer.\<close>

theorem axi_out_of_bounds:
  assumes "ctx_buffers (dpi_ctx d) port = Some (seg, base)"
    and "addr < base \<or> length (as_slice (dpi_shm d) seg) < addr - base + width"
  shows "axi_write_impl d port addr width data = d \<and> axi_read_impl d port addr width out = out"
proof -
  have "resolve_span d port addr width = None"
    using assms by (cases "resolve_span d port addr width") (auto simp: resolve_span_Some)
  then show ?thesis by (simp add: axi_write_impl_def axi_read_impl_def)
qed

theorem axi_out_of_bounds_witness:
  "axi_write_impl demo_dpi ''b'' 19 2 [8, 9] = demo_dpi \<and> axi_read_impl demo_dpi ''b'' 15 1 [5] = [5]"
  using axi_out_of_bounds [of demo_dpi "''b''" "\<lparr>seg_path = ''b'', seg_inode = 1, seg_owner = False\<rparr>" 16 19 2 "[8, 9]"]
    axi_out_of_bounds [of demo_dpi "''b''" "\<lparr>seg_path = ''b'', seg_inode = 1, seg_owner = False\<rparr>" 16 15 1 _ "[5]"]
  by (simp add: demo_dpi_def as_slice_def)

section \<open>Streams as token lists\<close>

definition inner_tokens :: "shm \<Rightarrow> DpiStreamInner \<Rightarrow> byte list list" where
  "inner_tokens s i = mem_tokens (q_layout (ds_queue i)) (q_mem s (ds_queue i))"

definition inner_ok :: "shm \<Rightarrow> DpiStreamInner \<Rightarrow> bool" where
  "inner_ok s i \<longleftrightarrow> mem_ok (q_layout (ds_queue i)) (q_mem s (ds_queue i)) \<and>
     length (ds_bytes i) = lay_width (q_layout (ds_queue i))"

text \<open>A token in a buffer of \<open>n\<close> bytes: cut, or padded with zeros.\<close>

definition fit_to :: "nat \<Rightarrow> byte list \<Rightarrow> byte list" where
  "fit_to n t = take n t @ replicate (n - length t) 0"

lemma length_fit_to [simp]: "length (fit_to n t) = n"
  by (simp add: fit_to_def)

lemma fit_to_id: "length t = n \<Longrightarrow> fit_to n t = t"
  by (simp add: fit_to_def)

lemma copy_to_dpi_fit: "copy_to_dpi bytes buf = fit_to (length buf) bytes"
  by (simp add: copy_to_dpi_def fit_to_def Let_def min_def)

lemma fit_to_fit_to: "n \<le> w \<Longrightarrow> length t = n \<Longrightarrow> fit_to n (fit_to w t) = t"
  by (simp add: fit_to_def)

lemma length_token_in: "mem_ok l m \<Longrightarrow> t \<in> set (mem_tokens l m) \<Longrightarrow> length t = lay_width l"
  using layout_okD(4) [of l] by (auto simp: mem_tokens_def mem_ok_def token_def intro!: length_subslice intro: le_trans)

lemma stream_pop_empty:
  assumes "inner_ok s i" and "inner_tokens s i = []"
  shows "stream_pop s i = Some (s, i, False)"
  using assms mem_pop_empty [of "q_layout (ds_queue i)" "q_mem s (ds_queue i)" "ds_bytes i"]
  by (simp add: stream_pop_def pop_into_def inner_ok_def inner_tokens_def q_mem_def)

lemma stream_pop_token:
  assumes "inner_ok s i" and "inner_tokens s i = t # ts"
  obtains s' where "stream_pop s i = Some (s', i\<lparr>ds_bytes := t\<rparr>, True)"
    "inner_ok s' (i\<lparr>ds_bytes := t\<rparr>)" "inner_tokens s' i = ts"
    "\<exists>m. s' = set_slice s (q_seg (ds_queue i)) m"
proof -
  let ?l = "q_layout (ds_queue i)" and ?m = "q_mem s (ds_queue i)"
  from assms have ok: "mem_ok ?l ?m" and ne: "mem_tokens ?l ?m \<noteq> []"
    and len: "lay_width ?l \<le> length (ds_bytes i)" "length (ds_bytes i) = lay_width ?l"
    by (simp_all add: inner_ok_def inner_tokens_def)
  have t: "length t = lay_width ?l"
    using length_token_in [OF ok, of t] assms(2) by (simp add: inner_tokens_def)
  obtain m' where "mem_pop ?l ?m (ds_bytes i) = Some (m', hd (mem_tokens ?l ?m) @ drop (lay_width ?l) (ds_bytes i), True)"
    "mem_ok ?l m'" "mem_tokens ?l m' = tl (mem_tokens ?l ?m)"
    using mem_pop_accept [OF ok ne len(1)] by metis
  then show ?thesis
    using that [of "set_slice s (q_seg (ds_queue i)) m'"] assms(2) len(2) t
    by (auto simp: stream_pop_def pop_into_def inner_ok_def inner_tokens_def q_mem_def)
qed

lemma stream_peek_eq:
  assumes "inner_ok s i"
  shows "stream_peek s i =
    (case inner_tokens s i of [] \<Rightarrow> Some (i, False) | t # ts \<Rightarrow> Some (i\<lparr>ds_bytes := t\<rparr>, True))"
proof -
  let ?l = "q_layout (ds_queue i)" and ?m = "q_mem s (ds_queue i)"
  have ok: "mem_ok ?l ?m" and len: "length (ds_bytes i) = lay_width ?l"
    using assms by (simp_all add: inner_ok_def)
  show ?thesis
    using mem_read_front_eq [OF ok, of "ds_bytes i"] len
    by (auto simp: stream_peek_def peek_into_def mem_peek_def inner_tokens_def split: list.split)
qed

lemma push_from_dpi_token:
  assumes ok: "inner_ok s i" and room: "length (inner_tokens s i) < lay_depth (q_layout (ds_queue i))"
    and cnt: "load_tail (q_mem s (ds_queue i)) + 1 < 2 ^ 64" and n: "length data = n"
  defines "t \<equiv> fit_to (lay_width (q_layout (ds_queue i))) data"
  obtains s' where "push_from_dpi s i data n =
      Some (s', i\<lparr>ds_bytes := t\<rparr>, Inr (length (inner_tokens s' i) = lay_depth (q_layout (ds_queue i))))"
    "inner_ok s' (i\<lparr>ds_bytes := t\<rparr>)" "inner_tokens s' i = inner_tokens s i @ [t]"
    "\<exists>m. s' = set_slice s (q_seg (ds_queue i)) m"
proof -
  let ?l = "q_layout (ds_queue i)" and ?m = "q_mem s (ds_queue i)"
  have len: "length (ds_bytes i) = lay_width ?l" and mok: "mem_ok ?l ?m" using ok by (simp_all add: inner_ok_def)
  have bytes: "take (min (lay_width ?l) n) data @ replicate (lay_width ?l - min (lay_width ?l) n) 0 = t"
    using n by (auto simp: t_def fit_to_def min_def)
  have tl: "length t = lay_width ?l" by (simp add: t_def)
  obtain m' where "mem_push ?l t ?m = Some (m', Inr (length (mem_tokens ?l m') = lay_depth ?l))"
    "mem_ok ?l m'" "mem_tokens ?l m' = mem_tokens ?l ?m @ [t]"
    using mem_push_accept [OF mok _ tl cnt] room by (metis inner_tokens_def)
  then show ?thesis
    using that [of "set_slice s (q_seg (ds_queue i)) m'"] len bytes tl
    by (auto simp: push_from_dpi_def Let_def try_push_check_full_def inner_ok_def inner_tokens_def q_mem_def)
qed

section \<open>Input streams\<close>

text \<open>C5: An input stream port presents the front token and holds it until it is consumed.  A step drops the
  token the previous step presented exactly when the simulator consumes it; it then reports valid
  exactly when a token is left, and the output holds the front token, cut or zero-padded to the width
  of the port.  With nothing left the output is not touched.\<close>

theorem istream_step_presents_front:
  fixes consume :: bool
  assumes st: "ctx_streams (dpi_ctx d) port = Some st" and ok: "inner_ok (dpi_shm d) (st_inner st)"
    and out: "length out = st_dpi_width_bytes st"
  defines "ts \<equiv> (let ts = inner_tokens (dpi_shm d) (st_inner st)
      in if ds_last_istream_valid (st_inner st) \<and> consume then tl ts else ts)"
  shows "\<exists>d' st'. stream_istream_step_impl now d port consume out =
      Some (d', if ts = [] then out else fit_to (st_dpi_width_bytes st) (hd ts), ts \<noteq> []) \<and>
    ctx_streams (dpi_ctx d') port = Some st' \<and> inner_tokens (dpi_shm d') (st_inner st') = ts \<and>
    ds_last_istream_valid (st_inner st') = (ts \<noteq> []) \<and> inner_ok (dpi_shm d') (st_inner st')"
proof -
  have "\<exists>d1 i. istream_consume d port st consume = Some (d1, i) \<and> inner_ok (dpi_shm d1) i \<and>
      inner_tokens (dpi_shm d1) i = ts \<and> ds_queue i = ds_queue (st_inner st)"
  proof (cases "ds_last_istream_valid (st_inner st) \<and> consume")
    case False
    then show ?thesis using ok by (auto simp: istream_consume_def ts_def)
  next
    case True
    show ?thesis
    proof (cases "inner_tokens (dpi_shm d) (st_inner st)")
      case Nil
      then show ?thesis using True ok stream_pop_empty [OF ok Nil]
        by (simp add: istream_consume_def ts_def Let_def)
    next
      case (Cons t ts')
      obtain s' where "stream_pop (dpi_shm d) (st_inner st) = Some (s', (st_inner st)\<lparr>ds_bytes := t\<rparr>, True)"
        "inner_ok s' ((st_inner st)\<lparr>ds_bytes := t\<rparr>)" "inner_tokens s' (st_inner st) = ts'"
        using stream_pop_token [OF ok Cons] by metis
      then show ?thesis using True Cons
        by (simp add: istream_consume_def ts_def Let_def inner_tokens_def)
    qed
  qed
  then obtain d1 i where c: "istream_consume d port st consume = Some (d1, i)" "inner_ok (dpi_shm d1) i"
    "inner_tokens (dpi_shm d1) i = ts" by blast
  have pad: "blit 0 (copy_to_dpi t (take (st_dpi_width_bytes st) out)) out = fit_to (st_dpi_width_bytes st) t" for t
    using out by (simp add: copy_to_dpi_fit blit_def)
  show ?thesis
  proof (cases ts)
    case Nil
    then show ?thesis
      using st c stream_peek_eq [OF c(2)]
      by (simp add: stream_istream_step_impl_def Let_def inner_ok_def inner_tokens_def)
  next
    case (Cons t ts')
    have "length t = lay_width (q_layout (ds_queue i))"
      using length_token_in [of "q_layout (ds_queue i)" "q_mem (dpi_shm d1) (ds_queue i)" t] c Cons
      by (simp add: inner_ok_def inner_tokens_def)
    then show ?thesis
      using st c stream_peek_eq [OF c(2)] Cons pad
      by (simp add: stream_istream_step_impl_def Let_def inner_ok_def inner_tokens_def)
  qed
qed

lemma demo_inner: "inner_ok (dpi_shm demo_dpi) (st_inner demo_stream)"
  "inner_tokens (dpi_shm demo_dpi) (st_inner demo_stream) = []"
  using demo_ok demo_dpi_sel
  by (simp_all add: inner_ok_def inner_tokens_def demo_stream_def demo_queue_def demo_layout_def)

lemma demo_width: "st_dpi_width_bytes demo_stream = 1"
  by (simp add: demo_stream_def)

theorem istream_step_presents_front_witness:
  "\<exists>d'. stream_istream_step_impl 5 demo_dpi ''q'' True [1] = Some (d', [1], False)"
  using istream_step_presents_front [OF demo_dpi_sel(1) demo_inner(1), where out = "[1]" and consume = True and now = 5]
  by (auto simp: demo_inner(2) Let_def demo_width split: if_splits)

section \<open>Round trip\<close>

text \<open>C6: A token written on one port of a queue is the token read on another port of it: with the queue
  empty, and ports of one width that fits the queue's tokens, the write is accepted, the read succeeds
  and delivers the written bytes, and the queue is empty again.\<close>

theorem stream_write_then_read:
  assumes w: "ctx_streams (dpi_ctx d) pw = Some stw" and r: "ctx_streams (dpi_ctx d) pr = Some str"
    and same: "q_layout (ds_queue (st_inner stw)) = q_layout (ds_queue (st_inner str))"
      "seg_inode (q_seg (ds_queue (st_inner stw))) = seg_inode (q_seg (ds_queue (st_inner str)))"
    and ok: "inner_ok (dpi_shm d) (st_inner stw)" "inner_ok (dpi_shm d) (st_inner str)"
    and empty: "inner_tokens (dpi_shm d) (st_inner stw) = []"
    and cnt: "load_tail (q_mem (dpi_shm d) (ds_queue (st_inner stw))) + 1 < 2 ^ 64"
    and n: "st_dpi_width_bytes stw = n" "st_dpi_width_bytes str = n"
      "n \<le> lay_width (q_layout (ds_queue (st_inner stw)))" "length data = n" "length out = n"
  shows "\<exists>d1 d2 st. stream_try_write_impl d pw data = Some (d1, True) \<and>
    stream_try_read_impl now d1 pr out = Some (d2, data, True) \<and>
    ctx_streams (dpi_ctx d2) pr = Some st \<and> inner_tokens (dpi_shm d2) (st_inner st) = []"
proof -
  let ?iw = "st_inner stw" and ?ir = "st_inner str"
  let ?l = "q_layout (ds_queue (st_inner stw))"
  let ?t = "fit_to (lay_width ?l) data"
  have d: "0 < lay_depth ?l" using ok(1) layout_okD(1) [of ?l] by (simp add: inner_ok_def mem_ok_def)
  obtain s' where push: "push_from_dpi (dpi_shm d) ?iw data n = Some (s', ?iw\<lparr>ds_bytes := ?t\<rparr>,
      Inr (length (inner_tokens s' ?iw) = lay_depth ?l))"
    and ok': "inner_ok s' (?iw\<lparr>ds_bytes := ?t\<rparr>)" and tok: "inner_tokens s' ?iw = [?t]"
    using push_from_dpi_token [OF ok(1) _ cnt n(4)] d empty by (metis append_Nil list.size(3))
  define d1 where "d1 = count (\<lambda>c. c\<lparr>WRITE_OK := wrap 64 (WRITE_OK c + 1)\<rparr>)
    (put_stream pw stw (?iw\<lparr>ds_bytes := ?t\<rparr>) s' d)"
  have wr: "stream_try_write_impl d pw data = Some (d1, True)"
    using w n push by (simp add: stream_try_write_impl_def Let_def d1_def)
  have "\<exists>st1. ctx_streams (dpi_ctx d1) pr = Some st1 \<and> st_dpi_width_bytes st1 = n \<and>
      inner_ok s' (st_inner st1) \<and> inner_tokens s' (st_inner st1) = [?t]"
  proof (cases "pr = pw")
    case True
    then show ?thesis using ok' tok n by (simp add: d1_def inner_tokens_def)
  next
    case False
    then show ?thesis
      using r n ok(2) ok' tok same
      by (simp add: d1_def inner_tokens_def inner_ok_def q_mem_def as_slice_def)
  qed
  then obtain st1 where st1: "ctx_streams (dpi_ctx d1) pr = Some st1" "st_dpi_width_bytes st1 = n"
    "inner_ok s' (st_inner st1)" "inner_tokens s' (st_inner st1) = [?t]" by blast
  obtain s2 where "stream_pop s' (st_inner st1) = Some (s2, (st_inner st1)\<lparr>ds_bytes := ?t\<rparr>, True)"
    "inner_tokens s2 (st_inner st1) = []"
    using stream_pop_token [OF st1(3,4)] by metis
  moreover have "dpi_shm d1 = s'" by (simp add: d1_def)
  moreover have "blit 0 (copy_to_dpi ?t (take n out)) out = data"
    using n by (simp add: copy_to_dpi_fit fit_to_fit_to blit_def)
  ultimately show ?thesis
    using wr st1(1,2) by (simp add: stream_try_read_impl_def Let_def inner_tokens_def)
qed

theorem stream_write_then_read_witness:
  "\<exists>d1 d2. stream_try_write_impl demo_dpi ''q'' [7] = Some (d1, True) \<and>
     stream_try_read_impl 5 d1 ''q'' [0] = Some (d2, [7], True)"
  using stream_write_then_read [OF demo_dpi_sel(1) demo_dpi_sel(1) _ _ demo_inner(1) demo_inner(1), of 1 "[7]" "[0]" 5]
    demo_inner(2) demo_dpi_sel(2) demo_ok(3)
  by (auto simp: demo_stream_def demo_queue_def demo_layout_def)

end
