(* ===== verification/BTree.thy ===== *)
theory BTree
  imports Prelude
begin

text \<open>
  \<^verbatim>\<open>std::collections::BTreeMap\<close> as the sources use it: keys in strictly ascending order,
  iteration in that order, \<^verbatim>\<open>insert\<close> replacing the value of a present key.  A map is the list
  of its entries in iteration order.  The locale \<open>ordered_map\<close> states what clients rely on and is
  interpreted on this representation.
\<close>

type_synonym ('k, 'v) btree = "('k \<times> 'v) list"

definition bt_ok :: "('k::linorder, 'v) btree \<Rightarrow> bool" where
  "bt_ok m \<longleftrightarrow> sorted_wrt (<) (map fst m)"

definition bt_get :: "('k, 'v) btree \<Rightarrow> 'k \<Rightarrow> 'v option" where
  "bt_get m k = map_of m k"

definition bt_keys :: "('k, 'v) btree \<Rightarrow> 'k list" where
  "bt_keys m = map fst m"

definition bt_values :: "('k, 'v) btree \<Rightarrow> 'v list" where
  "bt_values m = map snd m"

fun bt_insert :: "'k::linorder \<Rightarrow> 'v \<Rightarrow> ('k, 'v) btree \<Rightarrow> ('k, 'v) btree" where
  "bt_insert k v [] = [(k, v)]"
| "bt_insert k v ((k', v') # m) =
     (if k < k' then (k, v) # (k', v') # m
      else if k = k' then (k, v) # m
      else (k', v') # bt_insert k v m)"

definition bt_contains :: "('k, 'v) btree \<Rightarrow> 'k \<Rightarrow> bool" where
  "bt_contains m k \<longleftrightarrow> bt_get m k \<noteq> None"

text \<open>\<^verbatim>\<open>collect\<close> of an iterator of entries: later entries replace earlier ones.\<close>

definition bt_collect :: "('k::linorder \<times> 'v) list \<Rightarrow> ('k, 'v) btree" where
  "bt_collect es = fold (\<lambda>(k, v) m. bt_insert k v m) es []"

text \<open>In-place update of every value, as \<^verbatim>\<open>iter_mut\<close> does.\<close>

definition bt_map :: "('k \<Rightarrow> 'v \<Rightarrow> 'w) \<Rightarrow> ('k, 'v) btree \<Rightarrow> ('k, 'w) btree" where
  "bt_map f m = map (\<lambda>(k, v). (k, f k v)) m"

section \<open>The interface\<close>

locale ordered_map =
  fixes empty :: 'm
    and insert :: "'k::linorder \<Rightarrow> 'v \<Rightarrow> 'm \<Rightarrow> 'm"
    and get :: "'m \<Rightarrow> 'k \<Rightarrow> 'v option"
    and keys :: "'m \<Rightarrow> 'k list"
    and ok :: "'m \<Rightarrow> bool"
  assumes ok_empty: "ok empty"
    and ok_insert: "ok m \<Longrightarrow> ok (insert k v m)"
    and get_empty: "get empty k = None"
    and get_insert: "ok m \<Longrightarrow> get (insert k v m) k' = (if k' = k then Some v else get m k')"
    and keys_sorted: "ok m \<Longrightarrow> sorted_wrt (<) (keys m)"
    and set_keys: "ok m \<Longrightarrow> set (keys m) = {k. get m k \<noteq> None}"
begin

lemma ok_fold: "ok m \<Longrightarrow> ok (fold (\<lambda>(k, v) m. insert k v m) es m)"
  by (induction es arbitrary: m) (auto simp: ok_insert)

lemma get_fold:
  "ok m \<Longrightarrow> get (fold (\<lambda>(k, v) m. insert k v m) es m) k =
     (case map_of (rev es) k of None \<Rightarrow> get m k | Some v \<Rightarrow> Some v)"
proof (induction es arbitrary: m)
  case (Cons e es)
  obtain k1 v1 where "e = (k1, v1)" by force
  with Cons ok_insert [OF Cons.prems] show ?case
    by (auto simp: get_insert map_add_def split: option.splits)
qed simp

lemma keys_distinct: "ok m \<Longrightarrow> distinct (keys m)"
  using keys_sorted strict_sorted_iff by blast

lemma set_keys_fold:
  "set (keys (fold (\<lambda>(k, v) m. insert k v m) es empty)) = fst ` set es"
proof -
  let ?m = "fold (\<lambda>(k, v) m. insert k v m) es empty"
  have "get ?m k \<noteq> None \<longleftrightarrow> k \<in> fst ` set es" for k
    using map_of_eq_None_iff [of "rev es" k]
    by (auto simp: get_fold ok_empty get_empty split: option.split)
  then show ?thesis
    using set_keys [OF ok_fold [OF ok_empty]] by auto
qed

text \<open>
  The duplicate scan: inserting entry after entry and stopping at the first key already present
  succeeds exactly when all keys differ, and otherwise reports a key with the value it had.
\<close>

lemma scan_distinct:
  assumes "ok m"
  shows "(\<exists>m'. foldR (\<lambda>m (k, v). case get m k of Some p \<Rightarrow> Inl (err k p v) | None \<Rightarrow> Inr (insert k v m)) m es
               = Inr m')
         \<longleftrightarrow> distinct (map fst es) \<and> (\<forall>k \<in> fst ` set es. get m k = None)"
  using assms
proof (induction es arbitrary: m)
  case (Cons e es)
  obtain k v where e: "e = (k, v)" by force
  show ?case
    using Cons.IH [OF ok_insert [OF Cons.prems], of k v] Cons.prems e
    by (cases "get m k") (auto simp: get_insert)
qed simp

lemma scan_reports:
  assumes "ok m"
    and "foldR (\<lambda>m (k, v). case get m k of Some p \<Rightarrow> Inl (err k p v) | None \<Rightarrow> Inr (insert k v m)) m es = Inl e"
  shows "\<exists>pre k p v post. es = pre @ (k, v) # post \<and> e = err k p v \<and> (get m k = Some p \<or> (k, p) \<in> set pre)"
  using assms
proof (induction es arbitrary: m)
  case (Cons x es)
  obtain k v where x: "x = (k, v)" by force
  show ?case
  proof (cases "get m k")
    case (Some p)
    then have "x # es = [] @ (k, v) # es \<and> e = err k p v" using Cons.prems x by simp
    with Some show ?thesis by blast
  next
    case None
    with Cons.IH [OF ok_insert [OF Cons.prems(1)], of k v] Cons.prems x
    obtain pre k' p v' post where *: "es = pre @ (k', v') # post" "e = err k' p v'"
      "get (insert k v m) k' = Some p \<or> (k', p) \<in> set pre" by auto
    then have "x # es = (x # pre) @ (k', v') # post" by simp
    moreover have "get m k' = Some p \<or> (k', p) \<in> set (x # pre)"
      using *(3) x Cons.prems(1) by (auto simp: get_insert split: if_splits)
    ultimately show ?thesis using *(2) by blast
  qed
qed simp

end

section \<open>The representation meets the interface\<close>

lemma bt_ok_Nil [simp]: "bt_ok []"
  by (simp add: bt_ok_def)

lemma bt_ok_Cons [simp]: "bt_ok ((k, v) # m) \<longleftrightarrow> (\<forall>k' \<in> fst ` set m. k < k') \<and> bt_ok m"
  by (auto simp: bt_ok_def)

lemma fst_set_bt_insert: "fst ` set (bt_insert k v m) = insert k (fst ` set m)"
proof (induction m)
  case (Cons e m)
  then show ?case by (cases e) (auto simp: insert_commute)
qed simp

lemma set_bt_insert_subset: "set (bt_insert k v m) \<subseteq> insert (k, v) (set m)"
  by (induction m) (auto split: if_splits)

lemma bt_ok_insert [simp]: "bt_ok m \<Longrightarrow> bt_ok (bt_insert k v m)"
proof (induction m)
  case (Cons e m)
  then show ?case
    by (cases e) (force simp: fst_set_bt_insert)
qed simp

lemma bt_get_insert: "bt_get (bt_insert k v m) k' = (if k' = k then Some v else bt_get m k')"
  by (induction m) (auto simp: bt_get_def)

lemma bt_get_Some_in: "bt_get m k = Some v \<Longrightarrow> (k, v) \<in> set m"
  by (simp add: bt_get_def map_of_SomeD)

lemma bt_ok_distinct: "bt_ok m \<Longrightarrow> distinct (map fst m)"
  by (simp add: bt_ok_def strict_sorted_iff)

lemma bt_get_iff: "bt_ok m \<Longrightarrow> bt_get m k = Some v \<longleftrightarrow> (k, v) \<in> set m"
  by (simp add: bt_get_def bt_ok_distinct map_of_eq_Some_iff)

lemma bt_get_None: "bt_get m k = None \<longleftrightarrow> k \<notin> set (bt_keys m)"
  by (simp add: bt_get_def bt_keys_def map_of_eq_None_iff)

interpretation bt: ordered_map "[]" bt_insert bt_get bt_keys bt_ok
proof unfold_locales
  fix m :: "('k::linorder, 'v) btree"
  assume "bt_ok m"
  then show "sorted_wrt (<) (bt_keys m)" by (simp add: bt_ok_def bt_keys_def)
next
  fix m :: "('k::linorder, 'v) btree"
  show "set (bt_keys m) = {k. bt_get m k \<noteq> None}"
    by (auto simp: bt_get_None)
qed (auto simp: bt_get_def bt_get_insert [unfolded bt_get_def])

lemma bt_ok_collect [simp]: "bt_ok (bt_collect es)"
  unfolding bt_collect_def by (rule bt.ok_fold) simp

lemma bt_get_collect: "bt_get (bt_collect es) k = map_of (rev es) k"
  unfolding bt_collect_def by (simp add: bt.get_fold bt.get_empty split: option.split)

lemma bt_keys_collect: "set (bt_keys (bt_collect es)) = fst ` set es"
  unfolding bt_collect_def by (rule bt.set_keys_fold)

lemma bt_keys_map [simp]: "bt_keys (bt_map f m) = bt_keys m"
  by (simp add: bt_keys_def bt_map_def case_prod_unfold)

lemma bt_get_map: "bt_get (bt_map f m) k = map_option (f k) (bt_get m k)"
  by (induction m) (auto simp: bt_get_def bt_map_def)

lemma bt_ok_map [simp]: "bt_ok (bt_map f m) \<longleftrightarrow> bt_ok m"
  using bt_keys_map [of f m] by (simp add: bt_ok_def bt_keys_def)

end
