(* ===== verification/Ir_Port.thy ===== *)
theory Ir_Port
  imports BTree
begin

text \<open>
  \<^verbatim>\<open>tapa-core/tapa-ir/src/port.rs\<close> and \<^verbatim>\<open>target.rs\<close>: port categories, ports, the flow targets, and
  the projections from frontend names to RTL identifiers that code generation, packaging and
  co-simulation share.  The \<^verbatim>\<open>regex_lite\<close> classes \<^verbatim>\<open>\w\<close> and \<^verbatim>\<open>\d\<close> are ASCII classes.
\<close>

section \<open>Names\<close>

definition is_word :: "char \<Rightarrow> bool" where
  "is_word c \<longleftrightarrow> is_ascii_alphanumeric c \<or> c = CHR ''_''"

text \<open>The expression \<^verbatim>\<open>[a-zA-Z_]\w*\<close>.\<close>

definition is_c_ident :: "string \<Rightarrow> bool" where
  "is_c_ident s =
     (case s of [] \<Rightarrow> False | c # cs \<Rightarrow> (is_ascii_alphabetic c \<or> c = CHR ''_'') \<and> list_all is_word cs)"

text \<open>
  The captures of \<^verbatim>\<open>^([a-zA-Z_]\w*)\[(\d+)\]([a-zA-Z_]\w*)?$\<close>: neither the base nor the digits can hold a
  bracket, so the match is cut at the first opening and the next closing bracket.
\<close>

definition array_name_captures :: "string \<Rightarrow> (string \<times> string \<times> string) option" where
  "array_name_captures name =
     (case split_once ''['' name of
        None \<Rightarrow> None
      | Some (base, rest) \<Rightarrow>
          (case split_once '']'' rest of
             None \<Rightarrow> None
           | Some (digits, suffix) \<Rightarrow>
               if is_c_ident base \<and> digits \<noteq> [] \<and> list_all is_ascii_digit digits \<and>
                  (suffix = [] \<or> is_c_ident suffix)
               then Some (base, digits, suffix) else None))"

definition sanitize_array_name :: "string \<Rightarrow> string" where
  "sanitize_array_name name =
     (case array_name_captures name of
        None \<Rightarrow> name
      | Some (base, digits, suffix) \<Rightarrow> base @ ''_'' @ digits @ suffix)"

definition is_verilog_char :: "char \<Rightarrow> bool" where
  "is_verilog_char c \<longleftrightarrow> is_ascii_alphanumeric c \<or> c = CHR ''_'' \<or> c = CHR ''$''"

definition sanitize_identifier_name :: "string \<Rightarrow> string" where
  "sanitize_identifier_name name =
     (let name = sanitize_array_name name;
          out = map (\<lambda>c. if is_verilog_char c then c else CHR ''_'') name
      in if name \<noteq> [] \<and> is_ascii_digit (hd name) then CHR ''_'' # out else out)"

section \<open>Categories and targets\<close>

datatype ArgCategory =
  Istream | Ostream | Istreams | Ostreams | Scalar | Mmap | Immap | Ommap | AsyncMmap

fun category_str :: "ArgCategory \<Rightarrow> string" where
  "category_str Istream = ''istream''"
| "category_str Ostream = ''ostream''"
| "category_str Istreams = ''istreams''"
| "category_str Ostreams = ''ostreams''"
| "category_str Scalar = ''scalar''"
| "category_str Mmap = ''mmap''"
| "category_str Immap = ''immap''"
| "category_str Ommap = ''ommap''"
| "category_str AsyncMmap = ''async_mmap''"

definition all_categories :: "ArgCategory list" where
  "all_categories = [Istream, Ostream, Istreams, Ostreams, Scalar, Mmap, Immap, Ommap, AsyncMmap]"

definition category_from_str :: "string \<Rightarrow> ArgCategory option" where
  "category_from_str s = find (\<lambda>c. category_str c = s) all_categories"

fun is_input_stream :: "ArgCategory \<Rightarrow> bool" where
  "is_input_stream c = (case c of Istream \<Rightarrow> True | Istreams \<Rightarrow> True | _ \<Rightarrow> False)"

fun is_output_stream :: "ArgCategory \<Rightarrow> bool" where
  "is_output_stream c = (case c of Ostream \<Rightarrow> True | Ostreams \<Rightarrow> True | _ \<Rightarrow> False)"

definition is_stream :: "ArgCategory \<Rightarrow> bool" where
  "is_stream c \<longleftrightarrow> is_input_stream c \<or> is_output_stream c"

fun is_scalar :: "ArgCategory \<Rightarrow> bool" where
  "is_scalar c = (case c of Scalar \<Rightarrow> True | _ \<Rightarrow> False)"

fun is_direct_mmap :: "ArgCategory \<Rightarrow> bool" where
  "is_direct_mmap c = (case c of Mmap \<Rightarrow> True | AsyncMmap \<Rightarrow> True | _ \<Rightarrow> False)"

fun is_mmap_like :: "ArgCategory \<Rightarrow> bool" where
  "is_mmap_like c = (case c of Mmap \<Rightarrow> True | Immap \<Rightarrow> True | Ommap \<Rightarrow> True | AsyncMmap \<Rightarrow> True | _ \<Rightarrow> False)"

datatype Target = XilinxVitis | XilinxSlash | XilinxHls

fun target_str :: "Target \<Rightarrow> string" where
  "target_str XilinxVitis = ''xilinx-vitis''"
| "target_str XilinxSlash = ''xilinx-slash''"
| "target_str XilinxHls = ''xilinx-hls''"

definition target_from_str :: "string \<Rightarrow> Target option" where
  "target_from_str s = find (\<lambda>t. target_str t = s) [XilinxVitis, XilinxSlash, XilinxHls]"

section \<open>Ports\<close>

record Port =
  port_cat :: ArgCategory
  port_name :: string
  port_ctype :: string
  port_width :: nat
  port_chan_count :: "nat option"
  port_chan_size :: "nat option"
  port_aie_frame :: "nat option"
  port_aie_plio :: "nat option"
  port_stream_depth :: "nat option"
  port_mmap_addr_width :: "nat option"

definition channel_names :: "string \<Rightarrow> nat option \<Rightarrow> string list" where
  "channel_names base channels =
     (case channels of
        Some count \<Rightarrow> map (\<lambda>i. base @ ''_'' @ show_nat i) [0..<count]
      | None \<Rightarrow> [base])"

definition kernel_arg_names :: "Port \<Rightarrow> Target \<Rightarrow> string list" where
  "kernel_arg_names p target =
     (let base = sanitize_array_name (port_name p) in
      case target of
        XilinxHls \<Rightarrow>
          (if is_scalar (port_cat p) then channel_names base None
           else if port_cat p = Istream \<or> port_cat p = Ostream then [base @ ''_s'']
           else if port_cat p = Istreams \<or> port_cat p = Ostreams
             then channel_names base (Some (case port_chan_count p of None \<Rightarrow> 1 | Some n \<Rightarrow> n))
           else channel_names base (port_chan_count p))
      | _ \<Rightarrow> channel_names base
          (case port_chan_count p of None \<Rightarrow> None | Some n \<Rightarrow> if n > 0 then Some n else None))"

section \<open>Facts on names\<close>

lemma word_verilog: "is_word c \<Longrightarrow> is_verilog_char c"
  by (auto simp: is_word_def is_verilog_char_def)

lemma digit_chars:
  "is_ascii_alphabetic c \<Longrightarrow> \<not> is_ascii_digit c" "\<not> is_ascii_digit CHR ''_''"
  "is_ascii_digit c \<Longrightarrow> is_ascii_alphanumeric c" "is_ascii_alphabetic c \<Longrightarrow> is_ascii_alphanumeric c"
  by (auto simp: is_ascii_alphabetic_def is_ascii_digit_def is_ascii_alphanumeric_def)

lemma verilog_underscore: "is_verilog_char CHR ''_''"
  by (simp add: is_verilog_char_def)

lemma ident_verilog: "is_c_ident s \<Longrightarrow> list_all is_verilog_char s \<and> s \<noteq> [] \<and> \<not> is_ascii_digit (hd s)"
  by (cases s) (auto simp: is_c_ident_def is_verilog_char_def digit_chars list_all_iff is_word_def)

lemma captures_Some:
  assumes "array_name_captures name = Some (base, digits, suffix)"
  shows "name = base @ ''['' @ digits @ '']'' @ suffix" "is_c_ident base"
    "digits \<noteq> []" "list_all is_ascii_digit digits" "suffix = [] \<or> is_c_ident suffix"
proof -
  from assms obtain rest where 1: "split_once ''['' name = Some (base, rest)"
    and 2: "split_once '']'' rest = Some (digits, suffix)"
    and 3: "is_c_ident base" "digits \<noteq> []" "list_all is_ascii_digit digits" "suffix = [] \<or> is_c_ident suffix"
    by (auto simp: array_name_captures_def split: option.splits if_splits)
  show "name = base @ ''['' @ digits @ '']'' @ suffix"
    using split_once_join [OF 1] split_once_join [OF 2] by simp
  show "is_c_ident base" "digits \<noteq> []" "list_all is_ascii_digit digits" "suffix = [] \<or> is_c_ident suffix"
    by (fact 3)+
qed

lemma captures_bracket: "array_name_captures name = Some c \<Longrightarrow> CHR ''['' \<in> set name"
  using captures_Some(1) [of name "fst c" "fst (snd c)" "snd (snd c)"] by simp

lemma not_bracket: "is_verilog_char c \<Longrightarrow> c \<noteq> CHR ''[''" "is_ascii_digit c \<Longrightarrow> is_verilog_char c"
  by (auto simp: is_verilog_char_def is_ascii_alphanumeric_def is_ascii_alphabetic_def is_ascii_digit_def)

lemma sanitize_array_id: "list_all is_verilog_char s \<Longrightarrow> sanitize_array_name s = s"
  using captures_bracket [of s] not_bracket(1) [of "CHR ''[''"]
  by (auto simp: sanitize_array_name_def list_all_iff split: option.split)

lemma sanitize_identifier_id:
  assumes "list_all is_verilog_char s" and "s = [] \<or> \<not> is_ascii_digit (hd s)"
  shows "sanitize_identifier_name s = s"
proof -
  have "map (\<lambda>c. if is_verilog_char c then c else CHR ''_'') s = s"
    using assms(1) by (intro map_idI) (simp add: list_all_iff)
  then show ?thesis
    using assms by (auto simp: sanitize_identifier_name_def sanitize_array_id)
qed

lemma sanitize_identifier_chars:
  "list_all is_verilog_char (sanitize_identifier_name s)"
  "sanitize_identifier_name s = [] \<or> \<not> is_ascii_digit (hd (sanitize_identifier_name s))"
  by (auto simp: sanitize_identifier_name_def Let_def list_all_iff verilog_underscore hd_map digit_chars
      split: if_splits)

lemma sanitize_array_nonempty: "s \<noteq> [] \<Longrightarrow> sanitize_array_name s \<noteq> []"
  by (auto simp: sanitize_array_name_def split: option.split)

text \<open>A sanitized name is made of Verilog identifier characters, does not start with a digit, and is not
  empty unless the source name is; sanitizing a second time changes nothing.\<close>

theorem sanitize_identifier_valid:
  "list_all is_verilog_char (sanitize_identifier_name s) \<and>
   (sanitize_identifier_name s = [] \<longleftrightarrow> s = []) \<and>
   \<not> (sanitize_identifier_name s \<noteq> [] \<and> is_ascii_digit (hd (sanitize_identifier_name s))) \<and>
   sanitize_identifier_name (sanitize_identifier_name s) = sanitize_identifier_name s"
proof -
  have "sanitize_identifier_name s = [] \<longleftrightarrow> s = []"
    using sanitize_array_nonempty [of s]
    by (auto simp: sanitize_identifier_name_def Let_def sanitize_array_name_def array_name_captures_def)
  then show ?thesis
    using sanitize_identifier_chars [of s] sanitize_identifier_id [OF sanitize_identifier_chars] by blast
qed

lemma channel_names_distinct: "distinct (channel_names base channels)"
  by (cases channels) (auto simp: channel_names_def distinct_map inj_on_def)

lemma ident_no_bracket: "is_c_ident s \<Longrightarrow> CHR ''['' \<notin> set s"
  using ident_verilog [of s] not_bracket(1) by (auto simp: list_all_iff)

lemma digits_no_bracket: "CHR '']'' \<notin> set (show_nat i)"
  using show_nat_set [of "CHR '']''" i] by (auto simp: is_ascii_digit_def)

lemma sanitize_array_channel:
  assumes "is_c_ident base"
  shows "sanitize_array_name (base @ ''['' @ show_nat i @ '']'') = base @ ''_'' @ show_nat i"
  using assms split_once_char [OF ident_no_bracket [OF assms], of "show_nat i @ '']''"]
    split_once_char [OF digits_no_bracket, of i "[]"] show_nat_digits [of i]
  by (simp add: sanitize_array_name_def array_name_captures_def)

lemma sanitize_array_ident: "is_c_ident base \<Longrightarrow> sanitize_array_name base = base"
  using ident_verilog sanitize_array_id by blast

text \<open>The kernel arguments of a port are pairwise distinct for every target, and for the Vitis and Slash
  flows the arguments of an array port are the sanitized names of its channels \<open>name[0]\<close>, \<open>name[1]\<close> and
  so on, which is what every projection of a graph name to RTL yields.\<close>

theorem kernel_arg_names_agree:
  assumes "is_c_ident (port_name p)" and "port_chan_count p = Some n" and "0 < n" and "target \<noteq> XilinxHls"
  shows "kernel_arg_names p target =
      map (\<lambda>i. sanitize_array_name (port_name p @ ''['' @ show_nat i @ '']'')) [0..<n] \<and>
    distinct (kernel_arg_names p target') \<and> kernel_arg_names p target' \<noteq> []"
proof -
  have "kernel_arg_names p target = map (\<lambda>i. sanitize_array_name (port_name p @ ''['' @ show_nat i @ '']'')) [0..<n]"
    using assms
    by (cases target) (simp_all add: kernel_arg_names_def channel_names_def
        sanitize_array_channel [simplified] sanitize_array_ident)
  moreover have "distinct (kernel_arg_names p target')"
    by (cases target') (simp_all add: kernel_arg_names_def Let_def channel_names_distinct)
  moreover have "kernel_arg_names p target' \<noteq> []"
    using assms(2,3) by (cases target') (simp_all add: kernel_arg_names_def Let_def channel_names_def)
  ultimately show ?thesis by blast
qed

definition demo_port :: Port where
  "demo_port = \<lparr>port_cat = Mmap, port_name = ''mem'', port_ctype = ''float*'', port_width = 32,
     port_chan_count = Some 2, port_chan_size = Some 1024, port_aie_frame = None, port_aie_plio = None,
     port_stream_depth = None, port_mmap_addr_width = None\<rparr>"

theorem kernel_arg_names_agree_witness:
  "kernel_arg_names demo_port XilinxVitis =
     map (\<lambda>i. sanitize_array_name (''mem'' @ ''['' @ show_nat i @ '']'')) [0..<2] \<and>
   distinct (kernel_arg_names demo_port XilinxHls)"
  using kernel_arg_names_agree [of demo_port 2 XilinxVitis XilinxHls]
  by (simp add: demo_port_def is_c_ident_def is_word_def is_ascii_alphanumeric_def is_ascii_alphabetic_def)

text \<open>The wire names of the port categories and of the flow targets parse back to themselves, and no
  other text is accepted.\<close>

theorem wire_names_round_trip:
  "(category_from_str s = Some c \<longleftrightarrow> s = category_str c) \<and> (target_from_str s = Some t \<longleftrightarrow> s = target_str t)"
proof -
  have "distinct (map category_str all_categories)" by code_simp
  moreover have "c \<in> set all_categories" by (cases c) (simp_all add: all_categories_def)
  moreover have "distinct (map target_str [XilinxVitis, XilinxSlash, XilinxHls])" by code_simp
  moreover have "t \<in> set [XilinxVitis, XilinxSlash, XilinxHls]" by (cases t) simp_all
  ultimately show ?thesis unfolding category_from_str_def target_from_str_def by (simp only: find_key)
qed

end
