(* ===== verification/Ir_Connectivity.thy ===== *)
theory Ir_Connectivity
  imports BTree
begin

text \<open>
  \<^verbatim>\<open>tapa-core/tapa-ir/src/connectivity.rs\<close>: which kernel port is wired to which external memory bank.
  Bank tags are text (\<^verbatim>\<open>HBM[3]\<close>), and a set of bindings names every endpoint once.
\<close>

section \<open>Endpoints\<close>

datatype MemoryEndpoint = MemoryEndpoint (me_kernel: string) (me_port: string)

text \<open>The derived order compares the kernel first.\<close>

instantiation MemoryEndpoint :: linorder
begin

definition less_eq_MemoryEndpoint :: "MemoryEndpoint \<Rightarrow> MemoryEndpoint \<Rightarrow> bool" where
  "less_eq_MemoryEndpoint a b \<longleftrightarrow> (me_kernel a, me_port a) \<le> (me_kernel b, me_port b)"

definition less_MemoryEndpoint :: "MemoryEndpoint \<Rightarrow> MemoryEndpoint \<Rightarrow> bool" where
  "less_MemoryEndpoint a b \<longleftrightarrow> (me_kernel a, me_port a) < (me_kernel b, me_port b)"

instance
proof
  fix x y z :: MemoryEndpoint
  show "x < y \<longleftrightarrow> x \<le> y \<and> \<not> y \<le> x"
    by (simp only: less_eq_MemoryEndpoint_def less_MemoryEndpoint_def less_le_not_le)
  show "x \<le> x" by (simp only: less_eq_MemoryEndpoint_def order_refl)
  show "x \<le> y \<Longrightarrow> y \<le> z \<Longrightarrow> x \<le> z"
    unfolding less_eq_MemoryEndpoint_def by (rule order_trans)
  show "x \<le> y \<Longrightarrow> y \<le> x \<Longrightarrow> x = y"
    unfolding less_eq_MemoryEndpoint_def by (cases x; cases y) (drule (1) order_antisym, simp)
  show "x \<le> y \<or> y \<le> x"
    unfolding less_eq_MemoryEndpoint_def by (rule linear)
qed

end

definition show_endpoint :: "MemoryEndpoint \<Rightarrow> string" where
  "show_endpoint e = me_kernel e @ ''.'' @ me_port e"

section \<open>Banks\<close>

datatype MemoryKind = Hbm | Ddr

datatype MemoryBank = MemoryBank (bank_kind: MemoryKind) (bank_index: nat)

fun kind_tag :: "MemoryKind \<Rightarrow> string" where
  "kind_tag Hbm = ''HBM''"
| "kind_tag Ddr = ''DDR''"

definition show_bank :: "MemoryBank \<Rightarrow> string" where
  "show_bank b = kind_tag (bank_kind b) @ ''['' @ show_nat (bank_index b) @ '']''"

datatype MemoryBankParseError = MemoryBankParseError string

definition parse_bank :: "string \<Rightarrow> MemoryBankParseError + MemoryBank" where
  "parse_bank tag =
     (let err = MemoryBankParseError tag in
      bindR (ok_or err
        (case strip_prefix ''HBM['' tag of
           Some rest \<Rightarrow> Some (Hbm, rest)
         | None \<Rightarrow> map_option (\<lambda>rest. (Ddr, rest)) (strip_prefix ''DDR['' tag))) (\<lambda>(kind, rest).
      bindR (ok_or err
        (case map_option trim (strip_suffix '']'' rest) of
           None \<Rightarrow> None
         | Some digits \<Rightarrow> if digits \<noteq> [] \<and> list_all is_ascii_digit digits then Some digits else None)) (\<lambda>digits.
      bindR (ok_or err (parse_uint 32 digits)) (\<lambda>index.
        Inr (MemoryBank kind index)))))"

section \<open>Bindings\<close>

datatype MemoryBinding = MemoryBinding (mb_endpoint: MemoryEndpoint) (mb_bank: MemoryBank)

datatype DuplicateMemoryEndpoint =
  DuplicateMemoryEndpoint (dup_endpoint: MemoryEndpoint) (dup_previous_bank: MemoryBank)
    (dup_new_bank: MemoryBank)

definition duplicate_detail :: "MemoryBank \<Rightarrow> MemoryBank \<Rightarrow> string" where
  "duplicate_detail previous_bank new_bank =
     (if previous_bank = new_bank then ''is repeated''
      else ''maps to both '' @ show_bank previous_bank @ '' and '' @ show_bank new_bank)"

type_synonym MemoryBindings = "MemoryBinding list"

definition try_from_bindings :: "MemoryBinding list \<Rightarrow> DuplicateMemoryEndpoint + MemoryBindings" where
  "try_from_bindings bindings =
     bindR (foldR (\<lambda>endpoints (endpoint, bank).
              case bt_get endpoints endpoint of
                Some previous_bank \<Rightarrow> Inl (DuplicateMemoryEndpoint endpoint previous_bank bank)
              | None \<Rightarrow> Inr (bt_insert endpoint bank endpoints))
            [] (map (\<lambda>b. (mb_endpoint b, mb_bank b)) bindings))
       (\<lambda>_. Inr bindings)"

definition bindings_get :: "MemoryBindings \<Rightarrow> string \<Rightarrow> string \<Rightarrow> MemoryBank option" where
  "bindings_get bs kernel_name port =
     map_option mb_bank
       (find (\<lambda>b. me_kernel (mb_endpoint b) = kernel_name \<and> me_port (mb_endpoint b) = port) bs)"

section \<open>Properties\<close>

text \<open>A bank prints as a tag that parses back to the bank, for every 32-bit index.\<close>

theorem bank_round_trip:
  assumes "bank_index b < 2 ^ 32"
  shows "parse_bank (show_bank b) = Inr b"
proof -
  obtain k i where b: "b = MemoryBank k i" by (cases b)
  have "trim (show_nat i) = show_nat i"
    using show_nat_digits [of i] by (intro trim_id) (auto simp: list_all_iff digit_not_whitespace)
  moreover have "strip_suffix '']'' (show_nat i @ '']'') = Some (show_nat i)" by simp
  moreover have "parse_uint 32 (show_nat i) = Some i"
    using assms b by (simp add: fits_def)
  moreover have "list_all is_ascii_digit (show_nat i)" by (rule show_nat_digits)
  ultimately show ?thesis
    using b by (cases k) (simp_all add: parse_bank_def show_bank_def Let_def)
qed

theorem bank_round_trip_witness: "parse_bank ''HBM[7]'' = Inr (MemoryBank Hbm 7)"
proof -
  have "show_bank (MemoryBank Hbm 7) = ''HBM[7]''" by code_simp
  then show ?thesis using bank_round_trip [of "MemoryBank Hbm 7"] by simp
qed

lemma distinct_endpoints_find:
  assumes "distinct (map mb_endpoint bs)" and "b \<in> set bs"
  shows "find (\<lambda>x. me_kernel (mb_endpoint x) = me_kernel (mb_endpoint b) \<and>
    me_port (mb_endpoint x) = me_port (mb_endpoint b)) bs = Some b"
  using assms
proof (induction bs)
  case (Cons x bs)
  have "mb_endpoint x = mb_endpoint b"
    if "me_kernel (mb_endpoint x) = me_kernel (mb_endpoint b)" "me_port (mb_endpoint x) = me_port (mb_endpoint b)"
    using that by (simp add: MemoryEndpoint.expand)
  with Cons show ?case by (auto simp: rev_image_eqI)
qed simp

text \<open>A set of memory bindings is accepted exactly when it names every endpoint once; accepted bindings
  keep their order, and looking up an endpoint yields a bank exactly if a binding assigns it.\<close>

theorem bindings_unique:
  "(\<exists>ms. try_from_bindings bs = Inr ms) = distinct (map mb_endpoint bs) \<and>
   (\<forall>ms. try_from_bindings bs = Inr ms \<longrightarrow> ms = bs \<and>
      (\<forall>kernel port bank. bindings_get ms kernel port = Some bank \<longleftrightarrow> MemoryBinding (MemoryEndpoint kernel port) bank \<in> set bs))"
proof -
  have *: "(\<exists>ms. try_from_bindings bs = Inr ms) = distinct (map mb_endpoint bs)"
    using bt.scan_distinct [of "[]" DuplicateMemoryEndpoint "map (\<lambda>b. (mb_endpoint b, mb_bank b)) bs"]
    by (auto simp: try_from_bindings_def bindR_eq_Inr bt.get_empty comp_def)
  moreover have "ms = bs" if "try_from_bindings bs = Inr ms" for ms
    using that by (auto simp: try_from_bindings_def bindR_eq_Inr)
  moreover have "bindings_get bs kernel port = Some bank"
    if "try_from_bindings bs = Inr ms" "MemoryBinding (MemoryEndpoint kernel port) bank \<in> set bs" for ms kernel port bank
    using distinct_endpoints_find [of bs "MemoryBinding (MemoryEndpoint kernel port) bank"] * that by (auto simp: bindings_get_def)
  moreover have "MemoryBinding (MemoryEndpoint kernel port) bank \<in> set bs" if "bindings_get bs kernel port = Some bank" for kernel port bank
    using that by (auto simp: bindings_get_def find_Some_iff in_set_conv_nth MemoryBinding.expand MemoryEndpoint.expand)
  ultimately show ?thesis by blast
qed

theorem bindings_unique_witness:
  "\<exists>ms. try_from_bindings [MemoryBinding (MemoryEndpoint ''k'' ''a'') (MemoryBank Hbm 0),
     MemoryBinding (MemoryEndpoint ''k'' ''b'') (MemoryBank Ddr 1)] = Inr ms"
  using bindings_unique [of "[MemoryBinding (MemoryEndpoint ''k'' ''a'') (MemoryBank Hbm 0),
     MemoryBinding (MemoryEndpoint ''k'' ''b'') (MemoryBank Ddr 1)]"] by simp

text \<open>A rejected set of bindings reports a real conflict: the endpoint of a binding that an earlier
  binding assigned to the reported previous bank.\<close>

theorem bindings_duplicate_reported:
  assumes "try_from_bindings bs = Inl (DuplicateMemoryEndpoint e previous new)"
  shows "\<exists>pre post. bs = pre @ MemoryBinding e new # post \<and> MemoryBinding e previous \<in> set pre"
proof -
  let ?es = "map (\<lambda>b. (mb_endpoint b, mb_bank b)) bs"
  from assms have "foldR (\<lambda>m (k, v). case bt_get m k of Some p \<Rightarrow> Inl (DuplicateMemoryEndpoint k p v)
      | None \<Rightarrow> Inr (bt_insert k v m)) [] ?es = Inl (DuplicateMemoryEndpoint e previous new)"
    by (simp add: try_from_bindings_def bindR_eq_Inl)
  from bt.scan_reports [OF bt_ok_Nil this]
  obtain pre post where es: "?es = pre @ (e, new) # post" and p: "(e, previous) \<in> set pre"
    by (auto simp: bt.get_empty)
  have bs: "bs = map (\<lambda>(k, v). MemoryBinding k v) ?es" by (simp add: comp_def)
  show ?thesis
  proof (intro exI conjI)
    show "bs = map (\<lambda>(k, v). MemoryBinding k v) pre @ MemoryBinding e new # map (\<lambda>(k, v). MemoryBinding k v) post"
      by (subst bs, subst es) simp
    show "MemoryBinding e previous \<in> set (map (\<lambda>(k, v). MemoryBinding k v) pre)"
      using p by force
  qed
qed

theorem bindings_duplicate_reported_witness:
  "\<exists>pre post. [MemoryBinding (MemoryEndpoint ''k'' ''a'') (MemoryBank Hbm 0),
      MemoryBinding (MemoryEndpoint ''k'' ''a'') (MemoryBank Ddr 1)]
    = pre @ MemoryBinding (MemoryEndpoint ''k'' ''a'') (MemoryBank Ddr 1) # post \<and>
      MemoryBinding (MemoryEndpoint ''k'' ''a'') (MemoryBank Hbm 0) \<in> set pre"
  by (rule bindings_duplicate_reported) (simp add: try_from_bindings_def bt_get_def)

end
