(* ===== verification/Ir_Floorplan.thy ===== *)
theory Ir_Floorplan
  imports Ir_Port Ir_Connectivity
begin

text \<open>
  \<^verbatim>\<open>tapa-core/tapa-ir/src/floorplan.rs\<close>: the contract between the planner and code generation.
  Resource counts with checked arithmetic, rectangles of grid slots with their text tags, the
  generated instance names, the AXI channel widths, and the records of a floorplan.
\<close>

definition floorplanned_fifo_storage_depth :: "nat \<Rightarrow> nat" where
  "floorplanned_fifo_storage_depth logical_depth =
     (if logical_depth \<le> 64 then logical_depth + 5 else logical_depth)"

section \<open>Resources\<close>

record Area =
  lut :: nat
  ff :: nat
  bram_18k :: nat
  dsp :: nat
  uram :: nat

definition Area_default :: Area where
  "Area_default = \<lparr>lut = 0, ff = 0, bram_18k = 0, dsp = 0, uram = 0\<rparr>"

definition add_scaled :: "nat \<Rightarrow> nat \<Rightarrow> nat \<Rightarrow> nat option" where
  "add_scaled n a b = Option.bind (checked_mul 64 b n) (\<lambda>p. checked_add 64 a p)"

definition area_checked_add_scaled :: "Area \<Rightarrow> Area \<Rightarrow> nat \<Rightarrow> Area option" where
  "area_checked_add_scaled s t n =
     Option.bind (add_scaled n (lut s) (lut t)) (\<lambda>a.
     Option.bind (add_scaled n (ff s) (ff t)) (\<lambda>b.
     Option.bind (add_scaled n (bram_18k s) (bram_18k t)) (\<lambda>c.
     Option.bind (add_scaled n (dsp s) (dsp t)) (\<lambda>d.
     Option.bind (add_scaled n (uram s) (uram t)) (\<lambda>e.
       Some \<lparr>lut = a, ff = b, bram_18k = c, dsp = d, uram = e\<rparr>)))))"

definition area_checked_add :: "Area \<Rightarrow> Area \<Rightarrow> Area option" where
  "area_checked_add s t = area_checked_add_scaled s t 1"

definition area_checked_sub :: "Area \<Rightarrow> Area \<Rightarrow> Area option" where
  "area_checked_sub s t =
     Option.bind (checked_sub (lut s) (lut t)) (\<lambda>a.
     Option.bind (checked_sub (ff s) (ff t)) (\<lambda>b.
     Option.bind (checked_sub (bram_18k s) (bram_18k t)) (\<lambda>c.
     Option.bind (checked_sub (dsp s) (dsp t)) (\<lambda>d.
     Option.bind (checked_sub (uram s) (uram t)) (\<lambda>e.
       Some \<lparr>lut = a, ff = b, bram_18k = c, dsp = d, uram = e\<rparr>)))))"

datatype Resource = Ff | Lut | Bram18k | Dsp | Uram

definition Resource_ALL :: "Resource list" where
  "Resource_ALL = [Ff, Lut, Bram18k, Dsp, Uram]"

fun amount :: "Resource \<Rightarrow> Area \<Rightarrow> nat" where
  "amount Ff a = ff a"
| "amount Lut a = lut a"
| "amount Bram18k a = bram_18k a"
| "amount Dsp a = dsp a"
| "amount Uram a = uram a"

fun resource_name :: "Resource \<Rightarrow> string" where
  "resource_name Ff = ''FF''"
| "resource_name Lut = ''LUT''"
| "resource_name Bram18k = ''BRAM_18K''"
| "resource_name Dsp = ''DSP''"
| "resource_name Uram = ''URAM''"

definition is_logic :: "Resource \<Rightarrow> bool" where
  "is_logic r \<longleftrightarrow> r = Ff \<or> r = Lut"

definition from_amounts :: "(Resource \<Rightarrow> nat) \<Rightarrow> Area" where
  "from_amounts f = \<lparr>lut = f Lut, ff = f Ff, bram_18k = f Bram18k, dsp = f Dsp, uram = f Uram\<rparr>"

definition try_from_amounts :: "(Resource \<Rightarrow> 'e + nat) \<Rightarrow> 'e + Area" where
  "try_from_amounts f =
     bindR (f Lut) (\<lambda>a. bindR (f Ff) (\<lambda>b. bindR (f Bram18k) (\<lambda>c. bindR (f Dsp) (\<lambda>d. bindR (f Uram) (\<lambda>e.
       Inr \<lparr>lut = a, ff = b, bram_18k = c, dsp = d, uram = e\<rparr>)))))"

section \<open>Regions\<close>

record Coor =
  dl_x :: nat
  dl_y :: nat
  ur_x :: nat
  ur_y :: nat

definition Coor_span :: "nat \<Rightarrow> nat \<Rightarrow> nat \<Rightarrow> nat \<Rightarrow> Coor" where
  "Coor_span a b c d = \<lparr>dl_x = a, dl_y = b, ur_x = c, ur_y = d\<rparr>"

definition Coor_slot :: "nat \<Rightarrow> nat \<Rightarrow> Coor" where
  "Coor_slot x y = \<lparr>dl_x = x, dl_y = y, ur_x = x, ur_y = y\<rparr>"

definition coor_width :: "Coor \<Rightarrow> nat" where
  "coor_width c = wrap 32 (ur_x c - dl_x c + 1)"

definition coor_height :: "Coor \<Rightarrow> nat" where
  "coor_height c = wrap 32 (ur_y c - dl_y c + 1)"

definition x_overlap :: "Coor \<Rightarrow> Coor \<Rightarrow> bool" where
  "x_overlap a b \<longleftrightarrow> max (dl_x a) (dl_x b) \<le> min (ur_x a) (ur_x b)"

definition y_overlap :: "Coor \<Rightarrow> Coor \<Rightarrow> bool" where
  "y_overlap a b \<longleftrightarrow> max (dl_y a) (dl_y b) \<le> min (ur_y a) (ur_y b)"

definition is_south_neighbor_of :: "Coor \<Rightarrow> Coor \<Rightarrow> bool" where
  "is_south_neighbor_of a b \<longleftrightarrow> wrap 32 (ur_y a + 1) = dl_y b \<and> x_overlap a b"

definition is_north_neighbor_of :: "Coor \<Rightarrow> Coor \<Rightarrow> bool" where
  "is_north_neighbor_of a b \<longleftrightarrow> dl_y a = wrap 32 (ur_y b + 1) \<and> x_overlap a b"

definition is_east_neighbor_of :: "Coor \<Rightarrow> Coor \<Rightarrow> bool" where
  "is_east_neighbor_of a b \<longleftrightarrow> dl_x a = wrap 32 (ur_x b + 1) \<and> y_overlap a b"

definition is_west_neighbor_of :: "Coor \<Rightarrow> Coor \<Rightarrow> bool" where
  "is_west_neighbor_of a b \<longleftrightarrow> wrap 32 (ur_x a + 1) = dl_x b \<and> y_overlap a b"

definition is_neighbor :: "Coor \<Rightarrow> Coor \<Rightarrow> bool" where
  "is_neighbor a b \<longleftrightarrow> is_north_neighbor_of a b \<or> is_south_neighbor_of a b \<or>
     is_east_neighbor_of a b \<or> is_west_neighbor_of a b"

definition is_inside :: "Coor \<Rightarrow> Coor \<Rightarrow> bool" where
  "is_inside a b \<longleftrightarrow> dl_x b \<le> dl_x a \<and> dl_y b \<le> dl_y a \<and> ur_x a \<le> ur_x b \<and> ur_y a \<le> ur_y b"

definition all_slot_coors :: "Coor \<Rightarrow> (nat \<times> nat) list" where
  "all_slot_coors c = concat (map (\<lambda>y. map (\<lambda>x. (x, y)) [dl_x c..<Suc (ur_x c)]) [dl_y c..<Suc (ur_y c)])"

definition slot_tag :: "nat \<Rightarrow> nat \<Rightarrow> string" where
  "slot_tag x y = ''SLOT_X'' @ show_nat x @ ''Y'' @ show_nat y"

definition region_name :: "Coor \<Rightarrow> string" where
  "region_name c = slot_tag (dl_x c) (dl_y c) @ ''_TO_'' @ slot_tag (ur_x c) (ur_y c)"

definition parse_slot_tag :: "string \<Rightarrow> (nat \<times> nat) option" where
  "parse_slot_tag tag =
     Option.bind (strip_prefix ''SLOT_X'' tag) (\<lambda>rest.
     Option.bind (split_once ''Y'' rest) (\<lambda>(x, y).
     Option.bind (parse_uint 32 x) (\<lambda>px.
     Option.bind (parse_uint 32 y) (\<lambda>py. Some (px, py)))))"

definition from_region_name :: "string \<Rightarrow> Coor option" where
  "from_region_name name =
     Option.bind (split_once ''_TO_'' name) (\<lambda>(lhs, rhs).
     Option.bind (parse_slot_tag lhs) (\<lambda>(a, b).
     Option.bind (parse_slot_tag rhs) (\<lambda>(c, d).
       if a > c \<or> b > d then None else Some (Coor_span a b c d))))"

definition from_slot_name :: "string \<Rightarrow> Coor option" where
  "from_slot_name name = map_option (\<lambda>(x, y). Coor_slot x y) (parse_slot_tag name)"

definition from_region_or_slot_name :: "string \<Rightarrow> Coor option" where
  "from_region_or_slot_name name =
     (case from_region_name name of Some c \<Rightarrow> Some c | None \<Rightarrow> from_slot_name name)"

definition from_atomic_region_name :: "string \<Rightarrow> Coor option" where
  "from_atomic_region_name name =
     Option.bind (from_region_or_slot_name name) (\<lambda>c.
       if dl_x c = ur_x c \<and> dl_y c = ur_y c then Some c else None)"

section \<open>AXI and control channels\<close>

record AxiEndpoint =
  axi_instance :: string
  axi_port :: string
  axi_top_port :: string

datatype AxiChannel = ReadAddress | ReadData | WriteAddress | WriteData | WriteResponse

fun axi_rtl_name :: "AxiChannel \<Rightarrow> string" where
  "axi_rtl_name ReadAddress = ''ar''"
| "axi_rtl_name ReadData = ''r''"
| "axi_rtl_name WriteAddress = ''aw''"
| "axi_rtl_name WriteData = ''w''"
| "axi_rtl_name WriteResponse = ''b''"

definition axi_pipeline_instance_name :: "AxiEndpoint \<Rightarrow> AxiChannel \<Rightarrow> string" where
  "axi_pipeline_instance_name e ch =
     ''__tapa_axi_'' @ sanitize_identifier_name (axi_top_port e) @ ''_'' @ axi_rtl_name ch"

definition async_mmap_bridge_instance_name :: "string \<Rightarrow> string" where
  "async_mmap_bridge_instance_name top_port = sanitize_identifier_name top_port @ ''__m_axi''"

definition global_controller_instance_name :: string where
  "global_controller_instance_name = ''__tapa_global_controller''"

definition scope_controller_instance_name :: "string \<Rightarrow> string" where
  "scope_controller_instance_name scope = ''__tapa_control_scope_'' @ sanitize_identifier_name scope"

definition local_controller_instance_name :: "string \<Rightarrow> string" where
  "local_controller_instance_name inst = ''__tapa_local_controller_'' @ sanitize_identifier_name inst"

record AxiChannelWidths =
  w_read_address :: nat
  w_read_data :: nat
  w_write_address :: nat
  w_write_data :: nat
  w_write_response :: nat

fun physical_width :: "AxiChannelWidths \<Rightarrow> AxiChannel \<Rightarrow> nat" where
  "physical_width w ReadAddress = w_read_address w"
| "physical_width w ReadData = w_read_data w"
| "physical_width w WriteAddress = w_write_address w"
| "physical_width w WriteData = w_write_data w"
| "physical_width w WriteResponse = w_write_response w"

definition axi_channels :: "AxiChannelWidths \<Rightarrow> (AxiChannel \<times> nat) list" where
  "axi_channels w =
     [(ReadAddress, w_read_address w), (ReadData, w_read_data w), (WriteAddress, w_write_address w),
      (WriteData, w_write_data w), (WriteResponse, w_write_response w)]"

definition enabled_channels :: "AxiChannelWidths \<Rightarrow> (AxiChannel \<times> nat) list" where
  "enabled_channels w = filter (\<lambda>(_, width). width \<noteq> 0) (axi_channels w)"

datatype ControlChannel = Launch | Reset | Completion

fun control_rtl_name :: "ControlChannel \<Rightarrow> string" where
  "control_rtl_name Launch = ''launch''"
| "control_rtl_name Reset = ''reset''"
| "control_rtl_name Completion = ''completion''"

definition control_pipeline_instance_name :: "string \<Rightarrow> ControlChannel \<Rightarrow> string" where
  "control_pipeline_instance_name inst ch =
     ''__tapa_control_'' @ sanitize_identifier_name inst @ ''_'' @ control_rtl_name ch"

section \<open>Routes and results\<close>

datatype RoutedChannel =
    Stream string
  | Axi AxiEndpoint MemoryBank AxiChannel
  | Control string ControlChannel

datatype PipelineScheme = Single | Double | SingleHDoubleV

record PipelineRoute =
  pr_channel :: RoutedChannel
  pr_route :: "string list"
  pr_scheme :: PipelineScheme
  pr_reg_regions :: "string list"

record FloorplanResult =
  fp_device :: string
  fp_grid :: "nat \<times> nat"
  fp_regions :: "(string, string) btree"
  fp_routes :: "PipelineRoute list"
  fp_slot_usage :: "(string, Area) btree"

section \<open>Tags\<close>

definition coor_ok :: "Coor \<Rightarrow> bool" where
  "coor_ok c \<longleftrightarrow> dl_x c \<le> ur_x c \<and> dl_y c \<le> ur_y c \<and> ur_x c < 2 ^ 32 \<and> ur_y c < 2 ^ 32"

lemma digits_avoid: "\<not> is_ascii_digit c \<Longrightarrow> c \<notin> set (show_nat n)"
  using show_nat_set by blast

lemma letters_not_digits: "\<not> is_ascii_digit CHR ''Y''" "\<not> is_ascii_digit CHR ''_''"
  by (simp_all add: is_ascii_digit_def)

lemma parse_slot_tag_slot_tag:
  assumes "x < 2 ^ 32" and "y < 2 ^ 32"
  shows "parse_slot_tag (slot_tag x y) = Some (x, y)"
  using assms split_once_char [OF digits_avoid [OF letters_not_digits(1)], of x "show_nat y"]
  by (simp add: parse_slot_tag_def slot_tag_def fits_def)

lemma split_region_tag:
  "split_once ''_TO_'' (slot_tag x y @ ''_TO_'' @ r) = Some (slot_tag x y, r)"
proof -
  let ?l = "''X'' @ show_nat x @ ''Y'' @ show_nat y"
  have "CHR ''_'' \<notin> set ?l" using digits_avoid [OF letters_not_digits(2)] by auto
  then have "split_once ''_TO_'' (?l @ ''_TO_'' @ r) = Some (?l, r)"
    using split_once_skip [of "CHR ''_''" ?l "''TO_''" "''_TO_'' @ r"] split_once_here [of "CHR ''_''" "''TO_''" r]
    by simp
  then show ?thesis by (simp add: slot_tag_def)
qed

lemma from_region_name_region_name:
  assumes "coor_ok c"
  shows "from_region_name (region_name c) = Some c"
proof -
  have "parse_slot_tag (slot_tag (dl_x c) (dl_y c)) = Some (dl_x c, dl_y c)"
    "parse_slot_tag (slot_tag (ur_x c) (ur_y c)) = Some (ur_x c, ur_y c)"
    using assms by (auto simp: coor_ok_def intro!: parse_slot_tag_slot_tag)
  then show ?thesis
    unfolding from_region_name_def region_name_def split_region_tag
    using assms by (simp add: Coor_span_def coor_ok_def)
qed

text \<open>Region tags are a faithful wire format: the tag of a well-formed region parses back to the region,
  through every parser that accepts regions; the parser of atomic regions accepts it exactly when it
  is one slot, and a bare slot tag parses to that slot.\<close>

theorem region_tag_round_trip:
  assumes "coor_ok c"
  shows "from_region_name (region_name c) = Some c \<and>
    from_region_or_slot_name (region_name c) = Some c \<and>
    from_atomic_region_name (region_name c) = (if dl_x c = ur_x c \<and> dl_y c = ur_y c then Some c else None) \<and>
    from_slot_name (slot_tag (dl_x c) (dl_y c)) = Some (Coor_slot (dl_x c) (dl_y c))"
proof -
  have "parse_slot_tag (slot_tag (dl_x c) (dl_y c)) = Some (dl_x c, dl_y c)"
    using assms by (auto simp: coor_ok_def intro!: parse_slot_tag_slot_tag)
  then show ?thesis
    using from_region_name_region_name [OF assms]
    by (simp add: from_region_or_slot_name_def from_atomic_region_name_def from_slot_name_def)
qed

theorem region_tag_round_trip_witness:
  "from_region_name (region_name (Coor_span 0 1 2 10)) = Some (Coor_span 0 1 2 10)"
  using region_tag_round_trip [of "Coor_span 0 1 2 10"] by (simp add: coor_ok_def Coor_span_def)

text \<open>Whatever text the region parser accepts denotes a well-formed rectangle: no reversed range and no
  coordinate beyond 32 bits.\<close>

theorem parsed_region_ok:
  assumes "from_region_or_slot_name name = Some c"
  shows "coor_ok c"
  using assms
  by (auto simp: from_region_or_slot_name_def from_region_name_def from_slot_name_def parse_slot_tag_def
      coor_ok_def Coor_span_def Coor_slot_def bind_eq_Some_conv fits_def dest!: parse_uint_fits
      split: option.splits if_splits)

theorem parsed_region_ok_witness: "coor_ok (Coor_span 1 2 3 4)"
proof -
  have "from_region_or_slot_name (region_name (Coor_span 1 2 3 4)) = Some (Coor_span 1 2 3 4)"
    using from_region_name_region_name [of "Coor_span 1 2 3 4"]
    by (simp add: from_region_or_slot_name_def coor_ok_def Coor_span_def)
  then show ?thesis by (rule parsed_region_ok)
qed

section \<open>Geometry\<close>

lemma set_all_slot_coors:
  "set (all_slot_coors c) = {(x, y). dl_x c \<le> x \<and> x \<le> ur_x c \<and> dl_y c \<le> y \<and> y \<le> ur_y c}"
proof -
  have "set (all_slot_coors c) = (\<lambda>(y, x). (x, y)) ` ({dl_y c..<Suc (ur_y c)} \<times> {dl_x c..<Suc (ur_x c)})"
    by (auto simp: all_slot_coors_def simp del: upt_Suc)
  also have "\<dots> = {(x, y). dl_x c \<le> x \<and> x \<le> ur_x c \<and> dl_y c \<le> y \<and> y \<le> ur_y c}"
    by (auto simp: image_iff)
  finally show ?thesis .
qed

text \<open>Two cells that share an edge.\<close>

definition adjacent :: "nat \<times> nat \<Rightarrow> nat \<times> nat \<Rightarrow> bool" where
  "adjacent p q \<longleftrightarrow>
     fst p = fst q \<and> (snd p + 1 = snd q \<or> snd q + 1 = snd p) \<or>
     snd p = snd q \<and> (fst p + 1 = fst q \<or> fst q + 1 = fst p)"

definition row_major :: "nat \<times> nat \<Rightarrow> nat \<times> nat \<Rightarrow> bool" where
  "row_major p q \<longleftrightarrow> snd p < snd q \<or> snd p = snd q \<and> fst p < fst q"

lemma row_sorted: "sorted_wrt row_major (map (\<lambda>x. (x, y)) [a..<b])"
  by (simp add: sorted_wrt_map row_major_def)

lemma rows_sorted: "sorted_wrt row_major (concat (map (\<lambda>y. map (\<lambda>x. (x, y)) [a..<b]) [c..<d]))"
proof (induction d)
  case (Suc d)
  then show ?case by (auto simp: sorted_wrt_append row_sorted) (auto simp: row_major_def)
qed simp

lemma sorted_distinct_cells: "sorted_wrt row_major cs \<Longrightarrow> distinct cs"
  by (induction cs) (auto simp: row_major_def)

text \<open>The cells of a region are enumerated exactly: each cell of the rectangle once, in row-major order,
  and there are width times height of them.\<close>

theorem all_slot_coors_exact:
  assumes "coor_ok c" and "ur_x c - dl_x c + 1 < 2 ^ 32" and "ur_y c - dl_y c + 1 < 2 ^ 32"
  shows "set (all_slot_coors c) = {(x, y). dl_x c \<le> x \<and> x \<le> ur_x c \<and> dl_y c \<le> y \<and> y \<le> ur_y c} \<and>
    distinct (all_slot_coors c) \<and>
    sorted_wrt row_major (all_slot_coors c) \<and>
    length (all_slot_coors c) = coor_width c * coor_height c"
proof -
  have sorted: "sorted_wrt row_major (all_slot_coors c)"
    unfolding all_slot_coors_def by (rule rows_sorted)
  have "coor_width c = Suc (ur_x c) - dl_x c" "coor_height c = Suc (ur_y c) - dl_y c"
    using assms by (simp_all add: coor_width_def coor_height_def coor_ok_def wrap_def Suc_diff_le)
  then have "length (all_slot_coors c) = coor_width c * coor_height c"
    by (simp add: all_slot_coors_def length_concat comp_def sum_list_triv del: upt_Suc)
  then show ?thesis using set_all_slot_coors sorted sorted_distinct_cells [OF sorted] by blast
qed

theorem all_slot_coors_exact_witness:
  "length (all_slot_coors (Coor_span 0 0 1 1)) = coor_width (Coor_span 0 0 1 1) * coor_height (Coor_span 0 0 1 1)"
  using all_slot_coors_exact [of "Coor_span 0 0 1 1"] by (simp add: coor_ok_def Coor_span_def)

lemma neighbor_cells:
  assumes "dl_x a \<le> ur_x a" "dl_y a \<le> ur_y a" "dl_x b \<le> ur_x b" "dl_y b \<le> ur_y b"
  shows "ur_y a + 1 = dl_y b \<Longrightarrow> x_overlap a b \<Longrightarrow>
      set (all_slot_coors a) \<inter> set (all_slot_coors b) = {} \<and>
      (\<exists>p \<in> set (all_slot_coors a). \<exists>q \<in> set (all_slot_coors b). adjacent p q)"
    and "ur_x a + 1 = dl_x b \<Longrightarrow> y_overlap a b \<Longrightarrow>
      set (all_slot_coors a) \<inter> set (all_slot_coors b) = {} \<and>
      (\<exists>p \<in> set (all_slot_coors a). \<exists>q \<in> set (all_slot_coors b). adjacent p q)"
proof -
  assume y: "ur_y a + 1 = dl_y b" and o: "x_overlap a b"
  let ?x = "max (dl_x a) (dl_x b)"
  have "(?x, ur_y a) \<in> set (all_slot_coors a)" "(?x, dl_y b) \<in> set (all_slot_coors b)"
    using assms o by (auto simp: set_all_slot_coors x_overlap_def)
  moreover have "adjacent (?x, ur_y a) (?x, dl_y b)" using y by (simp add: adjacent_def)
  moreover have "set (all_slot_coors a) \<inter> set (all_slot_coors b) = {}" using y by (auto simp: set_all_slot_coors)
  ultimately show "set (all_slot_coors a) \<inter> set (all_slot_coors b) = {} \<and>
      (\<exists>p \<in> set (all_slot_coors a). \<exists>q \<in> set (all_slot_coors b). adjacent p q)" by blast
next
  assume x: "ur_x a + 1 = dl_x b" and o: "y_overlap a b"
  let ?y = "max (dl_y a) (dl_y b)"
  have "(ur_x a, ?y) \<in> set (all_slot_coors a)" "(dl_x b, ?y) \<in> set (all_slot_coors b)"
    using assms o by (auto simp: set_all_slot_coors y_overlap_def)
  moreover have "adjacent (ur_x a, ?y) (dl_x b, ?y)" using x by (simp add: adjacent_def)
  moreover have "set (all_slot_coors a) \<inter> set (all_slot_coors b) = {}" using x by (auto simp: set_all_slot_coors)
  ultimately show "set (all_slot_coors a) \<inter> set (all_slot_coors b) = {} \<and>
      (\<exists>p \<in> set (all_slot_coors a). \<exists>q \<in> set (all_slot_coors b). adjacent p q)" by blast
qed

lemma adjacent_sym: "adjacent p q \<Longrightarrow> adjacent q p"
  by (auto simp: adjacent_def)

lemma touching_cells_neighbor:
  assumes "dl_x a \<le> ur_x a" "dl_y a \<le> ur_y a" "dl_x b \<le> ur_x b" "dl_y b \<le> ur_y b"
    and dis: "set (all_slot_coors a) \<inter> set (all_slot_coors b) = {}"
    and p: "p \<in> set (all_slot_coors a)" and q: "q \<in> set (all_slot_coors b)" and adj: "adjacent p q"
  shows "(ur_y a + 1 = dl_y b \<or> ur_y b + 1 = dl_y a) \<and> x_overlap a b \<or>
    (ur_x a + 1 = dl_x b \<or> ur_x b + 1 = dl_x a) \<and> y_overlap a b"
proof -
  have "\<not> (x_overlap a b \<and> y_overlap a b)"
  proof
    assume "x_overlap a b \<and> y_overlap a b"
    then have "(max (dl_x a) (dl_x b), max (dl_y a) (dl_y b)) \<in> set (all_slot_coors a) \<inter> set (all_slot_coors b)"
      using assms(1-4) by (auto simp: set_all_slot_coors x_overlap_def y_overlap_def)
    then show False using dis by blast
  qed
  moreover obtain px py qx qy where "p = (px, py)" "q = (qx, qy)" by (cases p; cases q)
  ultimately show ?thesis
    using p q adj unfolding set_all_slot_coors adjacent_def x_overlap_def y_overlap_def by auto
qed

text \<open>C38: Two regions are neighbours exactly when they do not overlap and some cell of one shares an edge
  with some cell of the other; a region is inside another exactly when its cells are.  The last row
  and column of the 32-bit grid are left out, where the code's increment would wrap around.\<close>

theorem neighbor_iff_touching:
  assumes "coor_ok a" and "coor_ok b"
    and "ur_x a + 1 < 2 ^ 32" "ur_y a + 1 < 2 ^ 32" "ur_x b + 1 < 2 ^ 32" "ur_y b + 1 < 2 ^ 32"
  shows "(is_neighbor a b \<longleftrightarrow> set (all_slot_coors a) \<inter> set (all_slot_coors b) = {} \<and>
      (\<exists>p \<in> set (all_slot_coors a). \<exists>q \<in> set (all_slot_coors b). adjacent p q)) \<and>
    (is_inside a b \<longleftrightarrow> set (all_slot_coors a) \<subseteq> set (all_slot_coors b))"
proof -
  have le: "dl_x a \<le> ur_x a" "dl_y a \<le> ur_y a" "dl_x b \<le> ur_x b" "dl_y b \<le> ur_y b"
    using assms(1,2) by (simp_all add: coor_ok_def)
  have sym: "x_overlap b a = x_overlap a b" "y_overlap b a = y_overlap a b"
    by (simp_all add: x_overlap_def y_overlap_def max.commute min.commute)
  have nb: "is_neighbor a b \<longleftrightarrow> (ur_y a + 1 = dl_y b \<or> ur_y b + 1 = dl_y a) \<and> x_overlap a b \<or>
      (ur_x a + 1 = dl_x b \<or> ur_x b + 1 = dl_x a) \<and> y_overlap a b"
    using assms(3-6)
    by (auto simp: is_neighbor_def is_north_neighbor_of_def is_south_neighbor_of_def is_east_neighbor_of_def
        is_west_neighbor_of_def wrap_def)
  have "is_neighbor a b \<longleftrightarrow> set (all_slot_coors a) \<inter> set (all_slot_coors b) = {} \<and>
      (\<exists>p \<in> set (all_slot_coors a). \<exists>q \<in> set (all_slot_coors b). adjacent p q)"
    unfolding nb
    using neighbor_cells [OF le] neighbor_cells [OF le(3,4,1,2)] touching_cells_neighbor [OF le] sym
    by (metis adjacent_sym inf_commute)
  moreover have "is_inside a b \<longleftrightarrow> set (all_slot_coors a) \<subseteq> set (all_slot_coors b)"
    using le by (auto simp: is_inside_def set_all_slot_coors)
  ultimately show ?thesis by blast
qed

theorem neighbor_iff_touching_witness:
  "set (all_slot_coors (Coor_span 0 0 1 0)) \<inter> set (all_slot_coors (Coor_slot 1 1)) = {}"
  using neighbor_iff_touching [of "Coor_span 0 0 1 0" "Coor_slot 1 1"]
  by (simp add: coor_ok_def Coor_span_def Coor_slot_def is_neighbor_def is_south_neighbor_of_def wrap_def x_overlap_def)

section \<open>Resource arithmetic\<close>

lemma area_eqI: "(\<And>r. amount r a = amount r b) \<Longrightarrow> a = (b :: Area)"
  by (metis Area.equality amount.simps old.unit.exhaust)

lemma amount_from_amounts [simp]: "amount r (from_amounts f) = f r"
  by (cases r) (simp_all add: from_amounts_def)

lemma add_scaled_Some: "add_scaled n a b = Some c \<longleftrightarrow> c = a + b * n \<and> a + b * n < 2 ^ 64"
  by (auto simp: add_scaled_def bind_eq_Some_conv checked_mul_Some checked_add_Some fits_def)

lemma area_add_scaled_Some:
  "area_checked_add_scaled s t n = Some u \<longleftrightarrow>
    (\<forall>r. amount r u = amount r s + amount r t * n \<and> amount r u < 2 ^ 64)"
proof -
  have "area_checked_add_scaled s t n = Some u \<longleftrightarrow>
      (\<forall>r \<in> set Resource_ALL. amount r u = amount r s + amount r t * n \<and> amount r u < 2 ^ 64)"
    by (cases u) (auto simp: area_checked_add_scaled_def bind_eq_Some_conv add_scaled_Some Resource_ALL_def)
  moreover have "r \<in> set Resource_ALL" for r by (cases r) (simp_all add: Resource_ALL_def)
  ultimately show ?thesis by blast
qed

lemma area_add_Some:
  "area_checked_add s t = Some u \<longleftrightarrow> (\<forall>r. amount r u = amount r s + amount r t \<and> amount r u < 2 ^ 64)"
  by (simp only: area_checked_add_def area_add_scaled_Some mult_1_right)

lemma area_sub_Some:
  "area_checked_sub s t = Some u \<longleftrightarrow> (\<forall>r. amount r t \<le> amount r s \<and> amount r u = amount r s - amount r t)"
proof -
  have "area_checked_sub s t = Some u \<longleftrightarrow>
      (\<forall>r \<in> set Resource_ALL. amount r t \<le> amount r s \<and> amount r u = amount r s - amount r t)"
    by (cases u) (auto simp: area_checked_sub_def bind_eq_Some_conv checked_sub_Some Resource_ALL_def)
  moreover have "r \<in> set Resource_ALL" for r by (cases r) (simp_all add: Resource_ALL_def)
  ultimately show ?thesis by blast
qed

text \<open>Resource arithmetic is exact or refused: adding \<open>n\<close> instances' worth of an area succeeds with the
  mathematical sum in each of the five classes exactly when no class leaves 64 bits, and subtraction
  undoes addition.\<close>

theorem area_arithmetic_exact:
  "(area_checked_add_scaled s t n = Some u \<longleftrightarrow>
      (\<forall>r. amount r u = amount r s + amount r t * n \<and> amount r u < 2 ^ 64)) \<and>
   (area_checked_add s t = Some u \<longrightarrow> area_checked_sub u t = Some s \<and> area_checked_sub u s = Some t) \<and>
   (area_checked_sub s t = Some u \<and> (\<forall>r. amount r s < 2 ^ 64) \<longrightarrow> area_checked_add t u = Some s)"
  by (auto simp: area_add_scaled_Some area_checked_add_def area_sub_Some)

definition demo_area :: "nat \<Rightarrow> Area" where
  "demo_area n = \<lparr>lut = n, ff = 2 * n, bram_18k = 0, dsp = 1, uram = 0\<rparr>"

theorem area_arithmetic_exact_witness:
  "area_checked_add (demo_area 3) (demo_area 4) = Some \<lparr>lut = 7, ff = 14, bram_18k = 0, dsp = 2, uram = 0\<rparr> \<and>
   area_checked_sub \<lparr>lut = 7, ff = 14, bram_18k = 0, dsp = 2, uram = 0\<rparr> (demo_area 4) = Some (demo_area 3)"
proof -
  have "area_checked_add (demo_area 3) (demo_area 4) = Some \<lparr>lut = 7, ff = 14, bram_18k = 0, dsp = 2, uram = 0\<rparr>"
    by (simp add: area_checked_add_def area_checked_add_scaled_def add_scaled_def checked_mul_def checked_add_def
        fits_def demo_area_def)
  then show ?thesis using area_arithmetic_exact by blast
qed

section \<open>Generated names\<close>

lemma suffix_after_last_underscore:
  assumes "xs @ CHR ''_'' # t = ys @ CHR ''_'' # u" and "CHR ''_'' \<notin> set t" and "CHR ''_'' \<notin> set u"
  shows "xs = ys \<and> t = u"
proof -
  have "rev t @ CHR ''_'' # rev xs = rev u @ CHR ''_'' # rev ys" using arg_cong [OF assms(1), of rev] by simp
  moreover have "split_once ''_'' (rev t @ CHR ''_'' # rev xs) = Some (rev t, rev xs)"
    "split_once ''_'' (rev u @ CHR ''_'' # rev ys) = Some (rev u, rev ys)"
    using assms(2,3) by (simp_all only: split_once_char set_rev not_False_eq_True)
  ultimately have "Some (rev t, rev xs) = Some (rev u, rev ys)" by metis
  then show ?thesis by simp
qed

text \<open>The generated AXI and control pipeline instances have unique names: the name determines the
  sanitized port or instance it was made for, and the channel.\<close>

theorem pipeline_names_unique:
  "(axi_pipeline_instance_name e ch = axi_pipeline_instance_name e' ch' \<longleftrightarrow>
      sanitize_identifier_name (axi_top_port e) = sanitize_identifier_name (axi_top_port e') \<and> ch = ch') \<and>
   (control_pipeline_instance_name i k = control_pipeline_instance_name i' k' \<longleftrightarrow>
      sanitize_identifier_name i = sanitize_identifier_name i' \<and> k = k')"
proof -
  have no: "CHR ''_'' \<notin> set (axi_rtl_name c)" "CHR ''_'' \<notin> set (control_rtl_name d)" for c d
    by (cases c; simp) (cases d; simp)
  have inj: "axi_rtl_name c = axi_rtl_name c' \<longleftrightarrow> c = c'" "control_rtl_name d = control_rtl_name d' \<longleftrightarrow> d = d'" for c c' d d'
    by (cases c; cases c'; simp) (cases d; cases d'; simp)
  have tail: "xs @ CHR ''_'' # t = ys @ CHR ''_'' # u \<longleftrightarrow> xs = ys \<and> t = u"
    if "CHR ''_'' \<notin> set t" "CHR ''_'' \<notin> set u" for xs ys t u
    using suffix_after_last_underscore that by blast
  show ?thesis
    unfolding axi_pipeline_instance_name_def control_pipeline_instance_name_def
    using tail [OF no(1) no(1)] tail [OF no(2) no(2)] inj by simp
qed

text \<open>
  A scope controller and a control pipeline can have the same name, though: an instance called
  \<open>scope_a\<close> and a scope called \<open>a_launch\<close> yield one.
\<close>

lemma control_name_clash:
  "control_pipeline_instance_name ''scope_a'' Launch = scope_controller_instance_name ''a_launch''"
  by (simp add: control_pipeline_instance_name_def scope_controller_instance_name_def sanitize_identifier_id
      is_verilog_char_def is_ascii_alphanumeric_def is_ascii_alphabetic_def is_ascii_digit_def)

text \<open>The enabled channels of an AXI interface are those of nonzero width, each with its physical width,
  in protocol order.\<close>

theorem enabled_channels_exact:
  "enabled_channels w =
     map (\<lambda>ch. (ch, physical_width w ch))
       (filter (\<lambda>ch. physical_width w ch \<noteq> 0) [ReadAddress, ReadData, WriteAddress, WriteData, WriteResponse])"
  by (simp add: enabled_channels_def axi_channels_def)

end
