(* ===== verification/Ir_Memory.thy ===== *)
theory Ir_Memory
  imports Prelude
begin

text \<open>
  \<^verbatim>\<open>tapa-core/tapa-ir/src/memory.rs\<close> and \<^verbatim>\<open>clock.rs\<close>: the validated geometry of a memory-mapped
  port, and the clock period in whole picoseconds with its decimal text.  The parser of nanoseconds
  goes through floating point and is not modelled.
\<close>

section \<open>Memory geometry\<close>

record MemoryGeometry =
  geo_data_width :: nat
  geo_channels :: "(nat \<times> nat) option"

datatype MemoryGeometryError =
    ChannelCountZero
  | IncompleteHmap
  | BadDataWidth nat
  | ChannelSizeZero
  | ChannelBytesNotPowerOfTwo nat nat nat

definition geometry_channels :: "nat option \<Rightarrow> nat option \<Rightarrow> MemoryGeometryError + (nat \<times> nat) option" where
  "geometry_channels chan_count chan_size =
     (case (chan_count, chan_size) of
        (Some n, sz) \<Rightarrow>
          if n = 0 then Inl ChannelCountZero
          else (case sz of Some s \<Rightarrow> Inr (Some (n, s)) | None \<Rightarrow> Inl IncompleteHmap)
      | (None, None) \<Rightarrow> Inr None
      | (None, Some _) \<Rightarrow> Inl IncompleteHmap)"

text \<open>The product of two 32-bit values does not leave 64 bits.\<close>

definition channel_bytes :: "nat \<Rightarrow> nat \<Rightarrow> nat" where
  "channel_bytes data_width sz = wrap 64 (sz * (data_width div 8))"

definition MemoryGeometry_new :: "nat \<Rightarrow> nat option \<Rightarrow> nat option \<Rightarrow> MemoryGeometryError + MemoryGeometry" where
  "MemoryGeometry_new data_width chan_count chan_size =
     bindR (geometry_channels chan_count chan_size) (\<lambda>channels.
       if data_width = 0 \<or> data_width mod 8 \<noteq> 0 then Inl (BadDataWidth data_width)
       else bindR
         (case channels of
            None \<Rightarrow> Inr ()
          | Some (_, sz) \<Rightarrow>
              (let bytes = channel_bytes data_width sz in
               if bytes = 0 then Inl ChannelSizeZero
               else if \<not> is_power_of_two bytes then Inl (ChannelBytesNotPowerOfTwo sz data_width bytes)
               else Inr ()))
         (\<lambda>_. Inr \<lparr>geo_data_width = data_width, geo_channels = channels\<rparr>))"

definition is_hmap :: "MemoryGeometry \<Rightarrow> bool" where
  "is_hmap g \<longleftrightarrow> geo_channels g \<noteq> None"

definition channel_count :: "MemoryGeometry \<Rightarrow> nat" where
  "channel_count g = (case geo_channels g of None \<Rightarrow> 1 | Some (n, _) \<Rightarrow> n)"

definition channel_addr_width :: "MemoryGeometry \<Rightarrow> nat option" where
  "channel_addr_width g = map_option (\<lambda>(_, sz). ilog2 (channel_bytes (geo_data_width g) sz)) (geo_channels g)"

lemma MemoryGeometry_new_InrD:
  assumes "MemoryGeometry_new data_width chan_count chan_size = Inr g"
  shows "geometry_channels chan_count chan_size = Inr (geo_channels g)" "geo_data_width g = data_width"
    "data_width \<noteq> 0" "8 dvd data_width"
    "geo_channels g = Some (n, s) \<Longrightarrow> is_power_of_two (channel_bytes data_width s)"
proof -
  obtain ch where ch: "geometry_channels chan_count chan_size = Inr ch"
    using assms by (auto simp: MemoryGeometry_new_def bindR_eq_Inr)
  have w: "data_width \<noteq> 0" "8 dvd data_width"
    using assms ch by (auto simp: MemoryGeometry_new_def dvd_eq_mod_eq_0 split: if_splits)
  have g: "g = \<lparr>geo_data_width = data_width, geo_channels = ch\<rparr>"
    using assms ch w by (simp add: MemoryGeometry_new_def bindR_eq_Inr)
  show "geometry_channels chan_count chan_size = Inr (geo_channels g)" "geo_data_width g = data_width"
    "data_width \<noteq> 0" "8 dvd data_width"
    using ch g w by simp_all
  show "is_power_of_two (channel_bytes data_width s)" if "geo_channels g = Some (n, s)"
    using that assms ch w g by (simp add: MemoryGeometry_new_def Let_def split: if_splits)
qed

text \<open>A geometry that is accepted addresses its channels exactly: the count is positive, the data width
  is a positive number of bytes, and for an hmap the address width \<open>w\<close> satisfies
  \<open>2 ^ w = size * width / 8\<close>, the number of bytes of a channel.\<close>

theorem geometry_exact:
  assumes "MemoryGeometry_new data_width chan_count chan_size = Inr g"
    and "data_width < 2 ^ 32" and "\<forall>s. chan_size = Some s \<longrightarrow> s < 2 ^ 32"
  shows "0 < channel_count g \<and> 8 \<le> geo_data_width g \<and> 8 dvd geo_data_width g \<and>
    (case geo_channels g of
       None \<Rightarrow> chan_count = None \<and> chan_size = None \<and> channel_addr_width g = None
     | Some (n, s) \<Rightarrow> chan_count = Some n \<and> chan_size = Some s \<and>
         (\<exists>w. channel_addr_width g = Some w \<and> 2 ^ w = s * (geo_data_width g div 8)))"
proof (cases "geo_channels g")
  case None
  with MemoryGeometry_new_InrD(1-4) [OF assms(1)] show ?thesis
    by (auto simp: geometry_channels_def channel_count_def channel_addr_width_def dvd_imp_le
        split: option.splits if_splits)
next
  case (Some ns)
  obtain n s where ns: "ns = (n, s)" by force
  have g: "geo_data_width g = data_width" "data_width \<noteq> 0" "8 dvd data_width"
    "chan_count = Some n" "chan_size = Some s" "0 < n" "is_power_of_two (channel_bytes data_width s)"
    using MemoryGeometry_new_InrD [OF assms(1)] Some ns
    by (auto simp: geometry_channels_def split: option.splits if_splits)
  have "s * (data_width div 8) \<le> 2 ^ 32 * 2 ^ 29"
    using assms(2,3) g(5) by (intro mult_mono) auto
  then have bytes: "channel_bytes data_width s = s * (data_width div 8)"
    by (simp add: channel_bytes_def wrap_def)
  obtain k where "channel_bytes data_width s = 2 ^ k" using g(7) by (auto simp: is_power_of_two_iff)
  then show ?thesis
    using Some ns g bytes by (auto simp: channel_addr_width_def channel_count_def ilog2_power dvd_imp_le)
qed

theorem geometry_exact_witness:
  "channel_addr_width \<lparr>geo_data_width = 32, geo_channels = Some (2, 1024)\<rparr> = Some 12"
proof -
  let ?g = "\<lparr>geo_data_width = 32, geo_channels = Some (2, 1024)\<rparr>"
  have p: "is_power_of_two 4096" by (simp add: is_power_of_two_iff) (rule exI [of _ 12], simp)
  then have "MemoryGeometry_new 32 (Some 2) (Some 1024) = Inr ?g"
    by (simp add: MemoryGeometry_new_def geometry_channels_def channel_bytes_def wrap_def)
  from geometry_exact [OF this] obtain w :: nat where w: "channel_addr_width ?g = Some w" "2 ^ w = (2 :: nat) ^ 12"
    by auto
  from w(2) have "w = 12" by (simp only: power_inject_exp)
  with w(1) show ?thesis by simp
qed

section \<open>Clock period\<close>

definition pad3 :: "string \<Rightarrow> string" where
  "pad3 s = replicate (3 - length s) CHR ''0'' @ s"

definition show_period :: "nat \<Rightarrow> string" where
  "show_period ps =
     (let whole = ps div 1000; fraction = ps mod 1000
      in if fraction = 0 then show_nat whole
         else show_nat whole @ ''.'' @ rev (dropWhile (\<lambda>c. c = CHR ''0'') (rev (pad3 (show_nat fraction)))))"

text \<open>The picoseconds a decimal number of nanoseconds with at most three places denotes.\<close>

definition read_ns :: "string \<Rightarrow> nat" where
  "read_ns s =
     (case split_once ''.'' s of
        None \<Rightarrow> 1000 * read_digits s
      | Some (whole, frac) \<Rightarrow> 1000 * read_digits whole + read_digits (frac @ replicate (3 - length frac) CHR ''0''))"

lemma read_digits_zeros [simp]: "read_digits (replicate n CHR ''0'' @ s) = read_digits s"
  by (induction n) (simp_all add: read_digits_def digit_val_def)

lemma length_show_nat3: "n < 1000 \<Longrightarrow> length (show_nat n) \<le> 3"
  by (simp add: show_nat.simps [of n] show_nat.simps [of "n div 10"] show_nat.simps [of "n div 10 div 10"])

lemma trim_zeros_pad:
  assumes "length s = 3"
  defines "t \<equiv> rev (dropWhile (\<lambda>c. c = CHR ''0'') (rev s))"
  shows "t @ replicate (3 - length t) CHR ''0'' = s"
proof -
  let ?z = "takeWhile (\<lambda>c. c = CHR ''0'') (rev s)"
  have split: "rev s = ?z @ rev t" by (simp add: t_def)
  have z: "?z = replicate (length ?z) CHR ''0''"
    by (intro replicate_eqI) (auto dest: set_takeWhileD)
  have s: "s = t @ rev ?z" using arg_cong [OF split, of rev] by simp
  have "length ?z = 3 - length t" using arg_cong [OF split, of length] assms(1) by simp
  then have "rev ?z = replicate (3 - length t) CHR ''0''" using z by (metis rev_replicate)
  then show ?thesis using s by simp
qed

lemma dot_not_digit: "CHR ''.'' \<notin> set (show_nat n)"
  using show_nat_set [of "CHR ''.''" n] by (auto simp: is_ascii_digit_def)

lemma split_dot: "split_once ''.'' (show_nat n @ ''.'' @ t) = Some (show_nat n, t)"
  using split_once_char [OF dot_not_digit] by simp

lemma split_no_dot: "split_once ''.'' (show_nat n) = None"
proof -
  have "CHR ''.'' \<notin> set l \<Longrightarrow> split_once ''.'' l = None" for l
    by (induction l) auto
  then show ?thesis using dot_not_digit .
qed

text \<open>The decimal text of a clock period is exact: read back as nanoseconds with up to three places, it
  denotes the same number of picoseconds.  No two periods share a text.\<close>

theorem show_period_exact:
  "read_ns (show_period ps) = ps \<and> (show_period ps = show_period ps' \<longleftrightarrow> ps = ps')"
proof -
  have *: "read_ns (show_period ps) = ps" for ps
  proof (cases "ps mod 1000 = 0")
    case True
    then have "1000 * (ps div 1000) = ps" using mult_div_mod_eq [of 1000 ps] by linarith
    with True show ?thesis by (simp add: show_period_def Let_def read_ns_def split_no_dot)
  next
    case False
    have "length (pad3 (show_nat (ps mod 1000))) = 3"
      using length_show_nat3 [of "ps mod 1000"] by (simp add: pad3_def)
    from trim_zeros_pad [OF this] show ?thesis
      using False by (simp add: show_period_def Let_def read_ns_def split_dot [simplified] pad3_def)
  qed
  then show ?thesis by metis
qed

end
