(* ===== verification/Ir_Graph.thy ===== *)
theory Ir_Graph
  imports Ir_Floorplan Ir_Memory
begin

text \<open>
  The task graph of \<^verbatim>\<open>tapa-core/tapa-ir/src\<close>: instances and their arguments (\<^verbatim>\<open>instance.rs\<close>), FIFOs
  (\<^verbatim>\<open>interconnect.rs\<close>), tasks (\<^verbatim>\<open>task.rs\<close>), the graph and its validation (\<^verbatim>\<open>graph.rs\<close>), the logical
  bindings (\<^verbatim>\<open>bindings.rs\<close>) and the persisted state (\<^verbatim>\<open>work_state.rs\<close>).  Parsing of JSON text is a
  parameter.
\<close>

section \<open>Instances\<close>

record WireValue =
  wv_width :: nat
  wv_value :: nat

definition wire_value_is_valid :: "WireValue \<Rightarrow> bool" where
  "wire_value_is_valid v \<longleftrightarrow>
     wv_width v \<ge> 1 \<and> wv_width v \<le> 64 \<and> (wv_width v = 64 \<or> wv_value v < 2 ^ wv_width v)"

definition show_wire_value :: "WireValue \<Rightarrow> string" where
  "show_wire_value v = show_nat (wv_width v) @ [CHR 0x27] @ ''d'' @ show_nat (wv_value v)"

datatype ArgSource = Name string | Literal WireValue

fun arg_source_name :: "ArgSource \<Rightarrow> string option" where
  "arg_source_name (Name n) = Some n"
| "arg_source_name (Literal v) = None"

record Arg =
  arg_arg :: ArgSource
  arg_cat :: ArgCategory

definition arg_named :: "string \<Rightarrow> ArgCategory \<Rightarrow> Arg" where
  "arg_named n c = \<lparr>arg_arg = Name n, arg_cat = c\<rparr>"

definition arg_name :: "Arg \<Rightarrow> string option" where
  "arg_name a = arg_source_name (arg_arg a)"

record TaskInstance =
  inst_name :: "string option"
  inst_args :: "(string, Arg) btree"
  inst_step :: int

definition canonical_name :: "TaskInstance \<Rightarrow> string \<Rightarrow> nat \<Rightarrow> string" where
  "canonical_name inst definition_name index =
     (case inst_name inst of Some n \<Rightarrow> n | None \<Rightarrow> definition_name @ ''_'' @ show_nat index)"

section \<open>FIFOs and tasks\<close>

datatype EndpointRef = EndpointRef (ep_task: string) (ep_index: nat)

record InterconnectDefinition =
  ic_depth :: "nat option"
  ic_consumed_by :: "EndpointRef option"
  ic_produced_by :: "EndpointRef option"

datatype TaskLevel = Lower | Upper

datatype SynthTarget = Hls | Ignore | Aie

record AieLocation =
  loc_col :: nat
  loc_row :: nat
  loc_instance :: "nat option"

record Task =
  task_level :: TaskLevel
  task_srcs :: "string list"
  task_include_dirs :: "string list"
  task_defines :: "string list"
  task_readable_name :: string
  task_synth :: SynthTarget
  task_aie_location :: "AieLocation list"
  task_aie_stack_bytes :: "nat option"
  task_ports :: "Port list"
  task_tasks :: "(string, TaskInstance list) btree"
  task_fifos :: "(string, InterconnectDefinition) btree"
  task_clock_period :: "nat option"
  task_self_area :: "Area option"
  task_total_area :: "Area option"

definition task_port :: "Task \<Rightarrow> string \<Rightarrow> Port option" where
  "task_port t name =
     (case find (\<lambda>p. port_name p = name) (task_ports t) of
        Some p \<Rightarrow> Some p
      | None \<Rightarrow>
          Option.bind (split_once ''['' name) (\<lambda>(base, _).
            find (\<lambda>p. base \<noteq> [] \<and> port_name p = base) (task_ports t)))"

definition zero_area_as_none :: "Area option \<Rightarrow> Area option" where
  "zero_area_as_none a = (case a of None \<Rightarrow> None | Some x \<Rightarrow> if x \<noteq> Area_default then Some x else None)"

section \<open>The graph\<close>

record TaskGraph =
  g_schema_version :: nat
  g_top :: string
  g_target :: Target
  g_cflags :: "string list"
  g_tasks :: "(string, Task) btree"

definition SCHEMA_VERSION :: nat where
  "SCHEMA_VERSION = 3"

definition default_schema_version :: nat where
  "default_schema_version = 1"

text \<open>The messages of schema errors, with the values they print.\<close>

datatype schema_message =
    InvalidConstant WireValue
  | ConstantOnCategory WireValue ArgCategory
  | NoDeclaredPort WireValue string string
  | ConstantOnDeclared WireValue ArgCategory
  | Malformed string

datatype ParseError =
    Schema string schema_message
  | WorkStateVersion "nat option" nat
  | Json string
  | UnsupportedSchemaVersion nat nat
  | OutdatedSchemaVersion nat nat

definition arg_path :: "string \<Rightarrow> string \<Rightarrow> string \<Rightarrow> string" where
  "arg_path task child port = ''tasks.'' @ task @ ''.tasks.'' @ child @ ''.args.'' @ port"

text \<open>The body of the innermost loop, for one argument of one instance.\<close>

definition check_literal :: "TaskGraph \<Rightarrow> string \<Rightarrow> string \<Rightarrow> string \<times> Arg \<Rightarrow> ParseError + unit" where
  "check_literal g task_name child_name pa =
     (case pa of (port_nm, arg) \<Rightarrow>
       (case arg_arg arg of
          Name _ \<Rightarrow> Inr ()
        | Literal v \<Rightarrow>
            (let path = arg_path task_name child_name port_nm in
             bindR (check (wire_value_is_valid v) (Schema path (InvalidConstant v))) (\<lambda>_.
             bindR (check (arg_cat arg = Scalar) (Schema path (ConstantOnCategory v (arg_cat arg)))) (\<lambda>_.
             bindR (ok_or (Schema path (NoDeclaredPort v child_name port_nm))
               (case Option.bind (bt_get (g_tasks g) child_name) (\<lambda>child. task_port child port_nm) of
                  Some p \<Rightarrow> if port_name p = port_nm then Some p else None
                | None \<Rightarrow> None)) (\<lambda>p.
             check (is_scalar (port_cat p)) (Schema path (ConstantOnDeclared v (port_cat p)))))))))"

definition validate_literals :: "TaskGraph \<Rightarrow> ParseError + unit" where
  "validate_literals g =
     foldR (\<lambda>_ (task_name, task).
       foldR (\<lambda>_ (child_name, instances).
         foldR (\<lambda>_ inst.
           foldR (\<lambda>_ pa. check_literal g task_name child_name pa) () (inst_args inst))
           () instances)
         () (task_tasks task))
       () (g_tasks g)"

definition validate :: "TaskGraph \<Rightarrow> ParseError + unit" where
  "validate g =
     (if g_schema_version g > SCHEMA_VERSION
      then Inl (UnsupportedSchemaVersion (g_schema_version g) SCHEMA_VERSION)
      else if g_schema_version g < SCHEMA_VERSION
      then Inl (OutdatedSchemaVersion (g_schema_version g) SCHEMA_VERSION)
      else validate_literals g)"

definition graph_from_json :: "(string \<Rightarrow> ParseError + TaskGraph) \<Rightarrow> string \<Rightarrow> ParseError + TaskGraph" where
  "graph_from_json parse_json json =
     bindR (parse_json json) (\<lambda>g. bindR (validate g) (\<lambda>_. Inr g))"

section \<open>Bindings\<close>

record PortBinding =
  pb_port_name :: string
  pb_argument :: Arg
  pb_port :: "Port option"

record FifoEndpoint =
  fe_reference :: EndpointRef
  fe_task :: "Task option"
  fe_binding :: "PortBinding option"

definition instance_bindings :: "Task option \<Rightarrow> TaskInstance \<Rightarrow> PortBinding list" where
  "instance_bindings def inst =
     map (\<lambda>(n, a). \<lparr>pb_port_name = n, pb_argument = a, pb_port = Option.bind def (\<lambda>t. task_port t n)\<rparr>)
       (inst_args inst)"

definition graph_bindings :: "TaskGraph \<Rightarrow> Task \<Rightarrow> PortBinding list" where
  "graph_bindings g parent =
     concat (map (\<lambda>(name, instances).
       concat (map (instance_bindings (bt_get (g_tasks g) name)) instances)) (task_tasks parent))"

definition fifo_endpoint :: "TaskGraph \<Rightarrow> Task \<Rightarrow> string \<Rightarrow> EndpointRef option \<Rightarrow> FifoEndpoint option" where
  "fifo_endpoint g parent fifo_name reference =
     Option.bind reference (\<lambda>r.
       let task = bt_get (g_tasks g) (ep_task r);
           binding =
             Option.bind (bt_get (task_tasks parent) (ep_task r)) (\<lambda>instances.
             if ep_index r < length instances
             then find (\<lambda>b. arg_name (pb_argument b) = Some fifo_name)
                    (instance_bindings task (instances ! ep_index r))
             else None)
       in Some \<lparr>fe_reference = r, fe_task = task, fe_binding = binding\<rparr>)"

section \<open>Persisted state\<close>

record FlowSettings =
  flow_flatten_hierarchy :: bool
  flow_part_num :: "string option"
  flow_platform :: "string option"
  flow_clock_period :: "nat option"
  flow_skip_aie :: bool
  flow_synthed :: bool

definition FlowSettings_default :: FlowSettings where
  "FlowSettings_default = \<lparr>flow_flatten_hierarchy = False, flow_part_num = None, flow_platform = None,
     flow_clock_period = None, flow_skip_aie = False, flow_synthed = False\<rparr>"

record WorkState =
  ws_version :: nat
  ws_graph :: TaskGraph
  ws_flow :: FlowSettings
  ws_floorplan :: "FloorplanResult option"

definition WORK_STATE_VERSION :: nat where
  "WORK_STATE_VERSION = 5"

definition WorkState_new :: "TaskGraph \<Rightarrow> WorkState" where
  "WorkState_new g =
     \<lparr>ws_version = WORK_STATE_VERSION, ws_graph = g, ws_flow = FlowSettings_default, ws_floorplan = None\<rparr>"

definition in_graph :: "ParseError \<Rightarrow> ParseError" where
  "in_graph e = (case e of Schema path m \<Rightarrow> Schema (''graph.'' @ path) m | _ \<Rightarrow> e)"

text \<open>
  \<open>probe\<close> reads only the version stamp: \<open>None\<close> when the text is no document with such a stamp,
  \<open>Some None\<close> when the stamp is absent.
\<close>

definition work_state_from_json ::
    "(string \<Rightarrow> nat option option) \<Rightarrow> (string \<Rightarrow> ParseError + WorkState) \<Rightarrow> string \<Rightarrow> ParseError + WorkState" where
  "work_state_from_json probe parse_json json =
     bindR (case probe json of
              Some v \<Rightarrow> check (v = Some WORK_STATE_VERSION) (WorkStateVersion v WORK_STATE_VERSION)
            | None \<Rightarrow> Inr ()) (\<lambda>_.
     bindR (parse_json json) (\<lambda>state.
     bindR (map_err in_graph (validate (ws_graph state))) (\<lambda>_. Inr state)))"

section \<open>Validation\<close>

text \<open>Every argument of every instance, with its task, child and port, in iteration order.\<close>

definition arg_sites :: "TaskGraph \<Rightarrow> (string \<times> string \<times> string \<times> Arg) list" where
  "arg_sites g =
     concat (map (\<lambda>(tn, t). concat (map (\<lambda>(cn, is). concat (map (\<lambda>i.
       map (\<lambda>(p, a). (tn, cn, p, a)) (inst_args i)) is)) (task_tasks t))) (g_tasks g))"

lemma validate_literals_sites:
  "validate_literals g = foldR (\<lambda>_ (tn, cn, pa). check_literal g tn cn pa) () (arg_sites g)"
  unfolding validate_literals_def arg_sites_def
  by (simp add: foldR_concat foldR_map case_prod_unfold)

lemma check_literal_Inr:
  "check_literal g tn cn (p, a) = Inr () \<longleftrightarrow>
    (\<forall>v. arg_arg a = Literal v \<longrightarrow> wire_value_is_valid v \<and> arg_cat a = Scalar \<and>
      (\<exists>child q. bt_get (g_tasks g) cn = Some child \<and> task_port child p = Some q \<and> port_name q = p \<and>
        port_cat q = Scalar))"
  by (cases "arg_arg a")
    (auto simp: check_literal_def Let_def bindR_eq_Inr bind_eq_Some_conv split: option.splits if_splits
      ArgCategory.splits)

text \<open>C17: A graph is accepted exactly when its schema version is the current one and every constant in it is
  well-formed: it fits its width of 1 to 64 bits, its argument is a scalar, and the child declares a
  scalar port of exactly that name.\<close>

theorem validate_iff:
  "validate g = Inr () \<longleftrightarrow>
    g_schema_version g = 3 \<and>
    (\<forall>(tn, cn, p, a) \<in> set (arg_sites g). \<forall>v. arg_arg a = Literal v \<longrightarrow>
      wire_value_is_valid v \<and> arg_cat a = Scalar \<and>
      (\<exists>child q. bt_get (g_tasks g) cn = Some child \<and> task_port child p = Some q \<and> port_name q = p \<and>
        port_cat q = Scalar))"
proof -
  have "validate_literals g = Inr () \<longleftrightarrow> (\<forall>(tn, cn, p, a) \<in> set (arg_sites g). check_literal g tn cn (p, a) = Inr ())"
    using foldR_checks_Inr [of "\<lambda>(tn, cn, pa). check_literal g tn cn pa" "arg_sites g"]
    by (simp add: validate_literals_sites case_prod_unfold)
  then show ?thesis
    by (auto simp: validate_def SCHEMA_VERSION_def check_literal_Inr case_prod_unfold)
qed

text \<open>The fault of an argument, if it has one: the first of the four things wrong with its constant.\<close>

definition site_fault :: "TaskGraph \<Rightarrow> string \<times> string \<times> string \<times> Arg \<Rightarrow> schema_message \<Rightarrow> bool" where
  "site_fault g site m \<longleftrightarrow> (case site of (tn, cn, p, a) \<Rightarrow> \<exists>v. arg_arg a = Literal v \<and>
     (let declared = (\<lambda>q. \<exists>child. bt_get (g_tasks g) cn = Some child \<and> task_port child p = Some q \<and> port_name q = p) in
      if \<not> wire_value_is_valid v then m = InvalidConstant v
      else if arg_cat a \<noteq> Scalar then m = ConstantOnCategory v (arg_cat a)
      else if \<nexists>q. declared q then m = NoDeclaredPort v cn p
      else \<exists>q. declared q \<and> port_cat q \<noteq> Scalar \<and> m = ConstantOnDeclared v (port_cat q)))"

lemma check_literal_Inl:
  "check_literal g tn cn (p, a) = Inl e \<longleftrightarrow> (\<exists>m. site_fault g (tn, cn, p, a) m \<and> e = Schema (arg_path tn cn p) m)"
proof (cases "arg_arg a")
  case (Literal v)
  define decl where "decl = (case Option.bind (bt_get (g_tasks g) cn) (\<lambda>child. task_port child p) of
      Some q \<Rightarrow> if port_name q = p then Some q else None | None \<Rightarrow> None)"
  have declared: "(\<exists>child. bt_get (g_tasks g) cn = Some child \<and> task_port child p = Some q \<and> port_name q = p) \<longleftrightarrow> decl = Some q" for q
    by (auto simp: decl_def bind_eq_Some_conv split: option.splits)
  show ?thesis
    unfolding check_literal_def site_fault_def Let_def declared prod.case decl_def [symmetric] Literal ArgSource.case
    by (cases decl; cases "wire_value_is_valid v"; cases "arg_cat a = Scalar") (auto simp: check_def split: ArgCategory.splits if_splits)
qed (simp add: check_literal_def site_fault_def)

text \<open>C39: Validation fails with exactly these errors: a newer and an older schema version are reported as such, with both
  versions; otherwise the error is that of the first faulty argument in document order, its path, and what is wrong with the
  constant there: an invalid value, an argument that is not a scalar, no declared port of that name, or a declared port
  that is not a scalar.\<close>

theorem validate_error_located:
  "validate g = Inl e \<longleftrightarrow>
    g_schema_version g > 3 \<and> e = UnsupportedSchemaVersion (g_schema_version g) 3 \<or>
    g_schema_version g < 3 \<and> e = OutdatedSchemaVersion (g_schema_version g) 3 \<or>
    g_schema_version g = 3 \<and> (\<exists>pre tn cn p a post m. arg_sites g = pre @ (tn, cn, p, a) # post \<and>
      (\<forall>site \<in> set pre. \<nexists>m'. site_fault g site m') \<and> site_fault g (tn, cn, p, a) m \<and> e = Schema (arg_path tn cn p) m)"
proof -
  let ?c = "\<lambda>(tn, cn, pa). check_literal g tn cn pa"
  have fine: "?c site = Inr () \<longleftrightarrow> (\<nexists>m'. site_fault g site m')" for site
  proof (cases site)
    case (fields tn cn p a)
    then show ?thesis using check_literal_Inl [of g tn cn p a] by (cases "check_literal g tn cn (p, a)") auto
  qed
  have "validate_literals g = Inl e \<longleftrightarrow> (\<exists>pre x post. arg_sites g = pre @ x # post \<and> (\<forall>y \<in> set pre. ?c y = Inr ()) \<and> ?c x = Inl e)"
    using foldR_first_error [of ?c "arg_sites g" e] by (simp add: validate_literals_sites case_prod_unfold)
  then have "validate_literals g = Inl e \<longleftrightarrow> (\<exists>pre tn cn p a post m. arg_sites g = pre @ (tn, cn, p, a) # post \<and>
      (\<forall>site \<in> set pre. \<nexists>m'. site_fault g site m') \<and> site_fault g (tn, cn, p, a) m \<and> e = Schema (arg_path tn cn p) m)"
    unfolding fine by (simp add: check_literal_Inl)
  then show ?thesis by (auto simp: validate_def SCHEMA_VERSION_def)
qed

text \<open>A top task that runs one leaf with the constant 5 on a scalar port.\<close>

definition demo_task :: "TaskLevel \<Rightarrow> Port list \<Rightarrow> (string, TaskInstance list) btree \<Rightarrow>
    (string, InterconnectDefinition) btree \<Rightarrow> Task" where
  "demo_task level ports tasks fifos =
     \<lparr>task_level = level, task_srcs = [], task_include_dirs = [], task_defines = [], task_readable_name = [],
      task_synth = Hls, task_aie_location = [], task_aie_stack_bytes = None, task_ports = ports,
      task_tasks = tasks, task_fifos = fifos, task_clock_period = None, task_self_area = None,
      task_total_area = None\<rparr>"

definition demo_graph :: "nat \<Rightarrow> TaskGraph" where
  "demo_graph value_bits =
     \<lparr>g_schema_version = 3, g_top = ''Top'', g_target = XilinxVitis, g_cflags = [],
      g_tasks = [(''Leaf'', demo_task Lower [demo_port\<lparr>port_cat := Scalar, port_name := ''n''\<rparr>] [] []),
        (''Top'', demo_task Upper []
          [(''Leaf'', [\<lparr>inst_name = None,
             inst_args = [(''n'', \<lparr>arg_arg = Literal \<lparr>wv_width = value_bits, wv_value = 5\<rparr>, arg_cat = Scalar\<rparr>)],
             inst_step = 0\<rparr>])] [])]\<rparr>"

lemma demo_graph_sites:
  "arg_sites (demo_graph b) =
     [(''Top'', ''Leaf'', ''n'', \<lparr>arg_arg = Literal \<lparr>wv_width = b, wv_value = 5\<rparr>, arg_cat = Scalar\<rparr>)]"
  by (simp add: arg_sites_def demo_graph_def demo_task_def)

theorem validate_iff_witness: "validate (demo_graph 32) = Inr ()"
  using validate_iff [of "demo_graph 32"]
  by (simp add: demo_graph_sites wire_value_is_valid_def)
    (simp add: demo_graph_def demo_task_def bt_get_def task_port_def demo_port_def)

theorem validate_error_located_witness:
  "validate (demo_graph 2) = Inl (Schema (arg_path ''Top'' ''Leaf'' ''n'') (InvalidConstant \<lparr>wv_width = 2, wv_value = 5\<rparr>))"
proof -
  have "g_schema_version (demo_graph 2) = 3" by (simp add: demo_graph_def)
  then show ?thesis
    unfolding validate_error_located demo_graph_sites by (auto simp: Cons_eq_append_conv site_fault_def wire_value_is_valid_def)
qed

text \<open>A state file is accepted only with the current version stamp, a current graph schema and valid
  constants; a graph fault found in it is reported with its path below \<open>graph.\<close>.\<close>

theorem work_state_accepted:
  assumes "work_state_from_json probe parse json = Inr st"
  shows "parse json = Inr st \<and> validate (ws_graph st) = Inr () \<and>
    (case probe json of None \<Rightarrow> True | Some v \<Rightarrow> v = Some 5)"
  using assms
  by (auto simp: work_state_from_json_def bindR_eq_Inr map_err_def WORK_STATE_VERSION_def
      split: option.splits sum.splits)

theorem work_state_accepted_witness:
  "validate (ws_graph (WorkState_new (demo_graph 32))) = Inr ()"
proof -
  have "validate (demo_graph 32) = Inr ()"
    by (simp add: validate_def validate_literals_sites demo_graph_sites check_literal_def wire_value_is_valid_def
        SCHEMA_VERSION_def Let_def) (simp add: demo_graph_def demo_task_def bt_get_def task_port_def demo_port_def)
  then have "work_state_from_json (\<lambda>_. Some (Some 5)) (\<lambda>_. Inr (WorkState_new (demo_graph 32))) ''{}''
      = Inr (WorkState_new (demo_graph 32))"
    by (simp add: work_state_from_json_def WorkState_new_def WORK_STATE_VERSION_def)
  from work_state_accepted [OF this] show ?thesis by simp
qed

section \<open>Bindings\<close>

text \<open>Resolving an endpoint of a FIFO finds an argument of the referenced instance that is bound to the
  FIFO, with the port its task declares; nothing is found only when no argument of that instance names
  the FIFO.\<close>

theorem fifo_endpoint_sound:
  assumes "fifo_endpoint g parent fifo (Some r) = Some fe"
    and "bt_get (task_tasks parent) (ep_task r) = Some insts" and "ep_index r < length insts"
  shows "fe_reference fe = r \<and>
    (case fe_binding fe of
       Some b \<Rightarrow> (pb_port_name b, pb_argument b) \<in> set (inst_args (insts ! ep_index r)) \<and>
         arg_name (pb_argument b) = Some fifo \<and>
         pb_port b = Option.bind (bt_get (g_tasks g) (ep_task r)) (\<lambda>t. task_port t (pb_port_name b))
     | None \<Rightarrow> (\<forall>(p, a) \<in> set (inst_args (insts ! ep_index r)). arg_name a \<noteq> Some fifo))"
proof -
  let ?bs = "instance_bindings (bt_get (g_tasks g) (ep_task r)) (insts ! ep_index r)"
  have fe: "fe_reference fe = r" "fe_binding fe = find (\<lambda>b. arg_name (pb_argument b) = Some fifo) ?bs"
    using assms by (auto simp: fifo_endpoint_def Let_def)
  show ?thesis
  proof (cases "fe_binding fe")
    case None
    with fe(2) have "\<forall>b \<in> set ?bs. arg_name (pb_argument b) \<noteq> Some fifo"
      by (simp add: find_None_iff2)
    then have "\<forall>(p, a) \<in> set (inst_args (insts ! ep_index r)). arg_name a \<noteq> Some fifo"
      by (simp add: instance_bindings_def case_prod_unfold)
    then show ?thesis using fe(1) None by (simp only: option.case simp_thms)
  next
    case (Some b)
    then have "b \<in> set ?bs" "arg_name (pb_argument b) = Some fifo"
      using fe(2) by (auto simp: find_Some_iff)
    then have "(pb_port_name b, pb_argument b) \<in> set (inst_args (insts ! ep_index r)) \<and>
        arg_name (pb_argument b) = Some fifo \<and>
        pb_port b = Option.bind (bt_get (g_tasks g) (ep_task r)) (\<lambda>t. task_port t (pb_port_name b))"
      by (auto simp: instance_bindings_def)
    then show ?thesis using fe(1) Some by (simp only: option.case simp_thms)
  qed
qed

definition demo_fifo_parent :: Task where
  "demo_fifo_parent = demo_task Upper []
     [(''Leaf'', [\<lparr>inst_name = None, inst_args = [(''in'', arg_named ''q'' Istream)], inst_step = 0\<rparr>])] []"

theorem fifo_endpoint_sound_witness:
  "\<exists>fe b. fifo_endpoint (demo_graph 32) demo_fifo_parent ''q'' (Some (EndpointRef ''Leaf'' 0)) = Some fe \<and>
     fe_binding fe = Some b \<and> arg_name (pb_argument b) = Some ''q''"
proof -
  obtain fe where fe: "fifo_endpoint (demo_graph 32) demo_fifo_parent ''q'' (Some (EndpointRef ''Leaf'' 0)) = Some fe"
    by (simp add: fifo_endpoint_def Let_def)
  have insts: "bt_get (task_tasks demo_fifo_parent) (ep_task (EndpointRef ''Leaf'' 0)) =
      Some [\<lparr>inst_name = None, inst_args = [(''in'', arg_named ''q'' Istream)], inst_step = 0\<rparr>]"
    by (simp add: demo_fifo_parent_def demo_task_def bt_get_def)
  show ?thesis
    using fe fifo_endpoint_sound [OF fe insts]
    by (cases "fe_binding fe") (auto simp: arg_named_def arg_name_def)
qed

end
