(* ===== verification/Ir_Transforms.thy ===== *)
theory Ir_Transforms
  imports Ir_Graph
begin

text \<open>
  \<^verbatim>\<open>tapa-core/tapa-ir/src/transforms.rs\<close>: flattening the task hierarchy.  Every leaf instance is lifted
  under the top task, FIFO and instance names become global, and the original owner of every
  occurrence is kept.  The recursion follows the hierarchy, which the code does not check for cycles;
  the model has fuel, and running out of it is the outcome \<open>Diverge\<close>.  A failed \<^verbatim>\<open>expect\<close> is \<open>Panic\<close>.
\<close>

section \<open>Data\<close>

record TaskOccurrence =
  occ_parent :: "nat option"
  occ_source :: "EndpointRef option"
  occ_global_name :: string
  occ_flat_endpoint :: "EndpointRef option"

record FlatProjection =
  fp_flat :: TaskGraph
  fp_occurrences :: "TaskOccurrence list"

record FlatInstances =
  fi_leaves :: "(string, TaskInstance list) btree"
  fi_fifos :: "(string, InterconnectDefinition) btree"
  fi_occurrences :: "TaskOccurrence list"

datatype TransformError =
    MissingTop string
  | TopIsLeaf string
  | FifoNameCollision string

datatype flat_failure = Fails TransformError | Panic | Diverge

definition source_task :: "FlatProjection \<Rightarrow> TaskGraph \<Rightarrow> nat \<Rightarrow> Task option" where
  "source_task p g k =
     (if k < length (fp_occurrences p)
      then bt_get (g_tasks g)
        (case occ_source (fp_occurrences p ! k) of None \<Rightarrow> g_top g | Some s \<Rightarrow> ep_task s)
      else None)"

definition source_invocation :: "FlatProjection \<Rightarrow> TaskGraph \<Rightarrow> nat \<Rightarrow> TaskInstance option" where
  "source_invocation p g k =
     (if k < length (fp_occurrences p)
      then let occ = fp_occurrences p ! k in
        Option.bind (occ_source occ) (\<lambda>source.
        Option.bind (occ_parent occ) (\<lambda>owner.
        Option.bind (source_task p g owner) (\<lambda>parent.
        Option.bind (bt_get (task_tasks parent) (ep_task source)) (\<lambda>insts.
          if ep_index source < length insts then Some (insts ! ep_index source) else None))))
      else None)"

definition to_u32 :: "nat \<Rightarrow> flat_failure + nat" where
  "to_u32 n = (if fits 32 n then Inr n else Inl Panic)"

definition leaves_of :: "FlatInstances \<Rightarrow> string \<Rightarrow> TaskInstance list" where
  "leaves_of c t = (case bt_get (fi_leaves c) t of None \<Rightarrow> [] | Some ls \<Rightarrow> ls)"

definition push_leaf :: "nat \<Rightarrow> EndpointRef \<Rightarrow> TaskInstance \<Rightarrow> FlatInstances \<Rightarrow> flat_failure + FlatInstances" where
  "push_leaf owner source inst c =
     (let leaves = leaves_of c (ep_task source);
          global_name = canonical_name inst (ep_task source) (length leaves)
      in bindR (to_u32 (length leaves)) (\<lambda>k.
         Inr (c\<lparr>fi_leaves := bt_insert (ep_task source) (leaves @ [inst]) (fi_leaves c),
                fi_occurrences := fi_occurrences c @
                  [\<lparr>occ_parent = Some owner, occ_source = Some source, occ_global_name = global_name,
                    occ_flat_endpoint = Some (EndpointRef (ep_task source) k)\<rparr>]\<rparr>)))"

section \<open>Argument resolution\<close>

definition should_materialize_fifo :: "InterconnectDefinition \<Rightarrow> bool \<Rightarrow> bool" where
  "should_materialize_fifo fifo is_top_scope \<longleftrightarrow> is_top_scope \<or> ic_depth fifo \<noteq> None"

definition split_array_index :: "string \<Rightarrow> (string \<times> nat \<times> string) option" where
  "split_array_index name =
     Option.bind (split_once ''['' name) (\<lambda>(base, rest).
     Option.bind (split_once '']'' rest) (\<lambda>(digits, suffix).
     Option.bind (parse_uint 32 digits) (\<lambda>idx. Some (base, idx, suffix))))"

definition offset_array_binding :: "string \<Rightarrow> nat \<Rightarrow> string" where
  "offset_array_binding bound offset =
     (case split_array_index bound of
        Some (base, base_idx, suffix) \<Rightarrow> base @ ''['' @ show_nat (wrap 32 (base_idx + offset)) @ '']'' @ suffix
      | None \<Rightarrow> bound @ ''['' @ show_nat offset @ '']'')"

definition resolve_scoped_arg :: "string \<Rightarrow> (string, string) btree \<Rightarrow> (string, ArgSource) btree \<Rightarrow> ArgSource" where
  "resolve_scoped_arg local_name fifo_global_map arg_bindings =
     (case bt_get fifo_global_map local_name of
        Some global \<Rightarrow> Name global
      | None \<Rightarrow>
     (case bt_get arg_bindings local_name of
        Some bound \<Rightarrow> bound
      | None \<Rightarrow>
     (case split_array_index local_name of
        Some (base, idx, []) \<Rightarrow>
          (case bt_get arg_bindings base of
             Some (Name bound) \<Rightarrow> Name (offset_array_binding bound idx)
           | _ \<Rightarrow>
               (case bt_get fifo_global_map base of
                  Some bound \<Rightarrow> Name (offset_array_binding bound idx)
                | None \<Rightarrow> Name local_name))
      | _ \<Rightarrow> Name local_name)))"

definition resolve_args :: "(string, string) btree \<Rightarrow> (string, ArgSource) btree \<Rightarrow> TaskInstance \<Rightarrow> (string, Arg) btree" where
  "resolve_args fifo_global_map arg_bindings inst =
     bt_collect (map (\<lambda>(port, arg).
       (port, \<lparr>arg_arg = (case arg_arg arg of
                            Literal v \<Rightarrow> Literal v
                          | Name n \<Rightarrow> resolve_scoped_arg n fifo_global_map arg_bindings),
               arg_cat = arg_cat arg\<rparr>)) (inst_args inst))"

definition scope_fifo_map :: "Task \<Rightarrow> bool \<Rightarrow> string \<Rightarrow> (string, string) btree" where
  "scope_fifo_map def is_top_scope scope_path =
     bt_collect (map (\<lambda>(n, f). (n, if ic_depth f = None then n else n @ ''_'' @ scope_path))
       (filter (\<lambda>(n, f). should_materialize_fifo f is_top_scope) (task_fifos def)))"

section \<open>Collecting the leaves\<close>

text \<open>The body of the instance loop; \<open>descend\<close> is the recursive call.\<close>

definition visit_instance ::
    "(string \<Rightarrow> string \<Rightarrow> (string, ArgSource) btree \<Rightarrow> nat \<Rightarrow> FlatInstances \<Rightarrow> flat_failure + FlatInstances) \<Rightarrow>
     TaskGraph \<Rightarrow> bool \<Rightarrow> string \<Rightarrow> (string, string) btree \<Rightarrow> (string, ArgSource) btree \<Rightarrow> nat \<Rightarrow>
     string \<Rightarrow> FlatInstances \<Rightarrow> nat \<times> TaskInstance \<Rightarrow> flat_failure + FlatInstances" where
  "visit_instance descend g is_top_scope scope_path fifo_map arg_bindings owner child_def_name c ii =
     (case ii of (idx, inst) \<Rightarrow>
       let resolved_args = resolve_args fifo_map arg_bindings inst in
       bindR (ok_or (Fails (MissingTop child_def_name)) (bt_get (g_tasks g) child_def_name)) (\<lambda>child_def.
       bindR (to_u32 idx) (\<lambda>i.
         let source = EndpointRef child_def_name i in
         if task_level child_def = Lower
         then push_leaf owner source
                \<lparr>inst_name = map_option (\<lambda>n. if is_top_scope then n else n @ ''_'' @ scope_path) (inst_name inst),
                 inst_args = resolved_args, inst_step = inst_step inst\<rparr> c
         else let child_scope = canonical_name inst child_def_name idx @ ''_'' @ scope_path in
           descend child_def_name child_scope (bt_map (\<lambda>_ a. arg_arg a) resolved_args) (length (fi_occurrences c))
             (c\<lparr>fi_occurrences := fi_occurrences c @
                 [\<lparr>occ_parent = Some owner, occ_source = Some source, occ_global_name = child_scope,
                   occ_flat_endpoint = None\<rparr>]\<rparr>))))"

text \<open>Adding the FIFOs of a scope under their global names.\<close>

definition register_fifos :: "Task \<Rightarrow> (string, string) btree \<Rightarrow> FlatInstances \<Rightarrow> flat_failure + FlatInstances" where
  "register_fifos def fifo_map c =
     foldR (\<lambda>c (local_name, global_name).
       bindR (ok_or Panic (bt_get (task_fifos def) local_name)) (\<lambda>fifo.
         if bt_contains (fi_fifos c) global_name then Inl (Fails (FifoNameCollision global_name))
         else Inr (c\<lparr>fi_fifos := bt_insert global_name fifo (fi_fifos c)\<rparr>)))
       c fifo_map"

fun collect_leaves_recursive :: "nat \<Rightarrow> TaskGraph \<Rightarrow> string \<Rightarrow> string \<Rightarrow> (string, ArgSource) btree \<Rightarrow> nat \<Rightarrow>
    FlatInstances \<Rightarrow> flat_failure + FlatInstances" where
  "collect_leaves_recursive 0 g task_name scope_path arg_bindings owner c = Inl Diverge"
| "collect_leaves_recursive (Suc n) g task_name scope_path arg_bindings owner c =
     bindR (ok_or (Fails (MissingTop task_name)) (bt_get (g_tasks g) task_name)) (\<lambda>def.
       let is_top_scope = (task_name = g_top g \<and> scope_path = g_top g);
           fifo_map = scope_fifo_map def is_top_scope scope_path
       in bindR (foldR (\<lambda>c (child_def_name, insts).
                   foldR (visit_instance (collect_leaves_recursive n g) g is_top_scope scope_path fifo_map
                            arg_bindings owner child_def_name)
                     c (enumerate 0 insts))
                   c (task_tasks def))
            (register_fifos def fifo_map))"

section \<open>Endpoints and the flat graph\<close>

datatype EndpointRole = Consumer | Producer

fun role_matches :: "EndpointRole \<Rightarrow> ArgCategory \<Rightarrow> bool" where
  "role_matches Consumer cat = is_input_stream cat"
| "role_matches Producer cat = is_output_stream cat"

definition binds_fifo :: "string \<Rightarrow> EndpointRole \<Rightarrow> TaskInstance \<Rightarrow> bool" where
  "binds_fifo fifo role inst =
     list_ex (\<lambda>arg. arg_name arg = Some fifo \<and> role_matches role (arg_cat arg)) (bt_values (inst_args inst))"

definition endpoint_hits :: "(string, TaskInstance list) btree \<Rightarrow> string \<Rightarrow> EndpointRole \<Rightarrow> (string \<times> nat) list" where
  "endpoint_hits leaves fifo role =
     concat (map (\<lambda>(t, insts). map (\<lambda>(i, inst). (t, i))
       (filter (\<lambda>(i, inst). binds_fifo fifo role inst) (enumerate 0 insts))) leaves)"

definition find_endpoint :: "(string, TaskInstance list) btree \<Rightarrow> string \<Rightarrow> EndpointRole \<Rightarrow> flat_failure + EndpointRef option" where
  "find_endpoint leaves fifo role =
     (case endpoint_hits leaves fifo role of
        [] \<Rightarrow> Inr None
      | (t, i) # _ \<Rightarrow> bindR (to_u32 i) (\<lambda>k. Inr (Some (EndpointRef t k))))"

definition fill_endpoints :: "(string, TaskInstance list) btree \<Rightarrow> string \<times> InterconnectDefinition \<Rightarrow>
    flat_failure + (string \<times> InterconnectDefinition)" where
  "fill_endpoints leaves nf =
     (case nf of (fifo_name, fifo) \<Rightarrow>
       bindR (if ic_consumed_by fifo \<noteq> None then find_endpoint leaves fifo_name Consumer else Inr None) (\<lambda>c.
       bindR (if ic_produced_by fifo \<noteq> None then find_endpoint leaves fifo_name Producer else Inr None) (\<lambda>p.
         Inr (fifo_name, fifo\<lparr>ic_consumed_by := c, ic_produced_by := p\<rparr>))))"

definition top_occurrence :: "TaskGraph \<Rightarrow> TaskOccurrence" where
  "top_occurrence g = \<lparr>occ_parent = None, occ_source = None, occ_global_name = g_top g, occ_flat_endpoint = None\<rparr>"

definition flatten_with_origins :: "nat \<Rightarrow> TaskGraph \<Rightarrow> flat_failure + FlatProjection" where
  "flatten_with_origins fuel g =
     bindR (ok_or (Fails (MissingTop (g_top g))) (bt_get (g_tasks g) (g_top g))) (\<lambda>top_def.
     bindR (check (task_level top_def \<noteq> Lower) (Fails (TopIsLeaf (g_top g)))) (\<lambda>_.
     bindR (collect_leaves_recursive fuel g (g_top g) (g_top g) [] 0
       \<lparr>fi_leaves = [], fi_fifos = [], fi_occurrences = [top_occurrence g]\<rparr>) (\<lambda>c.
     bindR (mapR (fill_endpoints (fi_leaves c)) (fi_fifos c)) (\<lambda>fifos.
       let kept = bt_collect (concat (map (\<lambda>child. case bt_get (g_tasks g) child of Some d \<Rightarrow> [(child, d)] | None \<Rightarrow> [])
                    (bt_keys (fi_leaves c))));
           new_top = top_def\<lparr>task_tasks := fi_leaves c, task_fifos := fifos\<rparr>
       in Inr \<lparr>fp_flat = g\<lparr>g_tasks := bt_insert (g_top g) new_top kept\<rparr>,
               fp_occurrences = fi_occurrences c\<rparr>))))"

definition flatten :: "nat \<Rightarrow> TaskGraph \<Rightarrow> flat_failure + TaskGraph" where
  "flatten fuel g = bindR (flatten_with_origins fuel g) (\<lambda>p. Inr (fp_flat p))"

end
