(* ===== verification/Flatten_Correct.thy ===== *)
theory Flatten_Correct
  imports Ir_Transforms
begin

text \<open>
  Flattening is faithful to the hierarchy.  The invariant of the recursion says that every recorded
  occurrence is an instance of its owner's task, and that the leaf occurrences number the flat
  instances of every leaf task in order, each with its global name.
\<close>

section \<open>The invariant\<close>

text \<open>The maps of a graph are \<^verbatim>\<open>BTreeMap\<close>s: their keys ascend.\<close>

definition graph_maps_ok :: "TaskGraph \<Rightarrow> bool" where
  "graph_maps_ok g \<longleftrightarrow> bt_ok (g_tasks g) \<and>
     (\<forall>(n, t) \<in> set (g_tasks g). bt_ok (task_tasks t) \<and> bt_ok (task_fifos t))"

definition occ_task :: "TaskGraph \<Rightarrow> FlatInstances \<Rightarrow> nat \<Rightarrow> string" where
  "occ_task g c k = (case occ_source (fi_occurrences c ! k) of None \<Rightarrow> g_top g | Some s \<Rightarrow> ep_task s)"

definition leaf_at :: "FlatInstances \<Rightarrow> EndpointRef \<Rightarrow> string \<Rightarrow> bool" where
  "leaf_at c e name \<longleftrightarrow>
     ep_index e < length (leaves_of c (ep_task e)) \<and>
     canonical_name (leaves_of c (ep_task e) ! ep_index e) (ep_task e) (ep_index e) = name"

definition occ_ok :: "TaskGraph \<Rightarrow> FlatInstances \<Rightarrow> nat \<Rightarrow> bool" where
  "occ_ok g c k \<longleftrightarrow>
     (\<exists>p t i pdef insts def.
        occ_parent (fi_occurrences c ! k) = Some p \<and> p < k \<and>
        occ_source (fi_occurrences c ! k) = Some (EndpointRef t i) \<and>
        bt_get (g_tasks g) (occ_task g c p) = Some pdef \<and>
        bt_get (task_tasks pdef) t = Some insts \<and> i < length insts \<and>
        bt_get (g_tasks g) t = Some def \<and>
        (case occ_flat_endpoint (fi_occurrences c ! k) of
           None \<Rightarrow> task_level def = Upper
         | Some e \<Rightarrow> task_level def = Lower \<and> ep_task e = t \<and>
             leaf_at c e (occ_global_name (fi_occurrences c ! k))))"

definition flat_endpoints :: "TaskOccurrence list \<Rightarrow> EndpointRef list" where
  "flat_endpoints os = List.map_filter occ_flat_endpoint os"

definition flat_inv :: "TaskGraph \<Rightarrow> FlatInstances \<Rightarrow> bool" where
  "flat_inv g c \<longleftrightarrow>
     bt_ok (fi_leaves c) \<and>
     (\<exists>os. fi_occurrences c = top_occurrence g # os) \<and>
     (\<forall>k. 0 < k \<longrightarrow> k < length (fi_occurrences c) \<longrightarrow> occ_ok g c k) \<and>
     (\<forall>t. map ep_index (filter (\<lambda>e. ep_task e = t) (flat_endpoints (fi_occurrences c)))
            = [0..<length (leaves_of c t)]) \<and>
     (\<forall>t \<in> set (bt_keys (fi_leaves c)). \<exists>def. bt_get (g_tasks g) t = Some def \<and> task_level def = Lower)"

definition grows :: "FlatInstances \<Rightarrow> FlatInstances \<Rightarrow> bool" where
  "grows c c' \<longleftrightarrow>
     (\<exists>os. fi_occurrences c' = fi_occurrences c @ os) \<and> (\<forall>t. \<exists>ls. leaves_of c' t = leaves_of c t @ ls)"

lemma grows_refl: "grows c c"
  by (simp add: grows_def)

lemma grows_trans: "grows a b \<Longrightarrow> grows b c \<Longrightarrow> grows a c"
  unfolding grows_def by (metis append.assoc)

lemma grows_occ_task: "grows c c' \<Longrightarrow> k < length (fi_occurrences c) \<Longrightarrow> occ_task g c' k = occ_task g c k"
  by (auto simp: grows_def occ_task_def nth_append)

lemma grows_length: "grows c c' \<Longrightarrow> length (fi_occurrences c) \<le> length (fi_occurrences c')"
  by (auto simp: grows_def)

lemma grows_leaf_at:
  assumes "grows c c'" and "leaf_at c e n"
  shows "leaf_at c' e n"
proof -
  obtain ls where "leaves_of c' (ep_task e) = leaves_of c (ep_task e) @ ls"
    using assms(1) by (auto simp: grows_def)
  with assms(2) show ?thesis by (simp add: leaf_at_def nth_append)
qed

lemma grows_occ_ok:
  assumes "grows c c'" and "k < length (fi_occurrences c)" and "occ_ok g c k"
  shows "occ_ok g c' k"
proof -
  have k: "fi_occurrences c' ! k = fi_occurrences c ! k"
    using assms(1,2) by (auto simp: grows_def nth_append)
  obtain p t i pdef insts def where o: "occ_parent (fi_occurrences c ! k) = Some p" "p < k"
    "occ_source (fi_occurrences c ! k) = Some (EndpointRef t i)"
    "bt_get (g_tasks g) (occ_task g c p) = Some pdef" "bt_get (task_tasks pdef) t = Some insts" "i < length insts"
    "bt_get (g_tasks g) t = Some def"
    and e: "case occ_flat_endpoint (fi_occurrences c ! k) of None \<Rightarrow> task_level def = Upper
      | Some e \<Rightarrow> task_level def = Lower \<and> ep_task e = t \<and> leaf_at c e (occ_global_name (fi_occurrences c ! k))"
    using assms(3) unfolding occ_ok_def by blast
  have "occ_task g c' p = occ_task g c p" using grows_occ_task [OF assms(1)] o(2) assms(2) by simp
  moreover have "case occ_flat_endpoint (fi_occurrences c ! k) of None \<Rightarrow> task_level def = Upper
      | Some e \<Rightarrow> task_level def = Lower \<and> ep_task e = t \<and> leaf_at c' e (occ_global_name (fi_occurrences c ! k))"
    using e grows_leaf_at [OF assms(1)] by (auto split: option.splits)
  ultimately show ?thesis using o unfolding occ_ok_def k by (metis (no_types, lifting))
qed

section \<open>One instance\<close>

text \<open>What the walk of an instance loop knows of the instance and its owner.\<close>

definition site_ok :: "TaskGraph \<Rightarrow> FlatInstances \<Rightarrow> nat \<Rightarrow> string \<Rightarrow> nat \<Rightarrow> bool" where
  "site_ok g c owner t i \<longleftrightarrow>
     owner < length (fi_occurrences c) \<and>
     (\<exists>pdef insts. bt_get (g_tasks g) (occ_task g c owner) = Some pdef \<and>
        bt_get (task_tasks pdef) t = Some insts \<and> i < length insts)"

lemma leaves_of_insert:
  "leaves_of (c\<lparr>fi_leaves := bt_insert t ls (fi_leaves c), fi_occurrences := os\<rparr>) t' =
    (if t' = t then ls else leaves_of c t')"
  by (simp add: leaves_of_def bt_get_insert)

lemma push_leaf_inv:
  assumes inv: "flat_inv g c" and site: "site_ok g c owner t i"
    and t: "bt_get (g_tasks g) t = Some def" "task_level def = Lower"
    and push: "push_leaf owner (EndpointRef t i) inst c = Inr c'"
  shows "flat_inv g c'" "grows c c'"
proof -
  let ?n = "length (leaves_of c t)"
  let ?o = "\<lparr>occ_parent = Some owner, occ_source = Some (EndpointRef t i),
    occ_global_name = canonical_name inst t ?n, occ_flat_endpoint = Some (EndpointRef t ?n)\<rparr>"
  have c': "c' = c\<lparr>fi_leaves := bt_insert t (leaves_of c t @ [inst]) (fi_leaves c),
      fi_occurrences := fi_occurrences c @ [?o]\<rparr>"
    using push by (auto simp: push_leaf_def Let_def bindR_eq_Inr to_u32_def split: if_splits)
  have lv: "leaves_of c' t' = (if t' = t then leaves_of c t @ [inst] else leaves_of c t')" for t'
    unfolding c' by (rule leaves_of_insert)
  show gr: "grows c c'" unfolding grows_def using lv by (auto simp: c')
  have new: "occ_ok g c' (length (fi_occurrences c))"
    using site t lv grows_occ_task [OF gr, of owner g]
    by (auto simp: occ_ok_def site_ok_def leaf_at_def c')
  have "occ_ok g c' k" if "0 < k" "k < length (fi_occurrences c')" for k
  proof (cases "k < length (fi_occurrences c)")
    case True
    then show ?thesis using inv that grows_occ_ok [OF gr True] by (simp add: flat_inv_def)
  next
    case False
    then have "k = length (fi_occurrences c)" using that by (simp add: c')
    then show ?thesis using new by simp
  qed
  moreover have "map ep_index (filter (\<lambda>e. ep_task e = t') (flat_endpoints (fi_occurrences c')))
      = [0..<length (leaves_of c' t')]" for t'
    using inv lv [of t'] by (auto simp: flat_inv_def flat_endpoints_def c' map_filter_def)
  moreover have "bt_ok (fi_leaves c')" using inv by (simp add: flat_inv_def c')
  moreover have "\<forall>t' \<in> set (bt_keys (fi_leaves c')). \<exists>def. bt_get (g_tasks g) t' = Some def \<and> task_level def = Lower"
    using inv t by (auto simp: flat_inv_def c' bt_keys_def fst_set_bt_insert)
  ultimately show "flat_inv g c'" using inv by (auto simp: flat_inv_def c')
qed

lemma push_scope_inv:
  fixes nm :: string
  assumes inv: "flat_inv g c" and site: "site_ok g c owner t i"
    and t: "bt_get (g_tasks g) t = Some def" "task_level def = Upper"
  defines "c' \<equiv> c\<lparr>fi_occurrences := fi_occurrences c @ [\<lparr>occ_parent = Some owner,
      occ_source = Some (EndpointRef t i), occ_global_name = nm, occ_flat_endpoint = None\<rparr>]\<rparr>"
  shows "flat_inv g c'" "grows c c'" "occ_task g c' (length (fi_occurrences c)) = t"
proof -
  have lv: "leaves_of c' = leaves_of c" by (simp add: c'_def leaves_of_def fun_eq_iff)
  show gr: "grows c c'" unfolding grows_def lv by (simp add: c'_def)
  show "occ_task g c' (length (fi_occurrences c)) = t" by (simp add: occ_task_def c'_def)
  have new: "occ_ok g c' (length (fi_occurrences c))"
    using site t grows_occ_task [OF gr, of owner g] by (auto simp: occ_ok_def site_ok_def c'_def)
  have "occ_ok g c' k" if "0 < k" "k < length (fi_occurrences c')" for k
  proof (cases "k < length (fi_occurrences c)")
    case True
    then show ?thesis using inv that grows_occ_ok [OF gr True] by (simp add: flat_inv_def)
  next
    case False
    then have "k = length (fi_occurrences c)" using that by (simp add: c'_def)
    then show ?thesis using new by simp
  qed
  then show "flat_inv g c'"
    using inv lv by (auto simp: flat_inv_def c'_def flat_endpoints_def map_filter_def)
qed

lemma site_ok_grows: "grows c c' \<Longrightarrow> site_ok g c owner t i \<Longrightarrow> site_ok g c' owner t i"
  using grows_occ_task [of c c' owner g] grows_length [of c c'] by (auto simp: site_ok_def)

lemma visit_instance_inv:
  assumes descend: "\<And>t sc b k d d'. descend t sc b k d = Inr d' \<Longrightarrow> flat_inv g d \<Longrightarrow>
      k < length (fi_occurrences d) \<Longrightarrow> occ_task g d k = t \<Longrightarrow> flat_inv g d' \<and> grows d d'"
    and inv: "flat_inv g c" and site: "site_ok g c owner t idx"
    and visit: "visit_instance descend g is_top sc fm ab owner t c (idx, inst) = Inr c'"
  shows "flat_inv g c' \<and> grows c c'"
proof -
  from visit obtain def where def: "bt_get (g_tasks g) t = Some def" and "to_u32 idx = Inr idx"
    by (auto simp: visit_instance_def Let_def bindR_eq_Inr to_u32_def split: if_splits)
  show ?thesis
  proof (cases "task_level def")
    case Lower
    then show ?thesis
      using visit def \<open>to_u32 idx = Inr idx\<close> push_leaf_inv [OF inv site def Lower]
      by (simp add: visit_instance_def Let_def)
  next
    case Upper
    note push = push_scope_inv [OF inv site def Upper]
    from visit def Upper \<open>to_u32 idx = Inr idx\<close> show ?thesis
      using descend [OF _ push(1) _ push(3)] push(2) grows_trans
      by (simp add: visit_instance_def Let_def) (meson grows_trans lessI)
  qed
qed

lemma register_fifos_frame:
  assumes "register_fifos def fm c = Inr c'"
  shows "fi_leaves c' = fi_leaves c" "fi_occurrences c' = fi_occurrences c"
proof -
  have "fi_leaves c' = fi_leaves c \<and> fi_occurrences c' = fi_occurrences c"
    using assms unfolding register_fifos_def
    by (rule foldR_invariant) (auto simp: bindR_eq_Inr split: if_splits)
  then show "fi_leaves c' = fi_leaves c" "fi_occurrences c' = fi_occurrences c" by blast+
qed

lemma flat_inv_cong:
  assumes "fi_leaves c' = fi_leaves c" and "fi_occurrences c' = fi_occurrences c"
  shows "flat_inv g c' = flat_inv g c" "grows d c' = grows d c"
proof -
  have lv: "leaves_of c' t = leaves_of c t" for t using assms by (simp add: leaves_of_def)
  have ot: "occ_task g c' k = occ_task g c k" for k using assms by (simp add: occ_task_def)
  show "flat_inv g c' = flat_inv g c" "grows d c' = grows d c"
    unfolding flat_inv_def grows_def occ_ok_def leaf_at_def lv ot assms by (rule refl)+
qed

lemma graph_maps_okD:
  assumes "graph_maps_ok g" and "bt_get (g_tasks g) n = Some t"
  shows "bt_ok (task_tasks t)" "bt_ok (task_fifos t)"
  using assms bt_get_Some_in [OF assms(2)] by (auto simp: graph_maps_ok_def)

section \<open>The recursion\<close>

lemma collect_inv:
  assumes maps: "graph_maps_ok g"
  shows "collect_leaves_recursive n g tn sc ab owner c = Inr c' \<Longrightarrow> flat_inv g c \<Longrightarrow>
    owner < length (fi_occurrences c) \<Longrightarrow> occ_task g c owner = tn \<Longrightarrow> flat_inv g c' \<and> grows c c'"
proof (induction n arbitrary: tn sc ab owner c c')
  case (Suc n)
  from Suc.prems(1) obtain def c1 where def: "bt_get (g_tasks g) tn = Some def"
    and loop: "foldR (\<lambda>c (t, insts). foldR (visit_instance (collect_leaves_recursive n g) g
        (tn = g_top g \<and> sc = g_top g) sc (scope_fifo_map def (tn = g_top g \<and> sc = g_top g) sc) ab owner t)
        c (enumerate 0 insts)) c (task_tasks def) = Inr c1"
    and reg: "register_fifos def (scope_fifo_map def (tn = g_top g \<and> sc = g_top g) sc) c1 = Inr c'"
    by (auto simp: bindR_eq_Inr Let_def)
  have "flat_inv g c1 \<and> grows c c1"
    using loop
  proof (rule foldR_invariant)
    show "flat_inv g c \<and> grows c c" using Suc.prems(2) by (simp add: grows_refl)
  next
    fix d x d'
    assume x: "x \<in> set (task_tasks def)" and d: "flat_inv g d \<and> grows c d"
      and body: "(case x of (t, insts) \<Rightarrow> foldR (visit_instance (collect_leaves_recursive n g) g
        (tn = g_top g \<and> sc = g_top g) sc (scope_fifo_map def (tn = g_top g \<and> sc = g_top g) sc) ab owner t)
        d (enumerate 0 insts)) = Inr d'"
    obtain t insts where x': "x = (t, insts)" by force
    have insts: "bt_get (task_tasks def) t = Some insts"
      using x x' graph_maps_okD(1) [OF maps def] by (simp add: bt_get_iff)
    have site: "site_ok g c owner t i" if "i < length insts" for i
      using Suc.prems(3,4) def insts that by (auto simp: site_ok_def)
    from body x' have "foldR (visit_instance (collect_leaves_recursive n g) g
        (tn = g_top g \<and> sc = g_top g) sc (scope_fifo_map def (tn = g_top g \<and> sc = g_top g) sc) ab owner t)
        d (enumerate 0 insts) = Inr d'" by simp
    then show "flat_inv g d' \<and> grows c d'"
    proof (rule foldR_invariant)
      show "flat_inv g d \<and> grows c d" by (rule d)
    next
      fix e ii e'
      assume ii: "ii \<in> set (enumerate 0 insts)" and e: "flat_inv g e \<and> grows c e"
        and visit: "visit_instance (collect_leaves_recursive n g) g (tn = g_top g \<and> sc = g_top g) sc
          (scope_fifo_map def (tn = g_top g \<and> sc = g_top g) sc) ab owner t e ii = Inr e'"
      have "ii = (fst ii, snd ii)" "fst ii < length insts" using ii by (simp_all add: in_set_enumerate_eq)
      then have visit': "visit_instance (collect_leaves_recursive n g) g (tn = g_top g \<and> sc = g_top g) sc
          (scope_fifo_map def (tn = g_top g \<and> sc = g_top g) sc) ab owner t e (fst ii, snd ii) = Inr e'"
        and site': "site_ok g e owner t (fst ii)" using visit e site_ok_grows site by auto
      have "flat_inv g e' \<and> grows e e'"
        by (rule visit_instance_inv [OF _ conjunct1 [OF e] site' visit']) (rule Suc.IH; assumption)
      then show "flat_inv g e' \<and> grows c e'" using e grows_trans by blast
    qed
  qed
  then show ?case using flat_inv_cong [OF register_fifos_frame [OF reg]] by simp
qed simp

lemma flat_inv_start:
  "flat_inv g \<lparr>fi_leaves = [], fi_fifos = [], fi_occurrences = [top_occurrence g]\<rparr>"
  by (auto simp: flat_inv_def flat_endpoints_def map_filter_def top_occurrence_def leaves_of_def bt_get_def bt_keys_def)

text \<open>The parts of a successful run.\<close>

lemma flatten_parts:
  assumes "flatten_with_origins n g = Inr p"
  obtains top c fifos kept where "bt_get (g_tasks g) (g_top g) = Some top" "task_level top = Upper"
    "collect_leaves_recursive n g (g_top g) (g_top g) [] 0
      \<lparr>fi_leaves = [], fi_fifos = [], fi_occurrences = [top_occurrence g]\<rparr> = Inr c"
    "mapR (fill_endpoints (fi_leaves c)) (fi_fifos c) = Inr fifos"
    "kept = bt_collect (concat (map (\<lambda>child. case bt_get (g_tasks g) child of Some d \<Rightarrow> [(child, d)] | None \<Rightarrow> [])
      (bt_keys (fi_leaves c))))"
    "fp_flat p = g\<lparr>g_tasks := bt_insert (g_top g) (top\<lparr>task_tasks := fi_leaves c, task_fifos := fifos\<rparr>) kept\<rparr>"
    "fp_occurrences p = fi_occurrences c"
  using assms
  by (auto simp: flatten_with_origins_def bindR_eq_Inr Let_def intro: TaskLevel.exhaust)

lemma flatten_inv:
  assumes "graph_maps_ok g"
    and "collect_leaves_recursive n g (g_top g) (g_top g) [] 0
      \<lparr>fi_leaves = [], fi_fifos = [], fi_occurrences = [top_occurrence g]\<rparr> = Inr c"
  shows "flat_inv g c"
  using collect_inv [OF assms flat_inv_start] by (simp add: occ_task_def top_occurrence_def)

section \<open>What flattening yields\<close>

lemma bt_get_kept:
  "bt_get (bt_collect (concat (map (\<lambda>c. case bt_get ts c of Some d \<Rightarrow> [(c, d)] | None \<Rightarrow> []) ks))) t =
    (if t \<in> set ks then bt_get ts t else None)"
proof -
  define es where "es = concat (map (\<lambda>c. case bt_get ts c of Some d \<Rightarrow> [(c, d)] | None \<Rightarrow> []) ks)"
  have mem: "(t, d) \<in> set es \<longleftrightarrow> t \<in> set ks \<and> bt_get ts t = Some d" for d
    unfolding es_def by (induction ks) (auto split: option.splits)
  have "map_of (rev es) t = (if t \<in> set ks then bt_get ts t else None)"
  proof (cases "map_of (rev es) t")
    case None
    then have "t \<notin> fst ` set es" by (simp add: map_of_eq_None_iff)
    then have "(t, d) \<notin> set es" for d by force
    then show ?thesis using None mem by (cases "bt_get ts t") auto
  next
    case (Some d)
    then have "(t, d) \<in> set es" using map_of_SomeD [OF Some] by simp
    then show ?thesis using Some mem by simp
  qed
  then show ?thesis by (simp only: bt_get_collect es_def)
qed

text \<open>C13: A flattened graph is flat.  Its top task keeps everything but its children and FIFOs; every child is
  a leaf task with its original definition, and no other task is left.  Everything but the tasks (version, name of
  the top, target, flags) is that of the source graph.\<close>

theorem flatten_is_flat:
  assumes maps: "graph_maps_ok g" and flat: "flatten_with_origins n g = Inr p"
  shows "\<exists>t leaves fifos. bt_get (g_tasks g) (g_top g) = Some t \<and>
    bt_get (g_tasks (fp_flat p)) (g_top g) = Some (t\<lparr>task_tasks := leaves, task_fifos := fifos\<rparr>) \<and>
    (\<forall>c. c \<noteq> g_top g \<longrightarrow> bt_get (g_tasks (fp_flat p)) c = (if c \<in> set (bt_keys leaves) then bt_get (g_tasks g) c else None)) \<and>
    (\<forall>c \<in> set (bt_keys leaves). c \<noteq> g_top g \<and> (\<exists>d. bt_get (g_tasks g) c = Some d \<and> task_level d = Lower)) \<and>
    g_schema_version (fp_flat p) = g_schema_version g \<and> g_top (fp_flat p) = g_top g \<and>
    g_target (fp_flat p) = g_target g \<and> g_cflags (fp_flat p) = g_cflags g"
proof -
  from flat obtain t c fifos kept where t: "bt_get (g_tasks g) (g_top g) = Some t" "task_level t = Upper"
    and col: "collect_leaves_recursive n g (g_top g) (g_top g) [] 0
      \<lparr>fi_leaves = [], fi_fifos = [], fi_occurrences = [top_occurrence g]\<rparr> = Inr c"
    and kept: "kept = bt_collect (concat (map (\<lambda>child. case bt_get (g_tasks g) child of Some d \<Rightarrow> [(child, d)] | None \<Rightarrow> [])
      (bt_keys (fi_leaves c))))"
    and p: "fp_flat p = g\<lparr>g_tasks := bt_insert (g_top g) (t\<lparr>task_tasks := fi_leaves c, task_fifos := fifos\<rparr>) kept\<rparr>"
    by (rule flatten_parts)
  have low: "\<forall>x \<in> set (bt_keys (fi_leaves c)). \<exists>d. bt_get (g_tasks g) x = Some d \<and> task_level d = Lower"
    using flatten_inv [OF maps col] by (simp add: flat_inv_def)
  then have "\<forall>x \<in> set (bt_keys (fi_leaves c)). x \<noteq> g_top g" using t by auto
  then show ?thesis
    using t low by (intro exI [of _ t] exI [of _ "fi_leaves c"] exI [of _ fifos])
      (simp add: p kept bt_get_insert bt_get_kept)
qed

text \<open>C15: The origins are right: occurrence zero is the top, and every other occurrence comes after its owner
  and resolves to an instance in its owner's task.  The leaf occurrences of a task, in order, are the
  instances of that task in the flat top, in order, each once, and carry their flat names.\<close>

theorem flatten_origins_exact:
  assumes maps: "graph_maps_ok g" and flat: "flatten_with_origins n g = Inr p"
  shows "(\<exists>os. fp_occurrences p = top_occurrence g # os) \<and>
    (\<forall>k. 0 < k \<longrightarrow> k < length (fp_occurrences p) \<longrightarrow>
      (\<exists>owner inst. occ_parent (fp_occurrences p ! k) = Some owner \<and> owner < k \<and>
        source_invocation p g k = Some inst)) \<and>
    (\<exists>t. bt_get (g_tasks (fp_flat p)) (g_top g) = Some t \<and>
      (\<forall>c. map ep_index (filter (\<lambda>e. ep_task e = c) (flat_endpoints (fp_occurrences p)))
          = [0..<length (case bt_get (task_tasks t) c of None \<Rightarrow> [] | Some ls \<Rightarrow> ls)]) \<and>
      (\<forall>k e. 0 < k \<longrightarrow> k < length (fp_occurrences p) \<longrightarrow> occ_flat_endpoint (fp_occurrences p ! k) = Some e \<longrightarrow>
        (\<exists>ls. bt_get (task_tasks t) (ep_task e) = Some ls \<and>
          canonical_name (ls ! ep_index e) (ep_task e) (ep_index e) = occ_global_name (fp_occurrences p ! k))))"
proof -
  from flat obtain t c fifos kept where
    col: "collect_leaves_recursive n g (g_top g) (g_top g) [] 0
      \<lparr>fi_leaves = [], fi_fifos = [], fi_occurrences = [top_occurrence g]\<rparr> = Inr c"
    and p: "fp_flat p = g\<lparr>g_tasks := bt_insert (g_top g) (t\<lparr>task_tasks := fi_leaves c, task_fifos := fifos\<rparr>) kept\<rparr>"
    and occ: "fp_occurrences p = fi_occurrences c"
    by (rule flatten_parts)
  note inv = flatten_inv [OF maps col]
  have lv: "(case bt_get (fi_leaves c) x of None \<Rightarrow> [] | Some ls \<Rightarrow> ls) = leaves_of c x" for x
    by (simp add: leaves_of_def)
  have 1: "\<exists>owner inst. occ_parent (fp_occurrences p ! k) = Some owner \<and> owner < k \<and> source_invocation p g k = Some inst"
    if "0 < k" "k < length (fp_occurrences p)" for k
  proof -
    have "occ_ok g c k" using inv that occ by (simp add: flat_inv_def)
    then show ?thesis
      using that(2) unfolding occ_ok_def occ source_invocation_def source_task_def occ_task_def by fastforce
  qed
  have 2: "\<exists>ls. bt_get (fi_leaves c) (ep_task e) = Some ls \<and>
      canonical_name (ls ! ep_index e) (ep_task e) (ep_index e) = occ_global_name (fp_occurrences p ! k)"
    if "0 < k" "k < length (fp_occurrences p)" "occ_flat_endpoint (fp_occurrences p ! k) = Some e" for k e
  proof -
    have "occ_ok g c k" using inv that occ by (simp add: flat_inv_def)
    then have "leaf_at c e (occ_global_name (fp_occurrences p ! k))" using that(3) occ by (auto simp: occ_ok_def)
    then show ?thesis by (auto simp: leaf_at_def leaves_of_def split: option.splits)
  qed
  have "\<forall>x. map ep_index (filter (\<lambda>e. ep_task e = x) (flat_endpoints (fp_occurrences p))) = [0..<length (leaves_of c x)]"
    and "\<exists>os. fp_occurrences p = top_occurrence g # os"
    using inv occ by (simp_all add: flat_inv_def)
  then show ?thesis using 1 2 by (simp add: p bt_get_insert lv)
qed

section \<open>Termination\<close>

text \<open>A rank that falls from every task to its upper children: the hierarchy has no cycle.\<close>

definition ranked :: "(string \<Rightarrow> nat) \<Rightarrow> TaskGraph \<Rightarrow> bool" where
  "ranked rank g \<longleftrightarrow>
     (\<forall>n t c d. bt_get (g_tasks g) n = Some t \<longrightarrow> c \<in> set (bt_keys (task_tasks t)) \<longrightarrow>
        bt_get (g_tasks g) c = Some d \<longrightarrow> task_level d = Upper \<longrightarrow> rank c < rank n)"

lemma register_fifos_no_diverge: "register_fifos def fm c \<noteq> Inl Diverge"
  unfolding register_fifos_def by (auto simp: bindR_eq_Inl dest!: foldR_Inl split: if_splits)

lemma push_leaf_no_diverge: "push_leaf owner src inst c \<noteq> Inl Diverge"
  by (simp add: push_leaf_def Let_def to_u32_def)

lemma collect_terminates:
  assumes "ranked rank g"
  shows "rank tn < n \<Longrightarrow> collect_leaves_recursive n g tn sc ab owner c \<noteq> Inl Diverge"
proof (induction n arbitrary: tn sc ab owner c)
  case (Suc n)
  show ?case
  proof
    assume "collect_leaves_recursive (Suc n) g tn sc ab owner c = Inl Diverge"
    then obtain def where def: "bt_get (g_tasks g) tn = Some def"
      and "foldR (\<lambda>c (t, insts). foldR (visit_instance (collect_leaves_recursive n g) g
        (tn = g_top g \<and> sc = g_top g) sc (scope_fifo_map def (tn = g_top g \<and> sc = g_top g) sc) ab owner t)
        c (enumerate 0 insts)) c (task_tasks def) = Inl Diverge"
      by (auto simp: bindR_eq_Inl Let_def register_fifos_no_diverge)
    from foldR_Inl [OF this(2)] obtain c1 t insts where t: "(t, insts) \<in> set (task_tasks def)"
      and "foldR (visit_instance (collect_leaves_recursive n g) g
        (tn = g_top g \<and> sc = g_top g) sc (scope_fifo_map def (tn = g_top g \<and> sc = g_top g) sc) ab owner t)
        c1 (enumerate 0 insts) = Inl Diverge" by auto
    from foldR_Inl [OF this(2)] obtain c2 idx inst where
      visit: "visit_instance (collect_leaves_recursive n g) g
        (tn = g_top g \<and> sc = g_top g) sc (scope_fifo_map def (tn = g_top g \<and> sc = g_top g) sc) ab owner t c2
        (idx, inst) = Inl Diverge" by auto
    then obtain d sc' ab' k c3 where d: "bt_get (g_tasks g) t = Some d" "task_level d = Upper"
      and rec: "collect_leaves_recursive n g t sc' ab' k c3 = Inl Diverge"
      by (auto simp: visit_instance_def Let_def bindR_eq_Inl to_u32_def push_leaf_no_diverge
          split: if_splits intro: TaskLevel.exhaust)
    have "t \<in> set (bt_keys (task_tasks def))" using t by (force simp: bt_keys_def)
    then have "rank t < rank tn" using assms def d by (auto simp: ranked_def)
    then show False using Suc.IH [of t] Suc.prems rec by simp
  qed
qed simp

lemma visit_instance_mono:
  assumes "visit_instance descend g it sc fm ab owner t c ii \<noteq> Inl Diverge"
    and "\<And>t sc b k d. descend t sc b k d \<noteq> Inl Diverge \<Longrightarrow> descend' t sc b k d = descend t sc b k d"
  shows "visit_instance descend' g it sc fm ab owner t c ii = visit_instance descend g it sc fm ab owner t c ii"
  using assms
  by (cases ii; cases "bt_get (g_tasks g) t"; cases "to_u32 (fst ii)")
    (auto simp: visit_instance_def Let_def)

lemma collect_more_fuel:
  "collect_leaves_recursive n g tn sc ab owner c \<noteq> Inl Diverge \<Longrightarrow>
    collect_leaves_recursive (Suc n) g tn sc ab owner c = collect_leaves_recursive n g tn sc ab owner c"
proof (induction n arbitrary: tn sc ab owner c)
  case (Suc n)
  show ?case
  proof (cases "bt_get (g_tasks g) tn")
    case (Some def)
    let ?top = "tn = g_top g \<and> sc = g_top g"
    let ?fm = "scope_fifo_map def ?top sc"
    let ?loop = "\<lambda>n c. foldR (\<lambda>c (t, insts). foldR (visit_instance (collect_leaves_recursive n g) g ?top sc ?fm ab owner t)
        c (enumerate 0 insts)) c (task_tasks def)"
    have eq: "collect_leaves_recursive (Suc m) g tn sc ab owner c = bindR (?loop m c) (register_fifos def ?fm)" for m
      using Some by (simp add: Let_def)
    have nd: "?loop n c \<noteq> Inl Diverge" using Suc.prems unfolding eq by auto
    have "?loop (Suc n) c = ?loop n c"
      using nd
    proof (rule foldR_mono)
      fix s x
      assume x: "(case x of (t, insts) \<Rightarrow> foldR (visit_instance (collect_leaves_recursive n g) g ?top sc ?fm ab owner t)
        s (enumerate 0 insts)) \<noteq> Inl Diverge"
      obtain t insts where ti: "x = (t, insts)" by force
      have nd': "foldR (visit_instance (collect_leaves_recursive n g) g ?top sc ?fm ab owner t) s (enumerate 0 insts)
          \<noteq> Inl Diverge" using x ti by simp
      have "foldR (visit_instance (collect_leaves_recursive (Suc n) g) g ?top sc ?fm ab owner t) s (enumerate 0 insts)
          = foldR (visit_instance (collect_leaves_recursive n g) g ?top sc ?fm ab owner t) s (enumerate 0 insts)"
        by (rule foldR_mono [OF nd']) (rule visit_instance_mono; (assumption | rule Suc.IH; assumption))
      then show "(case x of (t, insts) \<Rightarrow> foldR (visit_instance (collect_leaves_recursive (Suc n) g) g ?top sc ?fm ab owner t)
        s (enumerate 0 insts)) = (case x of (t, insts) \<Rightarrow> foldR (visit_instance (collect_leaves_recursive n g) g ?top sc ?fm ab owner t)
        s (enumerate 0 insts))" unfolding ti prod.case .
    qed
    then show ?thesis unfolding eq by simp
  qed simp
qed simp

lemma collect_enough_fuel:
  assumes "collect_leaves_recursive n g tn sc ab owner c \<noteq> Inl Diverge" and "n \<le> m"
  shows "collect_leaves_recursive m g tn sc ab owner c = collect_leaves_recursive n g tn sc ab owner c"
  using assms(2)
proof (induction m rule: dec_induct)
  case (step m)
  then show ?case using collect_more_fuel [of m] assms(1) by metis
qed simp

lemma fill_endpoints_no_diverge: "fill_endpoints ls nf \<noteq> Inl Diverge"
proof -
  have "find_endpoint ls f r \<noteq> Inl Diverge" for f r
    by (simp add: find_endpoint_def to_u32_def split: list.split)
  then show ?thesis by (auto simp: fill_endpoints_def bindR_eq_Inl split: prod.split if_splits)
qed

lemma flatten_enough_fuel:
  assumes "ranked rank g" and "rank (g_top g) < n" and "n \<le> m"
  shows "flatten_with_origins n g \<noteq> Inl Diverge \<and> flatten_with_origins m g = flatten_with_origins n g"
proof -
  have nd: "collect_leaves_recursive n g (g_top g) (g_top g) [] 0 c \<noteq> Inl Diverge" for c
    using collect_terminates [OF assms(1,2)] .
  note more = collect_enough_fuel [OF nd assms(3)]
  have "mapR (fill_endpoints ls) fs \<noteq> Inl Diverge" for ls fs
    using mapR_Inl [of "fill_endpoints ls" fs Diverge] fill_endpoints_no_diverge by blast
  then show ?thesis
    using nd by (auto simp: flatten_with_origins_def more bindR_eq_Inl Let_def check_def split: if_splits)
qed

text \<open>C14: Flattening an acyclic hierarchy terminates: when a rank falls from every task to its upper children,
  fuel above the rank of the top is enough, and any more fuel gives the same result.\<close>

theorem flatten_terminates:
  assumes "ranked rank g" and "rank (g_top g) < n" and "n \<le> m"
  shows "flatten_with_origins n g \<noteq> Inl Diverge \<and> flatten_with_origins m g = flatten_with_origins n g"
  using assms by (rule flatten_enough_fuel)

theorem flatten_terminates_witness: "flatten_with_origins 1 (demo_graph 32) \<noteq> Inl Diverge"
proof -
  have "ranked (\<lambda>_. 0) (demo_graph 32)"
    by (auto simp: ranked_def demo_graph_def demo_task_def bt_get_def bt_keys_def split: if_splits)
  then show ?thesis using flatten_terminates [of "\<lambda>_. 0" "demo_graph 32" 1 1] by simp
qed

text \<open>A task that instantiates itself, which validation accepts.\<close>

definition demo_cycle :: TaskGraph where
  "demo_cycle = (demo_graph 32)\<lparr>g_tasks := [(''Top'', demo_task Upper []
     [(''Top'', [\<lparr>inst_name = None, inst_args = [], inst_step = 0\<rparr>])] [])]\<rparr>"

lemma collect_cycle: "collect_leaves_recursive n demo_cycle ''Top'' sc ab owner c = Inl Diverge"
proof (induction n arbitrary: sc ab owner c)
  case (Suc n)
  have "bt_get (g_tasks demo_cycle) ''Top'' = Some (demo_task Upper []
     [(''Top'', [\<lparr>inst_name = None, inst_args = [], inst_step = 0\<rparr>])] [])"
    by (simp add: demo_cycle_def demo_graph_def bt_get_def)
  moreover have "task_level (demo_task Upper ps ts fs) = Upper" "task_tasks (demo_task Upper ps ts fs) = ts" for ps ts fs
    by (simp_all add: demo_task_def)
  ultimately show ?case
    using Suc by (simp add: Let_def visit_instance_def to_u32_def fits_def)
qed simp

text \<open>C40: The recursion of flattening has no guard against cycles: there is a graph that validation accepts and
  whose flattening does not end, however much fuel it is given.\<close>

theorem flatten_cycle_diverges:
  "validate demo_cycle = Inr () \<and> flatten_with_origins n demo_cycle = Inl Diverge"
proof -
  have "g_top demo_cycle = ''Top''" "task_level (demo_task Upper ps ts fs) = Upper" for ps ts fs
    by (simp_all add: demo_cycle_def demo_graph_def demo_task_def)
  moreover have "bt_get (g_tasks demo_cycle) ''Top'' = Some (demo_task Upper []
     [(''Top'', [\<lparr>inst_name = None, inst_args = [], inst_step = 0\<rparr>])] [])"
    by (simp add: demo_cycle_def demo_graph_def bt_get_def)
  moreover have "validate demo_cycle = Inr ()"
    by (simp add: demo_cycle_def demo_graph_def demo_task_def validate_def validate_literals_sites arg_sites_def
        SCHEMA_VERSION_def)
  ultimately show ?thesis by (simp add: flatten_with_origins_def collect_cycle)
qed

section \<open>FIFOs\<close>

text \<open>An invariant of the three updates of the collected state is one of the recursion.\<close>

lemma collect_preserves:
  assumes leaf: "\<And>owner src inst c c'. push_leaf owner src inst c = Inr c' \<Longrightarrow> P c \<Longrightarrow> P c'"
    and scope: "\<And>c os. P c \<Longrightarrow> P (c\<lparr>fi_occurrences := os\<rparr>)"
    and fifo: "\<And>def fm c c'. register_fifos def fm c = Inr c' \<Longrightarrow> P c \<Longrightarrow> P c'"
  shows "collect_leaves_recursive n g tn sc ab owner c = Inr c' \<Longrightarrow> P c \<Longrightarrow> P c'"
proof (induction n arbitrary: tn sc ab owner c c')
  case (Suc n)
  have visit: "P d'" if "visit_instance (collect_leaves_recursive n g) g it sc' fm ab' owner' t d ii = Inr d'" "P d"
    for it sc' fm ab' owner' t d ii d'
    using that leaf Suc.IH [OF _ scope]
    by (cases ii) (auto simp: visit_instance_def Let_def bindR_eq_Inr split: if_splits)
  from Suc.prems(1) obtain def c1 where
    loop: "foldR (\<lambda>c (t, insts). foldR (visit_instance (collect_leaves_recursive n g) g
        (tn = g_top g \<and> sc = g_top g) sc (scope_fifo_map def (tn = g_top g \<and> sc = g_top g) sc) ab owner t)
        c (enumerate 0 insts)) c (task_tasks def) = Inr c1"
    and reg: "register_fifos def (scope_fifo_map def (tn = g_top g \<and> sc = g_top g) sc) c1 = Inr c'"
    by (auto simp: bindR_eq_Inr Let_def)
  have "P c1"
    using loop Suc.prems(2)
  proof (rule foldR_invariant)
    fix d x d'
    assume "P d" and body: "(case x of (t, insts) \<Rightarrow> foldR (visit_instance (collect_leaves_recursive n g) g
        (tn = g_top g \<and> sc = g_top g) sc (scope_fifo_map def (tn = g_top g \<and> sc = g_top g) sc) ab owner t)
        d (enumerate 0 insts)) = Inr d'"
    obtain t insts where "x = (t, insts)" by force
    with body have "foldR (visit_instance (collect_leaves_recursive n g) g
        (tn = g_top g \<and> sc = g_top g) sc (scope_fifo_map def (tn = g_top g \<and> sc = g_top g) sc) ab owner t)
        d (enumerate 0 insts) = Inr d'" by simp
    then show "P d'" using \<open>P d\<close> by (rule foldR_invariant) (rule visit)
  qed
  then show ?case using fifo [OF reg] by blast
qed simp

lemma collect_fifos_ok:
  assumes "collect_leaves_recursive n g tn sc ab owner c = Inr c'" and "bt_ok (fi_fifos c)"
  shows "bt_ok (fi_fifos c')"
proof -
  have reg: "bt_ok (fi_fifos d')" if "register_fifos def fm d = Inr d'" "bt_ok (fi_fifos d)" for def fm d d'
    using that unfolding register_fifos_def
    by (rule foldR_invariant) (auto simp: bindR_eq_Inr split: if_splits)
  show ?thesis
    by (rule collect_preserves [where P = "\<lambda>c. bt_ok (fi_fifos c)", OF _ _ reg assms])
      (auto simp: push_leaf_def Let_def bindR_eq_Inr)
qed

lemma find_endpoint_sound:
  assumes "find_endpoint leaves f r = Inr (Some e)" and "bt_ok leaves"
  shows "\<exists>ls. bt_get leaves (ep_task e) = Some ls \<and> ep_index e < length ls \<and> binds_fifo f r (ls ! ep_index e)"
proof -
  obtain t i rest where hits: "endpoint_hits leaves f r = (t, i) # rest" and e: "e = EndpointRef t i"
    using assms(1) by (auto simp: find_endpoint_def bindR_eq_Inr to_u32_def split: list.splits if_splits)
  then have "(t, i) \<in> set (endpoint_hits leaves f r)" by simp
  then obtain ls where "(t, ls) \<in> set leaves" "i < length ls" "binds_fifo f r (ls ! i)"
    by (auto simp: endpoint_hits_def in_set_enumerate_eq)
  then show ?thesis using assms(2) e by (auto simp: bt_get_iff)
qed

text \<open>C16: The FIFOs of a flattened graph have distinct global names, and their endpoints are right: a recorded
  consumer is a leaf instance with an input stream bound to the FIFO, and a recorded producer one with
  an output stream bound to it.\<close>

theorem flatten_fifo_endpoints:
  assumes maps: "graph_maps_ok g" and flat: "flatten_with_origins n g = Inr p"
  shows "\<exists>t. bt_get (g_tasks (fp_flat p)) (g_top g) = Some t \<and> distinct (bt_keys (task_fifos t)) \<and>
    (\<forall>(f, d) \<in> set (task_fifos t). \<forall>e.
      (ic_consumed_by d = Some e \<longrightarrow> (\<exists>ls. bt_get (task_tasks t) (ep_task e) = Some ls \<and>
         ep_index e < length ls \<and> binds_fifo f Consumer (ls ! ep_index e))) \<and>
      (ic_produced_by d = Some e \<longrightarrow> (\<exists>ls. bt_get (task_tasks t) (ep_task e) = Some ls \<and>
         ep_index e < length ls \<and> binds_fifo f Producer (ls ! ep_index e))))"
proof -
  from flat obtain t c fifos kept where
    col: "collect_leaves_recursive n g (g_top g) (g_top g) [] 0
      \<lparr>fi_leaves = [], fi_fifos = [], fi_occurrences = [top_occurrence g]\<rparr> = Inr c"
    and fill: "mapR (fill_endpoints (fi_leaves c)) (fi_fifos c) = Inr fifos"
    and p: "fp_flat p = g\<lparr>g_tasks := bt_insert (g_top g) (t\<lparr>task_tasks := fi_leaves c, task_fifos := fifos\<rparr>) kept\<rparr>"
    by (rule flatten_parts)
  have ok: "bt_ok (fi_leaves c)" using flatten_inv [OF maps col] by (simp add: flat_inv_def)
  have rel: "list_all2 (\<lambda>x y. fill_endpoints (fi_leaves c) x = Inr y) (fi_fifos c) fifos"
    using fill by (simp add: mapR_eq_Inr)
  then have "list_all2 (\<lambda>x y. fst x = fst y) (fi_fifos c) fifos"
    by (rule list_all2_mono) (auto simp: fill_endpoints_def bindR_eq_Inr)
  then have "map fst (fi_fifos c) = map fst fifos"
    by (simp add: list_all2_conv_all_nth list_eq_iff_nth_eq)
  then have "distinct (bt_keys fifos)"
    using bt_ok_distinct [OF collect_fifos_ok [OF col]] by (simp add: bt_keys_def)
  moreover have "(ic_consumed_by d = Some e \<longrightarrow> (\<exists>ls. bt_get (fi_leaves c) (ep_task e) = Some ls \<and>
         ep_index e < length ls \<and> binds_fifo f Consumer (ls ! ep_index e))) \<and>
      (ic_produced_by d = Some e \<longrightarrow> (\<exists>ls. bt_get (fi_leaves c) (ep_task e) = Some ls \<and>
         ep_index e < length ls \<and> binds_fifo f Producer (ls ! ep_index e)))"
    if fd: "(f, d) \<in> set fifos" for f d e
  proof -
    obtain x where "fill_endpoints (fi_leaves c) x = Inr (f, d)"
      using rel fd unfolding list_all2_conv_all_nth in_set_conv_nth by metis
    then show ?thesis
      using find_endpoint_sound [OF _ ok]
      by (cases x) (auto simp: fill_endpoints_def bindR_eq_Inr split: if_splits)
  qed
  ultimately show ?thesis by (auto simp: p bt_get_insert)
qed

section \<open>A nested graph\<close>

text \<open>A top that runs a middle task, which connects two leaves by a FIFO.\<close>

definition demo_inst :: "(string, Arg) btree \<Rightarrow> TaskInstance" where
  "demo_inst args = \<lparr>inst_name = None, inst_args = args, inst_step = 0\<rparr>"

definition demo_mid :: Task where
  "demo_mid = demo_task Upper []
     [(''Leaf'', [demo_inst [(''o'', arg_named ''q'' Ostream)], demo_inst [(''i'', arg_named ''q'' Istream)]])]
     [(''q'', \<lparr>ic_depth = Some 2, ic_consumed_by = Some (EndpointRef ''Leaf'' 1),
        ic_produced_by = Some (EndpointRef ''Leaf'' 0)\<rparr>)]"

definition demo_nested :: TaskGraph where
  "demo_nested = (demo_graph 32)\<lparr>g_tasks := [(''Leaf'', demo_task Lower [] [] []), (''Mid'', demo_mid),
     (''Top'', demo_task Upper [] [(''Mid'', [demo_inst []])] [])]\<rparr>"

lemma demo_nested_maps: "graph_maps_ok demo_nested"
  by (simp add: graph_maps_ok_def demo_nested_def demo_mid_def demo_task_def)

lemma demo_nested_flat: "\<exists>p. flatten_with_origins (Suc (Suc 0)) demo_nested = Inr p"
  by (simp add: flatten_with_origins_def demo_nested_def demo_graph_def demo_mid_def demo_task_def demo_inst_def
      visit_instance_def bt_get_def Let_def to_u32_def fits_def push_leaf_def leaves_of_def
      scope_fifo_map_def should_materialize_fifo_def resolve_args_def register_fifos_def bt_collect_def
      bt_contains_def fill_endpoints_def find_endpoint_def endpoint_hits_def binds_fifo_def
      split: list.split)

theorem flatten_is_flat_witness:
  "\<exists>p t leaves fifos. flatten_with_origins (Suc (Suc 0)) demo_nested = Inr p \<and>
     bt_get (g_tasks (fp_flat p)) ''Top'' = Some (t\<lparr>task_tasks := leaves, task_fifos := fifos\<rparr>)"
proof -
  obtain p where p: "flatten_with_origins (Suc (Suc 0)) demo_nested = Inr p" using demo_nested_flat by blast
  have "g_top demo_nested = ''Top''" by (simp add: demo_nested_def demo_graph_def)
  then show ?thesis using flatten_is_flat [OF demo_nested_maps p] p by auto
qed

theorem flatten_origins_exact_witness:
  "\<exists>p os. flatten_with_origins (Suc (Suc 0)) demo_nested = Inr p \<and> fp_occurrences p = top_occurrence demo_nested # os"
proof -
  obtain p where p: "flatten_with_origins (Suc (Suc 0)) demo_nested = Inr p" using demo_nested_flat by blast
  show ?thesis using flatten_origins_exact [OF demo_nested_maps p] p by blast
qed

theorem flatten_fifo_endpoints_witness:
  "\<exists>p t. flatten_with_origins (Suc (Suc 0)) demo_nested = Inr p \<and> bt_get (g_tasks (fp_flat p)) (g_top demo_nested) = Some t \<and>
     distinct (bt_keys (task_fifos t))"
proof -
  obtain p where p: "flatten_with_origins (Suc (Suc 0)) demo_nested = Inr p" using demo_nested_flat by blast
  show ?thesis using flatten_fifo_endpoints [OF demo_nested_maps p] p by blast
qed

end
