(* ===== verification/F64.thy ===== *)
theory F64
  imports Complex_Main Prelude
begin

text \<open>
  The numbers of type \<^verbatim>\<open>f64\<close>: a finite value is the rational number it stands for, beside the two infinities
  and not-a-number.  Every arithmetic operation rounds its exact result to the nearest number with a 53-bit
  significand and an exponent of at least $-1074$, ties to even, and overflows to an infinity.  The sign of a zero is
  not represented; the code never divides by a zero, so it cannot be observed.
\<close>

section \<open>Rounding\<close>

definition flog2 :: "rat \<Rightarrow> int" where
  "flog2 q =
     (let (a, b) = quotient_of q; l = int (ilog2 (nat a)) - int (ilog2 (nat b))
      in if q < 2 powi l then l - 1 else l)"

definition round_half_even :: "rat \<Rightarrow> int" where
  "round_half_even x =
     (let f = \<lfloor>x\<rfloor>; d = x - of_int f
      in if d < 1 / 2 then f else if d > 1 / 2 then f + 1 else if even f then f else f + 1)"

definition ulp_exp :: "rat \<Rightarrow> int" where
  "ulp_exp q = max (flog2 \<bar>q\<bar> - 52) (- 1074)"

definition rnd :: "rat \<Rightarrow> rat" where
  "rnd q = (if q = 0 then 0 else of_int (round_half_even (q / 2 powi ulp_exp q)) * 2 powi ulp_exp q)"

section \<open>Values and operations\<close>

datatype f64 = Finite rat | Infinite bool | NaN

definition to_f64 :: "rat \<Rightarrow> f64" where
  "to_f64 q = (if \<bar>rnd q\<bar> \<ge> 2 ^ 1024 then Infinite (q < 0) else Finite (rnd q))"

fun is_finite :: "f64 \<Rightarrow> bool" where
  "is_finite (Finite q) = True"
| "is_finite _ = False"

fun f64_rat :: "f64 \<Rightarrow> rat" where
  "f64_rat (Finite q) = q"
| "f64_rat _ = 0"

fun f64_add :: "f64 \<Rightarrow> f64 \<Rightarrow> f64" where
  "f64_add (Finite a) (Finite b) = to_f64 (a + b)"
| "f64_add (Infinite s) (Infinite t) = (if s = t then Infinite s else NaN)"
| "f64_add (Infinite s) (Finite b) = Infinite s"
| "f64_add (Finite a) (Infinite t) = Infinite t"
| "f64_add NaN y = NaN"
| "f64_add x NaN = NaN"

fun f64_neg :: "f64 \<Rightarrow> f64" where
  "f64_neg (Finite a) = Finite (- a)"
| "f64_neg (Infinite s) = Infinite (\<not> s)"
| "f64_neg NaN = NaN"

definition f64_sub :: "f64 \<Rightarrow> f64 \<Rightarrow> f64" where
  "f64_sub x y = f64_add x (f64_neg y)"

fun f64_mul :: "f64 \<Rightarrow> f64 \<Rightarrow> f64" where
  "f64_mul (Finite a) (Finite b) = to_f64 (a * b)"
| "f64_mul (Infinite s) (Infinite t) = Infinite (s \<noteq> t)"
| "f64_mul (Infinite s) (Finite b) = (if b = 0 then NaN else Infinite (s \<noteq> (b < 0)))"
| "f64_mul (Finite a) (Infinite t) = (if a = 0 then NaN else Infinite ((a < 0) \<noteq> t))"
| "f64_mul NaN y = NaN"
| "f64_mul x NaN = NaN"

fun f64_mul_add :: "f64 \<Rightarrow> f64 \<Rightarrow> f64 \<Rightarrow> f64" where
  "f64_mul_add (Finite a) (Finite b) (Finite c) = to_f64 (a * b + c)"
| "f64_mul_add x y z = f64_add (f64_mul x y) z"

fun f64_abs :: "f64 \<Rightarrow> f64" where
  "f64_abs (Finite a) = Finite \<bar>a\<bar>"
| "f64_abs (Infinite s) = Infinite False"
| "f64_abs NaN = NaN"

fun f64_lt :: "f64 \<Rightarrow> f64 \<Rightarrow> bool" where
  "f64_lt (Finite a) (Finite b) = (a < b)"
| "f64_lt (Finite a) (Infinite t) = (\<not> t)"
| "f64_lt (Infinite s) (Finite b) = s"
| "f64_lt (Infinite s) (Infinite t) = (s \<and> \<not> t)"
| "f64_lt NaN y = False"
| "f64_lt x NaN = False"

fun f64_le :: "f64 \<Rightarrow> f64 \<Rightarrow> bool" where
  "f64_le (Finite a) (Finite b) = (a \<le> b)"
| "f64_le (Finite a) (Infinite t) = (\<not> t)"
| "f64_le (Infinite s) (Finite b) = s"
| "f64_le (Infinite s) (Infinite t) = (s \<or> \<not> t)"
| "f64_le NaN y = False"
| "f64_le x NaN = False"

definition f64_max :: "f64 \<Rightarrow> f64 \<Rightarrow> f64" where
  "f64_max x y = (if x = NaN then y else if y = NaN then x else if f64_le x y then y else x)"

definition f64_min :: "f64 \<Rightarrow> f64 \<Rightarrow> f64" where
  "f64_min x y = (if x = NaN then y else if y = NaN then x else if f64_le x y then x else y)"

text \<open>\<^verbatim>\<open>f64::round\<close>: to the nearest integer, halves away from zero.\<close>

fun f64_round :: "f64 \<Rightarrow> f64" where
  "f64_round (Finite a) = Finite (if a < 0 then - of_int \<lfloor>1 / 2 - a\<rfloor> else of_int \<lfloor>a + 1 / 2\<rfloor>)"
| "f64_round x = x"

text \<open>The casts: \<^verbatim>\<open>as f64\<close> rounds to nearest, \<^verbatim>\<open>as u64\<close> truncates and saturates.\<close>

definition of_uint :: "nat \<Rightarrow> f64" where
  "of_uint n = to_f64 (of_nat n)"

fun as_u64 :: "f64 \<Rightarrow> nat" where
  "as_u64 (Finite q) = min (nat \<lfloor>q\<rfloor>) (2 ^ 64 - 1)"
| "as_u64 (Infinite s) = (if s then 0 else 2 ^ 64 - 1)"
| "as_u64 NaN = 0"

fun as_u32 :: "f64 \<Rightarrow> nat" where
  "as_u32 (Finite q) = min (nat \<lfloor>q\<rfloor>) (2 ^ 32 - 1)"
| "as_u32 (Infinite s) = (if s then 0 else 2 ^ 32 - 1)"
| "as_u32 NaN = 0"

text \<open>Division; the sign of a zero divisor is not represented, and zero divisors are taken as positive.\<close>

fun f64_div :: "f64 \<Rightarrow> f64 \<Rightarrow> f64" where
  "f64_div (Finite a) (Finite b) = (if b \<noteq> 0 then to_f64 (a / b) else if a = 0 then NaN else Infinite (a < 0))"
| "f64_div (Infinite s) (Finite b) = Infinite (s \<noteq> (b < 0))"
| "f64_div (Finite a) (Infinite t) = Finite 0"
| "f64_div (Infinite s) (Infinite t) = NaN"
| "f64_div NaN y = NaN"
| "f64_div x NaN = NaN"

fun f64_floor :: "f64 \<Rightarrow> f64" where
  "f64_floor (Finite a) = Finite (of_int \<lfloor>a\<rfloor>)"
| "f64_floor x = x"

definition f64_clamp :: "f64 \<Rightarrow> f64 \<Rightarrow> f64 \<Rightarrow> f64" where
  "f64_clamp x lo hi = (if f64_lt x lo then lo else if f64_lt hi x then hi else x)"

section \<open>Facts about rounding\<close>

lemma two_powi_pos [simp]: "(0 :: rat) < 2 powi l"
  by simp

lemma rat_of_nat_bounds:
  assumes "2 ^ i \<le> (n :: nat)" and "n < 2 ^ Suc i"
  shows "(2 :: rat) ^ i \<le> of_nat n \<and> of_nat n < (2 :: rat) ^ Suc i"
proof -
  have "of_nat (2 ^ i) \<le> (of_nat n :: rat)" "of_nat n < (of_nat (2 ^ Suc i) :: rat)"
    using assms by (simp_all only: of_nat_le_iff of_nat_less_iff)
  then show ?thesis by simp
qed

lemma flog2_bounds:
  assumes "0 < q"
  shows "2 powi flog2 q \<le> q \<and> q < 2 powi (flog2 q + 1)"
proof -
  obtain a b where ab: "quotient_of q = (a, b)" by force
  then have b: "0 < b" and q: "q = of_int a / of_int b"
    using quotient_of_denom_pos quotient_of_div by auto
  then have a: "0 < a" using assms by (simp add: zero_less_divide_iff)
  define i j where "i = ilog2 (nat a)" and "j = ilog2 (nat b)"
  have ib: "2 ^ i \<le> nat a" "nat a < 2 ^ Suc i" "2 ^ j \<le> nat b" "nat b < 2 ^ Suc j"
    using ilog2_bounds [of "nat a"] ilog2_bounds [of "nat b"] a b by (auto simp: i_def j_def)
  have A: "(2 :: rat) ^ i \<le> of_int a" "of_int a < (2 :: rat) ^ Suc i"
    using rat_of_nat_bounds [OF ib(1,2)] a by simp_all
  have B: "(2 :: rat) ^ j \<le> of_int b" "of_int b < (2 :: rat) ^ Suc j"
    using rat_of_nat_bounds [OF ib(3,4)] b by simp_all
  define l where "l = int i - int j"
  have l: "(2 :: rat) powi l = 2 ^ i / 2 ^ j" by (simp add: l_def power_int_diff)
  have l1: "(2 :: rat) powi (l - 1) = 2 ^ i / 2 ^ Suc j" by (simp add: l_def power_int_diff power_int_add)
  have l2: "(2 :: rat) powi (l + 1) = 2 ^ Suc i / 2 ^ j" by (simp add: l_def power_int_diff power_int_add)
  have "2 powi (l - 1) \<le> q" unfolding l1 q using A B a b by (intro frac_le) auto
  moreover have "q < 2 powi (l + 1)" unfolding l2 q using A B a b by (intro frac_less) auto
  ultimately show ?thesis
    unfolding flog2_def ab by (simp add: Let_def i_def [symmetric] j_def [symmetric] l_def [symmetric])
qed

lemma flog2_mono:
  assumes "0 < q" and "q \<le> r"
  shows "flog2 q \<le> flog2 r"
proof (rule ccontr)
  assume "\<not> flog2 q \<le> flog2 r"
  then have "flog2 r + 1 \<le> flog2 q" by simp
  then have "(2 :: rat) powi (flog2 r + 1) \<le> 2 powi flog2 q" by (rule power_int_increasing) simp
  then show False using flog2_bounds [of q] flog2_bounds [of r] assms by simp
qed

lemma round_half_even_error: "\<bar>of_int (round_half_even x) - x\<bar> \<le> 1 / 2"
  unfolding round_half_even_def Let_def by (auto simp: abs_if; linarith)

lemma round_half_even_floor: "\<lfloor>x\<rfloor> \<le> round_half_even x \<and> round_half_even x \<le> \<lfloor>x\<rfloor> + 1"
  by (simp add: round_half_even_def Let_def)

lemma round_half_even_of_int [simp]: "round_half_even (of_int k) = k"
  by (simp add: round_half_even_def)

lemma round_half_even_numeral [simp]: "round_half_even (numeral n) = numeral n"
  using round_half_even_of_int [of "numeral n"] by simp

lemma round_half_even_mono:
  assumes "x \<le> y"
  shows "round_half_even x \<le> round_half_even y"
proof (cases "\<lfloor>x\<rfloor> = \<lfloor>y\<rfloor>")
  case True
  then show ?thesis using assms by (simp add: round_half_even_def Let_def)
next
  case False
  then have "\<lfloor>x\<rfloor> + 1 \<le> \<lfloor>y\<rfloor>" using floor_mono [OF assms] by simp
  then show ?thesis using round_half_even_floor [of x] round_half_even_floor [of y] by simp
qed

lemma rnd_zero [simp]: "rnd 0 = 0"
  by (simp add: rnd_def)

lemma rnd_nonneg:
  assumes "0 \<le> q"
  shows "0 \<le> rnd q"
proof -
  have "0 \<le> round_half_even (q / 2 powi ulp_exp q)"
    using round_half_even_mono [of 0 "q / 2 powi ulp_exp q"] round_half_even_of_int [of 0] assms by simp
  then show ?thesis by (simp add: rnd_def)
qed

lemma ulp_exp_mono: "0 < q \<Longrightarrow> q \<le> r \<Longrightarrow> ulp_exp q \<le> ulp_exp r"
  using flog2_mono [of q r] by (auto simp: ulp_exp_def)

text \<open>The significand of a positive number has at most 53 bits.\<close>

lemma significand_bound:
  assumes "0 < q"
  shows "q / 2 powi ulp_exp q < 2 ^ 53"
proof -
  have "flog2 q + 1 \<le> ulp_exp q + 53" using assms by (simp add: ulp_exp_def)
  then have "q < 2 powi (ulp_exp q + 53)"
    using flog2_bounds [OF assms] power_int_increasing [of "flog2 q + 1" "ulp_exp q + 53" "2 :: rat"] by simp
  then show ?thesis by (simp add: power_int_add divide_less_eq mult.commute)
qed

lemma rnd_le_power:
  assumes "0 < q"
  shows "rnd q \<le> 2 powi (ulp_exp q + 53)"
proof -
  have "round_half_even (q / 2 powi ulp_exp q) \<le> 2 ^ 53"
    using round_half_even_mono [of "q / 2 powi ulp_exp q" "of_int (2 ^ 53)"] significand_bound [OF assms] by simp
  then have "of_int (round_half_even (q / 2 powi ulp_exp q)) \<le> (2 :: rat) ^ 53"
    by (metis of_int_le_iff of_int_numeral of_int_power)
  then show ?thesis using assms by (simp add: rnd_def power_int_add mult_right_mono)
qed

lemma rnd_mono:
  assumes "0 \<le> q" and "q \<le> r"
  shows "rnd q \<le> rnd r"
proof (cases "q = 0")
  case True
  then show ?thesis using assms rnd_nonneg by simp
next
  case False
  then have q: "0 < q" "0 < r" using assms by auto
  show ?thesis
  proof (cases "ulp_exp q = ulp_exp r")
    case True
    have "round_half_even (q / 2 powi ulp_exp r) \<le> round_half_even (r / 2 powi ulp_exp r)"
      using assms by (intro round_half_even_mono divide_right_mono) auto
    then show ?thesis using q True by (simp add: rnd_def)
  next
    case False
    then have e: "ulp_exp q + 1 \<le> ulp_exp r" using ulp_exp_mono [OF q(1) assms(2)] by simp
    then have "ulp_exp r = flog2 r - 52" using q(2) by (auto simp: ulp_exp_def max_def split: if_splits)
    then have r: "2 powi (ulp_exp r + 52) \<le> r" using flog2_bounds [OF q(2)] by simp
    then have "2 ^ 52 \<le> r / 2 powi ulp_exp r" by (simp add: power_int_add le_divide_eq mult.commute)
    then have "2 ^ 52 \<le> round_half_even (r / 2 powi ulp_exp r)"
      using round_half_even_mono [of "of_int (2 ^ 52)" "r / 2 powi ulp_exp r"] by simp
    then have "(2 :: rat) ^ 52 \<le> of_int (round_half_even (r / 2 powi ulp_exp r))"
      by (metis of_int_le_iff of_int_numeral of_int_power)
    then have "2 powi (ulp_exp r + 52) \<le> rnd r"
      using q by (simp add: rnd_def power_int_add mult_right_mono)
    moreover have "(2 :: rat) powi (ulp_exp q + 53) \<le> 2 powi (ulp_exp r + 52)"
      using e by (intro power_int_increasing) auto
    ultimately show ?thesis using rnd_le_power [OF q(1)] by simp
  qed
qed

lemma rnd_exact:
  assumes "q = of_int k * 2 powi e" and "ulp_exp q \<le> e"
  shows "rnd q = q"
proof -
  define d where "d = nat (e - ulp_exp q)"
  have e: "e = ulp_exp q + int d" using assms(2) by (simp add: d_def)
  have q: "q = of_int (k * 2 ^ d) * 2 powi ulp_exp q"
  proof -
    have "(2 :: rat) powi (ulp_exp q + int d) = 2 ^ d * 2 powi ulp_exp q" by (simp add: power_int_add)
    then show ?thesis using assms(1) unfolding e by (simp only: of_int_mult of_int_power of_int_numeral mult.assoc)
  qed
  then have "q / 2 powi ulp_exp q = of_int (k * 2 ^ d)"
    by (metis nonzero_mult_div_cancel_right two_powi_pos less_irrefl)
  then have "round_half_even (q / 2 powi ulp_exp q) = k * 2 ^ d" by (simp only: round_half_even_of_int)
  then have "q \<noteq> 0 \<Longrightarrow> rnd q = of_int (k * 2 ^ d) * 2 powi ulp_exp q" by (simp only: rnd_def if_False)
  then show ?thesis using q by (cases "q = 0") auto
qed

lemma flog2_less:
  assumes "0 < q" and "q < 2 powi l"
  shows "flog2 q < l"
proof (rule ccontr)
  assume "\<not> flog2 q < l"
  then have "(2 :: rat) powi l \<le> 2 powi flog2 q" by (intro power_int_increasing) auto
  then show False using flog2_bounds [OF assms(1)] assms(2) by simp
qed

lemma rnd_of_nat:
  assumes "n \<le> 2 ^ 53"
  shows "rnd (of_nat n) = of_nat n"
proof (cases "n = 0 \<or> n = 2 ^ 53")
  case True
  have "flog2 (2 ^ 53) < 54" by (rule flog2_less) auto
  then have "rnd (2 ^ 53) = 2 ^ 53" by (intro rnd_exact [of _ "2 ^ 52" 1]) (auto simp: ulp_exp_def)
  then show ?thesis using True by auto
next
  case False
  then have n: "0 < n" "n < 2 ^ 53" using assms by auto
  then have "of_nat n < (of_nat (2 ^ 53) :: rat)" by (simp only: of_nat_less_iff)
  then have "flog2 (of_nat n) < 53" using n by (intro flog2_less) auto
  then show ?thesis by (intro rnd_exact [of _ "int n" 0]) (auto simp: ulp_exp_def)
qed

lemma rnd_error:
  assumes "2 powi (- 1022) \<le> q"
  shows "\<bar>rnd q - q\<bar> \<le> q / 2 ^ 53"
proof -
  have q: "0 < q" using assms less_le_trans two_powi_pos by blast
  let ?u = "2 powi ulp_exp q :: rat"
  have "\<not> flog2 q < - 1022" using power_int_increasing [of "flog2 q + 1" "- 1022" "2 :: rat"] flog2_bounds [OF q] assms
    by fastforce
  then have e: "ulp_exp q + 52 = flog2 q" using q by (simp add: ulp_exp_def)
  have "?u * 2 ^ 52 = 2 powi (ulp_exp q + 52)" by (simp add: power_int_add)
  then have u: "?u * 2 ^ 52 \<le> q" using flog2_bounds [OF q] e by simp
  have "rnd q - q = (of_int (round_half_even (q / ?u)) - q / ?u) * ?u"
    using q by (simp add: rnd_def left_diff_distrib)
  then have "\<bar>rnd q - q\<bar> = \<bar>of_int (round_half_even (q / ?u)) - q / ?u\<bar> * ?u" by (simp add: abs_mult)
  also have "\<dots> \<le> 1 / 2 * ?u" by (intro mult_right_mono round_half_even_error) simp
  also have "\<dots> \<le> q / 2 ^ 53" using u by simp
  finally show ?thesis .
qed

lemma rnd_power: "rnd (2 ^ k) = 2 ^ k" 
proof -
  have "flog2 (2 ^ k) < int k + 1" by (rule flog2_less) (auto simp: power_int_add)
  then show ?thesis by (intro rnd_exact [of _ 1 "int k"]) (auto simp: ulp_exp_def)
qed

lemma to_f64_finite:
  assumes "0 \<le> q" and "q \<le> 2 ^ 128"
  shows "to_f64 q = Finite (rnd q)"
proof -
  have "rnd q \<le> 2 ^ 128" using rnd_mono [OF assms] by (simp add: rnd_power [of 128, simplified])
  moreover have "(2 :: rat) ^ 128 < 2 ^ 1024" by (rule power_strict_increasing) auto
  ultimately have "rnd q < 2 ^ 1024" by (rule le_less_trans)
  then show ?thesis using rnd_nonneg [OF assms(1)] by (simp add: to_f64_def)
qed

lemma of_uint_exact:
  assumes "n \<le> 2 ^ 53"
  shows "of_uint n = Finite (of_nat n)"
proof -
  have "(of_nat n :: rat) \<le> of_nat (2 ^ 53)" using assms by (simp only: of_nat_le_iff)
  then have "to_f64 (of_nat n) = Finite (rnd (of_nat n))" by (intro to_f64_finite) auto
  then show ?thesis by (simp add: of_uint_def rnd_of_nat [OF assms])
qed

text \<open>The distance of any number from its rounding.\<close>

lemma rnd_near: "\<bar>rnd q - q\<bar> \<le> (\<bar>q\<bar> + 1) / 2 ^ 53"
proof (cases "q = 0")
  case False
  let ?u = "2 powi ulp_exp q :: rat"
  have "rnd q - q = (of_int (round_half_even (q / ?u)) - q / ?u) * ?u"
    using False by (simp add: rnd_def left_diff_distrib)
  then have "\<bar>rnd q - q\<bar> = \<bar>of_int (round_half_even (q / ?u)) - q / ?u\<bar> * ?u" by (simp add: abs_mult)
  also have "\<dots> \<le> 1 / 2 * ?u" by (intro mult_right_mono round_half_even_error) simp
  also have "\<dots> \<le> (\<bar>q\<bar> + 1) / 2 ^ 53"
  proof (cases "ulp_exp q = flog2 \<bar>q\<bar> - 52")
    case True
    have "?u * 2 ^ 52 = 2 powi (ulp_exp q + 52)" by (simp add: power_int_add)
    then have "?u * 2 ^ 52 \<le> \<bar>q\<bar>" using True flog2_bounds [of "\<bar>q\<bar>"] False by simp
    then show ?thesis by simp
  next
    case e: False
    then have "ulp_exp q = - 1074" by (auto simp: ulp_exp_def max_def split: if_splits)
    moreover have "(2 :: rat) powi (- 1074) \<le> 2 powi (- 52)" by (rule power_int_increasing) auto
    ultimately have "?u \<le> 1 / 2 ^ 52" by (simp add: power_int_minus field_simps)
    then show ?thesis by (simp add: field_simps)
  qed
  finally show ?thesis .
qed simp

lemma rnd_between:
  "rnd q * 1000000000000 \<le> q * 1000000000000 + \<bar>q\<bar> + 1"
  "q * 1000000000000 \<le> rnd q * 1000000000000 + \<bar>q\<bar> + 1"
proof -
  have "(\<bar>q\<bar> + 1) / 2 ^ 53 \<le> (\<bar>q\<bar> + 1) / 1000000000000" by (intro divide_left_mono) auto
  with rnd_near [of q] have "\<bar>rnd q - q\<bar> \<le> (\<bar>q\<bar> + 1) / 1000000000000" by (rule order_trans)
  then have "\<bar>rnd q - q\<bar> * 1000000000000 \<le> \<bar>q\<bar> + 1" by simp
  moreover have "(rnd q - q) * 1000000000000 \<le> \<bar>rnd q - q\<bar> * 1000000000000" by (intro mult_right_mono) auto
  moreover have "- (rnd q - q) * 1000000000000 \<le> \<bar>rnd q - q\<bar> * 1000000000000" by (intro mult_right_mono) auto
  ultimately have "(rnd q - q) * 1000000000000 \<le> \<bar>q\<bar> + 1" "- (rnd q - q) * 1000000000000 \<le> \<bar>q\<bar> + 1" by simp_all
  then show "rnd q * 1000000000000 \<le> q * 1000000000000 + \<bar>q\<bar> + 1" "q * 1000000000000 \<le> rnd q * 1000000000000 + \<bar>q\<bar> + 1"
    by (simp_all add: left_diff_distrib)
qed

lemma to_f64_near:
  assumes "\<bar>q\<bar> \<le> 2 ^ 64"
  shows "to_f64 q = Finite (rnd q)"
proof -
  have "(\<bar>q\<bar> + 1) / 2 ^ 53 \<le> 2 ^ 64" using assms by (simp add: divide_le_eq)
  then have "\<bar>rnd q - q\<bar> \<le> 2 ^ 64" using rnd_near [of q] by (rule order_trans [rotated])
  then have "\<bar>rnd q\<bar> \<le> 2 ^ 65" using assms by (simp add: abs_le_iff)
  moreover have "(2 :: rat) ^ 65 < 2 ^ 1024" by (rule power_strict_increasing) auto
  ultimately have "\<bar>rnd q\<bar> < 2 ^ 1024" by (rule le_less_trans)
  then show ?thesis by (simp add: to_f64_def)
qed

text \<open>Rounding is symmetric.\<close>

lemma round_half_even_minus: "round_half_even (- x) = - round_half_even x"
proof (cases "x = of_int \<lfloor>x\<rfloor>")
  case True
  then show ?thesis by (metis of_int_minus round_half_even_of_int)
next
  case False
  then have "\<lfloor>- x\<rfloor> = - \<lfloor>x\<rfloor> - 1" by (simp add: floor_minus ceiling_altdef)
  then show ?thesis by (auto simp: round_half_even_def Let_def)
qed

lemma rnd_minus: "rnd (- q) = - rnd q"
  by (simp add: rnd_def ulp_exp_def round_half_even_minus)

text \<open>No overflow at half the range or below.\<close>

lemma to_f64_half:
  assumes "\<bar>q\<bar> * 2 + 2 \<le> 2 ^ 1024"
  shows "to_f64 q = Finite (rnd q)"
proof -
  obtain B :: rat where B: "B = 2 ^ 1024" by simp
  have "(\<bar>q\<bar> + 1) / 2 ^ 53 \<le> (\<bar>q\<bar> + 1) / 2" by (intro divide_left_mono) auto
  then have "\<bar>rnd q - q\<bar> \<le> (\<bar>q\<bar> + 1) / 2" using rnd_near [of q] by (rule order_trans [rotated])
  moreover have "\<bar>rnd q\<bar> \<le> \<bar>q\<bar> + \<bar>rnd q - q\<bar>" using abs_triangle_ineq [of q "rnd q - q"] by simp
  ultimately have "\<bar>rnd q\<bar> * 2 \<le> \<bar>q\<bar> * 3 + 1" by simp
  then have "\<bar>rnd q\<bar> < B" using assms abs_ge_zero [of q] unfolding B [symmetric] by simp
  then show ?thesis by (simp add: to_f64_def B)
qed

text \<open>A value that is a double: in range, and rounding it changes nothing.\<close>

fun f64_ok :: "f64 \<Rightarrow> bool" where
  "f64_ok (Finite q) = (rnd q = q \<and> \<bar>q\<bar> < 2 ^ 1024)"
| "f64_ok _ = True"

end
