(* ===== verification/Fp_Graph.thy ===== *)
theory Fp_Graph
  imports Ir_Floorplan F64
begin

text \<open>
  \<^verbatim>\<open>tapa-core/tapa-floorplan/src/graph/floor_graph.rs\<close>: the data of the placement graph and the analytic area of a FIFO,
  together with the derating of resource counts (\<^verbatim>\<open>scaled_area\<close> of \<^verbatim>\<open>partition/ilp.rs\<close>) that placement and pipelining share.
  A hash map from names to vertices is a \<open>btree\<close>; it is only looked up.
\<close>

section \<open>The placement graph\<close>

record MemoryInterface =
  mi_endpoint :: AxiEndpoint
  mi_bank :: MemoryBank
  mi_channel_widths :: AxiChannelWidths
  mi_bridge_instance :: "string option"

record Vertex =
  v_name :: string
  v_area :: Area
  required_tag :: "string option"
  materialize :: bool

record PlacementEdge =
  pe_src :: nat
  pe_dst :: nat
  pe_width :: nat
  forward_width :: nat
  reverse_width :: nat

record Stream =
  s_link :: string
  s_src :: nat
  s_dst :: nat
  s_width :: nat
  s_data_width :: nat
  s_depth :: nat

record AxiNet =
  an_endpoint :: AxiEndpoint
  an_bank :: MemoryBank
  an_channel :: AxiChannel
  an_src :: nat
  an_dst :: nat
  an_width :: nat
  an_payload_width :: nat

record ControlNet =
  cn_instance :: string
  cn_channel :: ControlChannel
  cn_src :: nat
  cn_dst :: nat
  cn_width :: nat

record CoLocatedInstance =
  co_name :: string
  co_host :: nat

record FloorGraph =
  vertices :: "Vertex list"
  placement_edges :: "PlacementEdge list"
  streams :: "Stream list"
  axi_nets :: "AxiNet list"
  control_nets :: "ControlNet list"
  vertex_index :: "(string, nat) btree"
  co_located :: "CoLocatedInstance list"

section \<open>FIFO area\<close>

text \<open>Widths and depths are 32-bit and the products are formed in 64 bits, where they fit (\<open>fifo_area_fits\<close>).\<close>

definition fifo_area :: "nat \<Rightarrow> nat \<Rightarrow> Area" where
  "fifo_area width depth =
     (let log2 = ilog2 (max depth 1); log_term = 3 * log2 in
      if depth < 128
      then let lut_ram = width + width * (depth - 1) div 16; lut_logic = 15 + log_term
           in \<lparr>lut = lut_ram + lut_logic, ff = 7 + log_term, bram_18k = 0, dsp = 0, uram = 0\<rparr>
      else let count = depth div 512 + 1
           in \<lparr>lut = width * count, ff = 0, bram_18k = width * count div 18, dsp = 0, uram = 0\<rparr>)"

section \<open>Derated resources\<close>

definition scaled_amount :: "nat \<Rightarrow> f64 \<Rightarrow> nat" where
  "scaled_amount amt limit = as_u64 (f64_mul (of_uint amt) limit)"

definition scaled_area :: "Area \<Rightarrow> f64 \<Rightarrow> Area" where
  "scaled_area area limit = from_amounts (\<lambda>resource. scaled_amount (amount resource area) limit)"

section \<open>Facts\<close>

lemma all_Resource: "r \<in> set Resource_ALL"
  by (cases r) (simp_all add: Resource_ALL_def)

lemma fifo_area_fits:
  assumes "width < 2 ^ 32" and "depth < 2 ^ 32"
  shows "fits 64 (amount r (fifo_area width depth))"
proof -
  have w: "width \<le> 4294967295" using assms(1) by simp
  show ?thesis
  proof (cases "depth < 128")
    case True
    define l where "l = ilog2 (max depth 1)"
    have "l < 2 ^ l" by (rule less_exp)
    also have "\<dots> \<le> max depth 1" using ilog2_bounds [of "max depth 1"] by (simp add: l_def)
    finally have "l \<le> 128" using True by simp
    moreover have "width * (depth - 1) \<le> 4294967295 * 127" using w True by (intro mult_mono) auto
    ultimately show ?thesis using True w by (cases r) (simp_all add: fifo_area_def Let_def fits_def l_def [symmetric, simplified])
  next
    case False
    have "width * (depth div 512 + 1) \<le> 4294967295 * 8388608" using w assms(2) by (intro mult_mono) auto
    then show ?thesis using False by (cases r) (auto simp: fifo_area_def Let_def fits_def)
  qed
qed

text \<open>A finite limit between 0 and 1 never raises an amount, and a larger limit never lowers it.\<close>

lemma scaled_amount_Finite:
  assumes "amt < 2 ^ 64" and "0 \<le> q" and "q \<le> 1"
  shows "scaled_amount amt (Finite q) = min (nat \<lfloor>rnd (rnd (of_nat amt) * q)\<rfloor>) (2 ^ 64 - 1)"
    and "0 \<le> rnd (of_nat amt)" and "rnd (of_nat amt) \<le> 2 ^ 64"
proof -
  have le: "(of_nat amt :: rat) \<le> of_nat (2 ^ 64)" using assms(1) by (simp only: of_nat_le_iff)
  then have le': "(of_nat amt :: rat) \<le> 2 ^ 64" by simp
  show pos: "0 \<le> rnd (of_nat amt)" by (rule rnd_nonneg) simp
  have "rnd (of_nat amt) \<le> rnd (2 ^ 64)" using le' by (intro rnd_mono) auto
  then show bound: "rnd (of_nat amt) \<le> 2 ^ 64" by (simp only: rnd_power)
  have u: "of_uint amt = Finite (rnd (of_nat amt))" unfolding of_uint_def using le' by (intro to_f64_near) simp
  have "rnd (of_nat amt) * q \<le> 2 ^ 64" using bound pos assms(2,3) mult_right_le_one_le [of "rnd (of_nat amt)" q] by linarith
  moreover have "0 \<le> rnd (of_nat amt) * q" using pos assms(2) by simp
  ultimately have "to_f64 (rnd (of_nat amt) * q) = Finite (rnd (rnd (of_nat amt) * q))" by (intro to_f64_near) simp
  then show "scaled_amount amt (Finite q) = min (nat \<lfloor>rnd (rnd (of_nat amt) * q)\<rfloor>) (2 ^ 64 - 1)"
    by (simp add: scaled_amount_def u)
qed

lemma scaled_amount_mono:
  assumes "amt < 2 ^ 64" and "0 \<le> q" and "q \<le> p" and "p \<le> 1"
  shows "scaled_amount amt (Finite q) \<le> scaled_amount amt (Finite p)"
proof -
  have "0 \<le> p" "q \<le> 1" using assms by auto
  note s = scaled_amount_Finite [OF assms(1,2) \<open>q \<le> 1\<close>] scaled_amount_Finite(1) [OF assms(1) \<open>0 \<le> p\<close> assms(4)]
  have "rnd (rnd (of_nat amt) * q) \<le> rnd (rnd (of_nat amt) * p)"
    using s(2) assms(2,3) by (intro rnd_mono mult_left_mono) auto
  then have "nat \<lfloor>rnd (rnd (of_nat amt) * q)\<rfloor> \<le> nat \<lfloor>rnd (rnd (of_nat amt) * p)\<rfloor>" by (intro nat_mono floor_mono)
  then show ?thesis unfolding s(1,4) by (rule min.mono) (rule order_refl)
qed

lemma scaled_amount_one:
  assumes "n < 2 ^ 53"
  shows "scaled_amount n (Finite 1) = n"
proof -
  have "rnd (rat_of_nat n) = of_nat n" using assms by (intro rnd_of_nat) simp
  moreover have "n < 2 ^ 64" using assms by simp
  ultimately show ?thesis using scaled_amount_Finite(1) [of n 1] by simp
qed

end
