(* ===== verification/Fp_Paths.thy ===== *)
theory Fp_Paths
  imports Ir_Floorplan
begin

text \<open>
  \<^verbatim>\<open>tapa-core/tapa-floorplan/src/route/paths.rs\<close>: enumeration of the candidate paths of a net on the slot
  grid.  Coordinates are 32-bit: the sum in \<^verbatim>\<open>manhattan\<close> and the steps to the next cell wrap around.
\<close>

type_synonym Cell = "nat \<times> nat"

definition manhattan :: "Cell \<Rightarrow> Cell \<Rightarrow> nat" where
  "manhattan a b = wrap 32 (abs_diff (fst a) (fst b) + abs_diff (snd a) (snd b))"

definition in_bounds :: "nat \<Rightarrow> nat \<Rightarrow> Cell \<Rightarrow> bool" where
  "in_bounds grid_cols grid_rows c \<longleftrightarrow> fst c < grid_cols \<and> snd c < grid_rows"

definition next_cells :: "Cell \<Rightarrow> Cell list" where
  "next_cells c =
     (case c of (x, y) \<Rightarrow>
       [(wrap 32 (x + 1), y), (x, wrap 32 (y + 1)), (wrapping_sub 32 x 1, y), (x, wrapping_sub 32 y 1)])"

function visit :: "Cell \<Rightarrow> nat \<Rightarrow> (Cell \<Rightarrow> bool) \<Rightarrow> Cell list \<Rightarrow> Cell set \<Rightarrow> Cell list list" where
  "visit dst hop_budget inb path visited =
     (let current = last path in
      if current = dst then [path]
      else if length path - 1 + manhattan current dst > hop_budget then []
      else concat (map (\<lambda>nxt.
             if \<not> inb nxt \<or> nxt \<in> visited then []
             else visit dst hop_budget inb (path @ [nxt]) (insert nxt visited)) (next_cells current)))"
  by pat_completeness auto
termination
  by (relation "measure (\<lambda>(dst, hop_budget, inb, path, visited). hop_budget + 2 - length path)") auto

declare visit.simps [simp del]

definition enumerate_paths :: "Cell \<Rightarrow> Cell \<Rightarrow> nat \<Rightarrow> nat \<Rightarrow> nat \<Rightarrow> Cell list list" where
  "enumerate_paths src dst grid_cols grid_rows max_detour =
     (if \<not> in_bounds grid_cols grid_rows src \<or> \<not> in_bounds grid_cols grid_rows dst then []
      else let hop_budget = manhattan src dst + max_detour
           in sort_key (\<lambda>p. (length p, p))
                (visit dst hop_budget (in_bounds grid_cols grid_rows) [src] {src}))"

section \<open>Distance and steps\<close>

definition dist :: "Cell \<Rightarrow> Cell \<Rightarrow> nat" where
  "dist a b = abs_diff (fst a) (fst b) + abs_diff (snd a) (snd b)"

text \<open>A grid whose distances stay in 32 bits.\<close>

definition grid_ok :: "nat \<Rightarrow> nat \<Rightarrow> bool" where
  "grid_ok cols rows \<longleftrightarrow> cols < 2 ^ 32 \<and> rows < 2 ^ 32 \<and> cols + rows \<le> 2 ^ 32"

lemma manhattan_dist:
  assumes "grid_ok cols rows" and "in_bounds cols rows a" and "in_bounds cols rows b"
  shows "manhattan a b = dist a b"
  using assms by (auto simp: manhattan_def dist_def wrap_def abs_diff_def in_bounds_def grid_ok_def)

lemma dist_refl: "dist a a = 0"
  by (simp add: dist_def abs_diff_def)

lemma dist_step: "adjacent a b \<Longrightarrow> dist a c \<le> Suc (dist b c)"
  by (auto simp: adjacent_def dist_def abs_diff_def)

lemma wrapping_sub_1:
  assumes "x < 2 ^ 32"
  shows "wrapping_sub 32 x 1 = (if x = 0 then 2 ^ 32 - 1 else x - 1)"
proof (cases "x = 0")
  case False
  then have "fits 32 x" "1 \<le> x" using assms by (simp_all add: fits_def)
  then show ?thesis using False by (simp only: wrapping_sub_eq if_False)
qed (simp add: wrapping_sub_def)

lemma next_cells_adjacent:
  assumes "grid_ok cols rows" and "in_bounds cols rows c"
  shows "{n \<in> set (next_cells c). in_bounds cols rows n} = {n. adjacent c n \<and> in_bounds cols rows n}"
proof -
  obtain x y where c: "c = (x, y)" by force
  have b: "x < cols" "y < rows" "cols < 2 ^ 32" "rows < 2 ^ 32"
    using assms by (auto simp: c in_bounds_def grid_ok_def)
  then have w: "wrap 32 (x + 1) = x + 1" "wrap 32 (y + 1) = y + 1" by (simp_all add: wrap_def)
  have s: "wrapping_sub 32 x 1 = (if x = 0 then 2 ^ 32 - 1 else x - 1)"
    "wrapping_sub 32 y 1 = (if y = 0 then 2 ^ 32 - 1 else y - 1)"
    using b wrapping_sub_1 [of x] wrapping_sub_1 [of y] by linarith+
  show ?thesis
    unfolding next_cells_def c prod.case w s adjacent_def in_bounds_def using b by (auto simp: prod_eq_iff)
qed

lemma next_cells_distinct:
  assumes "grid_ok cols rows" and "in_bounds cols rows c"
  shows "distinct (next_cells c)"
proof -
  obtain x y where c: "c = (x, y)" by force
  have b: "x < cols" "y < rows" "cols < 2 ^ 32" "rows < 2 ^ 32"
    using assms by (auto simp: c in_bounds_def grid_ok_def)
  then have w: "wrap 32 (x + 1) = x + 1" "wrap 32 (y + 1) = y + 1" by (simp_all add: wrap_def)
  have s: "wrapping_sub 32 x 1 = (if x = 0 then 2 ^ 32 - 1 else x - 1)"
    "wrapping_sub 32 y 1 = (if y = 0 then 2 ^ 32 - 1 else y - 1)"
    using b wrapping_sub_1 [of x] wrapping_sub_1 [of y] by linarith+
  show ?thesis
    unfolding next_cells_def c prod.case w s using b by auto
qed

section \<open>Simple paths\<close>

definition simple_path :: "(Cell \<Rightarrow> bool) \<Rightarrow> Cell list \<Rightarrow> bool" where
  "simple_path inb p \<longleftrightarrow> distinct p \<and> successively adjacent p \<and> (\<forall>c \<in> set p. inb c)"

lemma simple_path_snoc:
  assumes "p \<noteq> []"
  shows "simple_path inb (p @ [n]) \<longleftrightarrow> simple_path inb p \<and> adjacent (last p) n \<and> inb n \<and> n \<notin> set p"
  using assms by (auto simp: simple_path_def successively_append_iff)

lemma simple_path_prefix: "simple_path inb (p @ q) \<Longrightarrow> simple_path inb p"
  by (auto simp: simple_path_def successively_append_iff)

lemma path_length_bound: "successively adjacent (c # rest) \<Longrightarrow> dist c (last (c # rest)) \<le> length rest"
proof (induction rest arbitrary: c)
  case (Cons d rest)
  then have "adjacent c d" "dist d (last (d # rest)) \<le> length rest" by auto
  then show ?case using dist_step [of c d "last (d # rest)"] by simp
qed (simp add: dist_refl)

lemma path_extension_bound:
  assumes "simple_path inb (p @ rest)" and "p \<noteq> []"
  shows "dist (last p) (last (p @ rest)) \<le> length rest"
proof -
  have "successively adjacent (last p # rest)"
    using assms by (cases rest) (auto simp: simple_path_def successively_append_iff successively_Cons)
  from path_length_bound [OF this] show ?thesis by (cases rest) simp_all
qed


section \<open>The search\<close>

lemma distinct_concat_map:
  assumes "distinct xs" and "\<And>x. x \<in> set xs \<Longrightarrow> distinct (f x)"
    and "\<And>x y. x \<in> set xs \<Longrightarrow> y \<in> set xs \<Longrightarrow> x \<noteq> y \<Longrightarrow> set (f x) \<inter> set (f y) = {}"
  shows "distinct (concat (map f xs))"
  using assms
proof (induction xs)
  case (Cons a xs)
  then have "distinct (concat (map f xs))" by simp
  moreover have "set (f a) \<inter> set (f x) = {}" if "x \<in> set xs" for x
    using Cons.prems(1) Cons.prems(3) [of a x] that by auto
  ultimately show ?case using Cons.prems(2) by auto
qed simp

lemma visit_arrived: "last path = dst \<Longrightarrow> visit dst hop_budget inb path visited = [path]"
  by (simp add: visit.simps)

lemma visit_pruned:
  "last path \<noteq> dst \<Longrightarrow> hop_budget < length path - 1 + manhattan (last path) dst \<Longrightarrow>
   visit dst hop_budget inb path visited = []"
  by (simp add: visit.simps)

lemma visit_step:
  "last path \<noteq> dst \<Longrightarrow> length path - 1 + manhattan (last path) dst \<le> hop_budget \<Longrightarrow>
   visit dst hop_budget inb path visited =
     concat (map (\<lambda>nxt. visit dst hop_budget inb (path @ [nxt]) (insert nxt visited))
              (filter (\<lambda>nxt. inb nxt \<and> nxt \<notin> visited) (next_cells (last path))))"
proof -
  have *: "concat (map (\<lambda>x. if P x \<longrightarrow> x \<in> V then [] else f x) xs) = concat (map f (filter (\<lambda>x. P x \<and> x \<notin> V) xs))"
    for P V xs and f :: "Cell \<Rightarrow> Cell list list"
    by (induction xs) auto
  assume "last path \<noteq> dst" "length path - 1 + manhattan (last path) dst \<le> hop_budget"
  then show ?thesis by (subst visit.simps) (simp add: Let_def *)
qed

text \<open>What the search below a partial path has to deliver.\<close>

definition completions :: "(Cell \<Rightarrow> bool) \<Rightarrow> Cell \<Rightarrow> nat \<Rightarrow> Cell list \<Rightarrow> Cell list set" where
  "completions inb dst hop_budget path =
     {p. \<exists>rest. p = path @ rest \<and> simple_path inb p \<and> last p = dst \<and> length p - 1 \<le> hop_budget}"

lemma completions_arrived:
  assumes "path \<noteq> []" and "simple_path inb path" and "last path = dst" and "length path - 1 \<le> hop_budget"
  shows "completions inb dst hop_budget path = {path}"
proof -
  have "rest = []" if "simple_path inb (path @ rest)" "last (path @ rest) = dst" for rest
  proof (rule ccontr)
    assume "rest \<noteq> []"
    then have "dst \<in> set rest" using that(2) by auto
    moreover have "dst \<in> set path" using assms(1,3) by auto
    ultimately show False using that(1) by (auto simp: simple_path_def)
  qed
  then show ?thesis using assms by (auto simp: completions_def)
qed

lemma completions_pruned:
  assumes "path \<noteq> []" and "hop_budget < length path - 1 + dist (last path) dst"
  shows "completions inb dst hop_budget path = {}"
proof -
  have False if "simple_path inb (path @ rest)" "last (path @ rest) = dst" "length (path @ rest) - 1 \<le> hop_budget"
    for rest
    using path_extension_bound [OF that(1) assms(1)] that(2,3) assms by (cases path) auto
  then show ?thesis unfolding completions_def by blast
qed

lemma completions_step:
  assumes "path \<noteq> []" and "last path \<noteq> dst"
  shows "completions inb dst hop_budget path =
    (\<Union>n \<in> {n. adjacent (last path) n \<and> inb n \<and> n \<notin> set path}. completions inb dst hop_budget (path @ [n]))"
    (is "?L = ?R")
proof
  show "?L \<subseteq> ?R"
  proof
    fix p assume "p \<in> ?L"
    then obtain rest where p: "p = path @ rest" "simple_path inb p" "last p = dst" "length p - 1 \<le> hop_budget"
      by (auto simp: completions_def)
    then obtain n tl where rest: "rest = n # tl" using assms by (cases rest) auto
    have "simple_path inb (path @ [n])"
      using p(1,2) simple_path_prefix [of inb "path @ [n]" tl] by (simp add: rest)
    then show "p \<in> ?R"
      using p assms simple_path_snoc [of path inb n] by (auto simp: completions_def rest)
  qed
  show "?R \<subseteq> ?L" by (auto simp: completions_def)
qed

lemma branches_exact:
  assumes "distinct ns" and "\<And>n. n \<in> set ns \<Longrightarrow> set (f n) = completions inb dst hop_budget (path @ [n]) \<and> distinct (f n)"
  shows "set (concat (map f ns)) = (\<Union>n \<in> set ns. completions inb dst hop_budget (path @ [n])) \<and> distinct (concat (map f ns))"
proof
  have "(\<Union>n \<in> set ns. set (f n)) = (\<Union>n \<in> set ns. completions inb dst hop_budget (path @ [n]))"
    by (rule SUP_cong) (use assms(2) in auto)
  then show "set (concat (map f ns)) = (\<Union>n \<in> set ns. completions inb dst hop_budget (path @ [n]))" by simp
  have apart: "completions inb dst hop_budget (path @ [m]) \<inter> completions inb dst hop_budget (path @ [n]) = {}"
    if "m \<noteq> n" for m n using that unfolding completions_def by auto
  show "distinct (concat (map f ns))"
  proof (rule distinct_concat_map)
    show "distinct ns" by (rule assms(1))
    show "distinct (f n)" if "n \<in> set ns" for n using assms(2) that by simp
    show "set (f m) \<inter> set (f n) = {}" if "m \<in> set ns" "n \<in> set ns" "m \<noteq> n" for m n
      using assms(2) that apart [OF that(3)] by simp
  qed
qed

lemma visit_exact:
  assumes "grid_ok cols rows" and "in_bounds cols rows dst"
  shows "path \<noteq> [] \<Longrightarrow> simple_path (in_bounds cols rows) path \<Longrightarrow>
    (last path = dst \<longrightarrow> length path - 1 \<le> hop_budget) \<Longrightarrow>
    set (visit dst hop_budget (in_bounds cols rows) path (set path)) = completions (in_bounds cols rows) dst hop_budget path
    \<and> distinct (visit dst hop_budget (in_bounds cols rows) path (set path))"
proof (induction "hop_budget + 2 - length path" arbitrary: path rule: less_induct)
  case less
  let ?inb = "in_bounds cols rows" and ?c = "last path"
  have inb: "?inb ?c" using less.prems(1,2) by (auto simp: simple_path_def)
  have man: "manhattan ?c dst = dist ?c dst" using manhattan_dist [OF assms(1) inb assms(2)] .
  consider (arrived) "?c = dst" | (pruned) "?c \<noteq> dst" "hop_budget < length path - 1 + dist ?c dst"
    | (step) "?c \<noteq> dst" "length path - 1 + dist ?c dst \<le> hop_budget" by linarith
  then show ?case
  proof cases
    case arrived
    then show ?thesis using less.prems completions_arrived [of path ?inb dst hop_budget] by (simp add: visit_arrived)
  next
    case pruned
    then show ?thesis
      using less.prems(1) visit_pruned [of path dst hop_budget] completions_pruned [of path hop_budget dst] man by simp
  next
    case step
    let ?ns = "filter (\<lambda>n. ?inb n \<and> n \<notin> set path) (next_cells ?c)"
    let ?f = "\<lambda>n. visit dst hop_budget ?inb (path @ [n]) (insert n (set path))"
    have far: "0 < dist ?c dst" using step(1) by (auto simp: dist_def abs_diff_def prod_eq_iff split: if_splits)
    have ns: "set ?ns = {n. adjacent ?c n \<and> ?inb n \<and> n \<notin> set path}"
      using next_cells_adjacent [OF assms(1) inb] by auto
    have sub: "set (?f n) = completions ?inb dst hop_budget (path @ [n]) \<and> distinct (?f n)" if "n \<in> set ?ns" for n
    proof -
      have "simple_path ?inb (path @ [n])" using that [unfolded ns] less.prems(1,2) by (simp add: simple_path_snoc)
      moreover have "hop_budget + 2 - length (path @ [n]) < hop_budget + 2 - length path"
        and "length (path @ [n]) - 1 \<le> hop_budget" using step(2) far by auto
      ultimately show ?thesis using less.hyps [of "path @ [n]"] by simp
    qed
    have v: "visit dst hop_budget ?inb path (set path) = concat (map ?f ?ns)"
      using step man visit_step [of path dst hop_budget] by simp
    have "distinct ?ns" using next_cells_distinct [OF assms(1) inb] by simp
    from branches_exact [OF this sub] show ?thesis
      unfolding v completions_step [OF less.prems(1) step(1)] ns by blast
  qed
qed

lemma paths_exact:
  assumes "grid_ok cols rows" and "in_bounds cols rows src" and "in_bounds cols rows dst"
  shows "set (enumerate_paths src dst cols rows max_detour) =
      {p. p \<noteq> [] \<and> hd p = src \<and> last p = dst \<and> simple_path (in_bounds cols rows) p \<and> length p \<le> dist src dst + max_detour + 1}
    \<and> distinct (enumerate_paths src dst cols rows max_detour)
    \<and> sorted (map (\<lambda>p. (length p, p)) (enumerate_paths src dst cols rows max_detour))"
proof -
  let ?b = "dist src dst + max_detour" and ?inb = "in_bounds cols rows"
  have v: "set (visit dst ?b ?inb [src] {src}) = completions ?inb dst ?b [src] \<and> distinct (visit dst ?b ?inb [src] {src})"
    using visit_exact [OF assms(1,3), of "[src]" ?b] assms(2) by (simp add: simple_path_def)
  have "completions ?inb dst ?b [src] =
      {p. p \<noteq> [] \<and> hd p = src \<and> last p = dst \<and> simple_path ?inb p \<and> length p \<le> ?b + 1}"
    by (auto simp: completions_def neq_Nil_conv)
  then show ?thesis
    using v assms by (simp add: enumerate_paths_def manhattan_dist Let_def)
qed

text \<open>C20: On a grid whose distances fit 32 bits, the candidates of a net are exactly the simple paths from source to
  destination that stay on the grid, move between touching slots and take at most the Manhattan distance plus
  \<open>max_detour\<close> hops; each appears once, shortest first and in lexicographic order among equal lengths.\<close>

theorem enumerate_paths_exact:
  assumes "grid_ok cols rows" and "in_bounds cols rows src" and "in_bounds cols rows dst"
  shows "set (enumerate_paths src dst cols rows max_detour) =
      {p. p \<noteq> [] \<and> hd p = src \<and> last p = dst \<and> simple_path (in_bounds cols rows) p \<and> length p \<le> dist src dst + max_detour + 1}
    \<and> distinct (enumerate_paths src dst cols rows max_detour)
    \<and> sorted (map (\<lambda>p. (length p, p)) (enumerate_paths src dst cols rows max_detour))"
  by (rule paths_exact [OF assms])

theorem enumerate_paths_exact_witness:
  "grid_ok 2 2 \<and> in_bounds 2 2 (0, 0) \<and> in_bounds 2 2 (1, 1) \<and> distinct (enumerate_paths (0, 0) (1, 1) 2 2 0)
   \<and> [(0, 0), (1, 0), (1, 1)] \<in> set (enumerate_paths (0, 0) (1, 1) 2 2 0)"
proof -
  have "grid_ok 2 2" "in_bounds 2 2 (0, 0)" "in_bounds 2 2 (1, 1)" by (simp_all add: grid_ok_def in_bounds_def)
  from this enumerate_paths_exact [OF this, of 0] show ?thesis
    by (simp add: simple_path_def adjacent_def dist_def abs_diff_def in_bounds_def)
qed

end
