(* ===== verification/Fp_Device.thy ===== *)
theory Fp_Device
  imports F64 Ir_Floorplan
begin

text \<open>
  \<^verbatim>\<open>tapa-core/tapa-floorplan/src/device/model.rs\<close>: the device table, its validation, the resources of a region
  and the wire budget of a slot border.  Decoding the table from JSON is not modelled.
\<close>

section \<open>The device table\<close>

definition UNIT_DIST_X :: int where
  "UNIT_DIST_X = 100"

definition UNIT_DIST_Y :: int where
  "UNIT_DIST_Y = 150"

definition VERTICAL_DIST_PENALTY :: int where
  "VERTICAL_DIST_PENALTY = 2"

definition DEFAULT_USAGE_LIMIT :: f64 where
  "DEFAULT_USAGE_LIMIT = to_f64 (7 / 10)"

definition WIRE_CAPACITY_INF :: nat where
  "WIRE_CAPACITY_INF = 100000000"

record DirCaps =
  north :: nat
  south :: nat
  east :: nat
  west :: nat

definition DirCaps_default :: DirCaps where
  "DirCaps_default =
     \<lparr>north = WIRE_CAPACITY_INF, south = WIRE_CAPACITY_INF, east = WIRE_CAPACITY_INF, west = WIRE_CAPACITY_INF\<rparr>"

record Slot =
  slot_x :: nat
  slot_y :: nat
  slot_area :: Area
  centroid_x :: int
  centroid_y :: int
  pblock_ranges :: "string list"
  wire_cap :: DirCaps
  slot_tags :: "string list"

definition slot_coor :: "Slot \<Rightarrow> Coor" where
  "slot_coor s = Coor_slot (slot_x s) (slot_y s)"

record DeviceAnchor =
  anchor_tag :: string
  anchor_site :: string
  x_offset_quarters :: int
  y_offset_quarters :: int

datatype PlacementStyle = Pblock | SlrAssignment

type_synonym PlannedResources = "Resource list"

definition RESOURCE_TABLE_NAMES :: "(string \<times> Resource) list" where
  "RESOURCE_TABLE_NAMES =
     [(''lut'', Lut), (''ff'', Ff), (''dsp'', Dsp), (''bram_18k'', Bram18k), (''uram'', Uram)]"

definition PlannedResources_all :: PlannedResources where
  "PlannedResources_all = map snd RESOURCE_TABLE_NAMES"

definition planned_contains :: "PlannedResources \<Rightarrow> Resource \<Rightarrow> bool" where
  "planned_contains rs r \<longleftrightarrow> r \<in> set rs"

text \<open>Decoding the list of class names; the error is the name that is not a class.\<close>

definition planned_from_names :: "string list \<Rightarrow> string + PlannedResources" where
  "planned_from_names = mapR (\<lambda>name. ok_or name (map_option snd (find (\<lambda>(wire, _). wire = name) RESOURCE_TABLE_NAMES)))"

record Device =
  dev_key :: string
  part_num :: string
  platform_name :: "string option"
  rows :: nat
  cols :: nat
  placement :: PlacementStyle
  planned_resources :: PlannedResources
  usage_ceiling :: "f64 option"
  user_pblock_name :: "string option"
  slots :: "Slot list"
  anchors :: "DeviceAnchor list"

datatype DeviceValidationError =
    MissingPblockRanges nat nat
  | InvalidPblockRange nat nat string
  | InvalidUserPblockName string
  | EmptyGrid
  | SlotOutOfBounds nat nat nat nat
  | DuplicateSlot nat nat
  | MissingSlot nat nat
  | CentroidOffGrid nat nat int int
  | BankTagWithoutPlatform nat nat string
  | AnchorTagWithoutCapacity nat nat string
  | InvalidAnchorTag string nat
  | InvalidAnchorSite string string
  | AnchorOutsideSlot string

definition plans_resource :: "Device \<Rightarrow> Resource \<Rightarrow> bool" where
  "plans_resource d r \<longleftrightarrow> planned_contains (planned_resources d) r"

section \<open>Text checks\<close>

definition is_control :: "char \<Rightarrow> bool" where
  "is_control c \<longleftrightarrow> (of_char c :: nat) < 32 \<or> 127 \<le> (of_char c :: nat) \<and> (of_char c :: nat) < 160"

definition is_ascii_whitespace :: "char \<Rightarrow> bool" where
  "is_ascii_whitespace c \<longleftrightarrow> (of_char c :: nat) \<in> {9, 10, 12, 13, 32}"

fun split_words :: "string \<Rightarrow> string \<Rightarrow> string list" where
  "split_words w [] = (if w = [] then [] else [w])"
| "split_words w (c # cs) =
     (if is_ascii_whitespace c then (if w = [] then split_words [] cs else w # split_words [] cs)
      else split_words (w @ [c]) cs)"

definition split_ascii_whitespace :: "string \<Rightarrow> string list" where
  "split_ascii_whitespace s = split_words [] s"

fun contains_str :: "string \<Rightarrow> string \<Rightarrow> bool" where
  "contains_str p [] = (p = [])"
| "contains_str p (c # cs) = (strip_prefix p (c # cs) \<noteq> None \<or> contains_str p cs)"

definition pblock_payload :: "string \<Rightarrow> string option" where
  "pblock_payload rng =
     (case strip_prefix ''-add '' rng of Some p \<Rightarrow> Some p
      | None \<Rightarrow> (case strip_prefix ''-remove '' rng of Some p \<Rightarrow> Some p
      | None \<Rightarrow> if strip_prefix ''-'' rng \<noteq> None then None else Some rng))"

definition strip_braces :: "string \<Rightarrow> string option" where
  "strip_braces payload =
     (case strip_prefix ''{'' payload of
        Some p \<Rightarrow> strip_suffix ''}'' p
      | None \<Rightarrow> if strip_suffix ''}'' payload \<noteq> None then None else Some payload)"

definition pblock_item_ok :: "string \<Rightarrow> bool" where
  "pblock_item_ok item \<longleftrightarrow>
     contains_str ''_X'' item \<and> CHR ''Y'' \<in> set item \<and>
     list_all (\<lambda>c. is_ascii_alphanumeric c \<or> c = CHR ''_'' \<or> c = CHR '':'') item"

definition valid_pblock_range :: "string \<Rightarrow> bool" where
  "valid_pblock_range rng =
     (if trim rng \<noteq> rng \<or> rng = [] \<or> list_ex (\<lambda>c. is_control c \<or> c \<in> set '';$[]'') rng then False
      else case pblock_payload rng of
        None \<Rightarrow> False
      | Some payload \<Rightarrow>
          if payload = [] then False
          else case strip_braces payload of
            None \<Rightarrow> False
          | Some p \<Rightarrow> p \<noteq> [] \<and> list_all pblock_item_ok (split_ascii_whitespace p))"

definition valid_site_name :: "string \<Rightarrow> bool" where
  "valid_site_name site \<longleftrightarrow>
     strip_prefix ''NOC_'' site \<noteq> None \<and> list_all (\<lambda>c. is_ascii_alphanumeric c \<or> c = CHR ''_'') site"

definition valid_user_pblock_name :: "string \<Rightarrow> bool" where
  "valid_user_pblock_name name =
     (case name of
        [] \<Rightarrow> False
      | c # cs \<Rightarrow> (is_ascii_alphabetic c \<or> c = CHR ''_'') \<and> strip_prefix ''__'' name = None \<and>
          list_all (\<lambda>c. is_ascii_alphanumeric c \<or> c = CHR ''_'') cs)"

section \<open>Validation\<close>

definition scan_slot :: "Device \<Rightarrow> (nat \<times> nat) list \<Rightarrow> Slot \<Rightarrow> DeviceValidationError fault + (nat \<times> nat) list" where
  "scan_slot d seen s =
     (if slot_x s \<ge> cols d \<or> slot_y s \<ge> rows d
      then Inl (Err (SlotOutOfBounds (slot_x s) (slot_y s) (cols d) (rows d)))
      else if (slot_x s, slot_y s) \<in> set seen then Inl (Err (DuplicateSlot (slot_x s) (slot_y s)))
      else Inr ((slot_x s, slot_y s) # seen))"

definition grid_cells :: "Device \<Rightarrow> (nat \<times> nat) list" where
  "grid_cells d = concat (map (\<lambda>y. map (\<lambda>x. (x, y)) [0..<cols d]) [0..<rows d])"

definition check_centroid :: "Slot \<Rightarrow> DeviceValidationError fault + unit" where
  "check_centroid s =
     check ((centroid_x s, centroid_y s) = (UNIT_DIST_X * int (slot_x s), UNIT_DIST_Y * int (slot_y s)))
       (Err (CentroidOffGrid (slot_x s) (slot_y s) (centroid_x s) (centroid_y s)))"

definition validate_grid :: "Device \<Rightarrow> DeviceValidationError fault + unit" where
  "validate_grid d =
     (if rows d = 0 \<or> cols d = 0 then Inl (Err EmptyGrid)
      else bindR (foldR (scan_slot d) [] (slots d)) (\<lambda>seen.
        if length seen \<noteq> rows d * cols d
        then (case find (\<lambda>cell. cell \<notin> set seen) (grid_cells d) of
                None \<Rightarrow> Inl Panicked
              | Some (x, y) \<Rightarrow> Inl (Err (MissingSlot x y)))
        else foldR (\<lambda>_. check_centroid) () (slots d)))"

definition has_tag :: "string \<Rightarrow> Slot \<Rightarrow> bool" where
  "has_tag tag s \<longleftrightarrow> tag \<in> set (slot_tags s)"

definition check_anchor :: "Device \<Rightarrow> string list \<Rightarrow> DeviceAnchor \<Rightarrow> DeviceValidationError fault + string list" where
  "check_anchor d anchor_tags a =
     (let matches = length (filter (has_tag (anchor_tag a)) (slots d)) in
      if matches \<noteq> 1 \<or> anchor_tag a \<in> set anchor_tags then Inl (Err (InvalidAnchorTag (anchor_tag a) matches))
      else if \<not> valid_site_name (anchor_site a) then Inl (Err (InvalidAnchorSite (anchor_tag a) (anchor_site a)))
      else if \<bar>x_offset_quarters a\<bar> > 2 * UNIT_DIST_X \<or> \<bar>y_offset_quarters a\<bar> > 2 * UNIT_DIST_Y
      then Inl (Err (AnchorOutsideSlot (anchor_tag a)))
      else Inr (anchor_tag a # anchor_tags))"

definition validate_anchors :: "Device \<Rightarrow> DeviceValidationError fault + unit" where
  "validate_anchors d = bindR (foldR (check_anchor d) [] (anchors d)) (\<lambda>_. Inr ())"

definition check_bank_tags :: "Slot \<Rightarrow> DeviceValidationError fault + unit" where
  "check_bank_tags s =
     foldR (\<lambda>_ tag. case parse_bank tag of
         Inr _ \<Rightarrow> Inl (Err (BankTagWithoutPlatform (slot_x s) (slot_y s) tag))
       | Inl _ \<Rightarrow> Inr ()) () (slot_tags s)"

definition check_capacity :: "Slot \<Rightarrow> DeviceValidationError fault + unit" where
  "check_capacity s =
     (if slot_area s \<noteq> Area_default then Inr ()
      else case slot_tags s of
        [] \<Rightarrow> Inr ()
      | tag # _ \<Rightarrow> Inl (Err (AnchorTagWithoutCapacity (slot_x s) (slot_y s) tag)))"

definition check_pblock_ranges :: "Slot \<Rightarrow> DeviceValidationError fault + unit" where
  "check_pblock_ranges s =
     (if pblock_ranges s = [] then Inl (Err (MissingPblockRanges (slot_x s) (slot_y s)))
      else foldR (\<lambda>_ rng. check (valid_pblock_range rng) (Err (InvalidPblockRange (slot_x s) (slot_y s) rng))) ()
             (pblock_ranges s))"

definition device_validate :: "Device \<Rightarrow> DeviceValidationError fault + unit" where
  "device_validate d =
     bindR (validate_grid d) (\<lambda>_.
     bindR (if platform_name d = None then foldR (\<lambda>_. check_bank_tags) () (slots d) else Inr ()) (\<lambda>_.
     bindR (validate_anchors d) (\<lambda>_.
     bindR (foldR (\<lambda>_. check_capacity) () (slots d)) (\<lambda>_.
     bindR (foldR (\<lambda>_. check_pblock_ranges) () (slots d)) (\<lambda>_.
       case user_pblock_name d of
         None \<Rightarrow> Inr ()
       | Some name \<Rightarrow> check (valid_user_pblock_name name) (Err (InvalidUserPblockName name)))))))"

section \<open>Queries\<close>

definition device_slot :: "Device \<Rightarrow> nat \<Rightarrow> nat \<Rightarrow> Slot option" where
  "device_slot d x y = find (\<lambda>s. slot_x s = x \<and> slot_y s = y) (slots d)"

definition slots_with_tag :: "Device \<Rightarrow> string \<Rightarrow> Slot list" where
  "slots_with_tag d tag = filter (has_tag tag) (slots d)"

definition wrap_i64 :: "int \<Rightarrow> int" where
  "wrap_i64 z = (z + 2 ^ 63) mod 2 ^ 64 - 2 ^ 63"

definition anchor_position_quarters :: "Device \<Rightarrow> string \<Rightarrow> (int \<times> int) option" where
  "anchor_position_quarters d tag =
     Option.bind (find (\<lambda>a. anchor_tag a = tag) (anchors d)) (\<lambda>a.
     case slots_with_tag d tag of
       [] \<Rightarrow> None
     | s # _ \<Rightarrow> Some (wrap_i64 (wrap_i64 (centroid_x s * 4) + x_offset_quarters a),
                      wrap_i64 (wrap_i64 (centroid_y s * 4) + y_offset_quarters a)))"

definition add_slot_area :: "Device \<Rightarrow> Area option \<Rightarrow> nat \<times> nat \<Rightarrow> Area option" where
  "add_slot_area d acc cell =
     Option.bind acc (\<lambda>t. Option.bind (device_slot d (fst cell) (snd cell)) (\<lambda>s. area_checked_add t (slot_area s)))"

definition island_area :: "Device \<Rightarrow> Coor \<Rightarrow> Area option" where
  "island_area d region = foldl (add_slot_area d) (Some Area_default) (all_slot_coors region)"

definition usable_wire_capacity :: "nat \<Rightarrow> nat" where
  "usable_wire_capacity raw = wrap 64 (wrap 64 (raw div 10 * 7) + wrap 64 (wrap 64 (raw mod 10 * 7) + 5) div 10)"

definition bounded_border_capacity :: "nat \<Rightarrow> nat \<Rightarrow> nat option" where
  "bounded_border_capacity lhs rhs =
     (if min lhs rhs < WIRE_CAPACITY_INF then Some (usable_wire_capacity (min lhs rhs)) else None)"

section \<open>The grid of an accepted device\<close>

abbreviation slot_cell :: "Slot \<Rightarrow> nat \<times> nat" where
  "slot_cell s \<equiv> (slot_x s, slot_y s)"

definition on_grid :: "Device \<Rightarrow> nat \<times> nat \<Rightarrow> bool" where
  "on_grid d c \<longleftrightarrow> fst c < cols d \<and> snd c < rows d"

lemma set_grid_cells: "set (grid_cells d) = {c. on_grid d c}"
  by (auto simp: grid_cells_def on_grid_def)

lemma length_grid_cells: "length (grid_cells d) = rows d * cols d"
  by (simp add: grid_cells_def length_concat o_def sum_list_triv)

lemma scan_slot_Inr:
  "scan_slot d seen s = Inr seen' \<longleftrightarrow>
     on_grid d (slot_cell s) \<and> slot_cell s \<notin> set seen \<and> seen' = slot_cell s # seen"
  by (auto simp: scan_slot_def on_grid_def)

lemma checks_no_panic:
  "scan_slot d seen s \<noteq> Inl Panicked" "check_centroid s \<noteq> Inl Panicked" "check_anchor d tags a \<noteq> Inl Panicked"
  "check_bank_tags s \<noteq> Inl Panicked" "check_capacity s \<noteq> Inl Panicked" "check_pblock_ranges s \<noteq> Inl Panicked"
proof -
  show "check_bank_tags s \<noteq> Inl Panicked"
    by (auto simp: check_bank_tags_def dest!: foldR_Inl split: sum.splits)
  show "check_pblock_ranges s \<noteq> Inl Panicked"
    by (auto simp: check_pblock_ranges_def dest!: foldR_Inl)
qed (auto simp: scan_slot_def check_centroid_def check_anchor_def check_capacity_def Let_def split: list.splits)

lemma scan_slots_Inr:
  "foldR (scan_slot d) seen ss = Inr seen' \<longleftrightarrow>
     seen' = rev (map slot_cell ss) @ seen \<and> (\<forall>s \<in> set ss. on_grid d (slot_cell s)) \<and>
     distinct (map slot_cell ss) \<and> set (map slot_cell ss) \<inter> set seen = {}"
proof (induction ss arbitrary: seen)
  case (Cons s ss)
  show ?case
    by (auto simp: Cons.IH bindR_eq_Inr scan_slot_Inr)
qed auto

lemma no_missing_cell:
  assumes "\<forall>s \<in> set ss. on_grid d (slot_cell s)" and "distinct (map slot_cell ss)"
    and "\<forall>c. on_grid d c \<longrightarrow> c \<in> set (map slot_cell ss)"
  shows "length ss = rows d * cols d"
proof -
  have "distinct (grid_cells d)"
  proof -
    have "card (set (grid_cells d)) = cols d * rows d"
    proof -
      have "set (grid_cells d) = {0..<cols d} \<times> {0..<rows d}" by (auto simp: set_grid_cells on_grid_def)
      then show ?thesis by simp
    qed
    then show ?thesis by (simp add: card_distinct length_grid_cells mult.commute)
  qed
  moreover have "set (map slot_cell ss) = set (grid_cells d)" using assms by (auto simp: set_grid_cells)
  ultimately show ?thesis using assms(2) by (metis distinct_card length_grid_cells length_map)
qed

lemma full_grid_covers:
  assumes "\<forall>s \<in> set ss. on_grid d (slot_cell s)" and "distinct (map slot_cell ss)"
    and "length ss = rows d * cols d" and "on_grid d c"
  shows "c \<in> set (map slot_cell ss)"
proof -
  have fin: "finite ({0..<cols d} \<times> {0..<rows d})" by simp
  have "set (map slot_cell ss) \<subseteq> {0..<cols d} \<times> {0..<rows d}" using assms(1) by (auto simp: on_grid_def)
  moreover have "card (set (map slot_cell ss)) = card ({0..<cols d} \<times> {0..<rows d})"
    using assms(2,3) distinct_card [of "map slot_cell ss"] by (simp add: mult.commute)
  ultimately have "set (map slot_cell ss) = {0..<cols d} \<times> {0..<rows d}"
    using card_subset_eq [OF fin] by blast
  then show ?thesis using assms(4) by (cases c) (simp add: on_grid_def)
qed

definition grid_complete :: "Device \<Rightarrow> bool" where
  "grid_complete d \<longleftrightarrow> 0 < rows d \<and> 0 < cols d \<and> (\<forall>s \<in> set (slots d). on_grid d (slot_cell s)) \<and>
     distinct (map slot_cell (slots d)) \<and> (\<forall>c. on_grid d c \<longrightarrow> c \<in> set (map slot_cell (slots d)))"

lemma validate_grid_Inr:
  "validate_grid d = Inr () \<longleftrightarrow> grid_complete d \<and>
     (\<forall>s \<in> set (slots d). centroid_x s = UNIT_DIST_X * int (slot_x s) \<and> centroid_y s = UNIT_DIST_Y * int (slot_y s))"
proof -
  have "validate_grid d = Inr () \<longleftrightarrow> 0 < rows d \<and> 0 < cols d \<and> (\<forall>s \<in> set (slots d). on_grid d (slot_cell s)) \<and>
      distinct (map slot_cell (slots d)) \<and> length (slots d) = rows d * cols d \<and>
      (\<forall>s \<in> set (slots d). check_centroid s = Inr ())"
    by (auto simp: validate_grid_def bindR_eq_Inr scan_slots_Inr foldR_checks_Inr split: option.splits)
  then show ?thesis
    using no_missing_cell [of "slots d" d] full_grid_covers [of "slots d" d]
    unfolding grid_complete_def check_centroid_def check_eq_Inr prod.inject by blast
qed

lemma validate_grid_no_panic: "validate_grid d \<noteq> Inl Panicked"
proof
  assume p: "validate_grid d = Inl Panicked"
  have scan: "foldR (scan_slot d) [] (slots d) \<noteq> Inl Panicked"
    using foldR_Inl [of "scan_slot d" "[]" "slots d" Panicked] checks_no_panic(1) by blast
  have cent: "foldR (\<lambda>_. check_centroid) () (slots d) \<noteq> Inl Panicked"
    using foldR_checks_Inl [of check_centroid "slots d" Panicked] checks_no_panic(2) by blast
  from p scan cent obtain seen where s: "foldR (scan_slot d) [] (slots d) = Inr seen"
    and len: "length seen \<noteq> rows d * cols d" and "find (\<lambda>cell. cell \<notin> set seen) (grid_cells d) = None"
    by (auto simp: validate_grid_def bindR_eq_Inl split: if_splits option.splits)
  then have "\<forall>c. on_grid d c \<longrightarrow> c \<in> set (map slot_cell (slots d))"
    using s by (auto simp: find_None_iff set_grid_cells scan_slots_Inr)
  then show False using no_missing_cell [of "slots d" d] s len by (auto simp: scan_slots_Inr)
qed

lemma device_slot_unique:
  assumes "distinct (map slot_cell (slots d))" and "s \<in> set (slots d)"
  shows "device_slot d (slot_x s) (slot_y s) = Some s"
proof -
  obtain s' where s': "device_slot d (slot_x s) (slot_y s) = Some s'"
    using assms(2) by (cases "device_slot d (slot_x s) (slot_y s)") (auto simp: device_slot_def find_None_iff)
  then have "s' \<in> set (slots d)" "slot_cell s' = slot_cell s"
    by (auto simp: device_slot_def find_Some_iff)
  then have "s' = s" using assms by (auto simp: distinct_map dest: inj_onD)
  with s' show ?thesis by simp
qed

lemma device_slot_Some:
  "device_slot d x y = Some s \<Longrightarrow> s \<in> set (slots d) \<and> slot_x s = x \<and> slot_y s = y"
  by (auto simp: device_slot_def find_Some_iff)

lemma complete_slot_iff:
  assumes "grid_complete d"
  shows "device_slot d x y \<noteq> None \<longleftrightarrow> on_grid d (x, y)"
proof
  assume "device_slot d x y \<noteq> None"
  then obtain s where "device_slot d x y = Some s" by blast
  then have "s \<in> set (slots d)" "slot_cell s = (x, y)" by (auto dest: device_slot_Some)
  then show "on_grid d (x, y)" using assms unfolding grid_complete_def by metis
next
  assume "on_grid d (x, y)"
  then have "(x, y) \<in> slot_cell ` set (slots d)" using assms by (simp add: grid_complete_def)
  then obtain s where "s \<in> set (slots d)" "(x, y) = slot_cell s" by blast
  then show "device_slot d x y \<noteq> None" by (auto simp: device_slot_def find_None_iff)
qed

text \<open>C36: Device validation never panics.  An accepted table is a complete grid: a slot lookup succeeds exactly on the
  cells of the declared rectangle, every slot is found at its own cell, and every centroid is the cell scaled by the
  unit distances.\<close>

theorem device_validate_sound:
  "device_validate d \<noteq> Inl Panicked \<and>
   (device_validate d = Inr () \<longrightarrow>
      (\<forall>x y. device_slot d x y \<noteq> None \<longleftrightarrow> x < cols d \<and> y < rows d) \<and>
      (\<forall>s \<in> set (slots d). device_slot d (slot_x s) (slot_y s) = Some s \<and>
         centroid_x s = 100 * int (slot_x s) \<and> centroid_y s = 150 * int (slot_y s)))"
proof (intro conjI impI)
  have "validate_anchors d \<noteq> Inl Panicked"
    using checks_no_panic(3) by (auto simp: validate_anchors_def bindR_eq_Inl dest!: foldR_Inl)
  then show "device_validate d \<noteq> Inl Panicked"
    using validate_grid_no_panic [of d] checks_no_panic(4,5,6)
    by (auto simp: device_validate_def bindR_eq_Inl dest!: foldR_Inl split: if_splits option.splits)
next
  assume "device_validate d = Inr ()"
  then have g: "validate_grid d = Inr ()" by (auto simp: device_validate_def bindR_eq_Inr)
  then have c: "grid_complete d" by (simp add: validate_grid_Inr)
  then have "distinct (map slot_cell (slots d))" by (simp add: grid_complete_def)
  then show "\<forall>s \<in> set (slots d). device_slot d (slot_x s) (slot_y s) = Some s \<and>
      centroid_x s = 100 * int (slot_x s) \<and> centroid_y s = 150 * int (slot_y s)"
    using g device_slot_unique by (simp add: validate_grid_Inr UNIT_DIST_X_def UNIT_DIST_Y_def)
  show "\<forall>x y. device_slot d x y \<noteq> None \<longleftrightarrow> x < cols d \<and> y < rows d"
    using complete_slot_iff [OF c] by (simp add: on_grid_def)
qed

definition demo_slot :: "nat \<Rightarrow> nat \<Rightarrow> Slot" where
  "demo_slot x y =
     \<lparr>slot_x = x, slot_y = y, slot_area = \<lparr>lut = 1000, ff = 2000, bram_18k = 10, dsp = 5, uram = 0\<rparr>,
      centroid_x = 100 * int x, centroid_y = 150 * int y, pblock_ranges = [''CLOCKREGION_X0Y0:CLOCKREGION_X3Y3''],
      wire_cap = \<lparr>north = 100, south = 100, east = 40, west = 60\<rparr>, slot_tags = []\<rparr>"

definition demo_device :: Device where
  "demo_device =
     \<lparr>dev_key = ''demo'', part_num = ''part'', platform_name = None, rows = 2, cols = 2, placement = Pblock,
      planned_resources = PlannedResources_all, usage_ceiling = None, user_pblock_name = None,
      slots = [demo_slot 0 0, demo_slot 1 0, demo_slot 0 1, demo_slot 1 1], anchors = []\<rparr>"

lemma demo_range_valid: "valid_pblock_range ''CLOCKREGION_X0Y0:CLOCKREGION_X3Y3''"
  by code_simp

lemma demo_device_valid: "device_validate demo_device = Inr ()"
  using demo_range_valid
  by (simp add: device_validate_def validate_grid_def demo_device_def demo_slot_def scan_slot_def check_centroid_def
      UNIT_DIST_X_def UNIT_DIST_Y_def check_bank_tags_def validate_anchors_def check_capacity_def Area_default_def
      check_pblock_ranges_def)

theorem device_validate_sound_witness:
  "device_validate demo_device = Inr () \<and> device_slot demo_device 1 0 = Some (demo_slot 1 0) \<and>
   device_slot demo_device 2 0 = None"
proof -
  have "demo_slot 1 0 \<in> set (slots demo_device)" by (simp add: demo_device_def)
  moreover have "slot_x (demo_slot 1 0) = 1" "slot_y (demo_slot 1 0) = 0" by (simp_all add: demo_slot_def)
  moreover have "\<not> 2 < cols demo_device" by (simp add: demo_device_def)
  ultimately show ?thesis
    using device_validate_sound [of demo_device] demo_device_valid by (metis (no_types, lifting))
qed

section \<open>Resources and wire budgets\<close>

lemma add_slot_area_None [simp]: "add_slot_area d None c = None"
  by (simp add: add_slot_area_def)

lemma add_slot_area_Some:
  "add_slot_area d (Some t) c =
     Option.bind (device_slot d (fst c) (snd c)) (\<lambda>s. area_checked_add t (slot_area s))"
  by (simp add: add_slot_area_def)

lemma foldl_None [simp]: "foldl (add_slot_area d) None cells = None"
  by (induction cells) simp_all

lemma foldl_island:
  assumes "\<And>r. amount r t < 2 ^ 64"
  shows "foldl (add_slot_area d) (Some t) cells = Some u \<longleftrightarrow>
    (\<forall>c \<in> set cells. device_slot d (fst c) (snd c) \<noteq> None) \<and>
    (\<forall>r. amount r u = amount r t + (\<Sum>c \<leftarrow> cells. amount r (slot_area (the (device_slot d (fst c) (snd c))))) \<and>
         amount r u < 2 ^ 64)"
  using assms
proof (induction cells arbitrary: t)
  case Nil
  then show ?case by (auto intro: area_eqI)
next
  case (Cons c cells)
  show ?case
  proof (cases "device_slot d (fst c) (snd c)")
    case None
    then show ?thesis by (simp add: add_slot_area_Some)
  next
    case (Some s)
    show ?thesis
    proof (cases "area_checked_add t (slot_area s)")
      case None
      then have "\<not> (\<forall>r. amount r t + amount r (slot_area s) < 2 ^ 64)"
        using area_add_Some [of t "slot_area s" "from_amounts (\<lambda>r. amount r t + amount r (slot_area s))"] by auto
      then obtain r where "2 ^ 64 \<le> amount r t + amount r (slot_area s)" using not_le by blast
      then have "\<not> (amount r u = amount r t + (amount r (slot_area s) + n) \<and> amount r u < 2 ^ 64)" for n by linarith
      then show ?thesis using None Some by (auto simp: add_slot_area_Some)
    next
      case (Some t')
      then have t': "amount r t' = amount r t + amount r (slot_area s)" "amount r t' < 2 ^ 64" for r
        unfolding area_add_Some by blast+
      show ?thesis
        using Some \<open>device_slot d (fst c) (snd c) = Some s\<close> Cons.IH [OF t'(2)] t'(1)
        by (simp add: add_slot_area_Some add.assoc)
    qed
  qed
qed

text \<open>C37: On an accepted device the resources of a region inside the grid are, class by class, the sum over its slots;
  the query fails only when that sum leaves 64 bits in some class, and it fails on every region that leaves the
  grid.\<close>

theorem island_area_exact:
  assumes "device_validate d = Inr ()" and "dl_x c \<le> ur_x c" and "dl_y c \<le> ur_y c"
  shows "island_area d c = Some u \<longleftrightarrow>
    ur_x c < cols d \<and> ur_y c < rows d \<and>
    (\<forall>r. amount r u = (\<Sum>p \<leftarrow> all_slot_coors c. amount r (slot_area (the (device_slot d (fst p) (snd p))))) \<and>
         amount r u < 2 ^ 64)"
proof -
  have g: "grid_complete d" using assms(1) by (auto simp: device_validate_def bindR_eq_Inr validate_grid_Inr)
  have "(\<forall>p \<in> set (all_slot_coors c). device_slot d (fst p) (snd p) \<noteq> None) \<longleftrightarrow> ur_x c < cols d \<and> ur_y c < rows d"
  proof -
    have "(ur_x c, ur_y c) \<in> set (all_slot_coors c)" using assms(2,3) by (simp add: set_all_slot_coors)
    moreover have "on_grid d p" if "p \<in> set (all_slot_coors c)" "ur_x c < cols d" "ur_y c < rows d" for p
      using that by (auto simp: set_all_slot_coors on_grid_def)
    ultimately show ?thesis unfolding complete_slot_iff [OF g] prod.collapse by (auto simp: on_grid_def)
  qed
  moreover have "amount r Area_default = 0" for r by (cases r) (simp_all add: Area_default_def)
  ultimately show ?thesis by (simp add: island_area_def foldl_island)
qed

theorem island_area_exact_witness:
  "island_area demo_device (Coor_span 0 0 1 0) = Some \<lparr>lut = 2000, ff = 4000, bram_18k = 20, dsp = 10, uram = 0\<rparr>"
proof -
  let ?c = "Coor_span 0 0 1 0" and ?u = "\<lparr>lut = 2000, ff = 4000, bram_18k = 20, dsp = 10, uram = 0\<rparr>"
  have "amount r ?u = (\<Sum>p \<leftarrow> all_slot_coors ?c. amount r (slot_area (the (device_slot demo_device (fst p) (snd p))))) \<and>
      amount r ?u < 2 ^ 64" for r
    by (cases r) (simp_all add: all_slot_coors_def Coor_span_def device_slot_def demo_device_def demo_slot_def)
  moreover have "dl_x ?c \<le> ur_x ?c" "dl_y ?c \<le> ur_y ?c" "ur_x ?c < cols demo_device" "ur_y ?c < rows demo_device"
    by (simp_all add: Coor_span_def demo_device_def)
  ultimately show ?thesis using island_area_exact [OF demo_device_valid, of ?c ?u] by blast
qed

text \<open>The usable share of a border is seven tenths of the raw capacity, rounded to the nearest integer with halves
  up, without overflow for any 64-bit capacity; a border is bounded exactly when the smaller of the two facing
  declarations is below the sentinel.\<close>

theorem usable_capacity_exact:
  assumes "raw < 2 ^ 64"
  shows "usable_wire_capacity raw = (7 * raw + 5) div 10 \<and>
    2 * usable_wire_capacity raw * 10 \<le> 14 * raw + 10 \<and> 14 * raw < 2 * usable_wire_capacity raw * 10 + 10 \<and>
    (bounded_border_capacity lhs rhs = None \<longleftrightarrow> 100000000 \<le> lhs \<and> 100000000 \<le> rhs)"
proof -
  define q r where "q = raw div 10" and "r = raw mod 10"
  have raw: "raw = 10 * q + r" and r: "r < 10" by (simp_all add: q_def r_def)
  have eq: "(7 * raw + 5) div 10 = 7 * q + (7 * r + 5) div 10" unfolding raw by simp
  have small: "(7 * r + 5) div 10 \<le> r + 1" "(7 * r + 5) div 10 * 10 \<le> 7 * r + 5" "7 * r + 5 < (7 * r + 5) div 10 * 10 + 10"
    using r by linarith+
  have "(7 * r + 5) div 10 \<le> 6" using r by linarith
  then have "7 * q + (7 * r + 5) div 10 < 2 ^ 64" using assms unfolding raw by simp
  then have u: "usable_wire_capacity raw = (7 * raw + 5) div 10"
    using r unfolding usable_wire_capacity_def wrap_def q_def [symmetric] r_def [symmetric] eq
    by (simp add: mult.commute)
  have b: "bounded_border_capacity lhs rhs = None \<longleftrightarrow> 100000000 \<le> lhs \<and> 100000000 \<le> rhs"
    by (auto simp: bounded_border_capacity_def WIRE_CAPACITY_INF_def)
  have "10 * ((7 * raw + 5) div 10) \<le> 7 * raw + 5" "7 * raw + 5 < 10 * ((7 * raw + 5) div 10) + 10"
    unfolding eq raw using small by linarith+
  then show ?thesis unfolding b u by simp
qed

theorem usable_capacity_exact_witness: "(25 :: nat) < 2 ^ 64 \<and> usable_wire_capacity 25 = 18"
  using usable_capacity_exact [of 25 0 0] by simp

end
