(* ===== verification/Fp_Cut.thy ===== *)
theory Fp_Cut
  imports Fp_Device
begin

text \<open>
  \<^verbatim>\<open>tapa-core/tapa-floorplan/src/partition/cut.rs\<close>: the straight cuts through the candidate regions of a
  partition pass, with the number of wires that may cross each of them.
\<close>

section \<open>Cuts\<close>

record Cut =
  cut_name :: string
  cut_lhs :: "Coor list"
  cut_rhs :: "Coor list"
  cut_capacity :: nat

text \<open>The facing declarations of the cell pairs along the shared border of two neighbouring regions.\<close>

definition facing_pairs :: "Device \<Rightarrow> (nat \<Rightarrow> nat \<times> nat) \<Rightarrow> (nat \<Rightarrow> nat \<times> nat) \<Rightarrow> (DirCaps \<Rightarrow> nat) \<Rightarrow> (DirCaps \<Rightarrow> nat) \<Rightarrow> nat list \<Rightarrow> (nat \<times> nat) list" where
  "facing_pairs d near_cell far_cell near_side far_side shared =
     concat (map (\<lambda>i. case (device_slot d (fst (near_cell i)) (snd (near_cell i)), device_slot d (fst (far_cell i)) (snd (far_cell i))) of
         (Some near, Some far) \<Rightarrow> [(near_side (wire_cap near), far_side (wire_cap far))]
       | _ \<Rightarrow> []) shared)"

definition facing :: "Device \<Rightarrow> Coor \<Rightarrow> Coor \<Rightarrow> (nat \<times> nat) list" where
  "facing d lhs rhs =
     (let shared_x = [max (dl_x lhs) (dl_x rhs)..<Suc (min (ur_x lhs) (ur_x rhs))];
          shared_y = [max (dl_y lhs) (dl_y rhs)..<Suc (min (ur_y lhs) (ur_y rhs))]
      in if is_south_neighbor_of lhs rhs then facing_pairs d (\<lambda>x. (x, ur_y lhs)) (\<lambda>x. (x, dl_y rhs)) north south shared_x
         else if is_north_neighbor_of lhs rhs then facing_pairs d (\<lambda>x. (x, dl_y lhs)) (\<lambda>x. (x, ur_y rhs)) south north shared_x
         else if is_west_neighbor_of lhs rhs then facing_pairs d (\<lambda>y. (ur_x lhs, y)) (\<lambda>y. (dl_x rhs, y)) east west shared_y
         else facing_pairs d (\<lambda>y. (dl_x lhs, y)) (\<lambda>y. (ur_x rhs, y)) west east shared_y)"

fun add_bounded :: "nat option \<Rightarrow> nat \<times> nat \<Rightarrow> nat option" where
  "add_bounded acc (near, far) =
     Option.bind acc (\<lambda>t. Option.bind (bounded_border_capacity near far) (checked_add 64 t))"

definition border_capacity :: "Device \<Rightarrow> Coor \<Rightarrow> Coor \<Rightarrow> nat option" where
  "border_capacity d lhs rhs = foldl add_bounded (Some 0) (facing d lhs rhs)"

text \<open>\<^verbatim>\<open>Iterator::sum\<close> over optional 64-bit counts.\<close>

fun sum_options :: "nat option list \<Rightarrow> nat option" where
  "sum_options [] = Some 0"
| "sum_options (x # xs) = Option.bind x (\<lambda>a. map_option (\<lambda>b. wrap 64 (a + b)) (sum_options xs))"

definition push_if_clean_and_binding :: "Device \<Rightarrow> Coor list \<Rightarrow> Cut list \<Rightarrow> string \<Rightarrow> Coor list \<Rightarrow> Coor list \<Rightarrow> Cut list" where
  "push_if_clean_and_binding d all_regions cuts name lhs rhs =
     (if length lhs + length rhs \<noteq> length all_regions then cuts
      else case sum_options (map (\<lambda>(l, r). border_capacity d l r)
                  (filter (\<lambda>(l, r). is_neighbor l r) (List.product lhs rhs))) of
        None \<Rightarrow> cuts
      | Some capacity \<Rightarrow> cuts @ [\<lparr>cut_name = name, cut_lhs = lhs, cut_rhs = rhs, cut_capacity = capacity\<rparr>])"

definition max_or_zero :: "nat list \<Rightarrow> nat" where
  "max_or_zero xs = foldl max 0 xs"

definition find_cuts_for_regions :: "Device \<Rightarrow> Coor list \<Rightarrow> Cut list" where
  "find_cuts_for_regions d regions =
     (let max_x = max_or_zero (map ur_x regions);
          max_y = max_or_zero (map ur_y regions);
          row_cuts = foldl (\<lambda>cuts y. push_if_clean_and_binding d regions cuts (''y='' @ show_nat y)
            (filter (\<lambda>r. ur_y r \<le> y) regions) (filter (\<lambda>r. dl_y r > y) regions)) [] [0..<max_y]
      in foldl (\<lambda>cuts x. push_if_clean_and_binding d regions cuts (''x='' @ show_nat x)
            (filter (\<lambda>r. ur_x r \<le> x) regions) (filter (\<lambda>r. dl_x r > x) regions)) row_cuts [0..<max_x])"

section \<open>What a cut should be\<close>

text \<open>The regions of a pass cover every cell of the device exactly once.\<close>

definition covers :: "nat \<times> nat \<Rightarrow> Coor \<Rightarrow> bool" where
  "covers p c \<longleftrightarrow> dl_x c \<le> fst p \<and> fst p \<le> ur_x c \<and> dl_y c \<le> snd p \<and> snd p \<le> ur_y c"

definition tiles :: "Device \<Rightarrow> Coor list \<Rightarrow> bool" where
  "tiles d regions \<longleftrightarrow>
     list_all (\<lambda>c. dl_x c \<le> ur_x c \<and> dl_y c \<le> ur_y c \<and> ur_x c < cols d \<and> ur_y c < rows d) regions \<and>
     list_all (\<lambda>p. length (filter (covers p) regions) = 1) (grid_cells d)"

text \<open>The budgets of the unit borders along a line: column by column above row \<open>k\<close>, row by row right of column \<open>k\<close>.\<close>

definition cap_at :: "Device \<Rightarrow> nat \<Rightarrow> nat \<Rightarrow> DirCaps" where
  "cap_at d x y = wire_cap (the (device_slot d x y))"

definition row_budget :: "Device \<Rightarrow> nat \<Rightarrow> nat option list" where
  "row_budget d k = map (\<lambda>x. bounded_border_capacity (north (cap_at d x k)) (south (cap_at d x (k + 1)))) [0..<cols d]"

definition column_budget :: "Device \<Rightarrow> nat \<Rightarrow> nat option list" where
  "column_budget d k = map (\<lambda>y. bounded_border_capacity (east (cap_at d k y)) (west (cap_at d (k + 1) y))) [0..<rows d]"

definition spec_cut :: "string \<Rightarrow> nat option list \<Rightarrow> Coor list \<Rightarrow> Coor list \<Rightarrow> Coor list \<Rightarrow> Cut list" where
  "spec_cut name budget regions lhs rhs =
     (if (\<forall>r \<in> set regions. r \<in> set lhs \<or> r \<in> set rhs) \<and> None \<notin> set budget
      then [\<lparr>cut_name = name, cut_lhs = lhs, cut_rhs = rhs, cut_capacity = sum_list (map the budget)\<rparr>] else [])"

definition spec_cuts :: "Device \<Rightarrow> Coor list \<Rightarrow> Cut list" where
  "spec_cuts d regions =
     concat (map (\<lambda>k. spec_cut (''y='' @ show_nat k) (row_budget d k) regions
       (filter (\<lambda>r. ur_y r \<le> k) regions) (filter (\<lambda>r. dl_y r > k) regions)) [0..<rows d - 1]) @
     concat (map (\<lambda>k. spec_cut (''x='' @ show_nat k) (column_budget d k) regions
       (filter (\<lambda>r. ur_x r \<le> k) regions) (filter (\<lambda>r. dl_x r > k) regions)) [0..<cols d - 1])"

section \<open>Sums of optional budgets\<close>

definition opt_sum :: "nat option list \<Rightarrow> nat option" where
  "opt_sum xs = (if None \<in> set xs then None else Some (sum_list (map the xs)))"

lemma sum_options_eq:
  "None \<notin> set xs \<Longrightarrow> sum_list (map the xs) < 2 ^ 64 \<Longrightarrow> sum_options xs = Some (sum_list (map the xs))"
proof (induction xs)
  case (Cons x xs)
  then show ?case by (cases x) (simp_all add: wrap_def)
qed simp

lemma sum_options_None: "None \<in> set xs \<Longrightarrow> sum_options xs = None"
  by (induction xs) (auto simp: bind_eq_None_conv)

lemma map_option_add_0: "map_option ((+) (0 :: nat)) x = x"
  by (cases x) simp_all

lemma foldl_add_bounded:
  assumes "None \<notin> set (map (\<lambda>(a, b). bounded_border_capacity a b) ps) \<Longrightarrow>
      n + sum_list (map the (map (\<lambda>(a, b). bounded_border_capacity a b) ps)) < 2 ^ 64"
  shows "foldl add_bounded (Some n) ps = map_option ((+) n) (opt_sum (map (\<lambda>(a, b). bounded_border_capacity a b) ps))"
  using assms
proof (induction ps arbitrary: n)
  case (Cons p ps)
  obtain a b where p: "p = (a, b)" by force
  have none: "foldl add_bounded None qs = None" for qs by (induction qs) auto
  let ?bs = "map (\<lambda>(a, b). bounded_border_capacity a b) ps"
  show ?case
  proof (cases "bounded_border_capacity a b")
    case None
    then show ?thesis using none by (simp add: p opt_sum_def)
  next
    case (Some c)
    show ?thesis
    proof (cases "None \<in> set ?bs")
      case True
      have "foldl add_bounded (checked_add 64 n c) ps = None"
        using Cons.IH True none by (cases "checked_add 64 n c") (auto simp: opt_sum_def)
      then show ?thesis using Some True by (simp add: p opt_sum_def)
    next
      case False
      then have "n + c + sum_list (map the ?bs) < 2 ^ 64" using Cons.prems Some by (simp add: p add.assoc)
      moreover from this have "checked_add 64 n c = Some (n + c)" by (simp add: checked_add_Some fits_def)
      ultimately show ?thesis using Cons.IH [of "n + c"] Some False by (simp add: p opt_sum_def add.assoc)
    qed
  qed
qed (simp add: opt_sum_def)

lemma bounded_capacity_small: "bounded_border_capacity a b = Some c \<Longrightarrow> c < 100000000"
proof -
  assume "bounded_border_capacity a b = Some c"
  then have m: "min a b < 100000000" and c: "c = usable_wire_capacity (min a b)"
    by (auto simp: bounded_border_capacity_def WIRE_CAPACITY_INF_def split: if_splits)
  have "min a b div 10 \<le> 9999999" "(min a b mod 10 * 7 + 5) div 10 \<le> 6" using m by linarith+
  moreover have "c \<le> min a b div 10 * 7 + (min a b mod 10 * 7 + 5) div 10"
    unfolding c usable_wire_capacity_def wrap_def by (meson add_mono div_le_mono mod_less_eq_dividend order_trans order_refl)
  ultimately show "c < 100000000" by linarith
qed

lemma sum_list_bound: "(\<And>x. x \<in> set xs \<Longrightarrow> f x \<le> (b :: nat)) \<Longrightarrow> sum_list (map f xs) \<le> length xs * b"
  by (induction xs) (auto intro: add_mono)

lemma budget_sum_small:
  assumes "length xs < 2 ^ 32" and "\<And>x. x \<in> set xs \<Longrightarrow> \<exists>a b. x = bounded_border_capacity a b" and "None \<notin> set xs"
  shows "sum_list (map the xs) < 2 ^ 64"
proof -
  have "the x \<le> 100000000" if "x \<in> set xs" for x
  proof -
    obtain a b where x: "x = bounded_border_capacity a b" using assms(2) \<open>x \<in> set xs\<close> by blast
    obtain c where "x = Some c" using assms(3) \<open>x \<in> set xs\<close> by (cases x) auto
    then show ?thesis using bounded_capacity_small [of a b c] x by simp
  qed
  then have "sum_list (map the xs) \<le> length xs * 100000000" by (rule sum_list_bound)
  also have "\<dots> < 2 ^ 32 * 100000000" using assms(1) by simp
  finally show ?thesis by simp
qed

section \<open>Pairs of regions along a line\<close>

lemma length_filter_product:
  "length (filter (\<lambda>(l, r). A l \<and> B r) (List.product ls rs)) = length (filter A ls) * length (filter B rs)"
proof (induction ls)
  case (Cons l ls)
  have "length (filter (\<lambda>(l, r). A l \<and> B r) (map (Pair l) rs)) = (if A l then length (filter B rs) else 0)"
    by (simp add: filter_map o_def)
  with Cons show ?case by simp
qed simp

lemma filter_interval: "b \<le> n \<Longrightarrow> filter (\<lambda>i. a \<le> i \<and> i < b) [0..<n] = [a..<b]"
proof (cases "a \<le> b")
  case True
  assume "b \<le> n"
  then have "[0..<n] = [0..<a] @ [a..<b] @ [b..<n]"
    using True upt_add_eq_append [of 0 a "n - a"] upt_add_eq_append [of a b "n - b"] by simp
  then show ?thesis by simp
qed simp

lemma sum_list_swap: "(\<Sum>x \<leftarrow> xs. \<Sum>y \<leftarrow> ys. f x y) = (\<Sum>y \<leftarrow> ys. \<Sum>x \<leftarrow> xs. (f x y :: nat))"
  by (induction xs) (simp_all add: sum_list_addf)

lemma sum_list_indicator: "(\<Sum>x \<leftarrow> xs. if P x then (c :: nat) else 0) = length (filter P xs) * c"
  by (induction xs) simp_all

lemma sum_list_filter: "sum_list (map f (filter P xs)) = (\<Sum>x \<leftarrow> xs. if P x then f x else (0 :: nat))"
  by (induction xs) simp_all

text \<open>Every index lies on the border of exactly one pair, so the pairs' budgets add up to the budget of the line.\<close>

lemma line_sum:
  assumes pairs: "\<And>l r. (l, r) \<in> set ps \<Longrightarrow> g (l, r) = opt_sum (map f (filter (\<lambda>i. A i l \<and> B i r) [0..<n]))"
    and once: "\<And>i. i < n \<Longrightarrow> length (filter (\<lambda>(l, r). A i l \<and> B i r) ps) = 1"
    and small: "None \<notin> set (map f [0..<n]) \<Longrightarrow> sum_list (map (the \<circ> f) [0..<n]) < 2 ^ 64"
  shows "sum_options (map g ps) = opt_sum (map f [0..<n])"
proof (cases "None \<in> set (map f [0..<n])")
  case True
  then obtain i where i: "i < n" "f i = None" by fastforce
  then have "filter (\<lambda>(l, r). A i l \<and> B i r) ps \<noteq> []" using once [of i] by auto
  then obtain l r where "(l, r) \<in> set ps" "A i l" "B i r" by (auto simp: filter_empty_conv)
  then have "g (l, r) = None" using pairs [of l r] i by (force simp: opt_sum_def)
  then have "None \<in> set (map g ps)" using \<open>(l, r) \<in> set ps\<close> by force
  then show ?thesis using True by (simp add: sum_options_None opt_sum_def)
next
  case False
  have g: "g p = Some (\<Sum>i \<leftarrow> [0..<n]. case p of (l, r) \<Rightarrow> if A i l \<and> B i r then the (f i) else 0)" if "p \<in> set ps" for p
    using pairs [of "fst p" "snd p"] that False by (cases p) (auto simp: opt_sum_def sum_list_filter o_def)
  then have "sum_list (map (the \<circ> g) ps) =
      (\<Sum>p \<leftarrow> ps. \<Sum>i \<leftarrow> [0..<n]. if (case p of (l, r) \<Rightarrow> A i l \<and> B i r) then the (f i) else 0)"
    by (intro arg_cong [where f = sum_list] map_cong) (auto split: prod.splits)
  also have "\<dots> = (\<Sum>i \<leftarrow> [0..<n]. length (filter (\<lambda>(l, r). A i l \<and> B i r) ps) * the (f i))"
    by (subst sum_list_swap) (simp only: sum_list_indicator)
  also have "\<dots> = sum_list (map (the \<circ> f) [0..<n])"
    using once by (intro arg_cong [where f = sum_list] map_cong) auto
  finally have sum: "sum_list (map the (map g ps)) = sum_list (map (the \<circ> f) [0..<n])" by simp
  have "None \<notin> set (map g ps)" using g by fastforce
  then show ?thesis
    using sum_options_eq [of "map g ps"] small [OF False] sum False by (simp add: opt_sum_def)
qed

section \<open>Borders of a complete grid\<close>

lemma complete_slot: "grid_complete d \<Longrightarrow> x < cols d \<Longrightarrow> y < rows d \<Longrightarrow> \<exists>s. device_slot d x y = Some s"
  using complete_slot_iff [of d x y] by (auto simp: on_grid_def)

lemma facing_pairs_complete:
  assumes "grid_complete d" and "\<And>i. i \<in> set shared \<Longrightarrow> on_grid d (near i) \<and> on_grid d (far i)"
  shows "facing_pairs d near far ns fs shared =
    map (\<lambda>i. (ns (cap_at d (fst (near i)) (snd (near i))), fs (cap_at d (fst (far i)) (snd (far i))))) shared"
  using assms(2)
proof (induction shared)
  case (Cons i shared)
  have "on_grid d (near i)" "on_grid d (far i)" using Cons.prems by auto
  then obtain s t where "device_slot d (fst (near i)) (snd (near i)) = Some s" "device_slot d (fst (far i)) (snd (far i)) = Some t"
    using complete_slot [OF assms(1)] unfolding on_grid_def by meson
  then show ?case using Cons by (simp add: facing_pairs_def cap_at_def)
qed (simp add: facing_pairs_def)

lemma border_of_line:
  assumes "facing d l r = map (\<lambda>i. (a i, b i)) (filter P [0..<n])" and "n < 2 ^ 32"
  shows "border_capacity d l r = opt_sum (map (\<lambda>i. bounded_border_capacity (a i) (b i)) (filter P [0..<n]))"
proof -
  let ?bs = "map (\<lambda>i. bounded_border_capacity (a i) (b i)) (filter P [0..<n])"
  have "length ?bs < 2 ^ 32" using assms(2) length_filter_le [of P "[0..<n]"] by simp
  then have "None \<notin> set ?bs \<Longrightarrow> sum_list (map the ?bs) < 2 ^ 64" by (rule budget_sum_small) auto
  then show ?thesis
    using foldl_add_bounded [of "facing d l r" 0] unfolding border_capacity_def assms(1)
    by (simp add: o_def map_option_add_0)
qed

lemma row_facing:
  assumes "grid_complete d" and "rows d < 2 ^ 32" and "ur_y l = k" and "dl_y r = k + 1" and "x_overlap l r"
    and "k + 1 < rows d" and "ur_x l < cols d" and "dl_y l \<le> k" and "k + 1 \<le> ur_y r"
  shows "facing d l r = map (\<lambda>x. (north (cap_at d x k), south (cap_at d x (k + 1))))
    (filter (\<lambda>i. covers (i, k) l \<and> covers (i, k + 1) r) [0..<cols d])"
proof -
  let ?sh = "[max (dl_x l) (dl_x r)..<Suc (min (ur_x l) (ur_x r))]"
  have w: "wrap 32 (k + 1) = k + 1" using assms(2,6) by (simp add: wrap_def)
  have "is_south_neighbor_of l r" using assms(3-5) w by (simp add: is_south_neighbor_of_def)
  then have "facing d l r = facing_pairs d (\<lambda>x. (x, k)) (\<lambda>x. (x, k + 1)) north south ?sh"
    using assms(3,4) by (simp add: facing_def)
  also have "\<dots> = map (\<lambda>x. (north (cap_at d x k), south (cap_at d x (k + 1)))) ?sh"
    using assms(6,7) by (subst facing_pairs_complete [OF assms(1)]) (auto simp: on_grid_def)
  also have "?sh = filter (\<lambda>i. covers (i, k) l \<and> covers (i, k + 1) r) [0..<cols d]"
  proof -
    have "filter (\<lambda>i. covers (i, k) l \<and> covers (i, k + 1) r) [0..<cols d] =
        filter (\<lambda>i. max (dl_x l) (dl_x r) \<le> i \<and> i < Suc (min (ur_x l) (ur_x r))) [0..<cols d]"
      using assms(3,4,8,9) by (intro filter_cong) (auto simp: covers_def)
    also have "\<dots> = ?sh" using assms(7) by (intro filter_interval) auto
    finally show ?thesis by simp
  qed
  finally show ?thesis .
qed

lemma column_facing:
  assumes "grid_complete d" and "cols d < 2 ^ 32" and "ur_x l = k" and "dl_x r = k + 1" and "y_overlap l r"
    and "k + 1 < cols d" and "ur_y l < rows d" and "dl_x l \<le> k" and "k + 1 \<le> ur_x r" and "ur_y r < rows d" and "rows d < 2 ^ 32"
  shows "facing d l r = map (\<lambda>y. (east (cap_at d k y), west (cap_at d (k + 1) y)))
    (filter (\<lambda>i. covers (k, i) l \<and> covers (k + 1, i) r) [0..<rows d])"
proof -
  let ?sh = "[max (dl_y l) (dl_y r)..<Suc (min (ur_y l) (ur_y r))]"
  have w: "wrap 32 (k + 1) = k + 1" using assms(2,6) by (simp add: wrap_def)
  have "wrap 32 (ur_y l + 1) = ur_y l + 1" "wrap 32 (ur_y r + 1) = ur_y r + 1" using assms(7,10,11) by (simp_all add: wrap_def)
  then have n: "\<not> is_south_neighbor_of l r" "\<not> is_north_neighbor_of l r"
    using assms(5) by (auto simp: is_south_neighbor_of_def is_north_neighbor_of_def y_overlap_def)
  have "is_west_neighbor_of l r" using assms(3-5) w by (simp add: is_west_neighbor_of_def)
  then have "facing d l r = facing_pairs d (\<lambda>y. (k, y)) (\<lambda>y. (k + 1, y)) east west ?sh"
    using assms(3,4) n by (simp add: facing_def)
  also have "\<dots> = map (\<lambda>y. (east (cap_at d k y), west (cap_at d (k + 1) y))) ?sh"
    using assms(6,7) by (subst facing_pairs_complete [OF assms(1)]) (auto simp: on_grid_def)
  also have "?sh = filter (\<lambda>i. covers (k, i) l \<and> covers (k + 1, i) r) [0..<rows d]"
  proof -
    have "filter (\<lambda>i. covers (k, i) l \<and> covers (k + 1, i) r) [0..<rows d] =
        filter (\<lambda>i. max (dl_y l) (dl_y r) \<le> i \<and> i < Suc (min (ur_y l) (ur_y r))) [0..<rows d]"
      using assms(3,4,8,9) by (intro filter_cong) (auto simp: covers_def)
    also have "\<dots> = ?sh" using assms(7) by (intro filter_interval) auto
    finally show ?thesis by simp
  qed
  finally show ?thesis .
qed

section \<open>Cuts of a tiling\<close>

lemma filters_le:
  "\<forall>x \<in> set xs. \<not> (P x \<and> Q x) \<Longrightarrow> length (filter P xs) + length (filter Q xs) \<le> length xs"
  by (induction xs) auto

lemma filters_partition:
  assumes "\<And>x. x \<in> set xs \<Longrightarrow> \<not> (P x \<and> Q x)"
  shows "length (filter P xs) + length (filter Q xs) = length xs \<longleftrightarrow> (\<forall>x \<in> set xs. P x \<or> Q x)"
  using assms
proof (induction xs)
  case (Cons x xs)
  have "length (filter P xs) + length (filter Q xs) \<le> length xs"
    using Cons.prems by (intro filters_le) auto
  with Cons show ?case by auto
qed simp

lemma tilesD:
  assumes "tiles d regions"
  shows "c \<in> set regions \<Longrightarrow> dl_x c \<le> ur_x c \<and> dl_y c \<le> ur_y c \<and> ur_x c < cols d \<and> ur_y c < rows d"
    and "on_grid d p \<Longrightarrow> length (filter (covers p) regions) = 1"
  using assms by (cases p; simp add: tiles_def list_all_iff set_grid_cells)+

lemma one_cover_side:
  assumes "length (filter (covers p) regions) = 1" and "\<And>r. r \<in> set regions \<Longrightarrow> covers p r \<Longrightarrow> P r"
  shows "length (filter (covers p) (filter P regions)) = 1"
proof -
  have "filter (covers p) (filter P regions) = filter (covers p) regions"
    unfolding filter_filter using assms(2) by (intro filter_cong) auto
  then show ?thesis using assms(1) by simp
qed

lemma push_eq:
  assumes "\<And>r. r \<in> set regions \<Longrightarrow> \<not> (P r \<and> Q r)"
    and "\<forall>r \<in> set regions. P r \<or> Q r \<Longrightarrow>
      sum_options (map (\<lambda>(l, r). border_capacity d l r)
        (filter (\<lambda>(l, r). is_neighbor l r) (List.product (filter P regions) (filter Q regions)))) = opt_sum budget"
  shows "push_if_clean_and_binding d regions cuts name (filter P regions) (filter Q regions) =
    cuts @ spec_cut name budget regions (filter P regions) (filter Q regions)"
proof -
  have "length (filter P regions) + length (filter Q regions) = length regions \<longleftrightarrow> (\<forall>r \<in> set regions. P r \<or> Q r)"
    by (rule filters_partition) (rule assms(1))
  then show ?thesis
    using assms(2) by (auto simp: push_if_clean_and_binding_def spec_cut_def opt_sum_def split: option.splits)
qed

lemma pairs_count:
  assumes "\<And>l r. l \<in> set lhs \<Longrightarrow> r \<in> set rhs \<Longrightarrow> A l \<Longrightarrow> B r \<Longrightarrow> is_neighbor l r"
    and "length (filter A lhs) = 1" and "length (filter B rhs) = 1"
  shows "length (filter (\<lambda>(l, r). A l \<and> B r) (filter (\<lambda>(l, r). is_neighbor l r) (List.product lhs rhs))) = 1"
proof -
  have "filter (\<lambda>(l, r). A l \<and> B r) (filter (\<lambda>(l, r). is_neighbor l r) (List.product lhs rhs)) =
      filter (\<lambda>(l, r). A l \<and> B r) (List.product lhs rhs)"
    unfolding filter_filter using assms(1) by (intro filter_cong) auto
  then show ?thesis using assms(2,3) by (simp add: length_filter_product)
qed

lemma budget_small:
  assumes "n < 2 ^ 32" and "None \<notin> set (map (\<lambda>i. bounded_border_capacity (a i) (b i)) [0..<n])"
  shows "sum_list (map (the \<circ> (\<lambda>i. bounded_border_capacity (a i) (b i))) [0..<n]) < 2 ^ 64"
  using budget_sum_small [of "map (\<lambda>i. bounded_border_capacity (a i) (b i)) [0..<n]"] assms by (auto simp: o_def)

lemma row_cut_sum:
  assumes "grid_complete d" and "tiles d regions" and "rows d < 2 ^ 32" and "cols d < 2 ^ 32" and "k + 1 < rows d"
    and clean: "\<forall>r \<in> set regions. ur_y r \<le> k \<or> dl_y r > k"
  defines "lhs \<equiv> filter (\<lambda>r. ur_y r \<le> k) regions" and "rhs \<equiv> filter (\<lambda>r. dl_y r > k) regions"
  shows "sum_options (map (\<lambda>(l, r). border_capacity d l r) (filter (\<lambda>(l, r). is_neighbor l r) (List.product lhs rhs)))
    = opt_sum (row_budget d k)"
  unfolding row_budget_def
proof (rule line_sum [where A = "\<lambda>i. covers (i, k)" and B = "\<lambda>i. covers (i, k + 1)"])
  have nb: "ur_y l = k \<and> dl_y r = k + 1 \<and> x_overlap l r" if lr: "l \<in> set lhs" "r \<in> set rhs" "is_neighbor l r" for l r
  proof -
    have "dl_y l \<le> ur_y l" "ur_y l \<le> k" "k < dl_y r" "dl_y r \<le> ur_y r" "ur_y l < rows d" "ur_y r < rows d"
      using lr(1,2) tilesD(1) [OF assms(2)] by (auto simp: lhs_def rhs_def)
    then show ?thesis using lr(3) assms(3)
      by (auto simp: is_neighbor_def is_north_neighbor_of_def is_south_neighbor_of_def is_east_neighbor_of_def
          is_west_neighbor_of_def y_overlap_def wrap_def)
  qed
  show "(case (l, r) of (l, r) \<Rightarrow> border_capacity d l r) = opt_sum (map (\<lambda>x. bounded_border_capacity (north (cap_at d x k)) (south (cap_at d x (k + 1))))
      (filter (\<lambda>i. covers (i, k) l \<and> covers (i, k + 1) r) [0..<cols d]))"
    if "(l, r) \<in> set (filter (\<lambda>(l, r). is_neighbor l r) (List.product lhs rhs))" for l r
  proof -
    have lr: "l \<in> set regions" "r \<in> set regions" and "ur_y l = k" "dl_y r = k + 1" "x_overlap l r"
      using that nb [of l r] by (auto simp: lhs_def rhs_def)
    then show ?thesis
      using tilesD(1) [OF assms(2) lr(1)] tilesD(1) [OF assms(2) lr(2)] assms(3-5)
      by (simp add: border_of_line [OF row_facing [OF assms(1,3)]])
  qed
  show "length (filter (\<lambda>(l, r). covers (i, k) l \<and> covers (i, k + 1) r) (filter (\<lambda>(l, r). is_neighbor l r) (List.product lhs rhs))) = 1"
    if "i < cols d" for i
  proof (rule pairs_count)
    show "is_neighbor l r" if "l \<in> set lhs" "r \<in> set rhs" "covers (i, k) l" "covers (i, k + 1) r" for l r
      using that assms(3,5) by (auto simp: lhs_def rhs_def is_neighbor_def is_south_neighbor_of_def covers_def x_overlap_def wrap_def)
    show "length (filter (covers (i, k)) lhs) = 1"
      unfolding lhs_def using tilesD(2) [OF assms(2), of "(i, k)"] that assms(5) clean
      by (intro one_cover_side) (auto simp: on_grid_def covers_def)
    show "length (filter (covers (i, k + 1)) rhs) = 1"
      unfolding rhs_def using tilesD(2) [OF assms(2), of "(i, k + 1)"] that assms(5) clean
      by (intro one_cover_side) (auto simp: on_grid_def covers_def)
  qed
  show "None \<notin> set (map (\<lambda>x. bounded_border_capacity (north (cap_at d x k)) (south (cap_at d x (k + 1)))) [0..<cols d]) \<Longrightarrow>
      sum_list (map (the \<circ> (\<lambda>x. bounded_border_capacity (north (cap_at d x k)) (south (cap_at d x (k + 1))))) [0..<cols d]) < 2 ^ 64"
    by (rule budget_small [OF assms(4)])
qed

lemma column_cut_sum:
  assumes "grid_complete d" and "tiles d regions" and "rows d < 2 ^ 32" and "cols d < 2 ^ 32" and "k + 1 < cols d"
    and clean: "\<forall>r \<in> set regions. ur_x r \<le> k \<or> dl_x r > k"
  defines "lhs \<equiv> filter (\<lambda>r. ur_x r \<le> k) regions" and "rhs \<equiv> filter (\<lambda>r. dl_x r > k) regions"
  shows "sum_options (map (\<lambda>(l, r). border_capacity d l r) (filter (\<lambda>(l, r). is_neighbor l r) (List.product lhs rhs)))
    = opt_sum (column_budget d k)"
  unfolding column_budget_def
proof (rule line_sum [where A = "\<lambda>i. covers (k, i)" and B = "\<lambda>i. covers (k + 1, i)"])
  have nb: "ur_x l = k \<and> dl_x r = k + 1 \<and> y_overlap l r" if lr: "l \<in> set lhs" "r \<in> set rhs" "is_neighbor l r" for l r
  proof -
    have "dl_x l \<le> ur_x l" "ur_x l \<le> k" "k < dl_x r" "dl_x r \<le> ur_x r" "ur_x l < cols d" "ur_x r < cols d"
      using lr(1,2) tilesD(1) [OF assms(2)] by (auto simp: lhs_def rhs_def)
    then show ?thesis using lr(3) assms(4)
      by (auto simp: is_neighbor_def is_north_neighbor_of_def is_south_neighbor_of_def is_east_neighbor_of_def
          is_west_neighbor_of_def x_overlap_def wrap_def)
  qed
  show "(case (l, r) of (l, r) \<Rightarrow> border_capacity d l r) = opt_sum (map (\<lambda>y. bounded_border_capacity (east (cap_at d k y)) (west (cap_at d (k + 1) y)))
      (filter (\<lambda>i. covers (k, i) l \<and> covers (k + 1, i) r) [0..<rows d]))"
    if "(l, r) \<in> set (filter (\<lambda>(l, r). is_neighbor l r) (List.product lhs rhs))" for l r
  proof -
    have lr: "l \<in> set regions" "r \<in> set regions" and "ur_x l = k" "dl_x r = k + 1" "y_overlap l r"
      using that nb [of l r] by (auto simp: lhs_def rhs_def)
    then show ?thesis
      using tilesD(1) [OF assms(2) lr(1)] tilesD(1) [OF assms(2) lr(2)] assms(3-5)
      by (simp add: border_of_line [OF column_facing [OF assms(1,4)]])
  qed
  show "length (filter (\<lambda>(l, r). covers (k, i) l \<and> covers (k + 1, i) r) (filter (\<lambda>(l, r). is_neighbor l r) (List.product lhs rhs))) = 1"
    if "i < rows d" for i
  proof (rule pairs_count)
    show "is_neighbor l r" if "l \<in> set lhs" "r \<in> set rhs" "covers (k, i) l" "covers (k + 1, i) r" for l r
      using that assms(4,5) by (auto simp: lhs_def rhs_def is_neighbor_def is_west_neighbor_of_def covers_def y_overlap_def wrap_def)
    show "length (filter (covers (k, i)) lhs) = 1"
      unfolding lhs_def using tilesD(2) [OF assms(2), of "(k, i)"] that assms(5) clean
      by (intro one_cover_side) (auto simp: on_grid_def covers_def)
    show "length (filter (covers (k + 1, i)) rhs) = 1"
      unfolding rhs_def using tilesD(2) [OF assms(2), of "(k + 1, i)"] that assms(5) clean
      by (intro one_cover_side) (auto simp: on_grid_def covers_def)
  qed
  show "None \<notin> set (map (\<lambda>y. bounded_border_capacity (east (cap_at d k y)) (west (cap_at d (k + 1) y))) [0..<rows d]) \<Longrightarrow>
      sum_list (map (the \<circ> (\<lambda>y. bounded_border_capacity (east (cap_at d k y)) (west (cap_at d (k + 1) y)))) [0..<rows d]) < 2 ^ 64"
    by (rule budget_small [OF assms(3)])
qed

lemma max_or_zero_eq:
  assumes "m \<in> set xs" and "\<And>x. x \<in> set xs \<Longrightarrow> x \<le> m"
  shows "max_or_zero xs = m"
proof -
  have le: "a \<le> foldl max a ys" for a :: nat and ys
  proof (induction ys arbitrary: a)
    case (Cons y ys)
    show ?case using Cons [of "max a y"] by simp
  qed simp
  have ge: "foldl max a ys \<le> b" if "a \<le> b" "\<forall>y \<in> set ys. y \<le> b" for a b :: nat and ys
    using that by (induction ys arbitrary: a) auto
  have "y \<le> foldl max a ys" if "y \<in> set ys" for a y :: nat and ys
    using that
  proof (induction ys arbitrary: a)
    case (Cons z ys)
    then show ?case using le [of "max a z" ys] by auto
  qed simp
  then show ?thesis using ge [of 0 m xs] assms by (simp add: max_or_zero_def le_antisym)
qed

lemma tiles_max:
  assumes "tiles d regions" and "0 < rows d" and "0 < cols d"
  shows "max_or_zero (map ur_x regions) = cols d - 1 \<and> max_or_zero (map ur_y regions) = rows d - 1"
proof -
  have "on_grid d (cols d - 1, rows d - 1)" using assms by (simp add: on_grid_def)
  then have "length (filter (covers (cols d - 1, rows d - 1)) regions) = 1" using tilesD(2) [OF assms(1)] by blast
  then obtain c where c: "c \<in> set regions" "covers (cols d - 1, rows d - 1) c"
    by (metis (no_types, lifting) filter_False length_0_conv zero_neq_one)
  then have top: "ur_x c = cols d - 1" "ur_y c = rows d - 1"
    using tilesD(1) [OF assms(1) c(1)] by (auto simp: covers_def)
  have "x \<le> cols d - 1" if "x \<in> set (map ur_x regions)" for x using that tilesD(1) [OF assms(1)] by fastforce
  moreover have "y \<le> rows d - 1" if "y \<in> set (map ur_y regions)" for y using that tilesD(1) [OF assms(1)] by fastforce
  moreover have "cols d - 1 \<in> set (map ur_x regions)" "rows d - 1 \<in> set (map ur_y regions)"
    using c(1) top by (metis imageI list.set_map)+
  ultimately show ?thesis by (intro conjI max_or_zero_eq)
qed

lemma foldl_snoc: "(\<And>c k. k \<in> set ks \<Longrightarrow> f c k = c @ g k) \<Longrightarrow> foldl f c0 ks = c0 @ concat (map g ks)"
  by (induction ks arbitrary: c0) auto

lemma find_cuts_spec:
  assumes "device_validate d = Inr ()" and "rows d < 2 ^ 32" and "cols d < 2 ^ 32" and "tiles d regions"
  shows "find_cuts_for_regions d regions = spec_cuts d regions"
proof -
  have g: "grid_complete d" using assms(1) by (auto simp: device_validate_def bindR_eq_Inr validate_grid_Inr)
  then have pos: "0 < rows d" "0 < cols d" by (simp_all add: grid_complete_def)
  have row: "push_if_clean_and_binding d regions c (''y='' @ show_nat k)
        (filter (\<lambda>r. ur_y r \<le> k) regions) (filter (\<lambda>r. dl_y r > k) regions) =
      c @ spec_cut (''y='' @ show_nat k) (row_budget d k) regions
        (filter (\<lambda>r. ur_y r \<le> k) regions) (filter (\<lambda>r. dl_y r > k) regions)" if "k \<in> set [0..<rows d - 1]" for c k
    using tilesD(1) [OF assms(4)] that by (intro push_eq row_cut_sum [OF g assms(4,2,3)]) fastforce+
  have column: "push_if_clean_and_binding d regions c (''x='' @ show_nat k)
        (filter (\<lambda>r. ur_x r \<le> k) regions) (filter (\<lambda>r. dl_x r > k) regions) =
      c @ spec_cut (''x='' @ show_nat k) (column_budget d k) regions
        (filter (\<lambda>r. ur_x r \<le> k) regions) (filter (\<lambda>r. dl_x r > k) regions)" if "k \<in> set [0..<cols d - 1]" for c k
    using tilesD(1) [OF assms(4)] that by (intro push_eq column_cut_sum [OF g assms(4,2,3)]) fastforce+
  show ?thesis
    unfolding find_cuts_for_regions_def spec_cuts_def Let_def conjunct1 [OF tiles_max [OF assms(4) pos]]
      conjunct2 [OF tiles_max [OF assms(4) pos]]
    by (subst foldl_snoc [where g = "\<lambda>k. spec_cut (''x='' @ show_nat k) (column_budget d k) regions
          (filter (\<lambda>r. ur_x r \<le> k) regions) (filter (\<lambda>r. dl_x r > k) regions)"], erule column)
      (subst foldl_snoc [where g = "\<lambda>k. spec_cut (''y='' @ show_nat k) (row_budget d k) regions
          (filter (\<lambda>r. ur_y r \<le> k) regions) (filter (\<lambda>r. dl_y r > k) regions)"], erule row, simp)
qed

text \<open>C35: For regions that cover the grid of an accepted device exactly once, the enumerated cuts are exactly the straight
  lines, rows first, that split no region and whose unit borders are all bounded; the capacity of a cut is the sum of
  the usable budgets of the unit borders along the line, and it never overflows.\<close>

theorem cuts_exact:
  assumes "device_validate d = Inr ()" and "rows d < 2 ^ 32" and "cols d < 2 ^ 32" and "tiles d regions"
  shows "find_cuts_for_regions d regions = spec_cuts d regions"
  by (rule find_cuts_spec [OF assms])

definition demo_regions :: "Coor list" where
  "demo_regions = [Coor_slot 0 0, Coor_slot 0 1, Coor_slot 1 0, Coor_slot 1 1]"

lemma demo_regions_tile: "tiles demo_device demo_regions"
  by (simp add: tiles_def demo_regions_def demo_device_def grid_cells_def covers_def Coor_slot_def upt_rec)

theorem cuts_exact_witness:
  "tiles demo_device demo_regions \<and> map cut_capacity (find_cuts_for_regions demo_device demo_regions) = [140, 56]"
proof -
  have "find_cuts_for_regions demo_device demo_regions = spec_cuts demo_device demo_regions"
    using cuts_exact [OF demo_device_valid _ _ demo_regions_tile] by (simp add: demo_device_def)
  moreover have "map cut_capacity (spec_cuts demo_device demo_regions) = [140, 56]"
    by (simp add: spec_cuts_def spec_cut_def row_budget_def column_budget_def demo_device_def demo_regions_def cap_at_def
        device_slot_def demo_slot_def Coor_slot_def bounded_border_capacity_def WIRE_CAPACITY_INF_def
        usable_wire_capacity_def wrap_def upt_rec)
  ultimately show ?thesis using demo_regions_tile by simp
qed

end
