(* ===== verification/Fp_Solver.thy ===== *)
theory Fp_Solver
  imports F64
begin

text \<open>
  \<^verbatim>\<open>tapa-core/tapa-floorplan/src/solver\<close>: the mixed-integer linear program (\<^verbatim>\<open>model.rs\<close>, \<^verbatim>\<open>sparse.rs\<close>), the one-of-k
  rows and their readback (\<^verbatim>\<open>assign.rs\<close>), the validation of an incumbent (\<^verbatim>\<open>solve.rs\<close>) and the lexicographic
  refinement (\<^verbatim>\<open>lexicographic.rs\<close>).  A solver is a parameter: a function from a model and options to a solution or an
  error.  A hash map of values is the list of its entries, each key once.
\<close>

section \<open>Models\<close>

type_synonym LpVar = nat

datatype VarKind = Binary | Continuous

datatype Comparison = Le | Eq

record LinExpr =
  terms :: "(f64 \<times> LpVar) list"
  constant_term :: f64

definition LinExpr_new :: LinExpr where
  "LinExpr_new = \<lparr>terms = [], constant_term = Finite 0\<rparr>"

definition LinExpr_sum :: "(f64 \<times> LpVar) list \<Rightarrow> LinExpr" where
  "LinExpr_sum ts = \<lparr>terms = ts, constant_term = Finite 0\<rparr>"

definition plus_constant :: "LinExpr \<Rightarrow> f64 \<Rightarrow> LinExpr" where
  "plus_constant e c = e\<lparr>constant_term := c\<rparr>"

record VarDef =
  var_label :: string
  var_kind :: VarKind
  var_lower :: f64
  var_upper :: f64

record ConstraintDef =
  con_name :: string
  con_expr :: LinExpr
  con_op :: Comparison
  con_rhs :: f64

record LpModel =
  objective :: LinExpr
  vars :: "VarDef list"
  constraints :: "ConstraintDef list"

definition LpModel_new :: LpModel where
  "LpModel_new = \<lparr>objective = LinExpr_new, vars = [], constraints = []\<rparr>"

text \<open>
  The index of a new variable is converted to 32 bits and the conversion panics beyond that; the test is made once,
  by \<open>vars_overflow\<close>, when a model is complete, since variables are only ever added.
\<close>

definition add_var :: "LpModel \<Rightarrow> string \<Rightarrow> VarKind \<Rightarrow> f64 \<Rightarrow> f64 \<Rightarrow> LpModel \<times> LpVar" where
  "add_var lp label kind lower upper =
     (lp\<lparr>vars := vars lp @ [\<lparr>var_label = label, var_kind = kind, var_lower = lower, var_upper = upper\<rparr>]\<rparr>, length (vars lp))"

definition vars_overflow :: "LpModel \<Rightarrow> bool" where
  "vars_overflow lp \<longleftrightarrow> length (vars lp) > 2 ^ 32"

definition add_binary :: "LpModel \<Rightarrow> string \<Rightarrow> LpModel \<times> LpVar" where
  "add_binary lp label = add_var lp label Binary (Finite 0) (Finite 1)"

definition add_continuous :: "LpModel \<Rightarrow> string \<Rightarrow> f64 \<Rightarrow> f64 \<Rightarrow> LpModel \<times> LpVar" where
  "add_continuous lp label lower upper = add_var lp label Continuous lower upper"

definition set_objective :: "LpModel \<Rightarrow> LinExpr \<Rightarrow> LpModel" where
  "set_objective lp e = lp\<lparr>objective := e\<rparr>"

definition add_constraint :: "LpModel \<Rightarrow> string \<Rightarrow> LinExpr \<Rightarrow> Comparison \<Rightarrow> f64 \<Rightarrow> LpModel" where
  "add_constraint lp name e cmp rhs =
     lp\<lparr>constraints := constraints lp @ [\<lparr>con_name = name, con_expr = e, con_op = cmp, con_rhs = rhs\<rparr>]\<rparr>"

type_synonym SparseRow = "(f64 \<times> LpVar) list"

definition sparse_push :: "SparseRow \<Rightarrow> f64 \<Rightarrow> LpVar \<Rightarrow> SparseRow" where
  "sparse_push row coefficient var = row @ [(coefficient, var)]"

definition into_expr :: "SparseRow \<Rightarrow> LinExpr" where
  "into_expr row = LinExpr_sum row"

section \<open>Solutions\<close>

definition SOLUTION_TOLERANCE :: f64 where
  "SOLUTION_TOLERANCE = to_f64 (1 / 1000000)"

datatype LpStatus = Optimal | Feasible | Infeasible | Unbounded | NotSolved

record LpSolution =
  status :: LpStatus
  sol_objective :: f64
  sol_values :: "(LpVar \<times> f64) list"

definition is_found :: "LpSolution \<Rightarrow> bool" where
  "is_found s \<longleftrightarrow> status s = Optimal \<or> status s = Feasible"

datatype solution_fault =
    ObjectiveNotFinite
  | WrongCount nat nat
  | Omitted LpVar
  | NotFinite LpVar
  | OutsideBounds LpVar f64 f64 f64
  | Fractional LpVar f64
  | Violated string f64 Comparison f64
  | ObjectiveMismatch f64 f64
  | EvaluationNotFinite
  | ScaleNotFinite

datatype SolverError =
    InvalidOptions string
  | Spawn string
  | ToolFailure int string
  | BadOutput string
  | InvalidIncumbent solution_fault
  | InvalidModel string

record SolveOpts =
  time_limit :: "nat option"
  threads :: "nat option"
  mip_gap_abs :: "f64 option"

definition opts_validate :: "SolveOpts \<Rightarrow> SolverError + unit" where
  "opts_validate opts =
     (if time_limit opts = Some 0 then Inl (InvalidOptions ''the solver time limit must be greater than zero'')
      else if threads opts = Some 0 then Inl (InvalidOptions ''the solver thread count must be greater than zero'')
      else if (case mip_gap_abs opts of None \<Rightarrow> False | Some gap \<Rightarrow> \<not> is_finite gap \<or> f64_lt gap (Finite 0))
      then Inl (InvalidOptions ''the absolute MIP gap must be finite and non-negative'')
      else Inr ())"

type_synonym Solver = "LpModel \<Rightarrow> SolveOpts \<Rightarrow> SolverError + LpSolution"

definition evaluate :: "LinExpr \<Rightarrow> (LpVar \<times> f64) list \<Rightarrow> SolverError + f64" where
  "evaluate e values =
     bindR (foldR (\<lambda>result (coefficient, var).
         bindR (ok_or (InvalidIncumbent (Omitted var)) (map_of values var)) (\<lambda>value.
           Inr (f64_add result (f64_mul coefficient value)))) (constant_term e) (terms e)) (\<lambda>result.
       if is_finite result then Inr result else Inl (InvalidIncumbent EvaluationNotFinite))"

definition scaled_tolerance :: "f64 list \<Rightarrow> f64" where
  "scaled_tolerance values =
     f64_mul SOLUTION_TOLERANCE (foldl (\<lambda>scale value. f64_max scale (f64_abs value)) (Finite 1) (filter is_finite values))"

definition constraint_tolerance :: "LinExpr \<Rightarrow> (LpVar \<times> f64) list \<Rightarrow> f64 \<Rightarrow> SolverError + f64" where
  "constraint_tolerance e values rhs =
     bindR (foldR (\<lambda>activity (coefficient, var).
         bindR (ok_or (InvalidIncumbent (Omitted var)) (map_of values var)) (\<lambda>value.
           let activity' = f64_add activity (f64_abs (f64_mul coefficient value))
           in if is_finite activity' then Inr activity' else Inl (InvalidIncumbent ScaleNotFinite)))
         (f64_abs (constant_term e)) (terms e)) (\<lambda>activity.
       Inr (scaled_tolerance [activity, rhs]))"

definition check_var :: "LpSolution \<Rightarrow> nat \<times> VarDef \<Rightarrow> SolverError + unit" where
  "check_var s iv =
     (case iv of (index, df) \<Rightarrow>
      bindR (ok_or (InvalidIncumbent (Omitted index)) (map_of (sol_values s) index)) (\<lambda>value.
        if \<not> is_finite value then Inl (InvalidIncumbent (NotFinite index))
        else let tolerance = scaled_tolerance [value, var_lower df, var_upper df] in
          if f64_lt value (f64_sub (var_lower df) tolerance) \<or> f64_lt (f64_add (var_upper df) tolerance) value
          then Inl (InvalidIncumbent (OutsideBounds index value (var_lower df) (var_upper df)))
          else if var_kind df = Binary \<and> f64_lt SOLUTION_TOLERANCE (f64_abs (f64_sub value (f64_round value)))
          then Inl (InvalidIncumbent (Fractional index value))
          else Inr ()))"

definition check_constraint :: "LpSolution \<Rightarrow> ConstraintDef \<Rightarrow> SolverError + unit" where
  "check_constraint s c =
     bindR (evaluate (con_expr c) (sol_values s)) (\<lambda>lhs.
     bindR (constraint_tolerance (con_expr c) (sol_values s) (con_rhs c)) (\<lambda>tolerance.
       let satisfied = (case con_op c of
             Le \<Rightarrow> f64_le lhs (f64_add (con_rhs c) tolerance)
           | Eq \<Rightarrow> f64_le (f64_abs (f64_sub lhs (con_rhs c))) tolerance)
       in if satisfied then Inr () else Inl (InvalidIncumbent (Violated (con_name c) lhs (con_op c) (con_rhs c)))))"

definition validate_for :: "LpSolution \<Rightarrow> LpModel \<Rightarrow> SolverError + unit" where
  "validate_for s m =
     (if \<not> is_found s then Inr ()
      else if \<not> is_finite (sol_objective s) then Inl (InvalidIncumbent ObjectiveNotFinite)
      else if length (sol_values s) \<noteq> length (vars m)
      then Inl (InvalidIncumbent (WrongCount (length (sol_values s)) (length (vars m))))
      else bindR (foldR (\<lambda>_. check_var s) () (List.enumerate 0 (vars m))) (\<lambda>_.
        bindR (foldR (\<lambda>_. check_constraint s) () (constraints m)) (\<lambda>_.
        bindR (evaluate (objective m) (sol_values s)) (\<lambda>value.
          if f64_lt (scaled_tolerance [value, sol_objective s]) (f64_abs (f64_sub value (sol_objective s)))
          then Inl (InvalidIncumbent (ObjectiveMismatch (sol_objective s) value))
          else Inr ()))))"

section \<open>One-of-k rows\<close>

definition add_binaries :: "LpModel \<Rightarrow> nat \<Rightarrow> (nat \<Rightarrow> string) \<Rightarrow> LpModel \<times> LpVar list" where
  "add_binaries lp count label =
     foldl (\<lambda>(lp, vs) index. case add_binary lp (label index) of (lp', v) \<Rightarrow> (lp', vs @ [v])) (lp, []) [0..<count]"

definition add_one_of_k_row :: "LpModel \<Rightarrow> string \<Rightarrow> nat \<Rightarrow> (nat \<Rightarrow> string) \<Rightarrow> LpModel \<times> LpVar list" where
  "add_one_of_k_row lp row_name count label =
     (case add_binaries lp count label of (lp', vs) \<Rightarrow>
        (add_constraint lp' row_name (LinExpr_sum (map (\<lambda>v. (Finite 1, v)) vs)) Eq (Finite 1), vs))"

datatype OneOfKError =
    MissingVariable nat
  | NonBinary nat f64 "f64 list"
  | SelectionCount nat "f64 list"

definition near_zero :: "f64 \<Rightarrow> bool" where
  "near_zero v \<longleftrightarrow> \<not> f64_lt SOLUTION_TOLERANCE (f64_abs v)"

definition near_one :: "f64 \<Rightarrow> bool" where
  "near_one v \<longleftrightarrow> f64_le (f64_abs (f64_sub v (Finite 1))) SOLUTION_TOLERANCE"

definition read_choice :: "LpSolution \<Rightarrow> f64 list \<times> nat list \<Rightarrow> nat \<times> LpVar \<Rightarrow> OneOfKError + (f64 list \<times> nat list)" where
  "read_choice s st pv =
     (case (st, pv) of ((values, selected), (position, var)) \<Rightarrow>
        (case map_of (sol_values s) var of
           None \<Rightarrow> Inl (MissingVariable position)
         | Some value \<Rightarrow>
             if \<not> is_finite value \<or> \<not> near_zero value \<and> f64_lt SOLUTION_TOLERANCE (f64_abs (f64_sub value (Finite 1)))
             then Inl (NonBinary position value (values @ [value]))
             else Inr (values @ [value], if near_one value then selected @ [position] else selected)))"

definition read_one_of_k :: "LpSolution \<Rightarrow> LpVar list \<Rightarrow> OneOfKError + nat" where
  "read_one_of_k s vs =
     bindR (foldR (read_choice s) ([], []) (List.enumerate 0 vs)) (\<lambda>(values, selected).
       case selected of [only] \<Rightarrow> Inr only | _ \<Rightarrow> Inl (SelectionCount (length selected) values))"

section \<open>Lexicographic refinement\<close>

definition pin_bound :: "f64 \<Rightarrow> f64" where
  "pin_bound achieved = f64_mul_add SOLUTION_TOLERANCE (f64_max (f64_abs achieved) (Finite 1)) achieved"

text \<open>Candidate positions are small integers, exactly representable.\<close>

definition rank_objective :: "LpVar list list \<Rightarrow> LinExpr" where
  "rank_objective rank_rows =
     into_expr (concat (map (\<lambda>row. concat (map (\<lambda>(index, var).
       if index > 0 then [(of_uint index, var)] else []) (List.enumerate 0 row))) rank_rows))"

definition refine :: "LpModel \<Rightarrow> Solver \<Rightarrow> SolveOpts \<Rightarrow> LinExpr \<Rightarrow> f64 \<Rightarrow> LpVar list list \<Rightarrow> LpModel \<times> (SolverError + LpSolution option)" where
  "refine lp solver opts pinned achieved rank_rows =
     (let lp' = set_objective (add_constraint lp ''lexicographic_pin'' pinned Le (pin_bound achieved)) (rank_objective rank_rows)
      in (lp', bindR (solver lp' opts) (\<lambda>refined. Inr (if is_found refined then Some refined else None))))"

section \<open>Rows and readback\<close>

definition binary_def :: "string \<Rightarrow> VarDef" where
  "binary_def label = \<lparr>var_label = label, var_kind = Binary, var_lower = Finite 0, var_upper = Finite 1\<rparr>"

lemma add_binaries_eq:
  "add_binaries lp count label =
     (lp\<lparr>vars := vars lp @ map (binary_def \<circ> label) [0..<count]\<rparr>, [length (vars lp)..<length (vars lp) + count])"
proof (induction count)
  case 0
  show ?case by (simp add: add_binaries_def)
next
  case (Suc count)
  have "add_binaries lp (Suc count) label =
      (case add_binaries lp count label of (lp', vs) \<Rightarrow> case add_binary lp' (label count) of (lp'', v) \<Rightarrow> (lp'', vs @ [v]))"
    by (simp add: add_binaries_def split: prod.splits)
  then show ?case by (simp add: Suc.IH add_binary_def add_var_def binary_def_def)
qed

lemma add_one_of_k_row_eq:
  "add_one_of_k_row lp name count label =
     (add_constraint (lp\<lparr>vars := vars lp @ map (binary_def \<circ> label) [0..<count]\<rparr>) name
        (LinExpr_sum (map (Pair (Finite 1)) [length (vars lp)..<length (vars lp) + count])) Eq (Finite 1),
      [length (vars lp)..<length (vars lp) + count])"
  by (simp add: add_one_of_k_row_def add_binaries_eq)

lemma tolerance: "\<exists>t. SOLUTION_TOLERANCE = Finite t \<and> 0 < t \<and> t * 500000 \<le> 1"
proof -
  have val: "SOLUTION_TOLERANCE = Finite (rnd (1 / 1000000))"
    unfolding SOLUTION_TOLERANCE_def by (intro to_f64_near) simp
  have "\<bar>rnd (1 / 1000000) - 1 / 1000000\<bar> \<le> 1 / 1000000 / 2 ^ 53"
    by (intro rnd_error) (simp add: power_int_minus field_simps)
  moreover have "1 / 1000000 / 2 ^ 53 \<le> (1 / 2000000 :: rat)" by simp
  ultimately have "\<bar>rnd (1 / 1000000) - 1 / 1000000\<bar> \<le> 1 / 2000000" by (rule order_trans)
  then have "0 < rnd (1 / 1000000) \<and> rnd (1 / 1000000) * 500000 \<le> 1" by (intro conjI) linarith+
  with val show ?thesis by blast
qed

text \<open>The readback of a row: it succeeds exactly when every value is present, finite and near 0 or 1, and one is near 1.\<close>

definition binary_like :: "f64 \<Rightarrow> bool" where
  "binary_like v \<longleftrightarrow> is_finite v \<and> (near_zero v \<or> near_one v)"

lemma f64_lt_not_le: "x \<noteq> NaN \<Longrightarrow> y \<noteq> NaN \<Longrightarrow> f64_lt x y \<longleftrightarrow> \<not> f64_le y x"
  by (cases x; cases y) auto

lemma near_one_lt:
  assumes "is_finite v"
  shows "f64_lt SOLUTION_TOLERANCE (f64_abs (f64_sub v (Finite 1))) \<longleftrightarrow> \<not> near_one v"
proof -
  obtain q where v: "v = Finite q" using assms by (cases v) auto
  have "f64_abs (f64_sub v (Finite 1)) \<noteq> NaN" by (simp add: v f64_sub_def to_f64_def)
  moreover have "SOLUTION_TOLERANCE \<noteq> NaN" using tolerance by auto
  ultimately show ?thesis by (simp add: near_one_def f64_lt_not_le)
qed

lemma read_choice_Inr:
  "read_choice s (vals, sel) (p, v) = Inr st \<longleftrightarrow>
     (\<exists>x. map_of (sol_values s) v = Some x \<and> binary_like x \<and> st = (vals @ [x], if near_one x then sel @ [p] else sel))"
  by (cases "map_of (sol_values s) v") (auto simp: read_choice_def binary_like_def near_one_lt)

definition row_values :: "LpSolution \<Rightarrow> LpVar list \<Rightarrow> f64 list" where
  "row_values s vs = map (\<lambda>v. the (map_of (sol_values s) v)) vs"

definition row_readable :: "LpSolution \<Rightarrow> LpVar list \<Rightarrow> bool" where
  "row_readable s vs \<longleftrightarrow> (\<forall>v \<in> set vs. \<exists>x. map_of (sol_values s) v = Some x \<and> binary_like x)"

lemma read_choices_Inr:
  "foldR (read_choice s) (vals, sel) (List.enumerate n vs) = Inr st \<longleftrightarrow>
     row_readable s vs \<and>
     st = (vals @ row_values s vs, sel @ map fst (filter (near_one \<circ> snd) (List.enumerate n (row_values s vs))))"
proof (induction vs arbitrary: vals sel n)
  case (Cons v vs)
  show ?case
    by (cases "map_of (sol_values s) v")
      (auto simp: bindR_eq_Inr read_choice_Inr Cons.IH row_values_def row_readable_def)
qed (auto simp: row_readable_def row_values_def)

lemma read_one_of_k_Inr:
  "read_one_of_k s vs = Inr i \<longleftrightarrow>
     row_readable s vs \<and> map fst (filter (near_one \<circ> snd) (List.enumerate 0 (row_values s vs))) = [i]"
proof -
  have "(case sel of [only] \<Rightarrow> Inr only | _ \<Rightarrow> Inl (SelectionCount (length sel) vals)) = Inr i \<longleftrightarrow> sel = [i]" for sel vals
    by (auto split: list.splits)
  then show ?thesis by (simp add: read_one_of_k_def bindR_eq_Inr read_choices_Inr split: prod.splits)
qed

lemma chosen_index:
  assumes "map fst (filter (P \<circ> snd) (List.enumerate 0 xs)) = [i]"
  shows "i < length xs \<and> (\<forall>j < length xs. P (xs ! j) \<longleftrightarrow> j = i)"
proof -
  have "set (map fst (filter (P \<circ> snd) (List.enumerate 0 xs))) = {j. j < length xs \<and> P (xs ! j)}"
    by (auto simp: in_set_enumerate_eq image_iff)
  then have "{j. j < length xs \<and> P (xs ! j)} = {i}" using assms by simp
  then show ?thesis by blast
qed

lemma read_one_of_k_choice:
  assumes "read_one_of_k s vs = Inr i"
  shows "i < length vs \<and> (\<forall>j < length vs. near_one (row_values s vs ! j) \<longleftrightarrow> j = i)"
  using chosen_index [of near_one "row_values s vs" i] assms by (simp add: read_one_of_k_Inr row_values_def)

section \<open>An accepted incumbent reads back\<close>

lemma f64_sub_Finite: "f64_sub (Finite a) (Finite b) = to_f64 (a - b)"
  by (simp add: f64_sub_def)

lemma near_oneD:
  assumes "near_one (Finite q)" and "\<bar>q\<bar> \<le> 2 ^ 63"
  shows "\<bar>q - 1\<bar> * 1000000 \<le> 3"
proof -
  obtain t where t: "SOLUTION_TOLERANCE = Finite t" "t * 500000 \<le> 1" using tolerance by blast
  have "\<bar>q - 1\<bar> \<le> 2 ^ 64" using assms(2) by (simp add: abs_le_iff)
  then have "\<bar>rnd (q - 1)\<bar> \<le> t" using assms(1) unfolding near_one_def t(1) by (simp add: f64_sub_Finite to_f64_near)
  then show ?thesis using rnd_between [of "q - 1"] t(2) unfolding abs_if by (simp split: if_splits)
qed

lemma near_zeroD:
  assumes "near_zero (Finite q)"
  shows "\<bar>q\<bar> * 1000000 \<le> 2"
proof -
  obtain t where t: "SOLUTION_TOLERANCE = Finite t" "t * 500000 \<le> 1" using tolerance by blast
  have "\<bar>q\<bar> \<le> t" using assms unfolding near_zero_def t(1) by simp
  then show ?thesis using t(2) by simp
qed

text \<open>A binary variable that passes validation is within tolerance of 0 or 1.\<close>

lemma scaled_tolerance_binary:
  "scaled_tolerance [Finite q, Finite 0, Finite 1] = f64_mul SOLUTION_TOLERANCE (Finite (max 1 \<bar>q\<bar>))"
  by (auto simp: scaled_tolerance_def f64_max_def max_def)

lemma check_var_binary:
  assumes "check_var s (i, binary_def label) = Inr ()" and "map_of (sol_values s) i = Some (Finite q)"
    and "f64_ok (Finite q)"
  shows "binary_like (Finite q) \<and> \<bar>q\<bar> < 3 / 2"
proof -
  obtain t where t: "SOLUTION_TOLERANCE = Finite t" "0 < t" "t * 500000 \<le> 1" using tolerance by blast
  define m where "m = max 1 \<bar>q\<bar>"
  define d where "d = rnd (t * m)"
  obtain B :: rat where B: "B = 2 ^ 1024" by simp
  have "(2 :: rat) ^ 64 \<le> B" unfolding B by (intro power_increasing) auto
  then have B4: "1000 \<le> B" by simp
  have m: "1 \<le> m" "m \<le> B" "q \<le> m" "- q \<le> m" "m = 1 \<or> m = q \<or> m = - q"
    using assms(3) B4 unfolding f64_ok.simps B [symmetric] by (auto simp: m_def max_def abs_if)
  have tm: "0 < t * m" "t * m * 500000 \<le> m" using t(2) m(1) mult_right_mono [OF t(3), of m] by auto
  have "rnd p * 1000000 \<le> 3 * m" if "0 < p" "p * 500000 \<le> m" for p
    using rnd_between(1) [of p] abs_of_pos [OF that(1)] that m(1) by linarith
  then have d: "0 \<le> d" "d * 1000000 \<le> 3 * m" using rnd_nonneg [of "t * m"] tm by (simp_all only: d_def)
  have fin: "to_f64 (t * m) = Finite d" "to_f64 (0 - d) = Finite (rnd (0 - d))" "to_f64 (1 + d) = Finite (rnd (1 + d))"
  proof -
    have "p * 2 + 2 \<le> B" if "0 < p" "p * 500000 \<le> m" for p using that m(2) B4 by linarith
    then have "t * m * 2 + 2 \<le> B" using tm by blast
    moreover have "(1 + d) * 2 + 2 \<le> B" using d m(1,2) B4 by simp
    ultimately have "\<bar>t * m\<bar> * 2 + 2 \<le> B" "\<bar>0 - d\<bar> * 2 + 2 \<le> B" "\<bar>1 + d\<bar> * 2 + 2 \<le> B"
      using tm(1) d(1) by (simp_all add: abs_of_pos abs_of_nonneg)
    then show "to_f64 (t * m) = Finite d" "to_f64 (0 - d) = Finite (rnd (0 - d))" "to_f64 (1 + d) = Finite (rnd (1 + d))"
      by (simp_all only: to_f64_half d_def B)
  qed
  have tol: "scaled_tolerance [Finite q, Finite 0, Finite 1] = Finite d"
    unfolding scaled_tolerance_binary t(1) m_def [symmetric] using fin(1) by simp
  have lo: "rnd (0 - d) \<le> q" and hi: "q \<le> rnd (1 + d)"
    and fr: "\<not> f64_lt SOLUTION_TOLERANCE (f64_abs (f64_sub (Finite q) (f64_round (Finite q))))"
    using assms(1,2) fin by (auto simp: check_var_def binary_def_def tol f64_sub_Finite Let_def split: if_splits)
  have "- 4 * m \<le> q * 1000000" "q * 1000000 \<le> 1000000 + 4 * m"
  proof -
    have "\<bar>0 - d\<bar> = d" "\<bar>1 + d\<bar> = 1 + d" using d(1) by simp_all
    then have r: "- d * 1000000000000 \<le> rnd (0 - d) * 1000000000000 + d + 1"
        "rnd (1 + d) * 1000000000000 \<le> (1 + d) * 1000000000000 + (1 + d) + 1"
      using rnd_between(2) [of "0 - d"] rnd_between(1) [of "1 + d"] by simp_all
    have low: "- 4 * m \<le> x * 1000000" if "- d * 1000000000000 \<le> u * 1000000000000 + d + 1" "u \<le> x" for u x
      using that d m(1) by linarith
    have high: "x * 1000000 \<le> 1000000 + 4 * m"
      if "u * 1000000000000 \<le> (1 + d) * 1000000000000 + (1 + d) + 1" "x \<le> u" for u x
    proof -
      have "u * 1000000000000 \<le> 1000000000002 + d * 1000000000001" using that(1) by (simp add: algebra_simps)
      then show ?thesis using that(2) d m(1) by linarith
    qed
    show "- 4 * m \<le> q * 1000000" by (rule low [OF r(1) lo])
    show "q * 1000000 \<le> 1000000 + 4 * m" by (rule high [OF r(2) hi])
  qed
  then have range: "q < 3 / 2" "- (1 / 2) < q" using m(5) by auto
  then have "\<bar>q\<bar> < 3 / 2" by (simp add: abs_if)
  moreover from range consider (zero) "\<bar>q\<bar> < 1 / 2" "f64_round (Finite q) = Finite 0" | (one) "f64_round (Finite q) = Finite 1"
    by (cases "q < 1 / 2") (auto simp: floor_eq_iff abs_if, linarith?)
  then have "binary_like (Finite q)"
  proof cases
    case zero
    then show ?thesis using fr assms(3) t(1) by (simp add: binary_like_def near_zero_def f64_sub_Finite to_f64_near)
  next
    case one
    then show ?thesis using fr near_one_lt [of "Finite q"] by (simp add: binary_like_def)
  qed
  ultimately show ?thesis by blast
qed

text \<open>Summing such values: every step stays within four millionths of the number of values near 1.\<close>

definition ones :: "f64 list \<Rightarrow> nat" where
  "ones xs = length (filter near_one xs)"

definition sum_near :: "rat \<Rightarrow> nat \<Rightarrow> nat \<Rightarrow> bool" where
  "sum_near a c k \<longleftrightarrow> \<bar>a - of_nat c\<bar> * 1000000 \<le> 4 * of_nat k \<and> c \<le> k"

lemma value_near:
  assumes "binary_like (Finite q)" and "\<bar>q\<bar> < 3 / 2"
  shows "\<bar>q - of_nat (ones [Finite q])\<bar> * 1000000 \<le> 3"
proof (cases "near_one (Finite q)")
  case True
  then show ?thesis using near_oneD [OF True] assms(2) by (simp add: ones_def)
next
  case False
  then show ?thesis using near_zeroD [of q] assms by (simp add: ones_def binary_like_def)
qed

lemma sum_near_step:
  assumes "sum_near a c k" and "\<bar>q - of_nat b\<bar> * 1000000 \<le> 3" and "b \<le> 1" and "k < 100000"
  shows "\<exists>r. f64_add (Finite a) (Finite q) = Finite r \<and> sum_near r (c + b) (Suc k)"
proof -
  define e where "e = a + q - of_nat (c + b)"
  have "e = (a - of_nat c) + (q - of_nat b)" by (simp add: e_def)
  then have "\<bar>e\<bar> \<le> \<bar>a - of_nat c\<bar> + \<bar>q - of_nat b\<bar>" using abs_triangle_ineq by metis
  then have e: "\<bar>e\<bar> * 1000000 \<le> 4 * of_nat k + 3" using assms(1,2) by (simp add: sum_near_def)
  have k: "(of_nat k :: rat) \<le> 100000" "(of_nat (c + b) :: rat) \<le> 100000"
    using assms(1,3,4) by (simp_all add: sum_near_def flip: of_nat_add)
  have "\<bar>a + q\<bar> \<le> \<bar>e\<bar> + of_nat (c + b)"
    using abs_triangle_ineq [of e "of_nat (c + b)"] by (simp add: e_def)
  then have x: "\<bar>a + q\<bar> \<le> 100001" using e k by simp
  define r where "r = rnd (a + q)"
  have "\<bar>r - (a + q)\<bar> * 1000000 \<le> 1"
    using rnd_between [of "a + q"] x by (simp add: r_def abs_if split: if_splits)
  moreover have "\<bar>r - of_nat (c + b)\<bar> \<le> \<bar>r - (a + q)\<bar> + \<bar>e\<bar>"
    using abs_triangle_ineq [of "r - (a + q)" e] by (simp add: e_def)
  ultimately have "\<bar>r - of_nat (c + b)\<bar> * 1000000 \<le> 4 * of_nat k + 4" using e by simp
  then have "sum_near r (c + b) (Suc k)" using assms(1,3) by (simp add: sum_near_def)
  moreover have "f64_add (Finite a) (Finite q) = Finite r" using x by (simp add: r_def to_f64_near)
  ultimately show ?thesis by blast
qed

definition good_value :: "LpSolution \<Rightarrow> LpVar \<Rightarrow> bool" where
  "good_value s v \<longleftrightarrow> (\<exists>q. map_of (sol_values s) v = Some (Finite q) \<and> binary_like (Finite q) \<and> \<bar>q\<bar> < 3 / 2 \<and> rnd q = q)"

lemma good_valueE:
  assumes "good_value s v" and "sum_near a c k" and "k < 100000"
  obtains q b r r' where "map_of (sol_values s) v = Some (Finite q)" "b = ones (row_values s [v])" "b \<le> 1"
    "f64_mul (Finite 1) (Finite q) = Finite q"
    "f64_add (Finite a) (Finite q) = Finite r" "sum_near r (c + b) (Suc k)"
    "f64_add (Finite a) (Finite \<bar>q\<bar>) = Finite r'" "sum_near r' (c + b) (Suc k)"
proof -
  obtain q where q: "map_of (sol_values s) v = Some (Finite q)" "binary_like (Finite q)" "\<bar>q\<bar> < 3 / 2" "rnd q = q"
    using assms(1) by (auto simp: good_value_def)
  define b where "b = ones [Finite q]"
  have b: "b = ones (row_values s [v])" "b \<le> 1" by (simp_all add: b_def row_values_def q(1) ones_def)
  have near: "\<bar>q - of_nat b\<bar> * 1000000 \<le> 3" using value_near [OF q(2,3)] by (simp add: b_def)
  have "\<bar>\<bar>q\<bar> - of_nat b\<bar> \<le> \<bar>q - of_nat b\<bar>" using abs_triangle_ineq3 [of q "of_nat b"] by simp
  then have near': "\<bar>\<bar>q\<bar> - of_nat b\<bar> * 1000000 \<le> 3" using near by simp
  have "\<bar>q\<bar> \<le> 2 ^ 64" using q(3) by simp
  then have mul: "f64_mul (Finite 1) (Finite q) = Finite q" using q(4) by (simp add: to_f64_near)
  obtain r where r: "f64_add (Finite a) (Finite q) = Finite r" "sum_near r (c + b) (Suc k)"
    using sum_near_step [OF assms(2) near b(2) assms(3)] by blast
  obtain r' where r': "f64_add (Finite a) (Finite \<bar>q\<bar>) = Finite r'" "sum_near r' (c + b) (Suc k)"
    using sum_near_step [OF assms(2) near' b(2) assms(3)] by blast
  show thesis by (rule that [OF q(1) b mul r r'])
qed

lemma ones_Cons: "ones (row_values s (v # vs)) = ones (row_values s [v]) + ones (row_values s vs)"
  by (simp add: ones_def row_values_def)

definition unit_sum :: "LpVar list \<Rightarrow> LinExpr" where
  "unit_sum vs = LinExpr_sum (map (Pair (Finite 1)) vs)"

lemma evaluate_sum:
  assumes "\<forall>v \<in> set vs. good_value s v" and "sum_near a c k" and "k + length vs \<le> 100000"
  shows "\<exists>r. foldR (\<lambda>result (coefficient, var).
         bindR (ok_or (InvalidIncumbent (Omitted var)) (map_of (sol_values s) var)) (\<lambda>value.
           Inr (f64_add result (f64_mul coefficient value)))) (Finite a) (map (Pair (Finite 1)) vs) = Inr (Finite r)
       \<and> sum_near r (c + ones (row_values s vs)) (k + length vs)"
  using assms
proof (induction vs arbitrary: a c k)
  case (Cons v vs)
  have "good_value s v" "k < 100000" using Cons.prems by auto
  from good_valueE [OF this(1) Cons.prems(2) this(2)] obtain q b r where
    q: "map_of (sol_values s) v = Some (Finite q)" "b = ones (row_values s [v])"
      "f64_mul (Finite 1) (Finite q) = Finite q" "f64_add (Finite a) (Finite q) = Finite r" "sum_near r (c + b) (Suc k)"
    by metis
  have eq: "c + b + ones (row_values s vs) = c + ones (row_values s (v # vs))" "Suc k + length vs = k + length (v # vs)"
    using ones_Cons [of s v vs] q(2) by simp_all
  have "\<forall>v \<in> set vs. good_value s v" "Suc k + length vs \<le> 100000" using Cons.prems(1,3) by auto
  from Cons.IH [OF this(1) q(5) this(2)] show ?case
    unfolding eq by (simp add: q(1,3,4) ok_or_def del: f64_add.simps f64_mul.simps)
qed (simp add: ones_def row_values_def)

lemma activity_sum:
  assumes "\<forall>v \<in> set vs. good_value s v" and "sum_near a c k" and "k + length vs \<le> 100000"
  shows "\<exists>r. foldR (\<lambda>activity (coefficient, var).
         bindR (ok_or (InvalidIncumbent (Omitted var)) (map_of (sol_values s) var)) (\<lambda>value.
           let activity' = f64_add activity (f64_abs (f64_mul coefficient value))
           in if is_finite activity' then Inr activity' else Inl (InvalidIncumbent ScaleNotFinite)))
         (Finite a) (map (Pair (Finite 1)) vs) = Inr (Finite r)
       \<and> sum_near r (c + ones (row_values s vs)) (k + length vs)"
  using assms
proof (induction vs arbitrary: a c k)
  case (Cons v vs)
  have "good_value s v" "k < 100000" using Cons.prems by auto
  from good_valueE [OF this(1) Cons.prems(2) this(2)] obtain q b r where
    q: "map_of (sol_values s) v = Some (Finite q)" "b = ones (row_values s [v])"
      "f64_mul (Finite 1) (Finite q) = Finite q" "f64_add (Finite a) (Finite \<bar>q\<bar>) = Finite r" "sum_near r (c + b) (Suc k)"
    by metis
  have eq: "c + b + ones (row_values s vs) = c + ones (row_values s (v # vs))" "Suc k + length vs = k + length (v # vs)"
    using ones_Cons [of s v vs] q(2) by simp_all
  have "\<forall>v \<in> set vs. good_value s v" "Suc k + length vs \<le> 100000" using Cons.prems(1,3) by auto
  from Cons.IH [OF this(1) q(5) this(2)] show ?case
    unfolding eq by (simp add: q(1,3,4) ok_or_def Let_def del: f64_add.simps f64_mul.simps)
qed (simp add: ones_def row_values_def)

lemma tolerance_at:
  assumes "1 \<le> m" and "m \<le> 2 ^ 64"
  shows "\<exists>d. f64_mul SOLUTION_TOLERANCE (Finite m) = Finite d \<and> d * 1000000 \<le> 3 * m"
proof -
  obtain t where t: "SOLUTION_TOLERANCE = Finite t" "0 < t" "t * 500000 \<le> 1" using tolerance by blast
  have tm: "0 < t * m" "t * m * 500000 \<le> m" using t(2) assms(1) mult_right_mono [OF t(3), of m] by auto
  have "rnd p * 1000000 \<le> 3 * m \<and> to_f64 p = Finite (rnd p)" if "0 < p" "p * 500000 \<le> m" for p
  proof -
    have "\<bar>p\<bar> \<le> 2 ^ 64" using that assms(2) by (simp add: abs_of_pos)
    moreover have "rnd p * 1000000 \<le> 3 * m" using rnd_between(1) [of p] abs_of_pos [OF that(1)] that assms(1) by linarith
    ultimately show ?thesis by (simp add: to_f64_near)
  qed
  from this [OF tm] show ?thesis by (simp add: t(1))
qed

lemma row_selects_one:
  assumes "check_constraint s \<lparr>con_name = name, con_expr = unit_sum vs, con_op = Eq, con_rhs = Finite 1\<rparr> = Inr ()"
    and "\<forall>v \<in> set vs. good_value s v" and "length vs \<le> 100000"
  shows "ones (row_values s vs) = 1"
proof -
  define m where "m = ones (row_values s vs)"
  have z: "sum_near 0 0 0" by (simp add: sum_near_def)
  have n: "0 + length vs \<le> 100000" "(of_nat (length vs) :: rat) \<le> 100000" using assms(3) by simp_all
  obtain r where r: "evaluate (unit_sum vs) (sol_values s) = Inr (Finite r)" "sum_near r m (length vs)"
    using evaluate_sum [OF assms(2) z n(1)] by (auto simp: evaluate_def unit_sum_def LinExpr_sum_def m_def)
  obtain a where a: "constraint_tolerance (unit_sum vs) (sol_values s) (Finite 1) = Inr (scaled_tolerance [Finite a, Finite 1])"
      "sum_near a m (length vs)"
    using activity_sum [OF assms(2) z n(1)] by (auto simp: constraint_tolerance_def unit_sum_def LinExpr_sum_def m_def)
  define M where "M = max 1 \<bar>a\<bar>"
  have tol: "scaled_tolerance [Finite a, Finite 1] = f64_mul SOLUTION_TOLERANCE (Finite M)"
    by (auto simp: scaled_tolerance_def f64_max_def max_def M_def)
  have mr: "\<bar>r - of_nat m\<bar> * 10 \<le> 4" and ma: "\<bar>a - of_nat m\<bar> * 10 \<le> 4" and m: "(of_nat m :: rat) \<le> 100000"
    using r(2) a(2) n by (simp_all add: sum_near_def)
  have M: "1 \<le> M" "M \<le> of_nat m + 2" using ma by (auto simp: M_def max_def abs_if split: if_splits)
  then have "M \<le> 2 ^ 64" using m by simp
  from tolerance_at [OF M(1) this] obtain d where d: "f64_mul SOLUTION_TOLERANCE (Finite M) = Finite d" "d * 1000000 \<le> 3 * M"
    by blast
  have r1: "\<bar>r - 1\<bar> \<le> 100001" using mr m by (simp add: abs_if split: if_splits)
  then have "\<bar>r - 1\<bar> \<le> 2 ^ 64" by simp
  then have "\<bar>rnd (r - 1)\<bar> \<le> d"
    using assms(1) by (simp add: check_constraint_def r(1) a(1) tol d(1) f64_sub_Finite to_f64_near split: if_splits)
  then have "\<bar>r - 1\<bar> * 1000000 \<le> 3 * M + 1"
    using rnd_between [of "r - 1"] r1 d(2) by (simp add: abs_if split: if_splits)
  then have low: "(1 - r) * 1000000 \<le> 3 * of_nat m + 7" and high: "(r - 1) * 1000000 \<le> 3 * of_nat m + 7"
    using M(2) by (simp_all add: abs_if split: if_splits)
  have "of_nat m < (2 :: rat)" using high mr by (simp add: abs_if split: if_splits)
  moreover have "0 < (of_nat m :: rat)" using low mr by (simp add: abs_if split: if_splits)
  ultimately show ?thesis by (simp add: m_def)
qed

text \<open>A model grows by variables and constraints; its row stays where it was.\<close>

definition grown :: "LpModel \<Rightarrow> LpModel \<Rightarrow> bool" where
  "grown lp lp' \<longleftrightarrow> take (length (vars lp)) (vars lp') = vars lp \<and> set (constraints lp) \<subseteq> set (constraints lp')"

lemma validated_value:
  assumes "validate_for s lp = Inr ()" and "is_found s" and "v < length (vars lp)" and "vars lp ! v = binary_def label"
    and "\<forall>x \<in> snd ` set (sol_values s). f64_ok x"
  shows "good_value s v"
proof -
  have "(v, binary_def label) \<in> set (List.enumerate 0 (vars lp))" using assms(3,4) by (auto simp: in_set_enumerate_eq)
  then have ok: "check_var s (v, binary_def label) = Inr ()"
    using assms(1,2) by (auto simp: validate_for_def bindR_eq_Inr foldR_checks_Inr split: if_splits)
  then obtain x where x: "map_of (sol_values s) v = Some x" "is_finite x"
    by (auto simp: check_var_def bindR_eq_Inr ok_or_def split: option.splits if_splits)
  then obtain q where q: "map_of (sol_values s) v = Some (Finite q)" by (cases x) auto
  have "f64_ok (Finite q)" using assms(5) map_of_SomeD [OF q] by force
  then show ?thesis using check_var_binary [OF ok q] q by (auto simp: good_value_def)
qed

lemma selected_positions: "map snd (filter (P \<circ> snd) (List.enumerate n xs)) = filter P xs"
  by (induction xs arbitrary: n) auto

lemma row_reads_back:
  assumes "\<forall>v \<in> set vs. good_value s v" and "ones (row_values s vs) = 1"
  shows "\<exists>i. read_one_of_k s vs = Inr i"
proof -
  have "row_readable s vs" using assms(1) by (auto simp: row_readable_def good_value_def)
  moreover have "length (map fst (filter (near_one \<circ> snd) (List.enumerate 0 (row_values s vs)))) = 1"
    using assms(2) arg_cong [OF selected_positions [of near_one 0 "row_values s vs"], of length] by (simp add: ones_def)
  ultimately show ?thesis unfolding read_one_of_k_Inr by (auto simp: length_Suc_conv)
qed

text \<open>C34: Reading a one-of-k row back never fails on an incumbent that validation accepted: for every row that
  \<open>add_one_of_k_row\<close> put into the model, of up to 100000 alternatives, if \<open>validate_for\<close> accepts a found solution whose values
  are doubles, then \<open>read_one_of_k\<close> returns the one position whose value is within tolerance of 1.  The tolerances of the two
  checks are compatible, rounding of the sums included.\<close>

theorem readback_total:
  assumes "add_one_of_k_row lp0 name k label = (lp1, vs)" and "grown lp1 lp" and "k \<le> 100000"
    and "validate_for s lp = Inr ()" and "is_found s" and "\<forall>x \<in> snd ` set (sol_values s). f64_ok x"
  shows "\<exists>i < k. read_one_of_k s vs = Inr i \<and> (\<forall>j < k. near_one (the (map_of (sol_values s) (vs ! j))) \<longleftrightarrow> j = i)"
proof -
  define n where "n = length (vars lp0)"
  have row: "lp1 = add_constraint (lp0\<lparr>vars := vars lp0 @ map (binary_def \<circ> label) [0..<k]\<rparr>) name (unit_sum vs) Eq (Finite 1)"
      "vs = [n..<n + k]"
    using assms(1) by (auto simp: add_one_of_k_row_eq unit_sum_def n_def)
  have "\<exists>l. v < length (vars lp) \<and> vars lp ! v = binary_def l" if "v \<in> set vs" for v
  proof -
    have v: "n \<le> v" "v < n + k" using that by (auto simp: row(2))
    have pre: "take (n + k) (vars lp) = vars lp0 @ map (binary_def \<circ> label) [0..<k]"
      using assms(2) by (simp add: grown_def row(1) add_constraint_def n_def)
    then have "length (take (n + k) (vars lp)) = n + k" by (simp add: n_def)
    then have "n + k \<le> length (vars lp)" by simp
    moreover have "vars lp ! v = binary_def (label (v - n))"
      using arg_cong [OF pre, of "\<lambda>xs. xs ! v"] v by (simp add: nth_append n_def)
    ultimately show ?thesis using v(2) by (intro exI [of _ "label (v - n)"]) simp
  qed
  then have good: "\<forall>v \<in> set vs. good_value s v" using validated_value [OF assms(4,5) _ _ assms(6)] by blast
  have "\<lparr>con_name = name, con_expr = unit_sum vs, con_op = Eq, con_rhs = Finite 1\<rparr> \<in> set (constraints lp)"
    using assms(2) by (auto simp: grown_def row(1) add_constraint_def)
  then have "check_constraint s \<lparr>con_name = name, con_expr = unit_sum vs, con_op = Eq, con_rhs = Finite 1\<rparr> = Inr ()"
    using assms(4,5) by (auto simp: validate_for_def bindR_eq_Inr foldR_checks_Inr split: if_splits)
  then have "ones (row_values s vs) = 1" using row_selects_one good assms(3) row(2) by simp
  then obtain i where i: "read_one_of_k s vs = Inr i" using row_reads_back good by blast
  have "length vs = k" by (simp add: row(2))
  then show ?thesis using read_one_of_k_choice [OF i] i by (auto simp: row_values_def)
qed

definition demo_row :: LpModel where
  "demo_row = fst (add_one_of_k_row LpModel_new ''r'' 2 (\<lambda>i. ''x''))"

definition demo_incumbent :: LpSolution where
  "demo_incumbent = \<lparr>status = Optimal, sol_objective = Finite 0, sol_values = [(0, Finite 0), (1, Finite 1)]\<rparr>"

lemma demo_incumbent_valid: "validate_for demo_incumbent demo_row = Inr ()"
proof -
  obtain t where t: "SOLUTION_TOLERANCE = Finite t" "0 < t" "t * 500000 \<le> 1" using tolerance by blast
  define d where "d = rnd t"
  have r1: "rnd 1 = 1" using rnd_power [of 0] by simp
  have d: "0 \<le> d" "d \<le> 1" using rnd_nonneg [of t] rnd_mono [of t 1] t(2,3) r1 by (simp_all add: d_def)
  have low: "f64_sub (Finite 0) (Finite d) = Finite (rnd (- d))" "rnd (- d) \<le> 0"
    using d rnd_nonneg [of d] to_f64_near [of "- d"] by (simp_all add: f64_sub_Finite rnd_minus)
  have high: "f64_add (Finite 1) (Finite d) = Finite (rnd (1 + d))" "1 \<le> rnd (1 + d)"
    using d rnd_mono [of 1 "1 + d"] to_f64_near [of "1 + d"] r1 by simp_all
  have tol: "f64_mul (Finite t) (Finite 1) = Finite d" using t(2,3) to_f64_near [of t] by (simp add: d_def)
  have num: "to_f64 0 = Finite 0" "to_f64 1 = Finite 1" using to_f64_near [of 0] to_f64_near [of 1] r1 by simp_all
  have fl: "\<lfloor>1 / 2 :: rat\<rfloor> = 0" "\<lfloor>3 / 2 :: rat\<rfloor> = 1" by (simp_all add: floor_eq_iff)
  note ops = f64_add.simps(1) f64_mul.simps(1)
  have vars: "vars demo_row = [binary_def ''x'', binary_def ''x'']" "objective demo_row = LinExpr_sum []"
      "constraints demo_row = [\<lparr>con_name = ''r'', con_expr = unit_sum [0, 1], con_op = Eq, con_rhs = Finite 1\<rparr>]"
    by (simp_all add: demo_row_def add_one_of_k_row_eq add_constraint_def LpModel_new_def unit_sum_def LinExpr_new_def
        LinExpr_sum_def numeral_2_eq_2)
  have v: "sol_values demo_incumbent = [(0, Finite 0), (1, Finite 1)]" "sol_objective demo_incumbent = Finite 0"
    by (simp_all add: demo_incumbent_def)
  have c0: "check_var demo_incumbent (0, binary_def ''x'') = Inr ()"
    unfolding check_var_def binary_def_def using low high t(2)
    by (simp add: v ok_or_def scaled_tolerance_binary t(1) tol f64_sub_Finite num fl del: ops)
  have c1: "check_var demo_incumbent (1, binary_def ''x'') = Inr ()"
    unfolding check_var_def binary_def_def using low high t(2)
    by (simp add: v ok_or_def scaled_tolerance_binary t(1) tol f64_sub_Finite num fl del: ops)
  show ?thesis
    using c0 c1 d t(2) by (simp add: validate_for_def vars v unit_sum_def LinExpr_sum_def evaluate_def ok_or_def num
        check_constraint_def constraint_tolerance_def f64_sub_Finite scaled_tolerance_def f64_max_def t(1) tol [simplified])
qed

theorem readback_total_witness: "\<exists>i < 2. read_one_of_k demo_incumbent [0, 1] = Inr i"
proof -
  have row: "add_one_of_k_row LpModel_new ''r'' 2 (\<lambda>i. ''x'') = (demo_row, [0, 1])" by code_simp
  have "grown demo_row demo_row" by (simp add: grown_def)
  moreover have "\<forall>x \<in> snd ` set (sol_values demo_incumbent). f64_ok x"
    using rnd_power [of 0] by (simp add: demo_incumbent_def)
  moreover have "is_found demo_incumbent" by (simp add: is_found_def demo_incumbent_def)
  ultimately show ?thesis using readback_total [OF row _ _ demo_incumbent_valid] by auto
qed

end
