(* ===== verification/Fp_Route.thy ===== *)
theory Fp_Route
  imports Fp_Paths Fp_Cut Fp_Solver
begin

text \<open>
  \<^verbatim>\<open>tapa-core/tapa-floorplan/src/route/ilp.rs\<close>: one path per cross-slot net, chosen by an integer program with a hard
  capacity row per bounded slot boundary and recounted afterwards.  The solver and the register budget of the caller are
  parameters.  Messages are constructors that carry the numbers they print.
\<close>

section \<open>Data\<close>

definition MAX_DETOUR :: nat where
  "MAX_DETOUR = 2"

definition UTILIZATION_MIP_GAP_ABS :: f64 where
  "UTILIZATION_MIP_GAP_ABS = to_f64 (1 / 1000)"

record RouteNet =
  net_src :: Cell
  net_dst :: Cell
  net_width :: nat

datatype path_fault =
    StartsElsewhere Cell
  | EndsElsewhere Cell
  | OutsideDevice Cell
  | RevisitsSlot
  | NonAdjacentHop Cell Cell

datatype route_explanation =
    NoPath nat Cell Cell
  | OverSubscribed Cell Cell nat nat
  | RegisterPressure Cell nat nat
  | NoSingleWall

datatype route_fault =
    OmittedPathVariable nat nat
  | NotBinary nat nat f64
  | NoPathSelected nat
  | ManyPathsSelected nat
  | OverCapacity Cell Cell nat nat

datatype RouteError =
    RouteSolver SolverError
  | RouteInfeasible route_explanation
  | NoIncumbent LpStatus
  | InvalidEndpoint nat string Cell
  | InvalidPath nat path_fault
  | InvalidSolution route_fault

record Boundary =
  bd_a :: Cell
  bd_b :: Cell
  bd_capacity :: "nat option"

record Candidates =
  cand_sets :: "Cell list list list"
  cand_of_net :: "nat list"

record RegisterBudget =
  rb_bodies :: "Cell list \<Rightarrow> Cell list"
  rb_available :: "(Cell, nat) btree"

section \<open>Boundaries and candidates\<close>

definition cell_boundaries :: "Device \<Rightarrow> nat \<Rightarrow> nat \<Rightarrow> Boundary list" where
  "cell_boundaries d x y =
     (case device_slot d x y of
        None \<Rightarrow> []
      | Some slot \<Rightarrow>
          (if x + 1 < cols d then
             (case device_slot d (x + 1) y of
                None \<Rightarrow> []
              | Some right \<Rightarrow> [\<lparr>bd_a = (x, y), bd_b = (x + 1, y),
                    bd_capacity = bounded_border_capacity (east (wire_cap slot)) (west (wire_cap right))\<rparr>])
           else []) @
          (if y + 1 < rows d then
             (case device_slot d x (y + 1) of
                None \<Rightarrow> []
              | Some up \<Rightarrow> [\<lparr>bd_a = (x, y), bd_b = (x, y + 1),
                    bd_capacity = bounded_border_capacity (north (wire_cap slot)) (south (wire_cap up))\<rparr>])
           else []))"

definition boundaries :: "Device \<Rightarrow> Boundary list" where
  "boundaries d = concat (map (\<lambda>y. concat (map (\<lambda>x. cell_boundaries d x y) [0..<cols d])) [0..<rows d])"

text \<open>\<^verbatim>\<open>slice::windows(2)\<close>.\<close>

definition windows2 :: "'a list \<Rightarrow> ('a \<times> 'a) list" where
  "windows2 xs = zip xs (tl xs)"

definition path_crosses :: "Cell list \<Rightarrow> Boundary \<Rightarrow> bool" where
  "path_crosses path b \<longleftrightarrow> list_ex (\<lambda>(u, v). u = bd_a b \<and> v = bd_b b \<or> u = bd_b b \<and> v = bd_a b) (windows2 path)"

definition validate_path :: "nat \<Rightarrow> RouteNet \<Rightarrow> Cell list \<Rightarrow> Device \<Rightarrow> RouteError + unit" where
  "validate_path net_index net path d =
     (if path = [] \<or> hd path \<noteq> net_src net then Inl (InvalidPath net_index (StartsElsewhere (net_src net)))
      else if last path \<noteq> net_dst net then Inl (InvalidPath net_index (EndsElsewhere (net_dst net)))
      else case find (\<lambda>(x, y). device_slot d x y = None) path of
        Some cell \<Rightarrow> Inl (InvalidPath net_index (OutsideDevice cell))
      | None \<Rightarrow>
          if card (set path) \<noteq> length path then Inl (InvalidPath net_index RevisitsSlot)
          else (case find (\<lambda>(u, v). wrap 32 (abs_diff (fst u) (fst v) + abs_diff (snd u) (snd v)) \<noteq> 1) (windows2 path) of
                  Some (u, v) \<Rightarrow> Inl (InvalidPath net_index (NonAdjacentHop u v))
                | None \<Rightarrow> Inr ()))"

definition validate_nets :: "RouteNet list \<Rightarrow> Device \<Rightarrow> RouteError + unit" where
  "validate_nets nets d =
     foldR (\<lambda>_ (net_index, net).
       foldR (\<lambda>_ (endpoint, cell).
         if device_slot d (fst cell) (snd cell) = None then Inl (InvalidEndpoint net_index endpoint cell) else Inr ())
         () [(''source'', net_src net), (''destination'', net_dst net)])
       () (List.enumerate 0 nets)"

definition cand_paths :: "Candidates \<Rightarrow> nat \<Rightarrow> Cell list list" where
  "cand_paths c net_index = cand_sets c ! (cand_of_net c ! net_index)"

definition cand_iter :: "Candidates \<Rightarrow> Cell list list list" where
  "cand_iter c = map (\<lambda>set_index. cand_sets c ! set_index) (cand_of_net c)"

definition candidate_step :: "Device \<Rightarrow> Candidates \<times> (Cell \<times> Cell, nat) btree \<Rightarrow> nat \<times> RouteNet
    \<Rightarrow> RouteError + Candidates \<times> (Cell \<times> Cell, nat) btree" where
  "candidate_step d st x =
     (case (st, x) of ((c, of_pair), (net_index, net)) \<Rightarrow>
        (case bt_get of_pair (net_src net, net_dst net) of
           Some set_index \<Rightarrow> Inr (c\<lparr>cand_of_net := cand_of_net c @ [set_index]\<rparr>, of_pair)
         | None \<Rightarrow>
             (let paths = enumerate_paths (net_src net) (net_dst net) (cols d) (rows d) MAX_DETOUR in
              if paths = [] then Inl (RouteInfeasible (NoPath net_index (net_src net) (net_dst net)))
              else bindR (foldR (\<lambda>_ path. validate_path net_index net path d) () paths) (\<lambda>_.
                let sets = cand_sets c @ [paths]
                in Inr (\<lparr>cand_sets = sets, cand_of_net = cand_of_net c @ [length sets - 1]\<rparr>,
                        bt_insert (net_src net, net_dst net) (length sets - 1) of_pair)))))"

definition candidates_for :: "RouteNet list \<Rightarrow> Device \<Rightarrow> RouteError + Candidates" where
  "candidates_for nets d =
     bindR (foldR (candidate_step d) (\<lparr>cand_sets = [], cand_of_net = []\<rparr>, []) (List.enumerate 0 nets)) (\<lambda>(c, _). Inr c)"

section \<open>Rows\<close>

definition body_counts :: "Cell list \<Rightarrow> (Cell, nat) btree" where
  "body_counts cells =
     foldl (\<lambda>counts cell. bt_insert cell ((case bt_get counts cell of None \<Rightarrow> 0 | Some n \<Rightarrow> n) + 1) counts) [] cells"

definition register_row :: "RouteNet list \<Rightarrow> Candidates \<Rightarrow> LpVar list list \<Rightarrow> (Cell, nat) btree list list \<Rightarrow> Cell \<Rightarrow> SparseRow" where
  "register_row nets c path_vars bodies cell =
     concat (map (\<lambda>(net_index, net). concat (map (\<lambda>(path_index, counts).
         let registers = wrap 64 ((case bt_get counts cell of None \<Rightarrow> 0 | Some n \<Rightarrow> n) * net_width net)
         in if registers > 0 then [(of_uint registers, path_vars ! net_index ! path_index)] else [])
       (List.enumerate 0 (bodies ! (cand_of_net c ! net_index))))) (List.enumerate 0 nets))"

definition add_register_budget_rows :: "LpModel \<Rightarrow> RouteNet list \<Rightarrow> Candidates \<Rightarrow> LpVar list list \<Rightarrow> RegisterBudget \<Rightarrow> LpModel" where
  "add_register_budget_rows lp nets c path_vars budget =
     (let bodies = map (map (\<lambda>path. body_counts (rb_bodies budget path))) (cand_sets c)
      in foldl (\<lambda>lp (cell, available).
           add_constraint lp (''slot_'' @ show_nat (fst cell) @ ''_'' @ show_nat (snd cell) @ ''_registers'')
             (into_expr (register_row nets c path_vars bodies cell)) Le (of_uint available)) lp (rb_available budget))"

definition rank_terms :: "LpVar list \<Rightarrow> f64 \<Rightarrow> SparseRow" where
  "rank_terms vs sign =
     concat (map (\<lambda>(rank, var). if rank > 0 then [(f64_mul sign (of_uint rank), var)] else []) (List.enumerate 0 vs))"

definition symmetry_step :: "LpVar list list \<Rightarrow> LpModel \<times> (Cell \<times> Cell \<times> nat, nat) btree \<Rightarrow> nat \<times> RouteNet
    \<Rightarrow> LpModel \<times> (Cell \<times> Cell \<times> nat, nat) btree" where
  "symmetry_step path_vars st x =
     (case (st, x) of ((lp, previous), (net_index, net)) \<Rightarrow>
        (let key = (net_src net, net_dst net, net_width net); previous' = bt_insert key net_index previous
         in case bt_get previous key of
              None \<Rightarrow> (lp, previous')
            | Some earlier \<Rightarrow>
                (add_constraint lp (''symmetry_'' @ show_nat earlier @ ''_'' @ show_nat net_index)
                   (into_expr (rank_terms (path_vars ! earlier) (Finite 1) @ rank_terms (path_vars ! net_index) (Finite (- 1))))
                   Le (Finite 0), previous')))"

definition add_symmetry_rows :: "LpModel \<Rightarrow> RouteNet list \<Rightarrow> LpVar list list \<Rightarrow> LpModel" where
  "add_symmetry_rows lp nets path_vars = fst (foldl (symmetry_step path_vars) (lp, []) (List.enumerate 0 nets))"

definition crossing_row :: "RouteNet list \<Rightarrow> Candidates \<Rightarrow> LpVar list list \<Rightarrow> Boundary \<Rightarrow> SparseRow" where
  "crossing_row nets c path_vars b =
     concat (map (\<lambda>(net_index, paths). concat (map (\<lambda>(path_index, path).
         if path_crosses path b then [(of_uint (net_width (nets ! net_index)), path_vars ! net_index ! path_index)] else [])
       (List.enumerate 0 paths))) (List.enumerate 0 (cand_iter c)))"

definition add_boundary_rows :: "RouteNet list \<Rightarrow> Candidates \<Rightarrow> LpVar list list \<Rightarrow> LpVar option \<Rightarrow> LpModel \<Rightarrow> nat \<times> Boundary \<Rightarrow> LpModel" where
  "add_boundary_rows nets c path_vars max_crossings lp x =
     (case x of (boundary_index, b) \<Rightarrow>
      (case bd_capacity b of
         None \<Rightarrow> lp
       | Some capacity \<Rightarrow>
           (let crossings = crossing_row nets c path_vars b;
                lp' = add_constraint lp (''bound_'' @ show_nat boundary_index @ ''_capacity'') (into_expr crossings) Le (of_uint capacity)
            in case max_crossings of
                 None \<Rightarrow> lp'
               | Some mx \<Rightarrow>
                   if capacity > 0
                   then add_constraint lp' (''bound_'' @ show_nat boundary_index)
                          (into_expr (sparse_push crossings (f64_neg (of_uint capacity)) mx)) Le (Finite 0)
                   else lp')))"

definition hop_objective :: "Candidates \<Rightarrow> LpVar list list \<Rightarrow> LinExpr" where
  "hop_objective c path_vars =
     into_expr (concat (map (\<lambda>(paths, vs). concat (map (\<lambda>(path, var).
         let hops = length path - 1 in if hops > 0 then [(of_uint hops, var)] else [])
       (zip paths vs))) (zip (cand_iter c) path_vars)))"

definition add_path_vars :: "Candidates \<Rightarrow> LpModel \<times> LpVar list list \<Rightarrow> nat \<Rightarrow> LpModel \<times> LpVar list list" where
  "add_path_vars c st net_index =
     (case st of (lp, path_vars) \<Rightarrow>
        (case add_one_of_k_row lp (''net_'' @ show_nat net_index) (length (cand_paths c net_index))
             (\<lambda>path_index. ''p_'' @ show_nat net_index @ ''_'' @ show_nat path_index) of
           (lp', vs) \<Rightarrow> (lp', path_vars @ [vs])))"

section \<open>Solutions\<close>

definition selection_fault :: "nat \<Rightarrow> OneOfKError \<Rightarrow> RouteError" where
  "selection_fault net_index e =
     InvalidSolution (case e of
       MissingVariable position \<Rightarrow> OmittedPathVariable net_index position
     | NonBinary position value values \<Rightarrow> NotBinary net_index position value
     | SelectionCount selected values \<Rightarrow> if selected = 0 then NoPathSelected net_index else ManyPathsSelected net_index)"

definition selected_routes :: "Candidates \<Rightarrow> LpVar list list \<Rightarrow> LpSolution \<Rightarrow> RouteError + Cell list list" where
  "selected_routes c path_vars solution =
     mapR (\<lambda>(net_index, paths, vs).
       bindR (map_err (selection_fault net_index) (read_one_of_k solution vs)) (\<lambda>path_index. Inr (paths ! path_index)))
       (List.enumerate 0 (zip (cand_iter c) path_vars))"

definition crossing_width :: "RouteNet list \<Rightarrow> Cell list list \<Rightarrow> Boundary \<Rightarrow> nat" where
  "crossing_width nets routes b =
     wrap 64 (sum_list (map (\<lambda>(net, _). net_width net) (filter (\<lambda>(_, path). path_crosses path b) (zip nets routes))))"

definition validate_within_capacity :: "RouteNet list \<Rightarrow> Cell list list \<Rightarrow> Boundary list \<Rightarrow> RouteError + unit" where
  "validate_within_capacity nets routes limits =
     foldR (\<lambda>_ b. case bd_capacity b of
         None \<Rightarrow> Inr ()
       | Some capacity \<Rightarrow>
           (let crossing = crossing_width nets routes b
            in if crossing > capacity then Inl (InvalidSolution (OverCapacity (bd_a b) (bd_b b) crossing capacity)) else Inr ()))
       () limits"

text \<open>\<^verbatim>\<open>Iterator::max_by_key\<close>: the last of the largest.\<close>

definition max_by_key :: "('a \<Rightarrow> 'k::linorder) \<Rightarrow> 'a list \<Rightarrow> 'a option" where
  "max_by_key key xs = foldl (\<lambda>best x. case best of None \<Rightarrow> Some x | Some b \<Rightarrow> if key b \<le> key x then Some x else Some b) None xs"

definition describe_register_pressure :: "RouteNet list \<Rightarrow> Candidates \<Rightarrow> RegisterBudget option \<Rightarrow> route_explanation" where
  "describe_register_pressure nets c budget =
     (case Option.bind budget (\<lambda>budget. max_by_key (\<lambda>(demand, available, _). (demand - available, demand))
        (List.map_filter (\<lambda>(cell, available).
           let demand = wrap 64 (sum_list (map (\<lambda>(net, paths).
                 wrap 64 (length (filter (\<lambda>body. body = cell) (rb_bodies budget (paths ! 0))) * net_width net))
                 (zip nets (cand_iter c))))
           in if demand > available then Some (demand, available, cell) else None) (rb_available budget))) of
        Some (demand, available, cell) \<Rightarrow> RegisterPressure cell demand available
      | None \<Rightarrow> NoSingleWall)"

definition describe_congestion :: "RouteNet list \<Rightarrow> Candidates \<Rightarrow> Boundary list \<Rightarrow> RegisterBudget option \<Rightarrow> route_explanation" where
  "describe_congestion nets c limits budget =
     (case max_by_key (\<lambda>(demand, capacity, _). (demand - capacity, demand))
        (List.map_filter (\<lambda>b. Option.bind (bd_capacity b) (\<lambda>capacity.
           let demand = wrap 64 (sum_list (map (\<lambda>(net, _). net_width net)
                 (filter (\<lambda>(_, paths). path_crosses (paths ! 0) b) (zip nets (cand_iter c)))))
           in if demand > capacity then Some (demand, capacity, b) else None)) limits) of
        Some (demand, capacity, b) \<Rightarrow> OverSubscribed (bd_a b) (bd_b b) demand capacity
      | None \<Rightarrow> describe_register_pressure nets c budget)"

definition refine_lexicographic :: "LpModel \<Rightarrow> Solver \<Rightarrow> SolveOpts \<Rightarrow> LpSolution \<Rightarrow> LpVar list list \<Rightarrow> RouteError + LpSolution option" where
  "refine_lexicographic lp solver opts primary path_vars =
     map_err RouteSolver (snd (refine lp solver opts (objective lp) (sol_objective primary) path_vars))"

text \<open>The integer program, with its path variables and the utilisation variable when there is a boundary to balance.\<close>

definition route_model :: "RouteNet list \<Rightarrow> Candidates \<Rightarrow> Boundary list \<Rightarrow> RegisterBudget option \<Rightarrow> LpModel \<times> LpVar option \<times> LpVar list list" where
  "route_model nets c limits budget =
     (let (lp0, max_crossings) =
            (if list_ex (\<lambda>b. case bd_capacity b of None \<Rightarrow> False | Some capacity \<Rightarrow> capacity > 0) limits
             then (case add_continuous LpModel_new ''max_crossings'' (Finite 0) (Infinite False) of (lp, v) \<Rightarrow> (lp, Some v))
             else (LpModel_new, None));
          (lp1, path_vars) = foldl (add_path_vars c) (lp0, []) [0..<length nets];
          lp2 = add_symmetry_rows lp1 nets path_vars;
          lp3 = (case budget of None \<Rightarrow> lp2 | Some b \<Rightarrow> add_register_budget_rows lp2 nets c path_vars b);
          lp4 = foldl (add_boundary_rows nets c path_vars max_crossings) lp3 (List.enumerate 0 limits);
          goal = (case max_crossings of None \<Rightarrow> hop_objective c path_vars | Some mx \<Rightarrow> LinExpr_sum [(Finite 1, mx)])
      in (set_objective lp4 goal, max_crossings, path_vars))"

definition route_nets :: "RouteNet list \<Rightarrow> Device \<Rightarrow> RegisterBudget option \<Rightarrow> Solver \<Rightarrow> SolveOpts \<Rightarrow> RouteError fault + Cell list list" where
  "route_nets nets d budget solver opts =
     (if nets = [] then Inr []
      else bindR (map_err Err (validate_nets nets d)) (\<lambda>_.
        bindR (map_err Err (candidates_for nets d)) (\<lambda>c.
        let limits = boundaries d; (lp, max_crossings, path_vars) = route_model nets c limits budget;
            route_opts = opts\<lparr>mip_gap_abs := map_option (\<lambda>_. UTILIZATION_MIP_GAP_ABS) max_crossings\<rparr>
        in if vars_overflow lp then Inl Panicked
           else bindR (map_err (Err \<circ> RouteSolver) (solver lp route_opts)) (\<lambda>solution.
             if \<not> is_found solution
             then (case status solution of
                     Infeasible \<Rightarrow> Inl (Err (RouteInfeasible (describe_congestion nets c limits budget)))
                   | NotSolved \<Rightarrow> Inl (Err (NoIncumbent (status solution)))
                   | Unbounded \<Rightarrow> Inl (Err (NoIncumbent (status solution)))
                   | _ \<Rightarrow> Inl Panicked)
             else bindR (map_err Err (refine_lexicographic lp solver route_opts solution path_vars)) (\<lambda>refined.
               let solution' = (case refined of None \<Rightarrow> solution | Some s \<Rightarrow> s)
               in bindR (map_err Err (selected_routes c path_vars solution')) (\<lambda>routes.
                  bindR (map_err Err (validate_within_capacity nets routes limits)) (\<lambda>_. Inr routes)))))))"

definition route_slot_tag :: "Cell \<Rightarrow> string" where
  "route_slot_tag cell = ''SLOT_X'' @ show_nat (fst cell) @ ''Y'' @ show_nat (snd cell)"

section \<open>Candidates are shared per endpoint pair\<close>

definition net_paths :: "Device \<Rightarrow> RouteNet \<Rightarrow> Cell list list" where
  "net_paths d net = enumerate_paths (net_src net) (net_dst net) (cols d) (rows d) MAX_DETOUR"

definition candidates_inv :: "Device \<Rightarrow> RouteNet list \<Rightarrow> Candidates \<times> (Cell \<times> Cell, nat) btree \<Rightarrow> bool" where
  "candidates_inv d nets st \<longleftrightarrow>
     (case st of (c, of_pair) \<Rightarrow>
        cand_iter c = map (net_paths d) nets \<and> (\<forall>k \<in> set (cand_of_net c). k < length (cand_sets c)) \<and>
        (\<forall>net \<in> set nets. net_paths d net \<noteq> []) \<and>
        (\<forall>(e, k) \<in> set of_pair. k < length (cand_sets c) \<and> cand_sets c ! k \<noteq> [] \<and>
           cand_sets c ! k = enumerate_paths (fst e) (snd e) (cols d) (rows d) MAX_DETOUR))"

lemma candidate_step_inv:
  assumes "candidates_inv d nets st" and "candidate_step d st (i, net) = Inr st'"
  shows "candidates_inv d (nets @ [net]) st'"
proof -
  obtain c of_pair where st: "st = (c, of_pair)" by force
  show ?thesis
  proof (cases "bt_get of_pair (net_src net, net_dst net)")
    case (Some k)
    then have "((net_src net, net_dst net), k) \<in> set of_pair" by (rule bt_get_Some_in)
    then have "k < length (cand_sets c)" "cand_sets c ! k \<noteq> []" "cand_sets c ! k = net_paths d net"
      using assms(1) by (fastforce simp: candidates_inv_def st net_paths_def)+
    moreover have "st' = (c\<lparr>cand_of_net := cand_of_net c @ [k]\<rparr>, of_pair)"
      using assms(2) Some by (simp add: candidate_step_def st)
    ultimately show ?thesis using assms(1) by (auto simp: candidates_inv_def st cand_iter_def)
  next
    case None
    let ?ps = "net_paths d net"
    have st': "st' = (\<lparr>cand_sets = cand_sets c @ [?ps], cand_of_net = cand_of_net c @ [length (cand_sets c)]\<rparr>,
        bt_insert (net_src net, net_dst net) (length (cand_sets c)) of_pair)" and ne: "?ps \<noteq> []"
      using assms(2) None by (auto simp: candidate_step_def st bindR_eq_Inr net_paths_def Let_def split: if_splits)
    have "map ((!) (cand_sets c @ [?ps])) (cand_of_net c) = cand_iter c"
      unfolding cand_iter_def using assms(1) by (intro map_cong) (auto simp: candidates_inv_def st nth_append)
    then have "cand_iter (fst st') = map (net_paths d) (nets @ [net])"
      using assms(1) unfolding st' candidates_inv_def st by (simp only: cand_iter_def prod.case) (simp add: cand_iter_def)
    moreover have "k < length (cand_sets (fst st')) \<and> cand_sets (fst st') ! k \<noteq> [] \<and>
        cand_sets (fst st') ! k = enumerate_paths (fst e) (snd e) (cols d) (rows d) MAX_DETOUR"
      if "(e, k) \<in> set (snd st')" for e k
    proof -
      have "(e, k) = ((net_src net, net_dst net), length (cand_sets c)) \<or> (e, k) \<in> set of_pair"
        using that set_bt_insert_subset [of "(net_src net, net_dst net)" "length (cand_sets c)" of_pair] by (auto simp: st')
      then show ?thesis
      proof
        assume "(e, k) = ((net_src net, net_dst net), length (cand_sets c))"
        then show ?thesis using ne by (simp add: st' net_paths_def)
      next
        assume "(e, k) \<in> set of_pair"
        then have "k < length (cand_sets c) \<and> cand_sets c ! k \<noteq> [] \<and>
            cand_sets c ! k = enumerate_paths (fst e) (snd e) (cols d) (rows d) MAX_DETOUR"
          using assms(1) by (auto simp: candidates_inv_def st)
        then show ?thesis unfolding st' by (auto simp: nth_append)
      qed
    qed
    moreover have "\<forall>k \<in> set (cand_of_net (fst st')). k < length (cand_sets (fst st'))"
      using assms(1) by (auto simp: st' candidates_inv_def st)
    moreover have "\<forall>n \<in> set (nets @ [net]). net_paths d n \<noteq> []" using assms(1) ne by (auto simp: candidates_inv_def st)
    ultimately show ?thesis unfolding candidates_inv_def case_prod_unfold by (metis prod.collapse)
  qed
qed

lemma candidates_fold_inv:
  assumes "foldR (candidate_step d) st (List.enumerate k nets) = Inr st'" and "candidates_inv d before st"
  shows "candidates_inv d (before @ nets) st'"
  using assms
proof (induction nets arbitrary: st k before)
  case (Cons net nets)
  then obtain st1 where "candidate_step d st (k, net) = Inr st1" "foldR (candidate_step d) st1 (List.enumerate (Suc k) nets) = Inr st'"
    by (auto simp: bindR_eq_Inr)
  with Cons.IH [OF this(2) candidate_step_inv [OF Cons.prems(2) this(1)]] show ?case by simp
qed simp

lemma candidates_for_Inr:
  assumes "candidates_for nets d = Inr c"
  shows "cand_iter c = map (net_paths d) nets \<and> (\<forall>net \<in> set nets. net_paths d net \<noteq> [])
    \<and> (\<forall>k \<in> set (cand_of_net c). k < length (cand_sets c))"
proof -
  obtain of_pair where f: "foldR (candidate_step d) (\<lparr>cand_sets = [], cand_of_net = []\<rparr>, []) (List.enumerate 0 nets) = Inr (c, of_pair)"
    using assms by (auto simp: candidates_for_def bindR_eq_Inr)
  have "candidates_inv d [] (\<lparr>cand_sets = [], cand_of_net = []\<rparr>, [])"
    by (simp add: candidates_inv_def cand_iter_def bt_get_def)
  from candidates_fold_inv [OF f this] show ?thesis by (simp add: candidates_inv_def)
qed

section \<open>Path variables\<close>

text \<open>The variables of net \<open>i\<close> are a block of consecutive indices.\<close>

definition var_block :: "nat \<Rightarrow> nat list \<Rightarrow> nat \<Rightarrow> LpVar list" where
  "var_block base ks i = [base + sum_list (take i ks)..<base + sum_list (take i ks) + ks ! i]"

definition path_row :: "nat \<Rightarrow> nat list \<Rightarrow> nat \<Rightarrow> ConstraintDef" where
  "path_row base ks i = \<lparr>con_name = ''net_'' @ show_nat i, con_expr = unit_sum (var_block base ks i), con_op = Eq, con_rhs = Finite 1\<rparr>"

lemma path_vars_eq:
  assumes "ks = map length (cand_iter c)" and "n \<le> length ks"
  shows "\<exists>labels. foldl (add_path_vars c) (lp, []) [0..<n] =
    (lp\<lparr>vars := vars lp @ map binary_def labels, constraints := constraints lp @ map (path_row (length (vars lp)) ks) [0..<n]\<rparr>,
     map (var_block (length (vars lp)) ks) [0..<n]) \<and> length labels = sum_list (take n ks)"
  using assms(2)
proof (induction n)
  case (Suc n)
  then obtain labels where IH: "foldl (add_path_vars c) (lp, []) [0..<n] =
      (lp\<lparr>vars := vars lp @ map binary_def labels, constraints := constraints lp @ map (path_row (length (vars lp)) ks) [0..<n]\<rparr>,
       map (var_block (length (vars lp)) ks) [0..<n])" "length labels = sum_list (take n ks)" by auto
  let ?label = "\<lambda>path_index. ''p_'' @ show_nat n @ ''_'' @ show_nat path_index"
  have k: "length (cand_paths c n) = ks ! n"
    using Suc.prems by (simp add: assms(1) cand_iter_def cand_paths_def)
  have "sum_list (take (Suc n) ks) = sum_list (take n ks) + ks ! n"
    using Suc.prems by (simp add: take_Suc_conv_app_nth)
  then have len: "length (labels @ map ?label [0..<ks ! n]) = sum_list (take (Suc n) ks)" using IH(2) by simp
  have step: "foldl (add_path_vars c) (lp, []) [0..<Suc n] = add_path_vars c (foldl (add_path_vars c) (lp, []) [0..<n]) n" by simp
  show ?case unfolding step IH(1)
    by (intro exI [of _ "labels @ map ?label [0..<ks ! n]"] conjI len)
      (simp add: IH(2) add_path_vars_def add_one_of_k_row_eq k add_constraint_def path_row_def var_block_def unit_sum_def
        add.assoc comp_def)
qed simp

lemma length_var_block [simp]: "length (var_block base ks i) = ks ! i"
  by (simp add: var_block_def)

text \<open>The rows that follow are appended without touching the variables.\<close>

definition symmetry_row :: "RouteNet list \<Rightarrow> LpVar list list \<Rightarrow> ConstraintDef \<Rightarrow> bool" where
  "symmetry_row nets path_vars r \<longleftrightarrow>
     (\<exists>i j. i < j \<and> j < length nets \<and> net_src (nets ! i) = net_src (nets ! j) \<and> net_dst (nets ! i) = net_dst (nets ! j) \<and>
        net_width (nets ! i) = net_width (nets ! j) \<and> con_op r = Le \<and> con_rhs r = Finite 0 \<and>
        con_expr r = into_expr (rank_terms (path_vars ! i) (Finite 1) @ rank_terms (path_vars ! j) (Finite (- 1))))"

definition register_rows :: "RouteNet list \<Rightarrow> Candidates \<Rightarrow> LpVar list list \<Rightarrow> RegisterBudget \<Rightarrow> ConstraintDef list" where
  "register_rows nets c path_vars budget =
     map (\<lambda>(cell, available). \<lparr>con_name = ''slot_'' @ show_nat (fst cell) @ ''_'' @ show_nat (snd cell) @ ''_registers'',
         con_expr = into_expr (register_row nets c path_vars (map (map (\<lambda>path. body_counts (rb_bodies budget path))) (cand_sets c)) cell),
         con_op = Le, con_rhs = of_uint available\<rparr>) (rb_available budget)"

definition boundary_rows :: "RouteNet list \<Rightarrow> Candidates \<Rightarrow> LpVar list list \<Rightarrow> LpVar option \<Rightarrow> nat \<times> Boundary \<Rightarrow> ConstraintDef list" where
  "boundary_rows nets c path_vars mx x =
     (case bd_capacity (snd x) of
        None \<Rightarrow> []
      | Some capacity \<Rightarrow>
          \<lparr>con_name = ''bound_'' @ show_nat (fst x) @ ''_capacity'', con_expr = into_expr (crossing_row nets c path_vars (snd x)),
            con_op = Le, con_rhs = of_uint capacity\<rparr> #
          (if mx = None \<or> capacity = 0 then []
           else [\<lparr>con_name = ''bound_'' @ show_nat (fst x),
              con_expr = into_expr (sparse_push (crossing_row nets c path_vars (snd x)) (f64_neg (of_uint capacity)) (the mx)),
              con_op = Le, con_rhs = Finite 0\<rparr>]))"

definition add_rows :: "LpModel \<Rightarrow> ConstraintDef list \<Rightarrow> LpModel" where
  "add_rows lp rs = lp\<lparr>constraints := constraints lp @ rs\<rparr>"

lemma add_rows_simps [simp]:
  "vars (add_rows lp rs) = vars lp" "constraints (add_rows lp rs) = constraints lp @ rs" "add_rows lp [] = lp"
  "add_rows (add_rows lp rs) qs = add_rows lp (rs @ qs)"
  by (simp_all add: add_rows_def)

lemma add_constraint_rows: "add_constraint lp name e cmp rhs = add_rows lp [\<lparr>con_name = name, con_expr = e, con_op = cmp, con_rhs = rhs\<rparr>]"
  by (simp add: add_constraint_def add_rows_def)

lemma foldl_add_rows: "foldl (\<lambda>lp x. add_rows lp (f x)) lp xs = add_rows lp (concat (map f xs))"
  by (induction xs arbitrary: lp) simp_all

lemma add_boundary_rows_eq: "add_boundary_rows nets c path_vars mx lp x = add_rows lp (boundary_rows nets c path_vars mx x)"
  by (auto simp: add_boundary_rows_def boundary_rows_def add_constraint_rows Let_def split: prod.splits option.splits)

lemma add_register_budget_rows_eq:
  "add_register_budget_rows lp nets c path_vars budget = add_rows lp (register_rows nets c path_vars budget)"
proof -
  have "concat (map (\<lambda>x. [f x]) xs) = map f xs" for f :: "Cell \<times> nat \<Rightarrow> ConstraintDef" and xs by (induction xs) simp_all
  then show ?thesis
    by (simp add: add_register_budget_rows_def add_constraint_rows case_prod_unfold foldl_add_rows register_rows_def)
qed

lemma symmetry_fold:
  assumes "\<And>key i. bt_get prev key = Some i \<Longrightarrow> i < length before \<and> key = (net_src (before ! i), net_dst (before ! i), net_width (before ! i))"
  shows "\<exists>rs prev'. foldl (symmetry_step path_vars) (lp, prev) (List.enumerate (length before) nets) = (add_rows lp rs, prev') \<and>
    (\<forall>r \<in> set rs. symmetry_row (before @ nets) path_vars r)"
  using assms
proof (induction nets arbitrary: lp prev before)
  case Nil
  have "foldl (symmetry_step path_vars) (lp, prev) (List.enumerate (length before) []) = (add_rows lp [], prev)" by simp
  then show ?case by (metis empty_iff empty_set)
next
  case (Cons net nets)
  let ?key = "(net_src net, net_dst net, net_width net)" and ?before = "before @ [net]"
  let ?prev = "bt_insert ?key (length before) prev"
  have inv: "i < length ?before \<and> key = (net_src (?before ! i), net_dst (?before ! i), net_width (?before ! i))"
    if "bt_get ?prev key = Some i" for key i
    using that Cons.prems [of key i] by (auto simp: bt_get_insert nth_append split: if_splits)
  obtain q where q: "symmetry_step path_vars (lp, prev) (length before, net) = (add_rows lp q, ?prev)"
      "\<forall>r \<in> set q. symmetry_row (before @ net # nets) path_vars r"
  proof (cases "bt_get prev ?key")
    case None
    have "symmetry_step path_vars (lp, prev) (length before, net) = (add_rows lp [], ?prev)"
      using None by (simp add: symmetry_step_def Let_def)
    then show thesis by (rule that) simp
  next
    case (Some i)
    let ?row = "\<lparr>con_name = ''symmetry_'' @ show_nat i @ ''_'' @ show_nat (length before),
        con_expr = into_expr (rank_terms (path_vars ! i) (Finite 1) @ rank_terms (path_vars ! length before) (Finite (- 1))),
        con_op = Le, con_rhs = Finite 0\<rparr>"
    have "symmetry_step path_vars (lp, prev) (length before, net) = (add_rows lp [?row], ?prev)"
      using Some by (simp add: symmetry_step_def Let_def add_constraint_rows)
    moreover have "symmetry_row (before @ net # nets) path_vars ?row"
      unfolding symmetry_row_def using Cons.prems [OF Some]
      by (intro exI [of _ i] exI [of _ "length before"]) (simp add: nth_append)
    ultimately show thesis using that [of "[?row]"] by simp
  qed
  from Cons.IH [where lp = "add_rows lp q" and prev = ?prev and before = ?before, OF inv] obtain rs prev' where
    rs: "foldl (symmetry_step path_vars) (add_rows lp q, ?prev) (List.enumerate (length ?before) nets) = (add_rows (add_rows lp q) rs, prev')"
      "\<forall>r \<in> set rs. symmetry_row (?before @ nets) path_vars r" by blast
  have "foldl (symmetry_step path_vars) (lp, prev) (List.enumerate (length before) (net # nets)) = (add_rows lp (q @ rs), prev')"
    using q(1) rs(1) by simp
  then show ?case using q(2) rs(2) by (metis Un_iff append.assoc append_Cons append_Nil set_append)
qed

lemma add_symmetry_rows_eq:
  "\<exists>rs. add_symmetry_rows lp nets path_vars = add_rows lp rs \<and> (\<forall>r \<in> set rs. symmetry_row nets path_vars r)"
  using symmetry_fold [of "[]" "[]" path_vars lp nets] by (auto simp: add_symmetry_rows_def bt_get_def)

definition utilisation_base :: "Boundary list \<Rightarrow> nat" where
  "utilisation_base limits = (if list_ex (\<lambda>b. case bd_capacity b of None \<Rightarrow> False | Some capacity \<Rightarrow> capacity > 0) limits then 1 else 0)"

definition utilisation_var :: VarDef where
  "utilisation_var = \<lparr>var_label = ''max_crossings'', var_kind = Continuous, var_lower = Finite 0, var_upper = Infinite False\<rparr>"

lemma route_model_structure:
  assumes "route_model nets c limits budget = (lp, mx, path_vars)" and "length (cand_iter c) = length nets"
  obtains labels rs where
    "path_vars = map (var_block (utilisation_base limits) (map length (cand_iter c))) [0..<length nets]"
    "mx = (if utilisation_base limits = 1 then Some 0 else None)"
    "vars lp = replicate (utilisation_base limits) utilisation_var @ map binary_def labels"
    "length labels = sum_list (map length (cand_iter c))"
    "constraints lp = map (path_row (utilisation_base limits) (map length (cand_iter c))) [0..<length nets] @ rs @
       (case budget of None \<Rightarrow> [] | Some b \<Rightarrow> register_rows nets c path_vars b) @
       concat (map (boundary_rows nets c path_vars mx) (List.enumerate 0 limits))"
    "\<forall>r \<in> set rs. symmetry_row nets path_vars r"
proof -
  let ?u = "utilisation_base limits" and ?ks = "map length (cand_iter c)"
  define lp0 where "lp0 = LpModel_new\<lparr>vars := replicate ?u utilisation_var\<rparr>"
  define mx0 where "mx0 = (if ?u = 1 then Some 0 else (None :: LpVar option))"
  define pv where "pv = map (var_block ?u ?ks) [0..<length nets]"
  have start: "(if list_ex (\<lambda>b. case bd_capacity b of None \<Rightarrow> False | Some capacity \<Rightarrow> capacity > 0) limits
      then (case add_continuous LpModel_new ''max_crossings'' (Finite 0) (Infinite False) of (lp, v) \<Rightarrow> (lp, Some v))
      else (LpModel_new, None)) = (lp0, mx0)"
    by (simp add: lp0_def mx0_def utilisation_base_def add_continuous_def add_var_def utilisation_var_def LpModel_new_def)
  obtain labels where f: "foldl (add_path_vars c) (lp0, []) [0..<length nets] =
      (lp0\<lparr>vars := vars lp0 @ map binary_def labels, constraints := constraints lp0 @ map (path_row (length (vars lp0)) ?ks) [0..<length nets]\<rparr>,
       map (var_block (length (vars lp0)) ?ks) [0..<length nets])" "length labels = sum_list (take (length nets) ?ks)"
    using path_vars_eq [OF refl, of "length nets" c lp0] assms(2) by auto
  define lp1 where "lp1 = lp0\<lparr>vars := vars lp0 @ map binary_def labels, constraints := constraints lp0 @ map (path_row (length (vars lp0)) ?ks) [0..<length nets]\<rparr>"
  have f1: "foldl (add_path_vars c) (lp0, []) [0..<length nets] = (lp1, pv)" using f(1) by (simp add: lp1_def pv_def lp0_def)
  obtain rs where rs: "add_symmetry_rows lp1 nets pv = add_rows lp1 rs" "\<forall>r \<in> set rs. symmetry_row nets pv r"
    using add_symmetry_rows_eq by blast
  let ?reg = "case budget of None \<Rightarrow> [] | Some b \<Rightarrow> register_rows nets c pv b"
  have reg: "(case budget of None \<Rightarrow> l | Some b \<Rightarrow> add_register_budget_rows l nets c pv b) = add_rows l ?reg" for l
    by (simp add: add_register_budget_rows_eq split: option.split)
  let ?lp4 = "add_rows lp1 (rs @ ?reg @ concat (map (boundary_rows nets c pv mx0) (List.enumerate 0 limits)))"
  have m: "route_model nets c limits budget =
      (set_objective ?lp4 (case mx0 of None \<Rightarrow> hop_objective c pv | Some mx \<Rightarrow> LinExpr_sum [(Finite 1, mx)]), mx0, pv)"
    unfolding route_model_def start f1 rs(1) Let_def prod.case reg add_boundary_rows_eq foldl_add_rows by simp
  have out: "path_vars = pv" "mx = mx0" and
    lp: "lp = set_objective ?lp4 (case mx0 of None \<Rightarrow> hop_objective c pv | Some mx \<Rightarrow> LinExpr_sum [(Finite 1, mx)])"
    using assms(1) unfolding m by blast+
  have parts: "vars lp = replicate ?u utilisation_var @ map binary_def labels"
    "constraints lp = map (path_row ?u ?ks) [0..<length nets] @ rs @ ?reg @ concat (map (boundary_rows nets c pv mx0) (List.enumerate 0 limits))"
    unfolding lp by (simp_all add: set_objective_def lp1_def lp0_def LpModel_new_def)
  show thesis
    by (rule that [of labels rs]) (use assms(2) f(2) rs(2) parts in \<open>simp_all only: out pv_def mx0_def length_map take_all order_refl\<close>)
qed

lemma route_model_vars:
  assumes "route_model nets c limits budget = (lp, mx, path_vars)" and "length (cand_iter c) = length nets"
  shows "path_vars = map (var_block (utilisation_base limits) (map length (cand_iter c))) [0..<length nets]"
  using route_model_structure [OF assms] by blast

section \<open>Routes are legal\<close>

definition crosses_edge :: "Cell \<Rightarrow> Cell \<Rightarrow> Cell list \<Rightarrow> bool" where
  "crosses_edge u v p \<longleftrightarrow> (u, v) \<in> set (windows2 p) \<or> (v, u) \<in> set (windows2 p)"

definition edge_load :: "RouteNet list \<Rightarrow> Cell list list \<Rightarrow> Cell \<Rightarrow> Cell \<Rightarrow> nat" where
  "edge_load nets routes u v = (\<Sum>(net, p) \<leftarrow> filter (\<lambda>(_, p). crosses_edge u v p) (zip nets routes). net_width net)"

definition fits_limit :: "nat \<Rightarrow> nat option \<Rightarrow> bool" where
  "fits_limit n limit \<longleftrightarrow> (case limit of None \<Rightarrow> True | Some c \<Rightarrow> n \<le> c)"

definition loads_within :: "Device \<Rightarrow> RouteNet list \<Rightarrow> Cell list list \<Rightarrow> bool" where
  "loads_within d nets routes \<longleftrightarrow>
     (\<forall>x y. x + 1 < cols d \<longrightarrow> y < rows d \<longrightarrow>
        fits_limit (edge_load nets routes (x, y) (x + 1, y)) (bounded_border_capacity (east (cap_at d x y)) (west (cap_at d (x + 1) y)))) \<and>
     (\<forall>x y. x < cols d \<longrightarrow> y + 1 < rows d \<longrightarrow>
        fits_limit (edge_load nets routes (x, y) (x, y + 1)) (bounded_border_capacity (north (cap_at d x y)) (south (cap_at d x (y + 1)))))"

definition legal_route :: "Device \<Rightarrow> RouteNet \<Rightarrow> Cell list \<Rightarrow> bool" where
  "legal_route d net p \<longleftrightarrow> p \<noteq> [] \<and> hd p = net_src net \<and> last p = net_dst net \<and> simple_path (in_bounds (cols d) (rows d)) p
     \<and> length p \<le> Fp_Paths.dist (net_src net) (net_dst net) + 3"

text \<open>Widths and their number are 32-bit, so no sum of widths overflows.\<close>

definition nets_ok :: "RouteNet list \<Rightarrow> bool" where
  "nets_ok nets \<longleftrightarrow> length nets < 2 ^ 32 \<and> list_all (\<lambda>net. fits 32 (net_width net)) nets"

lemma path_crosses_edge: "path_crosses p b \<longleftrightarrow> crosses_edge (bd_a b) (bd_b b) p"
  by (auto simp: path_crosses_def crosses_edge_def list_ex_iff)

lemma edge_load_fits:
  assumes "nets_ok nets"
  shows "fits 64 (edge_load nets routes u v)"
proof -
  let ?xs = "filter (\<lambda>(_, p). crosses_edge u v p) (zip nets routes)"
  define B :: nat where "B = 2 ^ 32 - 1"
  have B: "n < 2 ^ 32 \<longleftrightarrow> n \<le> B" for n by (auto simp: B_def)
  have "edge_load nets routes u v \<le> length ?xs * B"
    unfolding edge_load_def
  proof (rule sum_list_bound)
    fix x assume "x \<in> set ?xs"
    then have "fst x \<in> set nets" by (auto dest: set_zip_leftD)
    then show "(case x of (net, p) \<Rightarrow> net_width net) \<le> B"
      using assms unfolding nets_ok_def list_all_iff fits_def B by (simp add: case_prod_unfold)
  qed
  also have "\<dots> \<le> B * B"
  proof (rule mult_le_mono1)
    have "length ?xs \<le> length (zip nets routes)" by (rule length_filter_le)
    also have "\<dots> \<le> length nets" by simp
    also have "\<dots> \<le> B" using assms unfolding nets_ok_def B by blast
    finally show "length ?xs \<le> B" .
  qed
  also have "\<dots> < 2 ^ 64" by (simp add: B_def)
  finally show ?thesis by (simp only: fits_def)
qed

lemma crossing_width_eq:
  assumes "nets_ok nets"
  shows "crossing_width nets routes b = edge_load nets routes (bd_a b) (bd_b b)"
proof -
  have "crossing_width nets routes b = wrap 64 (edge_load nets routes (bd_a b) (bd_b b))"
    unfolding crossing_width_def edge_load_def path_crosses_edge ..
  then show ?thesis using edge_load_fits [OF assms] by (simp only: wrap_id)
qed

lemma cell_boundaries_in:
  assumes "b \<in> set (cell_boundaries d x y)" and "x < cols d" and "y < rows d"
  shows "b \<in> set (boundaries d)"
proof -
  have in_concat: "z \<in> set (concat (map f zs))" if "i \<in> set zs" "z \<in> set (f i)" for i zs and f :: "nat \<Rightarrow> Boundary list" and z
    using that by auto
  have x: "x \<in> set [0..<cols d]" and y: "y \<in> set [0..<rows d]" using assms(2,3) by simp_all
  show ?thesis unfolding boundaries_def by (rule in_concat [OF y], rule in_concat [OF x], rule assms(1))
qed

lemma boundary_east:
  assumes "grid_complete d" and "x + 1 < cols d" and "y < rows d"
  shows "\<lparr>bd_a = (x, y), bd_b = (x + 1, y),
      bd_capacity = bounded_border_capacity (east (cap_at d x y)) (west (cap_at d (x + 1) y))\<rparr> \<in> set (boundaries d)"
proof -
  have x: "x < cols d" using assms(2) by simp
  obtain s where s: "device_slot d x y = Some s" using complete_slot [OF assms(1) x assms(3)] by blast
  obtain t where t: "device_slot d (x + 1) y = Some t" using complete_slot [OF assms(1,2,3)] by blast
  show ?thesis
    by (rule cell_boundaries_in [OF _ x assms(3)])
      (simp only: cell_boundaries_def cap_at_def s t assms(2) option.case option.sel if_True set_append Un_iff list.set insert_iff simp_thms)
qed

lemma boundary_north:
  assumes "grid_complete d" and "x < cols d" and "y + 1 < rows d"
  shows "\<lparr>bd_a = (x, y), bd_b = (x, y + 1),
      bd_capacity = bounded_border_capacity (north (cap_at d x y)) (south (cap_at d x (y + 1)))\<rparr> \<in> set (boundaries d)"
proof -
  have y: "y < rows d" using assms(3) by simp
  obtain s where s: "device_slot d x y = Some s" using complete_slot [OF assms(1,2) y] by blast
  obtain t where t: "device_slot d x (y + 1) = Some t" using complete_slot [OF assms(1,2,3)] by blast
  show ?thesis
    by (rule cell_boundaries_in [OF _ assms(2) y])
      (simp only: cell_boundaries_def cap_at_def s t assms(3) option.case option.sel if_True set_append Un_iff list.set insert_iff simp_thms)
qed

lemma within_capacity_loads:
  assumes "validate_within_capacity nets routes (boundaries d) = Inr ()" and "nets_ok nets" and "grid_complete d"
  shows "loads_within d nets routes"
proof -
  have "fits_limit (edge_load nets routes (bd_a b) (bd_b b)) (bd_capacity b)" if "b \<in> set (boundaries d)" for b
    using assms(1) that crossing_width_eq [OF assms(2), of routes b]
    by (fastforce simp: validate_within_capacity_def foldR_checks_Inr fits_limit_def Let_def not_less split: option.splits if_splits)
  from this [OF boundary_east [OF assms(3)]] this [OF boundary_north [OF assms(3)]]
  show ?thesis by (simp add: loads_within_def)
qed

lemma selected_routes_Inr:
  assumes "selected_routes c path_vars s = Inr routes" and "length path_vars = length (cand_iter c)"
    and "\<forall>i < length path_vars. length (path_vars ! i) = length (cand_iter c ! i)"
  shows "length routes = length (cand_iter c) \<and> (\<forall>i < length routes. \<exists>k. read_one_of_k s (path_vars ! i) = Inr k \<and>
    k < length (cand_iter c ! i) \<and> routes ! i = cand_iter c ! i ! k)"
proof -
  let ?xs = "List.enumerate 0 (zip (cand_iter c) path_vars)"
  have all: "list_all2 (\<lambda>(i, paths, vs) route. bindR (map_err (selection_fault i) (read_one_of_k s vs)) (\<lambda>k. Inr (paths ! k)) = Inr route) ?xs routes"
    using assms(1) unfolding selected_routes_def mapR_eq_Inr by (simp add: case_prod_unfold)
  then have len: "length routes = length (cand_iter c)" using assms(2) by (auto dest: list_all2_lengthD)
  have "\<exists>k. read_one_of_k s (path_vars ! i) = Inr k \<and> k < length (cand_iter c ! i) \<and> routes ! i = cand_iter c ! i ! k"
    if i: "i < length routes" for i
  proof -
    have "bindR (map_err (selection_fault i) (read_one_of_k s (path_vars ! i))) (\<lambda>k. Inr (cand_iter c ! i ! k)) = Inr (routes ! i)"
      using list_all2_nthD2 [OF all i] i len assms(2) by (simp add: nth_enumerate_eq)
    then obtain k where k: "read_one_of_k s (path_vars ! i) = Inr k" "routes ! i = cand_iter c ! i ! k"
      by (cases "read_one_of_k s (path_vars ! i)") auto
    moreover have "k < length (path_vars ! i)" using read_one_of_k_choice [OF k(1)] by blast
    ultimately show ?thesis using assms(2,3) i len by metis
  qed
  then show ?thesis using len by blast
qed

lemma net_paths_legal:
  assumes "grid_complete d" and "grid_ok (cols d) (rows d)" and "p \<in> set (net_paths d net)"
  shows "legal_route d net p"
proof -
  have "in_bounds (cols d) (rows d) (net_src net)" "in_bounds (cols d) (rows d) (net_dst net)"
    using assms(3) by (auto simp: net_paths_def enumerate_paths_def split: if_splits)
  from paths_exact [OF assms(2) this, of MAX_DETOUR] assms(3) show ?thesis
    by (auto simp: net_paths_def legal_route_def MAX_DETOUR_def)
qed

text \<open>What a successful run has gone through.\<close>

lemma route_nets_Inr:
  assumes "route_nets nets d budget solver opts = Inr routes" and "nets \<noteq> []"
  obtains c lp mx path_vars s where "validate_nets nets d = Inr ()" "candidates_for nets d = Inr c"
    "route_model nets c (boundaries d) budget = (lp, mx, path_vars)" "selected_routes c path_vars s = Inr routes"
    "validate_within_capacity nets routes (boundaries d) = Inr ()"
proof -
  have ok: "map_err e m = Inr x \<longleftrightarrow> m = Inr x" for e :: "'e \<Rightarrow> 'f" and m :: "'e + 'a" and x by (cases m) auto
  obtain c where v: "validate_nets nets d = Inr ()" and c: "candidates_for nets d = Inr c"
    using assms unfolding route_nets_def if_not_P [OF assms(2)] bindR_eq_Inr ok by auto
  obtain lp mx path_vars where m: "route_model nets c (boundaries d) budget = (lp, mx, path_vars)" by (metis prod_cases3)
  have "\<exists>s. selected_routes c path_vars s = Inr routes \<and> validate_within_capacity nets routes (boundaries d) = Inr ()"
    using assms(1) unfolding route_nets_def if_not_P [OF assms(2)] v c
    by (auto simp: bindR_eq_Inr ok m Let_def split: if_splits LpStatus.splits)
  then show thesis using that [OF v c m] by blast
qed

lemma routed_legally:
  assumes "device_validate d = Inr ()" and "grid_ok (cols d) (rows d)" and "nets_ok nets"
    and "route_nets nets d budget solver opts = Inr routes"
  shows "list_all2 (legal_route d) nets routes \<and> loads_within d nets routes"
proof (cases "nets = []")
  case True
  then show ?thesis using assms(4) by (auto simp: route_nets_def loads_within_def edge_load_def fits_limit_def split: option.splits)
next
  case False
  have g: "grid_complete d" using assms(1) by (auto simp: device_validate_def bindR_eq_Inr validate_grid_Inr)
  from route_nets_Inr [OF assms(4) False] obtain c lp mx path_vars s where
    r: "candidates_for nets d = Inr c" "route_model nets c (boundaries d) budget = (lp, mx, path_vars)"
      "selected_routes c path_vars s = Inr routes" "validate_within_capacity nets routes (boundaries d) = Inr ()" .
  have c: "cand_iter c = map (net_paths d) nets" using candidates_for_Inr [OF r(1)] by blast
  have pv: "path_vars = map (var_block (utilisation_base (boundaries d)) (map length (cand_iter c))) [0..<length nets]"
    using route_model_vars [OF r(2)] c by simp
  have len: "length path_vars = length (cand_iter c)" by (simp add: pv c)
  have "\<forall>i < length path_vars. length (path_vars ! i) = length (cand_iter c ! i)" by (simp add: pv c)
  note sel = selected_routes_Inr [OF r(3) len this]
  have n: "length routes = length nets" using sel c by simp
  have "legal_route d (nets ! i) (routes ! i)" if i: "i < length nets" for i
  proof -
    have "i < length routes" using i n by simp
    then obtain k where k: "k < length (cand_iter c ! i)" "routes ! i = cand_iter c ! i ! k" using sel by blast
    then have "routes ! i \<in> set (net_paths d (nets ! i))" using i by (simp add: c)
    then show ?thesis by (rule net_paths_legal [OF g assms(2)])
  qed
  then have "list_all2 (legal_route d) nets routes" using n by (simp add: list_all2_conv_all_nth)
  then show ?thesis using within_capacity_loads [OF r(4) assms(3) g] by blast
qed

text \<open>C21: Whatever the solver answers, routes that are returned are legal: one per net, from its source to its destination,
  over touching slots of the device without revisiting one, at most two hops longer than the distance; and no slot boundary
  carries more wires than the capacity its two slots declare, counted in exact integers.\<close>

theorem route_nets_legal:
  assumes "device_validate d = Inr ()" and "grid_ok (cols d) (rows d)" and "nets_ok nets"
    and "route_nets nets d budget solver opts = Inr routes"
  shows "list_all2 (legal_route d) nets routes \<and> loads_within d nets routes"
  using assms by (rule routed_legally)

definition demo_net :: RouteNet where
  "demo_net = \<lparr>net_src = (0, 0), net_dst = (1, 0), net_width = 8\<rparr>"

lemma demo_net_paths: "net_paths demo_device demo_net = [[(0, 0), (1, 0)], [(0, 0), (0, 1), (1, 1), (1, 0)]]"
  by (simp add: net_paths_def demo_net_def enumerate_paths_def demo_device_def MAX_DETOUR_def in_bounds_def Let_def
      visit_arrived visit_pruned visit_step manhattan_def next_cells_def wrap_def wrapping_sub_def abs_diff_def)

definition demo_solver :: Solver where
  "demo_solver lp opts = Inr \<lparr>status = Optimal, sol_objective = Finite 0, sol_values = [(0, Finite 0), (1, Finite 1), (2, Finite 0)]\<rparr>"

lemma demo_candidates: "candidates_for [demo_net] demo_device =
    Inr \<lparr>cand_sets = [[[(0, 0), (1, 0)], [(0, 0), (0, 1), (1, 1), (1, 0)]]], cand_of_net = [0]\<rparr>"
proof -
  have ok: "validate_path 0 demo_net p demo_device = Inr ()" if "p \<in> set (net_paths demo_device demo_net)" for p
    using that unfolding demo_net_paths
    by (auto simp: validate_path_def demo_net_def demo_device_def demo_slot_def device_slot_def windows2_def wrap_def abs_diff_def)
  then have "foldR (\<lambda>_ path. validate_path 0 demo_net path demo_device) () (net_paths demo_device demo_net) = Inr ()"
    by (simp add: foldR_checks_Inr)
  then show ?thesis using demo_net_paths
    by (simp add: candidates_for_def candidate_step_def bt_get_def net_paths_def)
qed

lemma demo_read:
  assumes "map_of (sol_values s) 1 = Some (Finite 1)" and "map_of (sol_values s) 2 = Some (Finite 0)"
  shows "read_one_of_k s [1, 2] = Inr 0"
proof -
  obtain t where t: "SOLUTION_TOLERANCE = Finite t" "0 < t" "t * 500000 \<le> 1" using tolerance by blast
  have num: "to_f64 0 = Finite 0" "to_f64 (- 1) = Finite (- 1)" using to_f64_near [of 0] to_f64_near [of "- 1"] rnd_minus [of 1] rnd_power [of 0] by simp_all
  have one: "near_one (Finite 1)" using t(2) by (simp add: near_one_def f64_sub_Finite t(1) num)
  have zero: "near_zero (Finite 0)" "\<not> near_one (Finite 0)"
    using t(2,3) by (simp_all add: near_zero_def near_one_def f64_sub_Finite t(1) num)
  show ?thesis unfolding read_one_of_k_Inr using assms one zero
    by (simp add: row_readable_def row_values_def binary_like_def)
qed

lemma demo_boundaries:
  "boundaries demo_device =
    [\<lparr>bd_a = (0, 0), bd_b = (1, 0), bd_capacity = Some 28\<rparr>, \<lparr>bd_a = (0, 0), bd_b = (0, 1), bd_capacity = Some 70\<rparr>,
     \<lparr>bd_a = (1, 0), bd_b = (1, 1), bd_capacity = Some 70\<rparr>, \<lparr>bd_a = (0, 1), bd_b = (1, 1), bd_capacity = Some 28\<rparr>]"
proof -
  have slot: "device_slot demo_device 0 0 = Some (demo_slot 0 0)" "device_slot demo_device 1 0 = Some (demo_slot 1 0)"
    "device_slot demo_device 0 1 = Some (demo_slot 0 1)" "device_slot demo_device 1 1 = Some (demo_slot 1 1)"
    by (simp_all add: device_slot_def demo_device_def demo_slot_def)
  have cap: "bounded_border_capacity 40 60 = Some 28" "bounded_border_capacity 100 100 = Some 70"
    by (simp_all add: bounded_border_capacity_def usable_wire_capacity_def WIRE_CAPACITY_INF_def wrap_def)
  have dim: "cols demo_device = 2" "rows demo_device = 2" by (simp_all add: demo_device_def)
  have two: "[0..<2] = [0, 1 :: nat]" by (simp add: numeral_2_eq_2)
  have w: "wire_cap (demo_slot x y) = \<lparr>north = 100, south = 100, east = 40, west = 60\<rparr>" for x y by (simp add: demo_slot_def)
  show ?thesis
    unfolding boundaries_def cell_boundaries_def dim two
    by (simp add: slot [simplified] w cap)
qed

definition demo_opts :: SolveOpts where
  "demo_opts = \<lparr>time_limit = None, threads = None, mip_gap_abs = None\<rparr>"

definition demo_cands :: Candidates where
  "demo_cands = \<lparr>cand_sets = [[[(0, 0), (1, 0)], [(0, 0), (0, 1), (1, 1), (1, 0)]]], cand_of_net = [0]\<rparr>"

lemma demo_iter: "cand_iter demo_cands = [[[(0, 0), (1, 0)], [(0, 0), (0, 1), (1, 1), (1, 0)]]]"
  by (simp add: cand_iter_def demo_cands_def)

lemma demo_model:
  assumes "route_model [demo_net] demo_cands (boundaries demo_device) budget = (lp, mx, pv)"
  shows "pv = [[1, 2]] \<and> \<not> vars_overflow lp"
proof -
  have lim: "utilisation_base (boundaries demo_device) = 1" by (simp add: utilisation_base_def demo_boundaries)
  have n: "length (cand_iter demo_cands) = length [demo_net]" and ks: "map length (cand_iter demo_cands) = [2]" by (simp_all add: demo_iter)
  obtain labels where l: "pv = map (var_block 1 [2]) [0..<length [demo_net]]"
      "vars lp = replicate 1 utilisation_var @ map binary_def labels" "length labels = sum_list [2]"
    using route_model_structure [OF assms n] unfolding lim ks by blast
  have "pv = [[1, 2]]" by (simp add: l(1) var_block_def upt_rec)
  moreover have "\<not> vars_overflow lp" by (simp add: vars_overflow_def l(2,3))
  ultimately show ?thesis ..
qed

lemma demo_inputs: "nets_ok [demo_net]" "grid_ok (cols demo_device) (rows demo_device)"
    "candidates_for [demo_net] demo_device = Inr demo_cands"
    "validate_within_capacity [demo_net] [[(0, 0), (1, 0)]] (boundaries demo_device) = Inr ()"
proof -
  show "nets_ok [demo_net]" "grid_ok (cols demo_device) (rows demo_device)"
    by (simp_all add: nets_ok_def demo_net_def fits_def grid_ok_def demo_device_def)
  show "candidates_for [demo_net] demo_device = Inr demo_cands" by (simp only: demo_candidates demo_cands_def)
  show "validate_within_capacity [demo_net] [[(0, 0), (1, 0)]] (boundaries demo_device) = Inr ()"
    by (simp add: validate_within_capacity_def demo_boundaries crossing_width_def path_crosses_def windows2_def demo_net_def wrap_def)
qed

lemma demo_routed: "route_nets [demo_net] demo_device budget demo_solver demo_opts = Inr [[(0, 0), (1, 0)]]"
proof -
  let ?route = "[(0, 0), (1, 0)] :: Cell list"
  obtain lp mx pv where m: "route_model [demo_net] demo_cands (boundaries demo_device) budget = (lp, mx, pv)" by (metis prod_cases3)
  have nets: "validate_nets [demo_net] demo_device = Inr ()"
    by (simp add: validate_nets_def demo_net_def demo_device_def demo_slot_def device_slot_def)
  have sel: "selected_routes demo_cands pv s = Inr [?route]"
    if "map_of (sol_values s) 1 = Some (Finite 1)" "map_of (sol_values s) 2 = Some (Finite 0)" for s
    using demo_read [OF that] demo_model [OF m] by (simp add: selected_routes_def demo_iter)
  show ?thesis
    using sel nets demo_model [OF m] demo_inputs(3,4)
    by (simp add: route_nets_def m demo_solver_def is_found_def refine_lexicographic_def refine_def Let_def)
qed

theorem route_nets_legal_witness:
  "route_nets [demo_net] demo_device None demo_solver demo_opts = Inr [[(0, 0), (1, 0)]] \<and> loads_within demo_device [demo_net] [[(0, 0), (1, 0)]]"
  using route_nets_legal [OF demo_device_valid demo_inputs(2,1) demo_routed [of None]] demo_routed by blast

end
