(* ===== verification/Fp_Pipeline.thy ===== *)
theory Fp_Pipeline
  imports Fp_Graph Fp_Route
begin

text \<open>
  \<^verbatim>\<open>tapa-core/tapa-floorplan/src/pipeline/plan.rs\<close>: which channels cross slot boundaries, the registers each routed channel
  leaves in the slots, and the accounting of the generated pipelines against the capacity of the slots.  An index out of range
  is \<open>Panicked\<close>; messages are constructors.
\<close>

section \<open>Data\<close>

datatype accounting_detail =
    NoMatchingReset
  | CombinedWidthOverflow
  | PlacementIncomplete
  | NoStreamMetadata
  | NoAxiMetadata
  | NoControlMetadata
  | NoHeadRegion
  | MissingPlacement string
  | EndpointDiffers string Cell Cell
  | BodyLevelOverflow
  | TailDepthOverflow
  | InconsistentStreamWidth
  | MissingBaseline Cell
  | EstimateNotContained Cell
  | CountOverflow Cell

datatype PipelineError =
    PipelineRouteError RouteError
  | BadRegion string
  | Accounting string accounting_detail
  | RealizedCapacity string string nat nat

record PlannedRoute =
  pl_channel :: RoutedChannel
  pl_route :: "Cell list"
  pl_scheme :: PipelineScheme
  pl_reg_regions :: "Cell list"

record PendingNet =
  pn_channel :: RoutedChannel
  pn_shared_channels :: "RoutedChannel option"
  pn_src :: Cell
  pn_dst :: Cell
  pn_width :: nat

type_synonym slot_usage = "(Cell, Area) btree"

section \<open>Registers of a route\<close>

text \<open>\<^verbatim>\<open>xs[1..xs.len() - 1]\<close> of a list of at least two elements.\<close>

definition inner :: "'a list \<Rightarrow> 'a list" where
  "inner xs = butlast (tl xs)"

definition bump :: "nat list \<Rightarrow> nat \<Rightarrow> nat list" where
  "bump m i = m[i := m ! i + 1]"

definition multiplicities :: "Cell list \<Rightarrow> nat list" where
  "multiplicities route =
     foldl (\<lambda>m (index, u, v). if snd u \<noteq> snd v then bump (bump m index) (index + 1) else m)
       (replicate (length route) 1) (List.enumerate 0 (windows2 route))"

fun pipeline_reg_cells :: "Cell list \<Rightarrow> PipelineScheme \<Rightarrow> Cell list" where
  "pipeline_reg_cells route scheme =
     (if length route < 2 then []
      else case scheme of
        Single \<Rightarrow> inner route
      | Double \<Rightarrow> concat (map (\<lambda>(u, v). [u, v]) (windows2 route))
      | SingleHDoubleV \<Rightarrow>
          inner (concat (map (\<lambda>(cell, count). replicate count cell) (zip route (multiplicities route)))))"

definition to_pipeline_route :: "PlannedRoute \<Rightarrow> PipelineRoute" where
  "to_pipeline_route p =
     \<lparr>pr_channel = pl_channel p, pr_route = map route_slot_tag (pl_route p), pr_scheme = pl_scheme p,
      pr_reg_regions = map route_slot_tag (pl_reg_regions p)\<rparr>"

section \<open>Channels that cross\<close>

definition crossing_cells :: "Cell list \<Rightarrow> nat \<Rightarrow> nat \<Rightarrow> PipelineError fault + (Cell \<times> Cell) option" where
  "crossing_cells regions src dst =
     (if src < length regions \<and> dst < length regions
      then Inr (if regions ! src \<noteq> regions ! dst then Some (regions ! src, regions ! dst) else None)
      else Inl Panicked)"

definition stream_net :: "Cell list \<Rightarrow> PendingNet list \<Rightarrow> Stream \<Rightarrow> PipelineError fault + PendingNet list" where
  "stream_net regions nets edge =
     bindR (crossing_cells regions (s_src edge) (s_dst edge)) (\<lambda>cells.
       case cells of
         None \<Rightarrow> Inr nets
       | Some (src, dst) \<Rightarrow> Inr (nets @ [\<lparr>pn_channel = RoutedChannel.Stream (s_link edge), pn_shared_channels = None,
             pn_src = src, pn_dst = dst, pn_width = s_width edge\<rparr>]))"

definition axi_net :: "Cell list \<Rightarrow> PendingNet list \<Rightarrow> AxiNet \<Rightarrow> PipelineError fault + PendingNet list" where
  "axi_net regions nets edge =
     bindR (crossing_cells regions (an_src edge) (an_dst edge)) (\<lambda>cells.
       case cells of
         None \<Rightarrow> Inr nets
       | Some (src, dst) \<Rightarrow> Inr (nets @ [\<lparr>pn_channel = Axi (an_endpoint edge) (an_bank edge) (an_channel edge), pn_shared_channels = None,
             pn_src = src, pn_dst = dst, pn_width = an_width edge\<rparr>]))"

definition matching_reset :: "FloorGraph \<Rightarrow> ControlNet \<Rightarrow> ControlNet option" where
  "matching_reset graph edge =
     find (\<lambda>candidate. cn_instance candidate = cn_instance edge \<and> cn_channel candidate = Reset \<and>
       cn_src candidate = cn_src edge \<and> cn_dst candidate = cn_dst edge) (control_nets graph)"

definition control_net :: "FloorGraph \<Rightarrow> Cell list \<Rightarrow> PendingNet list \<Rightarrow> ControlNet \<Rightarrow> PipelineError fault + PendingNet list" where
  "control_net graph regions nets edge =
     (if cn_channel edge = Reset then Inr nets
      else bindR (crossing_cells regions (cn_src edge) (cn_dst edge)) (\<lambda>cells.
        case cells of
          None \<Rightarrow> Inr nets
        | Some (src, dst) \<Rightarrow>
            bindR (if cn_channel edge = Launch
                   then bindR (ok_or (Err (Accounting (cn_instance edge) NoMatchingReset)) (matching_reset graph edge)) (\<lambda>reset.
                        bindR (ok_or (Err (Accounting (cn_instance edge) CombinedWidthOverflow))
                          (checked_add 32 (cn_width edge) (cn_width reset))) (\<lambda>width.
                          Inr (Some (Control (cn_instance reset) (cn_channel reset)), width)))
                   else Inr (None, cn_width edge)) (\<lambda>(shared, width).
              Inr (nets @ [\<lparr>pn_channel = Control (cn_instance edge) (cn_channel edge), pn_shared_channels = shared,
                 pn_src = src, pn_dst = dst, pn_width = width\<rparr>]))))"

definition cross_slot_nets :: "FloorGraph \<Rightarrow> Cell list \<Rightarrow> PipelineError fault + PendingNet list" where
  "cross_slot_nets graph regions =
     bindR (foldR (stream_net regions) [] (streams graph)) (\<lambda>nets.
     bindR (foldR (axi_net regions) nets (axi_nets graph)) (\<lambda>nets.
       foldR (control_net graph regions) nets (control_nets graph)))"

definition register_budgets :: "slot_usage \<Rightarrow> Device \<Rightarrow> f64 \<Rightarrow> (Cell, nat) btree" where
  "register_budgets baseline d logic_capacity_limit =
     bt_collect (map (\<lambda>slot.
       let capacity = ff (scaled_area (slot_area slot) logic_capacity_limit);
           placed = (case bt_get baseline (slot_x slot, slot_y slot) of None \<Rightarrow> 0 | Some area \<Rightarrow> ff area)
       in ((slot_x slot, slot_y slot), capacity - placed)) (slots d))"

definition pending_wire :: "PendingNet \<Rightarrow> RouteNet" where
  "pending_wire net = \<lparr>net_src = pn_src net, net_dst = pn_dst net, net_width = pn_width net\<rparr>"

definition planned_of :: "PipelineScheme \<Rightarrow> PendingNet \<times> Cell list \<Rightarrow> PlannedRoute list" where
  "planned_of scheme x =
     (case x of (net, route) \<Rightarrow>
        map (\<lambda>channel. \<lparr>pl_channel = channel, pl_route = route, pl_scheme = scheme, pl_reg_regions = pipeline_reg_cells route scheme\<rparr>)
          (pn_channel net # (case pn_shared_channels net of None \<Rightarrow> [] | Some c \<Rightarrow> [c])))"

definition map_fault :: "('e \<Rightarrow> 'f) \<Rightarrow> 'e fault \<Rightarrow> 'f fault" where
  "map_fault f e = (case e of Err x \<Rightarrow> Err (f x) | Panicked \<Rightarrow> Panicked)"

definition plan_routes :: "FloorGraph \<Rightarrow> Cell list \<Rightarrow> slot_usage \<Rightarrow> Device \<Rightarrow> PipelineScheme \<Rightarrow> f64 \<Rightarrow> Solver \<Rightarrow> SolveOpts
    \<Rightarrow> PipelineError fault + PlannedRoute list" where
  "plan_routes graph regions baseline d scheme logic_capacity_limit solver opts =
     (if length regions \<noteq> length (vertices graph) then Inl (Err (Accounting ''placement'' PlacementIncomplete))
      else bindR (cross_slot_nets graph regions) (\<lambda>nets.
        if nets = [] then Inr []
        else let input = map pending_wire nets;
                 budget = \<lparr>rb_bodies = (\<lambda>path. pipeline_reg_cells path scheme),
                           rb_available = register_budgets baseline d logic_capacity_limit\<rparr>
             in bindR (map_err (map_fault PipelineRouteError) (route_nets input d (Some budget) solver opts)) (\<lambda>routes.
                  Inr (concat (map (planned_of scheme) (zip nets routes))))))"

section \<open>Accounting\<close>

definition accounting_error :: "string \<Rightarrow> accounting_detail \<Rightarrow> PipelineError fault" where
  "accounting_error link detail = Err (Accounting link detail)"

definition subtract_usage :: "slot_usage \<Rightarrow> Cell \<Rightarrow> Area \<Rightarrow> string \<Rightarrow> PipelineError fault + slot_usage" where
  "subtract_usage usage region area link =
     bindR (ok_or (accounting_error link (MissingBaseline region)) (bt_get usage region)) (\<lambda>current.
     bindR (ok_or (accounting_error link (EstimateNotContained region)) (area_checked_sub current area)) (\<lambda>rest.
       Inr (bt_insert region rest usage)))"

definition add_usage :: "slot_usage \<Rightarrow> Cell \<Rightarrow> Area \<Rightarrow> string \<Rightarrow> PipelineError fault + slot_usage" where
  "add_usage usage region area link =
     (let current = (case bt_get usage region of None \<Rightarrow> Area_default | Some a \<Rightarrow> a) in
      bindR (ok_or (accounting_error link (CountOverflow region)) (area_checked_add current area)) (\<lambda>more.
        Inr (bt_insert region more usage)))"

definition register_area :: "nat \<Rightarrow> nat \<Rightarrow> Area" where
  "register_area width luts = Area_default\<lparr>lut := luts, ff := width\<rparr>"

definition account_head_and_body :: "slot_usage \<Rightarrow> Cell \<Rightarrow> Cell list \<Rightarrow> nat \<Rightarrow> nat \<Rightarrow> string \<Rightarrow> PipelineError fault + slot_usage" where
  "account_head_and_body usage head bodies width head_luts link =
     bindR (add_usage usage head (register_area width head_luts) link) (\<lambda>usage.
       foldR (\<lambda>usage region. add_usage usage region (register_area width 0) link) usage bodies)"

definition verify_route_endpoint :: "FloorGraph \<Rightarrow> Cell list \<Rightarrow> nat \<Rightarrow> Cell \<Rightarrow> string \<Rightarrow> string \<Rightarrow> PipelineError fault + unit" where
  "verify_route_endpoint graph regions vertex route_region link endpoint =
     (if vertex < length (vertices graph) then
        (if vertex < length regions
         then check (regions ! vertex = route_region) (accounting_error link (EndpointDiffers endpoint route_region (regions ! vertex)))
         else Inl (accounting_error link (MissingPlacement (v_name (vertices graph ! vertex)))))
      else Inl Panicked)"

text \<open>A route with a first region has a last one, so the second check of \<^verbatim>\<open>route_endpoints\<close> cannot fail.\<close>

definition route_endpoints :: "FloorGraph \<Rightarrow> Cell list \<Rightarrow> PlannedRoute \<Rightarrow> nat \<Rightarrow> nat \<Rightarrow> string \<Rightarrow> PipelineError fault + Cell \<times> Cell" where
  "route_endpoints graph regions route src dst link =
     (if pl_route route = [] then Inl (accounting_error link NoHeadRegion)
      else let head = hd (pl_route route); tail = last (pl_route route) in
        bindR (verify_route_endpoint graph regions src head link ''Head'') (\<lambda>_.
        bindR (verify_route_endpoint graph regions dst tail link ''Tail'') (\<lambda>_.
          Inr (head, tail))))"

definition account_control_pipeline :: "slot_usage \<Rightarrow> FloorGraph \<Rightarrow> Cell list \<Rightarrow> PlannedRoute \<Rightarrow> ControlNet \<Rightarrow> string \<Rightarrow> PipelineError fault + slot_usage" where
  "account_control_pipeline usage graph regions route net link =
     bindR (route_endpoints graph regions route (cn_src net) (cn_dst net) link) (\<lambda>(head, tail).
     bindR (account_head_and_body usage head (pl_reg_regions route) (cn_width net) 0 link) (\<lambda>usage.
       add_usage usage tail (register_area (cn_width net) 0) link))"

definition body_level :: "PlannedRoute \<Rightarrow> string \<Rightarrow> PipelineError fault + nat" where
  "body_level route link =
     (if fits 32 (length (pl_reg_regions route)) then Inr (length (pl_reg_regions route)) else Inl (accounting_error link BodyLevelOverflow))"

definition account_axi_pipeline :: "slot_usage \<Rightarrow> FloorGraph \<Rightarrow> Cell list \<Rightarrow> PlannedRoute \<Rightarrow> AxiNet \<Rightarrow> string \<Rightarrow> PipelineError fault + slot_usage" where
  "account_axi_pipeline usage graph regions route net link =
     bindR (route_endpoints graph regions route (an_src net) (an_dst net) link) (\<lambda>(head, tail).
     bindR (body_level route link) (\<lambda>level.
     bindR (ok_or (accounting_error link TailDepthOverflow) (Option.bind (checked_mul 32 level 2) (\<lambda>l. checked_add 32 l 8))) (\<lambda>real_depth.
     bindR (add_usage usage tail (fifo_area (an_payload_width net) real_depth) link) (\<lambda>usage.
       account_head_and_body usage head (pl_reg_regions route) (an_width net) 1 link))))"

definition account_stream_pipeline :: "slot_usage \<Rightarrow> FloorGraph \<Rightarrow> Cell list \<Rightarrow> PlannedRoute \<Rightarrow> Stream \<Rightarrow> string \<Rightarrow> PipelineError fault + slot_usage" where
  "account_stream_pipeline usage graph regions route stream fifo =
     bindR (route_endpoints graph regions route (s_src stream) (s_dst stream) fifo) (\<lambda>(head, tail).
     bindR (subtract_usage usage tail (fifo_area (s_data_width stream) (floorplanned_fifo_storage_depth (s_depth stream))) fifo) (\<lambda>usage.
     bindR (body_level route fifo) (\<lambda>level.
     bindR (ok_or (accounting_error fifo TailDepthOverflow) (Option.bind (checked_mul 32 level 2) (\<lambda>l. checked_add 32 l 6))) (\<lambda>extra_depth.
     bindR (ok_or (accounting_error fifo TailDepthOverflow) (checked_add 32 (s_depth stream) extra_depth)) (\<lambda>real_depth.
     bindR (add_usage usage tail (fifo_area (s_data_width stream) real_depth) fifo) (\<lambda>usage.
     bindR (ok_or (accounting_error fifo InconsistentStreamWidth)
         (Option.bind (checked_add 32 (s_data_width stream) 2) (\<lambda>w. if w = s_width stream then Some w else None))) (\<lambda>register_width.
       account_head_and_body usage head (pl_reg_regions route) register_width 1 fifo)))))))"

fun axi_debug_name :: "AxiChannel \<Rightarrow> string" where
  "axi_debug_name ReadAddress = ''ReadAddress''"
| "axi_debug_name ReadData = ''ReadData''"
| "axi_debug_name WriteAddress = ''WriteAddress''"
| "axi_debug_name WriteData = ''WriteData''"
| "axi_debug_name WriteResponse = ''WriteResponse''"

text \<open>Collecting the streams into a map keeps the last stream of a name.\<close>

definition account_route :: "FloorGraph \<Rightarrow> Cell list \<Rightarrow> slot_usage \<Rightarrow> PlannedRoute \<Rightarrow> PipelineError fault + slot_usage" where
  "account_route graph regions usage route =
     (case pl_channel route of
        RoutedChannel.Stream fifo \<Rightarrow>
          bindR (ok_or (Err (Accounting fifo NoStreamMetadata)) (map_of (rev (map (\<lambda>s. (s_link s, s)) (streams graph))) fifo)) (\<lambda>stream.
            account_stream_pipeline usage graph regions route stream fifo)
      | Axi endpoint bank channel \<Rightarrow>
          (let link = axi_instance endpoint @ ''.'' @ axi_port endpoint @ '' '' @ axi_debug_name channel in
           bindR (ok_or (accounting_error link NoAxiMetadata)
               (find (\<lambda>net. an_endpoint net = endpoint \<and> an_bank net = bank \<and> an_channel net = channel) (axi_nets graph))) (\<lambda>net.
             account_axi_pipeline usage graph regions route net link))
      | Control inst channel \<Rightarrow>
          (let link = inst @ '' '' @ control_rtl_name channel in
           bindR (ok_or (accounting_error link NoControlMetadata)
               (find (\<lambda>net. cn_instance net = inst \<and> cn_channel net = channel) (control_nets graph))) (\<lambda>net.
             account_control_pipeline usage graph regions route net link)))"

definition check_cell_usage :: "Device \<Rightarrow> f64 \<Rightarrow> f64 \<Rightarrow> Cell \<times> Area \<Rightarrow> PipelineError fault + unit" where
  "check_cell_usage d logic_capacity_limit block_capacity_limit entry =
     (case entry of ((x, y), used_area) \<Rightarrow>
      (let coor = Coor_slot x y in
       bindR (ok_or (Err (BadRegion (region_name coor))) (island_area d coor)) (\<lambda>capacity.
         let logic_limit = scaled_area capacity logic_capacity_limit; block_limit = scaled_area capacity block_capacity_limit
         in foldR (\<lambda>_ resource.
              if \<not> plans_resource d resource then Inr ()
              else let used = amount resource used_area;
                       allowed = (if is_logic resource then amount resource logic_limit else amount resource block_limit)
                   in check (used \<le> allowed) (Err (RealizedCapacity (region_name coor) (resource_name resource) used allowed)))
              () Resource_ALL)))"

definition validate_realized_usage :: "slot_usage \<Rightarrow> Device \<Rightarrow> f64 \<Rightarrow> f64 \<Rightarrow> PipelineError fault + unit" where
  "validate_realized_usage usage d logic_capacity_limit block_capacity_limit =
     foldR (\<lambda>_. check_cell_usage d logic_capacity_limit block_capacity_limit) () usage"

definition realize_slot_usage_with_resource_caps :: "FloorGraph \<Rightarrow> Cell list \<Rightarrow> slot_usage \<Rightarrow> PlannedRoute list \<Rightarrow> Device \<Rightarrow> f64 \<Rightarrow> f64
    \<Rightarrow> PipelineError fault + slot_usage" where
  "realize_slot_usage_with_resource_caps graph regions baseline routes d logic_capacity_limit block_capacity_limit =
     bindR (foldR (account_route graph regions) baseline routes) (\<lambda>usage.
     bindR (validate_realized_usage usage d logic_capacity_limit block_capacity_limit) (\<lambda>_. Inr usage))"

definition realize_slot_usage :: "FloorGraph \<Rightarrow> Cell list \<Rightarrow> slot_usage \<Rightarrow> PlannedRoute list \<Rightarrow> Device \<Rightarrow> f64 \<Rightarrow> PipelineError fault + slot_usage" where
  "realize_slot_usage graph regions baseline routes d capacity_limit =
     realize_slot_usage_with_resource_caps graph regions baseline routes d capacity_limit capacity_limit"

section \<open>Registers per cell\<close>

text \<open>
  The reference count: a cell of a route holds a register per adjacent hop under \<open>Double\<close>; otherwise one if it is not an
  endpoint, and under \<open>SingleHDoubleV\<close> one more per adjacent hop that changes the row.
\<close>

definition hops_at :: "(Cell \<Rightarrow> Cell \<Rightarrow> bool) \<Rightarrow> Cell list \<Rightarrow> nat \<Rightarrow> nat" where
  "hops_at P route i =
     of_bool (0 < i \<and> i < length route \<and> P (route ! (i - 1)) (route ! i)) +
     of_bool (i + 1 < length route \<and> P (route ! i) (route ! (i + 1)))"

fun regs_at :: "PipelineScheme \<Rightarrow> Cell list \<Rightarrow> nat \<Rightarrow> nat" where
  "regs_at Single route i = of_bool (0 < i \<and> i + 1 < length route)"
| "regs_at Double route i = hops_at (\<lambda>_ _. True) route i"
| "regs_at SingleHDoubleV route i = of_bool (0 < i \<and> i + 1 < length route) + hops_at (\<lambda>u v. snd u \<noteq> snd v) route i"

definition spread :: "(nat \<Rightarrow> nat) \<Rightarrow> 'a list \<Rightarrow> 'a list" where
  "spread n xs = concat (map (\<lambda>i. replicate (n i) (xs ! i)) [0..<length xs])"

lemma spread_cong: "(\<And>i. i < length xs \<Longrightarrow> f i = g i) \<Longrightarrow> spread f xs = spread g xs"
  unfolding spread_def by (intro arg_cong [where f = concat] map_cong) auto

lemma spread_Cons: "spread n (x # xs) = replicate (n 0) x @ spread (\<lambda>i. n (Suc i)) xs"
  unfolding spread_def by (simp add: upt_conv_Cons map_Suc_upt [symmetric] comp_def del: upt_Suc)

lemma spread_snoc: "spread n (xs @ [x]) = spread n xs @ replicate (n (length xs)) x"
  unfolding spread_def by (auto simp: nth_append intro!: arg_cong [where f = concat] map_cong)

lemma spread_id: "spread (\<lambda>_. 1) xs = xs"
  by (induction xs) (simp_all add: spread_Cons, simp add: spread_def)

lemma two_ends:
  assumes "2 \<le> length xs"
  obtains x ys y where "xs = x # ys @ [y]"
  using assms by (cases xs; cases "tl xs" rule: rev_cases) auto

lemma inner_spread:
  assumes "2 \<le> length xs" and "0 < n 0" and "0 < n (length xs - 1)"
  shows "inner (spread n xs) = spread (\<lambda>i. if i = 0 \<or> i = length xs - 1 then n i - 1 else n i) xs"
proof -
  obtain x ys y where xs: "xs = x # ys @ [y]" using assms(1) by (rule two_ends)
  obtain a b where ab: "n 0 = Suc a" "n (Suc (length ys)) = Suc b" using assms(2,3) xs by (auto simp: gr0_conv_Suc)
  have "spread (\<lambda>i. n (Suc i)) ys = spread (\<lambda>i. if Suc i = 0 \<or> i = length ys then n (Suc i) - 1 else n (Suc i)) ys"
    by (rule spread_cong) simp
  moreover have "inner (replicate (Suc a) x @ zs @ replicate (Suc b) y) = replicate a x @ zs @ replicate b y" for zs
  proof -
    have "butlast (replicate (Suc b) y) = replicate b y" by (induction b) auto
    then show ?thesis by (simp add: inner_def butlast_append)
  qed
  ultimately show ?thesis by (simp add: xs spread_Cons spread_snoc ab del: replicate_Suc)
qed

lemma zip_spread: "length ns = length xs \<Longrightarrow> concat (map (\<lambda>(x, n). replicate n x) (zip xs ns)) = spread ((!) ns) xs"
proof (induction xs arbitrary: ns)
  case (Cons x xs)
  then show ?case by (cases ns) (auto simp: spread_Cons)
qed (simp add: spread_def)

lemma double_spread: "concat (map (\<lambda>(u, v). [u, v]) (windows2 route)) = spread (hops_at (\<lambda>_ _. True) route) route"
proof (induction route)
  case (Cons u route)
  show ?case
  proof (cases route)
    case (Cons v vs)
    have "spread (\<lambda>i. hops_at (\<lambda>_ _. True) (u # route) (Suc i)) route = v # spread (hops_at (\<lambda>_ _. True) route) route"
      by (simp add: Cons spread_Cons hops_at_def)
    then show ?thesis using Cons.IH Cons by (simp add: spread_Cons [of _ u] windows2_def hops_at_def [of _ _ 0])
  qed (simp add: windows2_def spread_def hops_at_def)
qed (simp add: windows2_def spread_def)

lemma multiplicities_fold:
  assumes "k + length ws < length m" and "i < length m"
  defines "f \<equiv> \<lambda>m (index, u, v). if snd u \<noteq> snd v then bump (bump m index) (index + 1) else m"
  shows "length (foldl f m (List.enumerate k ws)) = length m \<and>
    foldl f m (List.enumerate k ws) ! i = m ! i
      + of_bool (k \<le> i \<and> i < k + length ws \<and> snd (fst (ws ! (i - k))) \<noteq> snd (snd (ws ! (i - k))))
      + of_bool (k < i \<and> i \<le> k + length ws \<and> snd (fst (ws ! (i - 1 - k))) \<noteq> snd (snd (ws ! (i - 1 - k))))"
  using assms(1,2)
proof (induction ws arbitrary: k m)
  case (Cons w ws)
  obtain u v where w: "w = (u, v)" by (cases w)
  have len: "length (f m (k, u, v)) = length m" by (simp add: f_def bump_def)
  have step: "f m (k, u, v) ! i = m ! i + of_bool (snd u \<noteq> snd v \<and> (i = k \<or> i = k + 1))"
    using Cons.prems by (auto simp: f_def bump_def nth_list_update)
  note IH = Cons.IH [of "Suc k" "f m (k, u, v)", unfolded len]
  show ?case using IH Cons.prems step
    by (cases "i \<le> k"; cases "i = Suc k") (auto simp: w nth_Cons' Suc_diff_le Suc_le_eq le_Suc_eq)
qed simp

lemma multiplicities_nth:
  assumes "2 \<le> length route" and "i < length route"
  shows "length (multiplicities route) = length route"
    and "multiplicities route ! i = 1 + hops_at (\<lambda>u v. snd u \<noteq> snd v) route i"
proof -
  have w: "length (windows2 route) = length route - 1" "\<And>j. j + 1 < length route \<Longrightarrow> windows2 route ! j = (route ! j, route ! (j + 1))"
    by (auto simp: windows2_def nth_tl)
  note fold = multiplicities_fold [of 0 "windows2 route" "replicate (length route) 1" i, folded multiplicities_def]
  show "length (multiplicities route) = length route" using fold assms w(1) by simp
  show "multiplicities route ! i = 1 + hops_at (\<lambda>u v. snd u \<noteq> snd v) route i"
    using fold assms w by (auto simp: hops_at_def)
qed

lemma reg_cells_spread: "pipeline_reg_cells route scheme = spread (regs_at scheme route) route"
proof (cases "length route < 2")
  case True
  then have "regs_at scheme route i = 0" for i by (cases scheme) (auto simp: hops_at_def)
  then show ?thesis using True by (simp add: spread_def)
next
  case False
  then have two: "2 \<le> length route" by simp
  note ends = inner_spread [OF two]
  show ?thesis
  proof (cases scheme)
    case Single
    have "inner route = inner (spread (\<lambda>_. 1) route)" by (simp only: spread_id)
    also have "\<dots> = spread (\<lambda>i. if i = 0 \<or> i = length route - 1 then 1 - 1 else 1) route" by (rule ends) simp_all
    also have "\<dots> = spread (regs_at Single route) route" using two by (intro spread_cong) auto
    finally show ?thesis using False by (simp add: Single)
  next
    case SingleHDoubleV
    note m = multiplicities_nth [OF two]
    have "length (multiplicities route) = length route" using two by (intro m(1)) auto
    moreover have "inner (spread ((!) (multiplicities route)) route) = spread (regs_at SingleHDoubleV route) route"
    proof (subst ends)
      show "0 < multiplicities route ! 0" "0 < multiplicities route ! (length route - 1)" using two by (subst m(2); force)+
    qed (use two in \<open>auto simp: m(2) intro!: spread_cong\<close>)
    ultimately show ?thesis using False by (simp add: SingleHDoubleV zip_spread)
  qed (use False in \<open>auto simp: double_spread intro: spread_cong\<close>)
qed

text \<open>C31: The registers a route leaves in the slots are exactly those of the scheme: each cell of the route, in order, holds one
  register if it is not an endpoint (Single), one per adjacent hop (Double), or one if it is not an endpoint and one more per
  adjacent vertical hop (SingleHDoubleV).\<close>

theorem pipeline_registers_exact:
  "pipeline_reg_cells route scheme = spread (regs_at scheme route) route"
  by (rule reg_cells_spread)

section \<open>Conservation of resources\<close>

definition usage_at :: "slot_usage \<Rightarrow> Cell \<Rightarrow> Area" where
  "usage_at usage c = (case bt_get usage c of None \<Rightarrow> Area_default | Some a \<Rightarrow> a)"

text \<open>What a list of placed areas adds to a resource of a cell.\<close>

definition placed :: "Resource \<Rightarrow> Cell \<Rightarrow> (Cell \<times> Area) list \<Rightarrow> nat" where
  "placed r c parts = (\<Sum>(cell, area) \<leftarrow> parts. if cell = c then amount r area else 0)"

definition moved :: "slot_usage \<Rightarrow> (Cell \<times> Area) list \<Rightarrow> (Cell \<times> Area) list \<Rightarrow> slot_usage \<Rightarrow> bool" where
  "moved usage added removed usage' \<longleftrightarrow>
     (\<forall>r c. amount r (usage_at usage' c) + placed r c removed = amount r (usage_at usage c) + placed r c added)"

text \<open>The hardware of a routed channel: the Head and Body registers, the Tail, and for a stream the FIFO it replaces.\<close>

definition registers :: "PlannedRoute \<Rightarrow> nat \<Rightarrow> nat \<Rightarrow> (Cell \<times> Area) list" where
  "registers route width luts =
     (hd (pl_route route), register_area width luts) # map (\<lambda>c. (c, register_area width 0)) (pl_reg_regions route)"

definition tail_of :: "PlannedRoute \<Rightarrow> Area \<Rightarrow> Cell \<times> Area" where
  "tail_of route area = (last (pl_route route), area)"

definition stream_of :: "FloorGraph \<Rightarrow> string \<Rightarrow> Stream option" where
  "stream_of graph fifo = map_of (rev (map (\<lambda>s. (s_link s, s)) (streams graph))) fifo"

definition axi_of :: "FloorGraph \<Rightarrow> AxiEndpoint \<Rightarrow> MemoryBank \<Rightarrow> AxiChannel \<Rightarrow> AxiNet option" where
  "axi_of graph endpoint bank channel =
     find (\<lambda>net. an_endpoint net = endpoint \<and> an_bank net = bank \<and> an_channel net = channel) (axi_nets graph)"

definition control_of :: "FloorGraph \<Rightarrow> string \<Rightarrow> ControlChannel \<Rightarrow> ControlNet option" where
  "control_of graph inst channel = find (\<lambda>net. cn_instance net = inst \<and> cn_channel net = channel) (control_nets graph)"

definition hardware_added :: "FloorGraph \<Rightarrow> PlannedRoute \<Rightarrow> (Cell \<times> Area) list" where
  "hardware_added graph route =
     (case pl_channel route of
        RoutedChannel.Stream fifo \<Rightarrow>
          (case stream_of graph fifo of None \<Rightarrow> [] | Some s \<Rightarrow>
             tail_of route (fifo_area (s_data_width s) (s_depth s + 2 * length (pl_reg_regions route) + 6)) # registers route (s_width s) 1)
      | Axi endpoint bank channel \<Rightarrow>
          (case axi_of graph endpoint bank channel of None \<Rightarrow> [] | Some net \<Rightarrow>
             tail_of route (fifo_area (an_payload_width net) (2 * length (pl_reg_regions route) + 8)) # registers route (an_width net) 1)
      | Control inst channel \<Rightarrow>
          (case control_of graph inst channel of None \<Rightarrow> [] | Some net \<Rightarrow>
             registers route (cn_width net) 0 @ [tail_of route (register_area (cn_width net) 0)]))"

definition hardware_removed :: "FloorGraph \<Rightarrow> PlannedRoute \<Rightarrow> (Cell \<times> Area) list" where
  "hardware_removed graph route =
     (case pl_channel route of
        RoutedChannel.Stream fifo \<Rightarrow>
          (case stream_of graph fifo of None \<Rightarrow> [] | Some s \<Rightarrow>
             [tail_of route (fifo_area (s_data_width s) (floorplanned_fifo_storage_depth (s_depth s)))])
      | _ \<Rightarrow> [])"

lemma placed_simps [simp]:
  "placed r c [] = 0"
  "placed r c ((cell, area) # parts) = (if cell = c then amount r area else 0) + placed r c parts"
  "placed r c (xs @ ys) = placed r c xs + placed r c ys"
  by (simp_all add: placed_def)

lemma moved_refl: "moved usage [] [] usage"
  by (simp add: moved_def)

lemma moved_trans: "moved u a1 r1 v \<Longrightarrow> moved v a2 r2 w \<Longrightarrow> moved u (a1 @ a2) (r1 @ r2) w"
  unfolding moved_def placed_simps by (metis (no_types, lifting) add.assoc add.commute add.left_commute)

lemma usage_at_insert: "usage_at (bt_insert c a usage) c' = (if c' = c then a else usage_at usage c')"
  by (simp add: usage_at_def bt_get_insert)

lemma add_usage_moved:
  assumes "add_usage usage c area link = Inr usage'"
  shows "moved usage [(c, area)] [] usage'"
  using assms unfolding add_usage_def usage_at_def [symmetric]
  by (auto simp: moved_def Let_def bindR_eq_Inr area_add_Some usage_at_insert split: option.splits)

lemma subtract_usage_moved:
  assumes "subtract_usage usage c area link = Inr usage'"
  shows "moved usage [] [(c, area)] usage'"
proof -
  obtain current rest where "bt_get usage c = Some current" "area_checked_sub current area = Some rest" "usage' = bt_insert c rest usage"
    using assms by (auto simp: subtract_usage_def bindR_eq_Inr)
  moreover from this have "usage_at usage c = current" by (simp add: usage_at_def)
  ultimately show ?thesis by (auto simp: moved_def usage_at_insert area_sub_Some)
qed

lemma head_and_body_moved:
  assumes "account_head_and_body usage head bodies width luts link = Inr usage'"
  shows "moved usage ((head, register_area width luts) # map (\<lambda>c. (c, register_area width 0)) bodies) [] usage'"
proof -
  have bodies: "foldR (\<lambda>usage region. add_usage usage region a link) u bs = Inr u' \<Longrightarrow> moved u (map (\<lambda>c. (c, a)) bs) [] u'" for a u u' bs
  proof (induction bs arbitrary: u)
    case (Cons b bs)
    then obtain v where "add_usage u b a link = Inr v" "moved v (map (\<lambda>c. (c, a)) bs) [] u'" by (auto simp: bindR_eq_Inr)
    then show ?case using moved_trans [OF add_usage_moved] by fastforce
  qed (simp add: moved_refl)
  show ?thesis using assms bodies moved_trans [OF add_usage_moved] by (fastforce simp: account_head_and_body_def bindR_eq_Inr)
qed

lemma route_endpoints_Inr:
  assumes "route_endpoints graph regions route src dst link = Inr (head, tail)"
  shows "pl_route route \<noteq> []" "head = hd (pl_route route)" "tail = last (pl_route route)"
    "src < length regions" "dst < length regions" "regions ! src = head" "regions ! dst = tail"
  using assms by (auto simp: route_endpoints_def verify_route_endpoint_def bindR_eq_Inr check_def Let_def split: if_splits)

lemma control_moved:
  assumes "account_control_pipeline usage graph regions route net link = Inr usage'"
  shows "moved usage (registers route (cn_width net) 0 @ [tail_of route (register_area (cn_width net) 0)]) [] usage'"
proof -
  obtain head tail v where e: "route_endpoints graph regions route (cn_src net) (cn_dst net) link = Inr (head, tail)"
    and v: "account_head_and_body usage head (pl_reg_regions route) (cn_width net) 0 link = Inr v"
    and w: "add_usage v tail (register_area (cn_width net) 0) link = Inr usage'"
    using assms by (auto simp: account_control_pipeline_def bindR_eq_Inr)
  show ?thesis using moved_trans [OF head_and_body_moved [OF v] add_usage_moved [OF w]] route_endpoints_Inr [OF e]
    by (simp add: registers_def tail_of_def)
qed

lemma checked_Some: "checked_mul n a b = Some c \<Longrightarrow> c = a * b" "checked_add n a b = Some c \<Longrightarrow> c = a + b"
  by (auto simp: checked_mul_def checked_add_def split: if_splits)

lemma body_level_Inr: "body_level route link = Inr level \<Longrightarrow> level = length (pl_reg_regions route)"
  by (simp add: body_level_def split: if_splits)

lemma axi_moved:
  assumes "account_axi_pipeline usage graph regions route net link = Inr usage'"
  shows "moved usage (tail_of route (fifo_area (an_payload_width net) (2 * length (pl_reg_regions route) + 8)) # registers route (an_width net) 1) [] usage'"
proof -
  obtain head tail level l real_depth v where e: "route_endpoints graph regions route (an_src net) (an_dst net) link = Inr (head, tail)"
    and "body_level route link = Inr level" "checked_mul 32 level 2 = Some l" "checked_add 32 l 8 = Some real_depth"
    and v: "add_usage usage tail (fifo_area (an_payload_width net) real_depth) link = Inr v"
    and w: "account_head_and_body v head (pl_reg_regions route) (an_width net) 1 link = Inr usage'"
    using assms by (auto simp: account_axi_pipeline_def bindR_eq_Inr bind_eq_Some_conv)
  then have "real_depth = 2 * length (pl_reg_regions route) + 8" by (auto dest!: checked_Some body_level_Inr)
  then show ?thesis using moved_trans [OF add_usage_moved [OF v] head_and_body_moved [OF w]] route_endpoints_Inr [OF e]
    by (simp add: registers_def tail_of_def)
qed

lemma stream_moved:
  assumes "account_stream_pipeline usage graph regions route s fifo = Inr usage'"
  shows "moved usage (tail_of route (fifo_area (s_data_width s) (s_depth s + 2 * length (pl_reg_regions route) + 6)) # registers route (s_width s) 1)
    [tail_of route (fifo_area (s_data_width s) (floorplanned_fifo_storage_depth (s_depth s)))] usage'"
proof -
  obtain head tail u level l extra real_depth v where e: "route_endpoints graph regions route (s_src s) (s_dst s) fifo = Inr (head, tail)"
    and u: "subtract_usage usage tail (fifo_area (s_data_width s) (floorplanned_fifo_storage_depth (s_depth s))) fifo = Inr u"
    and "body_level route fifo = Inr level" "checked_mul 32 level 2 = Some l" "checked_add 32 l 6 = Some extra"
      "checked_add 32 (s_depth s) extra = Some real_depth"
    and v: "add_usage u tail (fifo_area (s_data_width s) real_depth) fifo = Inr v"
    and w: "account_head_and_body v head (pl_reg_regions route) (s_width s) 1 fifo = Inr usage'"
    using assms by (auto simp: account_stream_pipeline_def bindR_eq_Inr bind_eq_Some_conv split: if_splits)
  then have "real_depth = s_depth s + 2 * length (pl_reg_regions route) + 6" by (auto dest!: checked_Some body_level_Inr)
  then show ?thesis
    using moved_trans [OF moved_trans [OF subtract_usage_moved [OF u] add_usage_moved [OF v]] head_and_body_moved [OF w]] route_endpoints_Inr [OF e]
    by (simp add: registers_def tail_of_def)
qed

lemma account_route_moved:
  assumes "account_route graph regions usage route = Inr usage'"
  shows "moved usage (hardware_added graph route) (hardware_removed graph route) usage'"
  using assms unfolding account_route_def hardware_added_def hardware_removed_def stream_of_def axi_of_def control_of_def
  by (auto simp: bindR_eq_Inr Let_def stream_moved [unfolded One_nat_def] axi_moved [unfolded One_nat_def] control_moved split: RoutedChannel.splits)

lemma account_routes_moved:
  "foldR (account_route graph regions) usage routes = Inr usage' \<Longrightarrow>
   moved usage (concat (map (hardware_added graph) routes)) (concat (map (hardware_removed graph) routes)) usage'"
proof (induction routes arbitrary: usage)
  case (Cons route routes)
  then obtain v where "account_route graph regions usage route = Inr v"
    "moved v (concat (map (hardware_added graph) routes)) (concat (map (hardware_removed graph) routes)) usage'"
    by (auto simp: bindR_eq_Inr)
  then show ?case using moved_trans [OF account_route_moved] by simp
qed (simp add: moved_refl)

lemma validate_realized_Inr:
  assumes "validate_realized_usage usage d logic block = Inr ()" and "bt_get usage c = Some area"
  shows "\<exists>cap. island_area d (Coor_slot (fst c) (snd c)) = Some cap \<and>
    (\<forall>r. plans_resource d r \<longrightarrow> amount r area \<le> scaled_amount (amount r cap) (if is_logic r then logic else block))"
proof -
  have "check_cell_usage d logic block (c, area) = Inr ()"
    using assms(1) bt_get_Some_in [OF assms(2)] by (auto simp: validate_realized_usage_def foldR_checks_Inr)
  then obtain cap where "island_area d (Coor_slot (fst c) (snd c)) = Some cap"
    and "\<And>r. plans_resource d r \<Longrightarrow> amount r area \<le> amount r (scaled_area cap (if is_logic r then logic else block))"
    by (cases c) (force simp: check_cell_usage_def bindR_eq_Inr Let_def foldR_checks_Inr check_def all_Resource split: if_splits)
  then show ?thesis by (auto simp: scaled_area_def)
qed

definition within_limits :: "Device \<Rightarrow> f64 \<Rightarrow> f64 \<Rightarrow> slot_usage \<Rightarrow> bool" where
  "within_limits d logic block usage \<longleftrightarrow>
     (\<forall>c area. bt_get usage c = Some area \<longrightarrow>
        (\<exists>cap. island_area d (Coor_slot (fst c) (snd c)) = Some cap \<and>
          (\<forall>r. plans_resource d r \<longrightarrow> amount r area \<le> scaled_amount (amount r cap) (if is_logic r then logic else block))))"

lemma usage_realized:
  assumes "realize_slot_usage_with_resource_caps graph regions baseline routes d logic block = Inr usage"
  shows "moved baseline (concat (map (hardware_added graph) routes)) (concat (map (hardware_removed graph) routes)) usage \<and>
    within_limits d logic block usage"
proof -
  have "foldR (account_route graph regions) baseline routes = Inr usage" "validate_realized_usage usage d logic block = Inr ()"
    using assms by (auto simp: realize_slot_usage_with_resource_caps_def bindR_eq_Inr)
  then show ?thesis unfolding within_limits_def using account_routes_moved validate_realized_Inr by blast
qed

text \<open>C30: When the accounting of the generated pipelines succeeds, resources are conserved in every slot: the realized usage plus
  the FIFO estimates of the routed streams is the placed usage plus exactly the Head and Body registers and the Tail of every
  routed channel; and no slot exceeds its derated capacity in any planned resource.\<close>

theorem realized_usage_exact:
  assumes "realize_slot_usage_with_resource_caps graph regions baseline routes d logic block = Inr usage"
  shows "moved baseline (concat (map (hardware_added graph) routes)) (concat (map (hardware_removed graph) routes)) usage \<and>
    within_limits d logic block usage"
  using assms by (rule usage_realized)

definition demo_stream :: Stream where
  "demo_stream = \<lparr>s_link = ''q'', s_src = 0, s_dst = 1, s_width = 8, s_data_width = 6, s_depth = 2\<rparr>"

definition demo_vertex :: "string \<Rightarrow> Vertex" where
  "demo_vertex name = \<lparr>v_name = name, v_area = Area_default\<lparr>lut := 30, ff := 40\<rparr>, required_tag = None, materialize = True\<rparr>"

definition demo_graph :: FloorGraph where
  "demo_graph = \<lparr>vertices = [demo_vertex ''a'', demo_vertex ''b''], placement_edges = [], streams = [demo_stream], axi_nets = [],
     control_nets = [], vertex_index = [(''a'', 0), (''b'', 1)], co_located = []\<rparr>"

definition demo_route :: PlannedRoute where
  "demo_route = \<lparr>pl_channel = RoutedChannel.Stream ''q'', pl_route = [(0, 0), (1, 0)], pl_scheme = Single, pl_reg_regions = []\<rparr>"

definition demo_baseline :: slot_usage where
  "demo_baseline = [((0, 0), v_area (demo_vertex ''a'')), ((1, 0), v_area (demo_vertex ''b''))]"

definition demo_usage :: slot_usage where
  "demo_usage = [((0, 0), Area_default\<lparr>lut := 31, ff := 48\<rparr>), ((1, 0), Area_default\<lparr>lut := 33, ff := 43\<rparr>)]"

lemma demo_fifo:
  "fifo_area 6 7 = Area_default\<lparr>lut := 29, ff := 13\<rparr>" "fifo_area 6 8 = Area_default\<lparr>lut := 32, ff := 16\<rparr>"
  by code_simp+

lemma demo_accounted: "account_route demo_graph [(0, 0), (1, 0)] demo_baseline demo_route = Inr demo_usage"
  by (simp add: account_route_def demo_route_def demo_graph_def demo_stream_def account_stream_pipeline_def route_endpoints_def
      verify_route_endpoint_def check_def demo_vertex_def demo_baseline_def subtract_usage_def add_usage_def bt_get_def demo_fifo Let_def
      floorplanned_fifo_storage_depth_def body_level_def checked_mul_def checked_add_def fits_def account_head_and_body_def
      register_area_def area_checked_sub_def checked_sub_def area_checked_add_def area_checked_add_scaled_def Area_default_def
      demo_usage_def add_scaled_def)

lemma demo_within: "validate_realized_usage demo_usage demo_device (Finite 1) (Finite 1) = Inr ()"
proof -
  have "island_area demo_device (Coor_slot x 0) = Some \<lparr>lut = 1000, ff = 2000, bram_18k = 10, dsp = 5, uram = 0\<rparr>" if "x < 2" for x
    using that by (auto simp: island_area_def all_slot_coors_def Coor_slot_def add_slot_area_def device_slot_def demo_device_def demo_slot_def
        area_checked_add_def area_checked_add_scaled_def add_scaled_def checked_mul_def checked_add_def fits_def Area_default_def less_2_cases_iff)
  then show ?thesis
    by (simp add: validate_realized_usage_def demo_usage_def check_cell_usage_def Let_def Resource_ALL_def scaled_area_def
        scaled_amount_one check_def Area_default_def)
qed

theorem realized_usage_exact_witness:
  "realize_slot_usage_with_resource_caps demo_graph [(0, 0), (1, 0)] demo_baseline [demo_route] demo_device (Finite 1) (Finite 1) = Inr demo_usage \<and>
   amount Ff (usage_at demo_usage (1, 0)) + 13 = 40 + 16"
proof -
  have run: "realize_slot_usage_with_resource_caps demo_graph [(0, 0), (1, 0)] demo_baseline [demo_route] demo_device (Finite 1) (Finite 1) = Inr demo_usage"
    by (simp add: realize_slot_usage_with_resource_caps_def demo_accounted [unfolded One_nat_def] demo_within)
  have "moved demo_baseline (hardware_added demo_graph demo_route) (hardware_removed demo_graph demo_route) demo_usage"
    using realized_usage_exact [OF run] by simp
  then have "amount Ff (usage_at demo_usage (1, 0)) + placed Ff (1, 0) (hardware_removed demo_graph demo_route)
      = amount Ff (usage_at demo_baseline (1, 0)) + placed Ff (1, 0) (hardware_added demo_graph demo_route)"
    unfolding moved_def by blast
  moreover have "placed Ff (1, 0) (hardware_removed demo_graph demo_route) = 13" "placed Ff (1, 0) (hardware_added demo_graph demo_route) = 16"
    "amount Ff (usage_at demo_baseline (1, 0)) = 40"
    by (simp_all add: hardware_removed_def hardware_added_def demo_route_def stream_of_def demo_graph_def demo_stream_def tail_of_def
        registers_def floorplanned_fifo_storage_depth_def demo_fifo demo_baseline_def usage_at_def bt_get_def demo_vertex_def)
  ultimately show ?thesis using run by simp
qed

section \<open>The planned routes\<close>

text \<open>
  The specification of routing: every stream, memory channel and control channel between different slots, with the net it is;
  a Launch channel brings its Reset channel along.  A Reset channel has no entry of its own: every graph the builder returns pairs
  it with a Launch channel between the same vertices (\<open>built_resets_paired\<close> and \<open>paired_channels_routed\<close> in the
  planner's theory).
\<close>

definition wire :: "Cell list \<Rightarrow> nat \<Rightarrow> nat \<Rightarrow> nat \<Rightarrow> RouteNet" where
  "wire regions src dst width = \<lparr>net_src = regions ! src, net_dst = regions ! dst, net_width = width\<rparr>"

definition crossing :: "Cell list \<Rightarrow> nat \<Rightarrow> nat \<Rightarrow> 'a list \<Rightarrow> 'a list" where
  "crossing regions src dst xs = (if regions ! src = regions ! dst then [] else xs)"

definition stream_channels :: "Cell list \<Rightarrow> Stream \<Rightarrow> (RoutedChannel \<times> RouteNet) list" where
  "stream_channels regions s =
     crossing regions (s_src s) (s_dst s) [(RoutedChannel.Stream (s_link s), wire regions (s_src s) (s_dst s) (s_width s))]"

definition axi_channels :: "Cell list \<Rightarrow> AxiNet \<Rightarrow> (RoutedChannel \<times> RouteNet) list" where
  "axi_channels regions n =
     crossing regions (an_src n) (an_dst n) [(Axi (an_endpoint n) (an_bank n) (an_channel n), wire regions (an_src n) (an_dst n) (an_width n))]"

definition control_channels :: "FloorGraph \<Rightarrow> Cell list \<Rightarrow> ControlNet \<Rightarrow> (RoutedChannel \<times> RouteNet) list" where
  "control_channels graph regions n =
     (if cn_channel n = Reset then [] else crossing regions (cn_src n) (cn_dst n)
        ((Control (cn_instance n) (cn_channel n), wire regions (cn_src n) (cn_dst n) (cn_width n)) #
         (if cn_channel n = Launch then
            (case matching_reset graph n of None \<Rightarrow> [] | Some r \<Rightarrow> [(Control (cn_instance n) Reset, wire regions (cn_src n) (cn_dst n) (cn_width r))])
          else [])))"

definition crossing_channels :: "FloorGraph \<Rightarrow> Cell list \<Rightarrow> (RoutedChannel \<times> RouteNet) list" where
  "crossing_channels graph regions =
     concat (map (stream_channels regions) (streams graph)) @ concat (map (axi_channels regions) (axi_nets graph)) @
     concat (map (control_channels graph regions) (control_nets graph))"

text \<open>A pending net carries channels: its own and a shared one, over the same endpoints and with the sum of their widths.\<close>

definition carries :: "PendingNet \<Rightarrow> (RoutedChannel \<times> RouteNet) list \<Rightarrow> bool" where
  "carries net part \<longleftrightarrow>
     map fst part = pn_channel net # (case pn_shared_channels net of None \<Rightarrow> [] | Some c \<Rightarrow> [c]) \<and>
     (\<forall>(c, n) \<in> set part. net_src n = pn_src net \<and> net_dst n = pn_dst net) \<and>
     sum_list (map (net_width \<circ> snd) part) = pn_width net \<and> fits 32 (pn_width net)"

definition carried :: "PendingNet list \<Rightarrow> (RoutedChannel \<times> RouteNet) list \<Rightarrow> bool" where
  "carried nets channels \<longleftrightarrow> (\<exists>parts. channels = concat parts \<and> list_all2 carries nets parts)"

lemma carried_Nil: "carried [] []"
  by (auto simp: carried_def)

lemma carried_append: "carried ns cs \<Longrightarrow> carried ns' cs' \<Longrightarrow> carried (ns @ ns') (cs @ cs')"
  unfolding carried_def by (metis concat_append list_all2_appendI)

lemma carried_one: "carries n cs \<Longrightarrow> carried [n] cs"
  unfolding carried_def by (intro exI [of _ "[cs]"]) simp

lemma carried_fold:
  assumes "foldR f ns xs = Inr ns'" and "\<And>ns x ns'. x \<in> set xs \<Longrightarrow> f ns x = Inr ns' \<Longrightarrow> \<exists>new. ns' = ns @ new \<and> carried new (spec x)"
  shows "\<exists>new. ns' = ns @ new \<and> carried new (concat (map spec xs))"
  using assms
proof (induction xs arbitrary: ns)
  case (Cons x xs)
  obtain v where v: "f ns x = Inr v" "foldR f v xs = Inr ns'" using Cons.prems(1) by (auto simp: bindR_eq_Inr)
  obtain new where "v = ns @ new" "carried new (spec x)" using Cons.prems(2) [OF _ v(1)] by auto
  moreover obtain more where "ns' = v @ more" "carried more (concat (map spec xs))"
    using Cons.IH [OF v(2)] Cons.prems(2) by (meson list.set_intros(2))
  ultimately show ?case by (intro exI [of _ "new @ more"]) (simp add: carried_append)
qed (simp add: carried_Nil)

lemma crossing_cells_Inr:
  "crossing_cells regions src dst = Inr cells \<longleftrightarrow> src < length regions \<and> dst < length regions \<and>
     cells = (if regions ! src = regions ! dst then None else Some (regions ! src, regions ! dst))"
  by (auto simp: crossing_cells_def)

definition graph_ok :: "FloorGraph \<Rightarrow> bool" where
  "graph_ok graph \<longleftrightarrow> list_all (\<lambda>s. fits 32 (s_width s)) (streams graph) \<and> list_all (\<lambda>n. fits 32 (an_width n)) (axi_nets graph) \<and>
     list_all (\<lambda>n. fits 32 (cn_width n)) (control_nets graph) \<and>
     length (streams graph) + length (axi_nets graph) + length (control_nets graph) < 2 ^ 32"

lemma stream_net_carried:
  "stream_net regions ns x = Inr ns' \<Longrightarrow> fits 32 (s_width x) \<Longrightarrow> \<exists>new. ns' = ns @ new \<and> carried new (stream_channels regions x)"
  by (auto simp: stream_net_def stream_channels_def crossing_def bindR_eq_Inr crossing_cells_Inr carries_def wire_def
      intro!: carried_Nil carried_one)

lemma axi_net_carried:
  "axi_net regions ns x = Inr ns' \<Longrightarrow> fits 32 (an_width x) \<Longrightarrow> \<exists>new. ns' = ns @ new \<and> carried new (axi_channels regions x)"
  by (auto simp: axi_net_def axi_channels_def crossing_def bindR_eq_Inr crossing_cells_Inr carries_def wire_def
      intro!: carried_Nil carried_one)

lemma matching_reset_Some: "matching_reset graph n = Some r \<Longrightarrow> cn_instance r = cn_instance n \<and> cn_channel r = Reset"
  by (auto simp: matching_reset_def find_Some_iff)

lemma control_net_carried:
  "control_net graph regions ns x = Inr ns' \<Longrightarrow> fits 32 (cn_width x) \<Longrightarrow> \<exists>new. ns' = ns @ new \<and> carried new (control_channels graph regions x)"
  by (auto simp: control_net_def control_channels_def crossing_def bindR_eq_Inr crossing_cells_Inr carries_def wire_def checked_add_def
      matching_reset_Some split: if_splits intro!: carried_Nil carried_one)

lemma cross_slot_nets_carried:
  assumes "cross_slot_nets graph regions = Inr nets" and "graph_ok graph"
  shows "carried nets (crossing_channels graph regions)"
proof -
  obtain a b where "foldR (stream_net regions) [] (streams graph) = Inr a" "foldR (axi_net regions) a (axi_nets graph) = Inr b"
    "foldR (control_net graph regions) b (control_nets graph) = Inr nets"
    using assms(1) by (auto simp: cross_slot_nets_def bindR_eq_Inr)
  then obtain x y z where "a = x" "carried x (concat (map (stream_channels regions) (streams graph)))"
    "b = a @ y" "carried y (concat (map (axi_channels regions) (axi_nets graph)))"
    "nets = b @ z" "carried z (concat (map (control_channels graph regions) (control_nets graph)))"
    using carried_fold [where spec = "stream_channels regions", OF _ stream_net_carried]
      carried_fold [where spec = "axi_channels regions", OF _ axi_net_carried]
      carried_fold [where spec = "control_channels graph regions", OF _ control_net_carried] assms(2)
    unfolding graph_ok_def list_all_iff by (metis append_Nil)
  then show ?thesis by (simp add: crossing_channels_def carried_append)
qed

lemma edge_load_Nil: "edge_load [] [] u v = 0"
  by (simp add: edge_load_def)

lemma edge_load_Cons: "edge_load (n # ns) (p # ps) u v = (if crosses_edge u v p then net_width n else 0) + edge_load ns ps u v"
  by (simp add: edge_load_def)

lemma edge_load_append:
  "length ns = length ps \<Longrightarrow> edge_load (ns @ ns') (ps @ ps') u v = edge_load ns ps u v + edge_load ns' ps' u v"
  by (induction ns ps rule: list_induct2) (simp_all add: edge_load_Nil edge_load_Cons)

lemma edge_load_same: "edge_load ns (map (\<lambda>_. p) ns) u v = (if crosses_edge u v p then sum_list (map net_width ns) else 0)"
  by (induction ns) (simp_all add: edge_load_Nil edge_load_Cons)

definition planned_ok :: "PipelineScheme \<Rightarrow> RoutedChannel \<Rightarrow> PlannedRoute \<Rightarrow> bool" where
  "planned_ok scheme channel p \<longleftrightarrow> pl_channel p = channel \<and> pl_scheme p = scheme \<and> pl_reg_regions p = pipeline_reg_cells (pl_route p) scheme"

lemma planned_of_carried:
  assumes "carries net part" and "legal_route d (pending_wire net) p"
  shows "list_all2 (planned_ok scheme) (map fst part) (planned_of scheme (net, p))"
    and "list_all2 (legal_route d) (map snd part) (map pl_route (planned_of scheme (net, p)))"
    and "edge_load (map snd part) (map pl_route (planned_of scheme (net, p))) u v = (if crosses_edge u v p then pn_width net else 0)"
proof -
  have chans: "map fst part = pn_channel net # (case pn_shared_channels net of None \<Rightarrow> [] | Some c \<Rightarrow> [c])"
    using assms(1) by (simp add: carries_def)
  have pl: "planned_of scheme (net, p) =
      map (\<lambda>c. \<lparr>pl_channel = c, pl_route = p, pl_scheme = scheme, pl_reg_regions = pipeline_reg_cells p scheme\<rparr>) (map fst part)"
    unfolding chans by (simp only: planned_of_def prod.case)
  show "list_all2 (planned_ok scheme) (map fst part) (planned_of scheme (net, p))"
    unfolding pl by (simp add: list_all2_conv_all_nth planned_ok_def)
  have routes: "map pl_route (planned_of scheme (net, p)) = map (\<lambda>_. p) (map snd part)" unfolding pl by simp
  show "list_all2 (legal_route d) (map snd part) (map pl_route (planned_of scheme (net, p)))"
    using assms unfolding routes by (auto simp: list_all2_conv_all_nth carries_def legal_route_def pending_wire_def dest!: nth_mem)
  show "edge_load (map snd part) (map pl_route (planned_of scheme (net, p))) u v = (if crosses_edge u v p then pn_width net else 0)"
    using assms(1) unfolding routes edge_load_same by (simp add: carries_def)
qed

lemma planned_carried:
  fixes scheme :: PipelineScheme
  assumes "list_all2 carries nets parts" and "list_all2 (legal_route d) (map pending_wire nets) routes"
  defines "planned \<equiv> concat (map (planned_of scheme) (zip nets routes))"
  shows "list_all2 (planned_ok scheme) (map fst (concat parts)) planned \<and>
    list_all2 (legal_route d) (map snd (concat parts)) (map pl_route planned) \<and>
    (\<forall>u v. edge_load (map snd (concat parts)) (map pl_route planned) u v = edge_load (map pending_wire nets) routes u v)"
  using assms(1,2) unfolding planned_def
proof (induction nets parts arbitrary: routes)
  case (Cons net nets part parts)
  from Cons.prems obtain p ps where r: "routes = p # ps" "legal_route d (pending_wire net) p" "list_all2 (legal_route d) (map pending_wire nets) ps"
    by (cases routes) auto
  note one = planned_of_carried [OF Cons.hyps(1) r(2), where scheme = scheme] and rest = Cons.IH [OF r(3)]
  have len: "length (map snd part) = length (map pl_route (planned_of scheme (net, p)))" using one(2) by (rule list_all2_lengthD)
  show ?case using one(1,2) rest
    by (simp add: r(1) list_all2_appendI edge_load_append [OF len, simplified] one(3) edge_load_Cons pending_wire_def)
qed (simp add: edge_load_Nil)

lemma carried_nets_ok:
  assumes "carried nets channels" and "length nets < 2 ^ 32"
  shows "nets_ok (map pending_wire nets)"
  using assms by (auto simp: carried_def nets_ok_def list_all_iff carries_def pending_wire_def list_all2_conv_all_nth in_set_conv_nth)

lemma cross_slot_nets_length:
  assumes "cross_slot_nets graph regions = Inr nets" and "graph_ok graph"
  shows "length nets < 2 ^ 32"
proof -
  have grow: "foldR f ns xs = Inr ns' \<Longrightarrow> (\<And>ns x ns'. f ns x = Inr ns' \<Longrightarrow> length ns' \<le> length ns + 1) \<Longrightarrow> length ns' \<le> length ns + length xs"
    for f :: "PendingNet list \<Rightarrow> 'x \<Rightarrow> PipelineError fault + PendingNet list" and ns ns' xs
    by (induction xs arbitrary: ns) (fastforce simp: bindR_eq_Inr)+
  obtain a b where s: "foldR (stream_net regions) [] (streams graph) = Inr a" "foldR (axi_net regions) a (axi_nets graph) = Inr b"
    "foldR (control_net graph regions) b (control_nets graph) = Inr nets"
    using assms(1) by (auto simp: cross_slot_nets_def bindR_eq_Inr)
  have "length a \<le> length ([] :: PendingNet list) + length (streams graph)"
    by (rule grow [OF s(1)]) (auto simp: stream_net_def bindR_eq_Inr split: option.splits)
  moreover have "length b \<le> length a + length (axi_nets graph)"
    by (rule grow [OF s(2)]) (auto simp: axi_net_def bindR_eq_Inr split: option.splits)
  moreover have "length nets \<le> length b + length (control_nets graph)"
    by (rule grow [OF s(3)]) (auto simp: control_net_def bindR_eq_Inr split: option.splits if_splits)
  ultimately show ?thesis using assms(2) by (simp add: graph_ok_def)
qed

lemma routes_planned_legally:
  assumes "device_validate d = Inr ()" and "grid_ok (cols d) (rows d)" and "graph_ok graph"
    and "plan_routes graph regions baseline d scheme limit solver opts = Inr routes"
  shows "list_all2 (planned_ok scheme) (map fst (crossing_channels graph regions)) routes \<and>
    list_all2 (legal_route d) (map snd (crossing_channels graph regions)) (map pl_route routes) \<and>
    loads_within d (map snd (crossing_channels graph regions)) (map pl_route routes)"
proof -
  define channels where "channels = crossing_channels graph regions"
  obtain nets where nets: "cross_slot_nets graph regions = Inr nets" using assms(4) by (auto simp: plan_routes_def bindR_eq_Inr split: if_splits)
  note carried = cross_slot_nets_carried [OF nets assms(3), folded channels_def]
  obtain parts where parts: "channels = concat parts" "list_all2 carries nets parts" using carried by (auto simp: carried_def)
  obtain budget rs where rs: "route_nets (map pending_wire nets) d budget solver opts = Inr rs" "routes = concat (map (planned_of scheme) (zip nets rs))"
  proof (cases "nets = []")
    case True
    have "route_nets [] d None solver opts = Inr []" by (simp add: route_nets_def)
    moreover have "routes = []" using assms(4) nets True by (simp add: plan_routes_def split: if_splits)
    ultimately show ?thesis using True that [of None "[]"] by simp
  next
    case False
    then show ?thesis using assms(4) nets that
      by (auto simp: plan_routes_def Let_def bindR_eq_Inr map_err_def split: if_splits sum.splits)
  qed
  have "nets_ok (map pending_wire nets)" using carried cross_slot_nets_length [OF nets assms(3)] by (rule carried_nets_ok)
  then have legal: "list_all2 (legal_route d) (map pending_wire nets) rs" "loads_within d (map pending_wire nets) rs"
    using routed_legally [OF assms(1,2) _ rs(1)] by auto
  note planned = planned_carried [OF parts(2) legal(1), of scheme, folded parts(1) rs(2)]
  then show ?thesis using legal(2) by (simp add: channels_def [symmetric] loads_within_def)
qed

text \<open>C29: When planning succeeds on a valid device, every stream, memory channel and control channel whose endpoints are placed in
  different slots has exactly one planned route, in order, and no other channel has one; each route is a simple in-bounds path of
  at most two cells more than the shortest between the placed slots of its endpoints, holding the registers of the scheme; and
  over every slot boundary the widths of all the channels crossing it stay within the usable wire capacity.\<close>

theorem planned_routes_legal:
  assumes "device_validate d = Inr ()" and "grid_ok (cols d) (rows d)" and "graph_ok graph"
    and "plan_routes graph regions baseline d scheme limit solver opts = Inr routes"
  shows "list_all2 (planned_ok scheme) (map fst (crossing_channels graph regions)) routes \<and>
    list_all2 (legal_route d) (map snd (crossing_channels graph regions)) (map pl_route routes) \<and>
    loads_within d (map snd (crossing_channels graph regions)) (map pl_route routes)"
  using assms by (rule routes_planned_legally)

theorem planned_routes_legal_witness:
  "plan_routes demo_graph [(0, 0), (1, 0)] demo_baseline demo_device Single (Finite 1) demo_solver demo_opts = Inr [demo_route] \<and>
   loads_within demo_device (map snd (crossing_channels demo_graph [(0, 0), (1, 0)])) (map pl_route [demo_route])"
proof -
  have ok: "graph_ok demo_graph" by (simp add: graph_ok_def demo_graph_def demo_stream_def fits_def)
  define net where "net = \<lparr>pn_channel = RoutedChannel.Stream ''q'', pn_shared_channels = None, pn_src = (0, 0), pn_dst = (1, 0), pn_width = 8\<rparr>"
  have "cross_slot_nets demo_graph [(0, 0), (1, 0)] = Inr [net]"
    by (simp add: cross_slot_nets_def demo_graph_def stream_net_def demo_stream_def crossing_cells_def net_def)
  moreover have "pending_wire net = demo_net" by (simp add: pending_wire_def demo_net_def net_def)
  ultimately have run: "plan_routes demo_graph [(0, 0), (1, 0)] demo_baseline demo_device Single (Finite 1) demo_solver demo_opts = Inr [demo_route]"
    by (simp add: plan_routes_def demo_routed Let_def planned_of_def net_def inner_def demo_route_def map_err_def) (simp add: demo_graph_def)
  show ?thesis using planned_routes_legal [OF demo_device_valid demo_inputs(2) ok run] run by blast
qed

end
