(* ===== verification/Fp_Route_Model.thy ===== *)
theory Fp_Route_Model
  imports Fp_Route "HOL-Library.Multiset"
begin

text \<open>
  The routing program of \<^verbatim>\<open>route/ilp.rs\<close> says what it should: over exact numbers it has a 0/1 solution if and only if a legal
  routing exists that respects every boundary capacity and every register budget.  In particular the rows that order
  interchangeable nets lose no routing.
\<close>

section \<open>Exact semantics of a model\<close>

definition row_value :: "(f64 \<times> LpVar) list \<Rightarrow> (LpVar \<Rightarrow> rat) \<Rightarrow> rat" where
  "row_value ts val = (\<Sum>(a, v) \<leftarrow> ts. f64_rat a * val v)"

definition holds :: "(LpVar \<Rightarrow> rat) \<Rightarrow> ConstraintDef \<Rightarrow> bool" where
  "holds val r \<longleftrightarrow>
     (let lhs = row_value (terms (con_expr r)) val + f64_rat (constant_term (con_expr r)); rhs = f64_rat (con_rhs r)
      in case con_op r of Le \<Rightarrow> lhs \<le> rhs | Eq \<Rightarrow> lhs = rhs)"

definition admissible :: "VarDef \<Rightarrow> rat \<Rightarrow> bool" where
  "admissible df x \<longleftrightarrow> f64_le (var_lower df) (Finite x) \<and> f64_le (Finite x) (var_upper df) \<and>
     (var_kind df = Binary \<longrightarrow> x = 0 \<or> x = 1)"

definition feasible :: "LpModel \<Rightarrow> bool" where
  "feasible lp \<longleftrightarrow> (\<exists>val. (\<forall>v < length (vars lp). admissible (vars lp ! v) (val v)) \<and> (\<forall>r \<in> set (constraints lp). holds val r))"

section \<open>Sums over one-hot blocks\<close>

lemma sum_list_concat_map: "sum_list (map h (concat (map F zs))) = (\<Sum>z \<leftarrow> zs. sum_list (map h (F z)))"
  for h :: "'b \<Rightarrow> rat"
  by (induction zs) simp_all

lemma sum_list_enumerate: "(\<Sum>(i, x) \<leftarrow> List.enumerate k xs. g i x) = (\<Sum>i < length xs. g (k + i) (xs ! i))"
  for g :: "nat \<Rightarrow> 'a \<Rightarrow> rat"
proof (induction xs arbitrary: k)
  case (Cons x xs)
  then show ?case by (simp only: enumerate_simps list.map sum_list.Cons prod.case Cons.IH length_Cons sum.lessThan_Suc_shift) simp
qed simp

lemma row_value_append [simp]: "row_value (ts @ us) val = row_value ts val + row_value us val"
  by (simp add: row_value_def)

text \<open>A block of variables in which only the chosen one is 1.\<close>

definition one_hot :: "(LpVar \<Rightarrow> rat) \<Rightarrow> LpVar list \<Rightarrow> nat \<Rightarrow> bool" where
  "one_hot val vs k \<longleftrightarrow> k < length vs \<and> (\<forall>j < length vs. val (vs ! j) = (if j = k then 1 else 0))"

lemma row_value_block:
  assumes "one_hot val vs k" and "length ys = length vs"
  shows "row_value (concat (map (\<lambda>(j, y). if P j y then [(A j y, vs ! j)] else []) (List.enumerate 0 ys))) val =
    (if P k (ys ! k) then f64_rat (A k (ys ! k)) else 0)"
proof -
  have "row_value (concat (map (\<lambda>(j, y). if P j y then [(A j y, vs ! j)] else []) (List.enumerate 0 ys))) val =
      (\<Sum>(j, y) \<leftarrow> List.enumerate 0 ys. if P j y then f64_rat (A j y) * val (vs ! j) else 0)"
    unfolding row_value_def sum_list_concat_map by (intro arg_cong [of _ _ sum_list] map_cong) auto
  also have "\<dots> = (\<Sum>j < length ys. if P j (ys ! j) then f64_rat (A j (ys ! j)) * val (vs ! j) else 0)"
    by (simp only: sum_list_enumerate add_0)
  also have "\<dots> = (\<Sum>j < length ys. if j = k then (if P k (ys ! k) then f64_rat (A k (ys ! k)) else 0) else 0)"
    by (intro sum.cong) (use assms in \<open>auto simp: one_hot_def\<close>)
  also have "\<dots> = (if P k (ys ! k) then f64_rat (A k (ys ! k)) else 0)"
    using assms by (simp add: one_hot_def)
  finally show ?thesis .
qed

lemma row_value_blocks:
  assumes "\<And>i. i < length xs \<Longrightarrow> one_hot val (pv ! i) (ch i) \<and> length (f i (xs ! i)) = length (pv ! i)"
  shows "row_value (concat (map (\<lambda>(i, x). concat (map (\<lambda>(j, y). if P i x j y then [(A i x j y, pv ! i ! j)] else [])
      (List.enumerate 0 (f i x)))) (List.enumerate 0 xs))) val =
    (\<Sum>i < length xs. if P i (xs ! i) (ch i) (f i (xs ! i) ! ch i) then f64_rat (A i (xs ! i) (ch i) (f i (xs ! i) ! ch i)) else 0)"
proof -
  let ?F = "\<lambda>i x. concat (map (\<lambda>(j, y). if P i x j y then [(A i x j y, pv ! i ! j)] else []) (List.enumerate 0 (f i x)))"
  have "row_value (concat (map (\<lambda>(i, x). ?F i x) (List.enumerate 0 xs))) val = (\<Sum>(i, x) \<leftarrow> List.enumerate 0 xs. row_value (?F i x) val)"
    unfolding row_value_def sum_list_concat_map by (intro arg_cong [of _ _ sum_list] map_cong) (auto simp: sum_list_concat_map)
  also have "\<dots> = (\<Sum>i < length xs. row_value (?F i (xs ! i)) val)" by (simp only: sum_list_enumerate add_0)
  also have "\<dots> = (\<Sum>i < length xs. if P i (xs ! i) (ch i) (f i (xs ! i) ! ch i) then f64_rat (A i (xs ! i) (ch i) (f i (xs ! i) ! ch i)) else 0)"
    by (intro sum.cong refl row_value_block) (use assms in auto)
  finally show ?thesis .
qed

text \<open>0/1 values that sum to 1 are one-hot.\<close>

lemma unit_sum_one_hot:
  assumes "\<forall>v \<in> set vs. val v = 0 \<or> val v = 1" and "(\<Sum>v \<leftarrow> vs. val v) = (1 :: rat)"
  shows "\<exists>k. one_hot val vs k"
  using assms
proof (induction vs)
  case (Cons v vs)
  have zero: "(\<Sum>v \<leftarrow> us. val v) = 0 \<longleftrightarrow> (\<forall>u \<in> set us. val u = 0)" if "\<forall>v \<in> set us. val v = 0 \<or> val v = 1" for us
    using that
  proof (induction us)
    case (Cons u us)
    have "0 \<le> (\<Sum>v \<leftarrow> us. val v)" by (intro sum_list_nonneg) (use Cons.prems in auto)
    then show ?case using Cons by auto
  qed simp
  show ?case
  proof (cases "val v = 1")
    case True
    then have "\<forall>u \<in> set vs. val u = 0" using Cons.prems zero [of vs] by simp
    then have "one_hot val (v # vs) 0" using True by (auto simp: one_hot_def nth_Cons split: nat.splits)
    then show ?thesis ..
  next
    case False
    then obtain k where "one_hot val vs k" using Cons by auto
    moreover have "val v = 0" using False Cons.prems by simp
    ultimately have "one_hot val (v # vs) (Suc k)" by (auto simp: one_hot_def nth_Cons split: nat.splits)
    then show ?thesis ..
  qed
qed simp

lemma one_hot_sum:
  assumes "one_hot val vs k"
  shows "row_value (terms (unit_sum vs)) val = 1"
proof -
  have "row_value (terms (unit_sum vs)) val = (\<Sum>j < length vs. val (vs ! j))"
    by (simp add: row_value_def unit_sum_def LinExpr_sum_def comp_def sum_list_sum_nth atLeast0LessThan)
  also have "\<dots> = (\<Sum>j < length vs. if j = k then 1 else 0)" by (intro sum.cong) (use assms in \<open>auto simp: one_hot_def\<close>)
  also have "\<dots> = 1" using assms by (simp add: one_hot_def)
  finally show ?thesis .
qed

section \<open>Ordering interchangeable choices\<close>

text \<open>Among all ways to permute choices within a class, one that minimises a weighted sum is ascending in every class.\<close>

definition ascending :: "'k list \<Rightarrow> nat list \<Rightarrow> bool" where
  "ascending ks ch \<longleftrightarrow> (\<forall>i j. i < j \<longrightarrow> j < length ks \<longrightarrow> ks ! i = ks ! j \<longrightarrow> ch ! i \<le> ch ! j)"

definition early_weight :: "nat list \<Rightarrow> nat" where
  "early_weight ch = (\<Sum>i < length ch. (length ch - i) * ch ! i)"

lemma sum_split_two:
  fixes f :: "nat \<Rightarrow> nat"
  assumes "i < n" and "j < n" and "i \<noteq> j"
  shows "(\<Sum>k < n. f k) = f i + f j + (\<Sum>k \<in> {..<n} - {i, j}. f k)"
proof -
  have "(\<Sum>k < n. f k) = f i + (\<Sum>k \<in> {..<n} - {i}. f k)" by (rule sum.remove) (use assms in auto)
  also have "(\<Sum>k \<in> {..<n} - {i}. f k) = f j + (\<Sum>k \<in> {..<n} - {i} - {j}. f k)" by (rule sum.remove) (use assms in auto)
  also have "{..<n} - {i} - {j} = {..<n} - {i, j}" by auto
  finally show ?thesis by simp
qed

lemma early_weight_swap:
  assumes "i < j" and "j < length ch" and "ch ! j < ch ! i"
  shows "early_weight (ch[i := ch ! j, j := ch ! i]) < early_weight ch"
proof -
  let ?n = "length ch" and ?c = "ch[i := ch ! j, j := ch ! i]"
  have rest: "(\<Sum>k \<in> {..<?n} - {i, j}. (?n - k) * ?c ! k) = (\<Sum>k \<in> {..<?n} - {i, j}. (?n - k) * ch ! k)"
    by (intro sum.cong) auto
  have "early_weight ?c = (?n - i) * ch ! j + (?n - j) * ch ! i + (\<Sum>k \<in> {..<?n} - {i, j}. (?n - k) * ch ! k)"
    unfolding early_weight_def length_list_update using assms sum_split_two [of i ?n j "\<lambda>k. (?n - k) * ?c ! k"] rest by simp
  moreover have "early_weight ch = (?n - i) * ch ! i + (?n - j) * ch ! j + (\<Sum>k \<in> {..<?n} - {i, j}. (?n - k) * ch ! k)"
    unfolding early_weight_def using assms sum_split_two [of i ?n j "\<lambda>k. (?n - k) * ch ! k"] by simp
  moreover have "(?n - i) * ch ! j + (?n - j) * ch ! i < (?n - i) * ch ! i + (?n - j) * ch ! j"
  proof -
    have a: "?n - i = (?n - j) + Suc (j - i - 1)" using assms(1,2) by simp
    obtain b where b: "ch ! i = ch ! j + Suc b" using assms(3) less_imp_Suc_add [of "ch ! j" "ch ! i"] by auto
    show ?thesis unfolding a b by (simp add: algebra_simps)
  qed
  ultimately show ?thesis by linarith
qed

lemma ascending_exists:
  assumes "length ch = length ks"
  shows "\<exists>ch'. length ch' = length ks \<and> mset (zip ks ch') = mset (zip ks ch) \<and> ascending ks ch'"
proof -
  let ?P = "\<lambda>c. length c = length ks \<and> mset (zip ks c) = mset (zip ks ch)"
  obtain c where c: "?P c" and min: "\<And>c'. ?P c' \<Longrightarrow> early_weight c \<le> early_weight c'"
    using ex_has_least_nat [of ?P ch early_weight] assms by blast
  have "ascending ks c"
    unfolding ascending_def
  proof (intro allI impI)
    fix i j assume ij: "i < j" "j < length ks" "ks ! i = ks ! j"
    show "c ! i \<le> c ! j"
    proof (rule ccontr)
      assume "\<not> c ! i \<le> c ! j"
      then have less: "early_weight (c[i := c ! j, j := c ! i]) < early_weight c"
        using ij c by (intro early_weight_swap) auto
      have "zip ks (c[i := c ! j, j := c ! i]) = (zip ks c)[i := zip ks c ! j, j := zip ks c ! i]"
        using ij c by (auto intro!: nth_equalityI simp: nth_list_update)
      moreover have "mset ((zip ks c)[i := zip ks c ! j, j := zip ks c ! i]) = mset (zip ks c)"
        using mset_swap [of j "zip ks c" i] ij c by simp
      ultimately have "?P (c[i := c ! j, j := c ! i])" using c by simp
      from min [OF this] less show False by simp
    qed
  qed
  then show ?thesis using c by blast
qed

section \<open>What each row counts\<close>

definition register_load :: "RegisterBudget \<Rightarrow> RouteNet list \<Rightarrow> Cell list list \<Rightarrow> Cell \<Rightarrow> nat" where
  "register_load b nets routes cell = (\<Sum>i < length nets. count_list (rb_bodies b (routes ! i)) cell * net_width (nets ! i))"

definition registers_within :: "RegisterBudget option \<Rightarrow> RouteNet list \<Rightarrow> Cell list list \<Rightarrow> bool" where
  "registers_within budget nets routes \<longleftrightarrow>
     (case budget of None \<Rightarrow> True
      | Some b \<Rightarrow> list_all (\<lambda>(cell, available). register_load b nets routes cell \<le> available) (rb_available b))"

text \<open>Register counts and budgets are small enough to be exact as doubles.\<close>

definition budget_ok :: "Device \<Rightarrow> RouteNet list \<Rightarrow> RegisterBudget option \<Rightarrow> bool" where
  "budget_ok d nets budget \<longleftrightarrow>
     (case budget of None \<Rightarrow> True
      | Some b \<Rightarrow> list_all (\<lambda>(cell, available). available \<le> 2 ^ 53) (rb_available b) \<and>
          list_all (\<lambda>net. list_all (\<lambda>p. length (rb_bodies b p) * net_width net \<le> 2 ^ 53) (net_paths d net)) nets)"

definition chosen :: "Device \<Rightarrow> RouteNet list \<Rightarrow> nat list \<Rightarrow> Cell list list" where
  "chosen d nets ch = map2 (\<lambda>net k. net_paths d net ! k) nets ch"

definition choice_ok :: "Device \<Rightarrow> RouteNet list \<Rightarrow> nat list \<Rightarrow> bool" where
  "choice_ok d nets ch \<longleftrightarrow> length ch = length nets \<and> (\<forall>i < length nets. ch ! i < length (net_paths d (nets ! i)))"

definition hot :: "(LpVar \<Rightarrow> rat) \<Rightarrow> Device \<Rightarrow> RouteNet list \<Rightarrow> LpVar list list \<Rightarrow> nat list \<Rightarrow> bool" where
  "hot val d nets pv ch \<longleftrightarrow>
     choice_ok d nets ch \<and> (\<forall>i < length nets. one_hot val (pv ! i) (ch ! i) \<and> length (pv ! i) = length (net_paths d (nets ! i)))"

lemma chosen_simps [simp]:
  "choice_ok d nets ch \<Longrightarrow> length (chosen d nets ch) = length nets"
  "choice_ok d nets ch \<Longrightarrow> i < length nets \<Longrightarrow> chosen d nets ch ! i = net_paths d (nets ! i) ! (ch ! i)"
  by (simp_all add: chosen_def choice_ok_def)

lemma edge_load_sum:
  assumes "length routes = length nets"
  shows "edge_load nets routes u v = (\<Sum>i < length nets. if crosses_edge u v (routes ! i) then net_width (nets ! i) else 0)"
  unfolding edge_load_def sum_list_filter using assms by (auto simp: sum_list_sum_nth atLeast0LessThan intro!: sum.cong)

lemma of_uint_rat:
  assumes "n \<le> 2 ^ 53"
  shows "f64_rat (of_uint n) = of_nat n"
  by (simp add: of_uint_exact [OF assms])

lemma width_le:
  assumes "nets_ok nets" and "i < length nets"
  shows "net_width (nets ! i) \<le> 2 ^ 53"
proof -
  have "net_width (nets ! i) < 2 ^ 32" using assms by (simp add: nets_ok_def list_all_length fits_def)
  then show ?thesis by simp
qed

lemma crossing_value:
  assumes "hot val d nets pv ch" and "cand_iter c = map (net_paths d) nets" and "nets_ok nets"
  shows "row_value (crossing_row nets c pv b) val = of_nat (edge_load nets (chosen d nets ch) (bd_a b) (bd_b b))"
proof -
  have ok: "choice_ok d nets ch" using assms(1) by (simp add: hot_def)
  have "row_value (crossing_row nets c pv b) val =
      (\<Sum>i < length nets. if path_crosses (net_paths d (nets ! i) ! (ch ! i)) b then f64_rat (of_uint (net_width (nets ! i))) else 0)"
    unfolding crossing_row_def
    by (subst row_value_blocks [where f = "\<lambda>i x. x" and ch = "\<lambda>i. ch ! i"]) (use assms(1,2) in \<open>auto simp: hot_def\<close>)
  also have "\<dots> = (\<Sum>i < length nets. of_nat (if crosses_edge (bd_a b) (bd_b b) (chosen d nets ch ! i) then net_width (nets ! i) else 0))"
    by (intro sum.cong) (use ok width_le [OF assms(3)] in \<open>simp_all add: path_crosses_edge of_uint_rat\<close>)
  finally show ?thesis by (simp add: edge_load_sum ok del: chosen_simps(2))
qed

lemma body_counts_get: "(case bt_get (body_counts cells) cell of None \<Rightarrow> 0 | Some n \<Rightarrow> n) = count_list cells cell"
proof (induction cells rule: rev_induct)
  case (snoc x cells)
  then show ?case by (cases "x = cell") (simp_all add: body_counts_def bt_get_insert)
qed (simp add: body_counts_def bt_get_def)

lemma register_value:
  assumes "hot val d nets pv ch" and "cand_iter c = map (net_paths d) nets" and "budget_ok d nets (Some b)"
    and "\<forall>k \<in> set (cand_of_net c). k < length (cand_sets c)"
  shows "row_value (register_row nets c pv (map (map (\<lambda>path. body_counts (rb_bodies b path))) (cand_sets c)) cell) val =
    of_nat (register_load b nets (chosen d nets ch) cell)"
proof -
  let ?B = "\<lambda>path. body_counts (rb_bodies b path)"
  have ok: "choice_ok d nets ch" using assms(1) by (simp add: hot_def)
  have len: "length (cand_of_net c) = length nets" using arg_cong [OF assms(2), of length] by (simp add: cand_iter_def)
  have sets: "map (map ?B) (cand_sets c) ! (cand_of_net c ! i) = map ?B (net_paths d (nets ! i))" if "i < length nets" for i
  proof -
    have "cand_sets c ! (cand_of_net c ! i) = net_paths d (nets ! i)"
      using arg_cong [OF assms(2), of "\<lambda>xs. xs ! i"] that len by (simp add: cand_iter_def)
    then show ?thesis using assms(4) that len by simp
  qed
  let ?r = "\<lambda>i counts. wrap 64 ((case bt_get counts cell of None \<Rightarrow> 0 | Some n \<Rightarrow> n) * net_width (nets ! i))"
  have "row_value (register_row nets c pv (map (map ?B) (cand_sets c)) cell) val =
      (\<Sum>i < length nets. if 0 < ?r i (?B (net_paths d (nets ! i) ! (ch ! i))) then f64_rat (of_uint (?r i (?B (net_paths d (nets ! i) ! (ch ! i))))) else 0)"
    unfolding register_row_def Let_def
    by (subst row_value_blocks [where f = "\<lambda>i x. map (map ?B) (cand_sets c) ! (cand_of_net c ! i)" and ch = "\<lambda>i. ch ! i"])
      (use assms(1) sets in \<open>auto simp: hot_def choice_ok_def intro!: sum.cong\<close>)
  also have "\<dots> = (\<Sum>i < length nets. of_nat (count_list (rb_bodies b (chosen d nets ch ! i)) cell * net_width (nets ! i)))"
  proof (intro sum.cong refl)
    fix i assume "i \<in> {..<length nets}"
    then have i: "i < length nets" by simp
    let ?p = "net_paths d (nets ! i) ! (ch ! i)"
    have p: "?p \<in> set (net_paths d (nets ! i))" using ok i by (simp add: choice_ok_def)
    let ?k = "count_list (rb_bodies b ?p) cell * net_width (nets ! i)"
    have "?k \<le> length (rb_bodies b ?p) * net_width (nets ! i)" by (simp add: count_le_length)
    also have "\<dots> \<le> 2 ^ 53" using assms(3) p i by (auto simp: budget_ok_def list_all_iff)
    finally have k: "?k \<le> 2 ^ 53" .
    then have "fits 64 ?k" by (simp add: fits_def)
    then have "?r i (?B ?p) = ?k" by (simp add: body_counts_get)
    then show "(if 0 < ?r i (?B ?p) then f64_rat (of_uint (?r i (?B ?p))) else 0) = of_nat (count_list (rb_bodies b (chosen d nets ch ! i)) cell * net_width (nets ! i))"
      using of_uint_rat [OF k] ok i by simp
  qed
  finally show ?thesis by (simp add: register_load_def del: chosen_simps(2))
qed

lemma rank_value:
  assumes "one_hot val vs k" and "length vs \<le> 2 ^ 32" and "sign = 1 \<or> sign = - 1"
  shows "row_value (rank_terms vs (Finite sign)) val = sign * of_nat k"
proof -
  have "k < 2 ^ 32" using assms(1,2) by (simp add: one_hot_def)
  then have k: "k \<le> 2 ^ 53" by simp
  then have r: "rnd (of_nat k) = of_nat k" by (rule rnd_of_nat)
  have "(of_nat k :: rat) \<le> of_nat (2 ^ 53)" using k by (simp only: of_nat_le_iff)
  then have b: "\<bar>sign * of_nat k\<bar> \<le> 2 ^ 64" using assms(3) by auto
  have "f64_mul (Finite sign) (of_uint k) = Finite (sign * of_nat k)"
    using to_f64_near [OF b] assms(3) by (auto simp: of_uint_exact [OF k] rnd_minus r)
  moreover have "row_value (rank_terms vs (Finite sign)) val =
      (if k > 0 then f64_rat (f64_mul (Finite sign) (of_uint k)) else 0)"
  proof -
    have "rank_terms vs (Finite sign) =
        concat (map (\<lambda>(j, y). if j > 0 then [(f64_mul (Finite sign) (of_uint j), vs ! j)] else []) (List.enumerate 0 vs))"
      unfolding rank_terms_def by (intro arg_cong [of _ _ concat] map_cong) (auto simp: in_set_enumerate_eq)
    then show ?thesis using row_value_block [OF assms(1) refl, of "\<lambda>j y. j > 0" "\<lambda>j y. f64_mul (Finite sign) (of_uint j)"] by simp
  qed
  ultimately show ?thesis by simp
qed

section \<open>Blocks of variables\<close>

lemma sum_take_mono: "i \<le> j \<Longrightarrow> sum_list (take i ks) \<le> sum_list (take j ks)" for ks :: "nat list"
proof -
  assume "i \<le> j"
  then have "take j ks = take i ks @ take (j - i) (drop i ks)" by (metis le_add_diff_inverse take_add)
  then show ?thesis by simp
qed

lemma sum_take_Suc: "i < length ks \<Longrightarrow> sum_list (take (Suc i) ks) = sum_list (take i ks) + ks ! i" for ks :: "nat list"
  by (simp add: take_Suc_conv_app_nth)

lemma block_unique:
  assumes "sum_list (take i ks) + a = sum_list (take j ks) + b" and "a < ks ! i" and "b < ks ! j" and "i < length ks" and "j < length ks"
  shows "i = j \<and> a = (b :: nat)"
proof -
  have "\<not> i < j" if "sum_list (take i ks) + a = sum_list (take j ks) + b" "a < ks ! i" "i < length ks" for i j a and b :: nat
    using that sum_take_mono [of "Suc i" j ks] sum_take_Suc [of i ks] by auto
  from this [OF assms(1,2,4)] this [OF assms(1) [symmetric] assms(3,5)] have "i = j" by simp
  then show ?thesis using assms(1) by simp
qed

lemma block_in_range:
  assumes "i < length ks" and "v \<in> set (var_block base ks i)"
  shows "base \<le> v \<and> v < base + sum_list ks"
  using assms sum_take_mono [of "Suc i" "length ks" ks] sum_take_Suc [of i ks] by (auto simp: var_block_def)

definition choice_point :: "nat \<Rightarrow> nat list \<Rightarrow> nat list \<Rightarrow> rat \<Rightarrow> LpVar \<Rightarrow> rat" where
  "choice_point base ks ch m v =
     (if v < base then m else if \<exists>i < length ks. v = base + sum_list (take i ks) + ch ! i then 1 else 0)"

lemma choice_point_one_hot:
  assumes "i < length ks" and "\<forall>i < length ks. ch ! i < ks ! i"
  shows "one_hot (choice_point base ks ch m) (var_block base ks i) (ch ! i)"
  unfolding one_hot_def length_var_block
proof (intro conjI allI impI)
  show "ch ! i < ks ! i" using assms by blast
  fix j assume j: "j < ks ! i"
  have "(\<exists>i' < length ks. sum_list (take i ks) + j = sum_list (take i' ks) + ch ! i') \<longleftrightarrow> j = ch ! i"
    using block_unique [of i ks j _ "ch ! _"] assms j by metis
  then show "choice_point base ks ch m (var_block base ks i ! j) = (if j = ch ! i then 1 else 0)"
    using j by (simp add: choice_point_def var_block_def add.assoc)
qed

section \<open>Boundaries and interchangeable nets\<close>

lemma boundary_cases:
  assumes "b \<in> set (boundaries d)"
  obtains (east) x y where "x + 1 < cols d" "y < rows d" "bd_a b = (x, y)" "bd_b b = (x + 1, y)"
      "bd_capacity b = bounded_border_capacity (east (cap_at d x y)) (west (cap_at d (x + 1) y))"
    | (north) x y where "x < cols d" "y + 1 < rows d" "bd_a b = (x, y)" "bd_b b = (x, y + 1)"
      "bd_capacity b = bounded_border_capacity (north (cap_at d x y)) (south (cap_at d x (y + 1)))"
proof -
  obtain x y where xy: "x < cols d" "y < rows d" "b \<in> set (cell_boundaries d x y)"
    using assms by (auto simp: boundaries_def)
  have "cell_boundaries d x y = []" if "device_slot d x y = None" by (simp only: cell_boundaries_def that option.case)
  then obtain s where s: "device_slot d x y = Some s" using xy(3) by (metis empty_iff list.set(1) not_None_eq)
  have pick: "q \<and> (\<exists>t. slot = Some t \<and> b = f t)" if "b \<in> set (if q then case slot of None \<Rightarrow> [] | Some t \<Rightarrow> [f t] else [])"
    for q slot and f :: "Slot \<Rightarrow> Boundary" using that by (cases q; cases slot) simp_all
  have "(x + 1 < cols d \<and> (\<exists>t. device_slot d (x + 1) y = Some t \<and> b = \<lparr>bd_a = (x, y), bd_b = (x + 1, y),
        bd_capacity = bounded_border_capacity (east (wire_cap s)) (west (wire_cap t))\<rparr>)) \<or>
      (y + 1 < rows d \<and> (\<exists>t. device_slot d x (y + 1) = Some t \<and> b = \<lparr>bd_a = (x, y), bd_b = (x, y + 1),
        bd_capacity = bounded_border_capacity (north (wire_cap s)) (south (wire_cap t))\<rparr>))"
    using xy(3) unfolding cell_boundaries_def s option.case set_append Un_iff by (elim disj_forward) (erule pick)+
  then show thesis
  proof (elim disjE conjE exE)
    fix t assume t: "x + 1 < cols d" "device_slot d (x + 1) y = Some t" and b: "b = \<lparr>bd_a = (x, y), bd_b = (x + 1, y),
        bd_capacity = bounded_border_capacity (east (wire_cap s)) (west (wire_cap t))\<rparr>"
    show thesis by (rule east [OF t(1) xy(2)]) (simp_all only: b Boundary.select_convs cap_at_def s t(2) option.sel)
  next
    fix t assume t: "y + 1 < rows d" "device_slot d x (y + 1) = Some t" and b: "b = \<lparr>bd_a = (x, y), bd_b = (x, y + 1),
        bd_capacity = bounded_border_capacity (north (wire_cap s)) (south (wire_cap t))\<rparr>"
    show thesis by (rule north [OF xy(1) t(1)]) (simp_all only: b Boundary.select_convs cap_at_def s t(2) option.sel)
  qed
qed

lemma loads_within_iff:
  assumes "grid_complete d"
  shows "loads_within d nets routes \<longleftrightarrow>
    (\<forall>b \<in> set (boundaries d). fits_limit (edge_load nets routes (bd_a b) (bd_b b)) (bd_capacity b))" (is "?L \<longleftrightarrow> ?R")
proof
  assume R: ?R
  show ?L
    unfolding loads_within_def
    using bspec [OF R boundary_east [OF assms]] bspec [OF R boundary_north [OF assms]] by (simp only: Boundary.select_convs) blast
next
  assume L: ?L
  show ?R
  proof
    fix b assume "b \<in> set (boundaries d)"
    then show "fits_limit (edge_load nets routes (bd_a b) (bd_b b)) (bd_capacity b)"
      by (cases rule: boundary_cases) (use L in \<open>simp_all add: loads_within_def\<close>)
  qed
qed

lemma boundary_capacity_le:
  assumes "b \<in> set (boundaries d)" and "bd_capacity b = Some k"
  shows "k \<le> 2 ^ 53"
proof -
  have "k < 100000000"
    using assms(1) by (cases rule: boundary_cases) (use bounded_capacity_small assms(2) in auto)
  then show ?thesis by simp
qed

definition net_key :: "RouteNet \<Rightarrow> Cell \<times> Cell \<times> nat" where
  "net_key net = (net_src net, net_dst net, net_width net)"

definition key_paths :: "Device \<Rightarrow> Cell \<times> Cell \<times> nat \<Rightarrow> Cell list list" where
  "key_paths d key = enumerate_paths (fst key) (fst (snd key)) (cols d) (rows d) MAX_DETOUR"

lemma net_paths_key: "net_paths d net = key_paths d (net_key net)"
  by (simp add: net_paths_def key_paths_def net_key_def)

lemma sum_by_key:
  fixes G :: "Cell \<times> Cell \<times> nat \<Rightarrow> nat \<Rightarrow> nat"
  assumes "length ch = length nets"
  shows "(\<Sum>i < length nets. G (net_key (nets ! i)) (ch ! i)) = (\<Sum>(k, c) \<in># mset (zip (map net_key nets) ch). G k c)"
proof -
  have "(\<Sum>(k, c) \<in># mset (zip (map net_key nets) ch). G k c) = (\<Sum>(k, c) \<leftarrow> zip (map net_key nets) ch. G k c)"
    by (metis mset_map sum_mset_sum_list)
  also have "\<dots> = (\<Sum>i < length nets. G (net_key (nets ! i)) (ch ! i))"
    using assms by (auto simp: sum_list_sum_nth atLeast0LessThan intro!: sum.cong)
  finally show ?thesis ..
qed

lemma permuted_choice:
  assumes "choice_ok d nets ch" and "length ch' = length nets"
    and "mset (zip (map net_key nets) ch') = mset (zip (map net_key nets) ch)"
  shows "choice_ok d nets ch'"
    and "edge_load nets (chosen d nets ch') u v = edge_load nets (chosen d nets ch) u v"
    and "register_load b nets (chosen d nets ch') cell = register_load b nets (chosen d nets ch) cell"
proof -
  have len: "length ch = length nets" using assms(1) by (simp add: choice_ok_def)
  show ok: "choice_ok d nets ch'"
    unfolding choice_ok_def
  proof (intro conjI allI impI)
    fix i assume i: "i < length nets"
    then have "(net_key (nets ! i), ch' ! i) \<in> set (zip (map net_key nets) ch')" using assms(2) by (force simp: set_zip)
    then have "(net_key (nets ! i), ch' ! i) \<in> set (zip (map net_key nets) ch)" using assms(3) by (metis set_mset_mset)
    then obtain j where "j < length nets" "net_key (nets ! i) = net_key (nets ! j)" "ch' ! i = ch ! j"
      using len by (auto simp: set_zip)
    then show "ch' ! i < length (net_paths d (nets ! i))" using assms(1) by (auto simp: choice_ok_def net_paths_key)
  qed (rule assms(2))
  let ?E = "\<lambda>k c. if crosses_edge u v (key_paths d k ! c) then snd (snd k) else 0"
  have edge: "edge_load nets (chosen d nets c) u v = (\<Sum>i < length nets. ?E (net_key (nets ! i)) (c ! i))" if "choice_ok d nets c" for c
    unfolding edge_load_sum [OF chosen_simps(1) [OF that]]
    by (intro sum.cong) (use that in \<open>simp_all add: net_paths_key [symmetric] net_key_def\<close>, simp add: net_paths_def key_paths_def)
  show "edge_load nets (chosen d nets ch') u v = edge_load nets (chosen d nets ch) u v"
    unfolding edge [OF ok] edge [OF assms(1)] sum_by_key [OF assms(2), of ?E] sum_by_key [OF len, of ?E] assms(3) ..
  let ?R = "\<lambda>k c. count_list (rb_bodies b (key_paths d k ! c)) cell * snd (snd k)"
  have reg: "register_load b nets (chosen d nets c) cell = (\<Sum>i < length nets. ?R (net_key (nets ! i)) (c ! i))" if "choice_ok d nets c" for c
    unfolding register_load_def
    by (intro sum.cong) (use that in \<open>simp_all add: net_paths_key\<close>, simp add: net_key_def)
  show "register_load b nets (chosen d nets ch') cell = register_load b nets (chosen d nets ch) cell"
    unfolding reg [OF ok] reg [OF assms(1)] sum_by_key [OF assms(2), of ?R] sum_by_key [OF len, of ?R] assms(3) ..
qed

section \<open>The program is exact\<close>

lemma holds_expr:
  "holds val \<lparr>con_name = name, con_expr = into_expr ts, con_op = Le, con_rhs = rhs\<rparr> \<longleftrightarrow> row_value ts val \<le> f64_rat rhs"
  "holds val (path_row base ks i) \<longleftrightarrow> row_value (terms (unit_sum (var_block base ks i))) val = 1"
  by (simp_all add: holds_def into_expr_def LinExpr_sum_def path_row_def unit_sum_def)

text \<open>With one path chosen per net, the rows hold exactly when the loads are within the limits.\<close>

lemma boundary_rows_hold:
  assumes "hot val d nets pv ch" and "cand_iter c = map (net_paths d) nets" and "nets_ok nets" and "b \<in> set (boundaries d)"
    and "\<And>v. mx = Some v \<Longrightarrow> of_nat (edge_load nets (chosen d nets ch) (bd_a b) (bd_b b)) \<le> val v"
  shows "(\<forall>r \<in> set (boundary_rows nets c pv mx (k, b)). holds val r) \<longleftrightarrow>
    fits_limit (edge_load nets (chosen d nets ch) (bd_a b) (bd_b b)) (bd_capacity b)"
proof (cases "bd_capacity b")
  case None
  then show ?thesis by (simp add: boundary_rows_def fits_limit_def)
next
  case (Some cap)
  let ?load = "edge_load nets (chosen d nets ch) (bd_a b) (bd_b b)"
  have load: "row_value (crossing_row nets c pv b) val = of_nat ?load" by (rule crossing_value [OF assms(1-3)])
  have cap: "cap \<le> 2 ^ 53" using boundary_capacity_le [OF assms(4) Some] .
  have norm: "of_nat ?load - of_nat cap * val v \<le> 0" if "mx = Some v" "0 < cap" for v
  proof -
    have "of_nat ?load \<le> 1 * val v" using assms(5) [OF that(1)] by simp
    also have "\<dots> \<le> of_nat cap * val v"
      using that(2) order_trans [OF of_nat_0_le_iff assms(5) [OF that(1)]] by (intro mult_right_mono) auto
    finally show ?thesis by simp
  qed
  have "f64_rat (f64_neg (of_uint cap)) = - of_nat cap" by (simp add: of_uint_exact [OF cap])
  then have "(\<forall>r \<in> set (boundary_rows nets c pv mx (k, b)). holds val r) \<longleftrightarrow> (of_nat ?load :: rat) \<le> of_nat cap"
    using norm by (cases mx) (auto simp: boundary_rows_def Some holds_expr load of_uint_rat [OF cap] sparse_push_def, simp add: row_value_def)
  then show ?thesis by (simp add: fits_limit_def Some)
qed

lemma register_rows_hold:
  assumes "hot val d nets pv ch" and "cand_iter c = map (net_paths d) nets" and "budget_ok d nets (Some b)"
    and "\<forall>k \<in> set (cand_of_net c). k < length (cand_sets c)"
  shows "(\<forall>r \<in> set (register_rows nets c pv b). holds val r) \<longleftrightarrow> registers_within (Some b) nets (chosen d nets ch)"
proof -
  have "holds val \<lparr>con_name = name, con_expr = into_expr (register_row nets c pv (map (map (\<lambda>path. body_counts (rb_bodies b path))) (cand_sets c)) cell),
         con_op = Le, con_rhs = of_uint available\<rparr> \<longleftrightarrow> register_load b nets (chosen d nets ch) cell \<le> available"
    if "(cell, available) \<in> set (rb_available b)" for cell available name
  proof -
    have "available \<le> 2 ^ 53" using that assms(3) by (auto simp: budget_ok_def list_all_iff)
    then show ?thesis by (simp add: holds_expr register_value [OF assms] of_uint_rat)
  qed
  then show ?thesis by (auto simp: register_rows_def registers_within_def list_all_iff)
qed

lemma symmetry_row_holds:
  assumes "hot val d nets pv ch" and "ascending (map net_key nets) ch" and "symmetry_row nets pv r"
    and "\<forall>i < length nets. length (pv ! i) \<le> 2 ^ 32"
  shows "holds val r"
proof -
  obtain i j where ij: "i < j" "j < length nets" "net_key (nets ! i) = net_key (nets ! j)" and
    r: "con_op r = Le" "con_rhs r = Finite 0" "con_expr r = into_expr (rank_terms (pv ! i) (Finite 1) @ rank_terms (pv ! j) (Finite (- 1)))"
    using assms(3) by (auto simp: symmetry_row_def net_key_def)
  have i: "i < length nets" using ij by simp
  have le: "ch ! i \<le> ch ! j" using assms(2) ij by (simp add: ascending_def)
  have "row_value (rank_terms (pv ! i) (Finite 1)) val = of_nat (ch ! i)"
    "row_value (rank_terms (pv ! j) (Finite (- 1))) val = - of_nat (ch ! j)"
    using rank_value [of val "pv ! i" "ch ! i" 1] rank_value [of val "pv ! j" "ch ! j" "- 1"] assms(1,4) i ij(2)
    by (auto simp: hot_def)
  then show ?thesis using le by (simp add: holds_def r into_expr_def LinExpr_sum_def)
qed

lemma legal_route_candidate:
  assumes "grid_ok (cols d) (rows d)" and "legal_route d net p"
  shows "p \<in> set (net_paths d net)"
proof -
  have p: "p \<noteq> []" "hd p = net_src net" "last p = net_dst net" "simple_path (in_bounds (cols d) (rows d)) p"
      "length p \<le> Fp_Paths.dist (net_src net) (net_dst net) + 3"
    using assms(2) by (simp_all add: legal_route_def)
  have "in_bounds (cols d) (rows d) (net_src net)" "in_bounds (cols d) (rows d) (net_dst net)"
    using p(1-4) by (metis hd_in_set last_in_set simple_path_def)+
  from paths_exact [OF assms(1) this, of MAX_DETOUR] p show ?thesis by (simp add: net_paths_def MAX_DETOUR_def)
qed

lemma choice_of_routes:
  assumes "grid_ok (cols d) (rows d)" and "list_all2 (legal_route d) nets routes"
  obtains ch where "choice_ok d nets ch" "chosen d nets ch = routes"
proof -
  have n: "length routes = length nets" using assms(2) by (simp add: list_all2_lengthD)
  have "\<exists>k < length (net_paths d (nets ! i)). net_paths d (nets ! i) ! k = routes ! i" if "i < length nets" for i
    using legal_route_candidate [OF assms(1) list_all2_nthD [OF assms(2) that]] by (simp add: in_set_conv_nth)
  then obtain f where f: "\<And>i. i < length nets \<Longrightarrow> f i < length (net_paths d (nets ! i)) \<and> net_paths d (nets ! i) ! f i = routes ! i"
    by metis
  have ok: "choice_ok d nets (map f [0..<length nets])" using f by (simp add: choice_ok_def)
  moreover have "chosen d nets (map f [0..<length nets]) = routes"
    using f n ok by (intro nth_equalityI) simp_all
  ultimately show thesis by (rule that)
qed

lemma boundary_rows_fit:
  assumes "hot val d nets pv ch" and "cand_iter c = map (net_paths d) nets" and "nets_ok nets" and "b \<in> set (boundaries d)"
    and "\<forall>r \<in> set (boundary_rows nets c pv mx (k, b)). holds val r"
  shows "fits_limit (edge_load nets (chosen d nets ch) (bd_a b) (bd_b b)) (bd_capacity b)"
proof (cases "bd_capacity b")
  case (Some cap)
  have "cap \<le> 2 ^ 53" using boundary_capacity_le [OF assms(4) Some] .
  then show ?thesis using assms(5) crossing_value [OF assms(1-3), of b]
    by (simp add: boundary_rows_def Some holds_expr of_uint_rat fits_limit_def)
qed (simp add: fits_limit_def)

text \<open>The rows of a program, given one path per net.\<close>

lemma rows_of_choice:
  assumes "hot val d nets pv ch" and "candidates_for nets d = Inr c" and "nets_ok nets" and "budget_ok d nets budget" and "grid_complete d"
    and "\<forall>x \<in> set (List.enumerate 0 (boundaries d)). \<forall>r \<in> set (boundary_rows nets c pv mx x). holds val r"
    and "\<forall>r \<in> set (case budget of None \<Rightarrow> [] | Some b \<Rightarrow> register_rows nets c pv b). holds val r"
  shows "loads_within d nets (chosen d nets ch) \<and> registers_within budget nets (chosen d nets ch)"
proof
  have c: "cand_iter c = map (net_paths d) nets" "\<forall>k \<in> set (cand_of_net c). k < length (cand_sets c)"
    using candidates_for_Inr [OF assms(2)] by blast+
  have "\<exists>k. (k, b) \<in> set (List.enumerate 0 (boundaries d))" if b: "b \<in> set (boundaries d)" for b
  proof -
    obtain i where "i < length (boundaries d)" "boundaries d ! i = b" using b by (auto simp: in_set_conv_nth)
    then show ?thesis by (intro exI [of _ i]) (simp add: in_set_enumerate_eq)
  qed
  then show "loads_within d nets (chosen d nets ch)"
    unfolding loads_within_iff [OF assms(5)] using boundary_rows_fit [OF assms(1) c(1) assms(3)] assms(6) by metis
  show "registers_within budget nets (chosen d nets ch)"
  proof (cases budget)
    case (Some b)
    then show ?thesis using register_rows_hold [OF assms(1) c(1) _ c(2), of b] assms(4,7) by simp
  qed (simp add: registers_within_def)
qed

lemma feasible_choice:
  assumes "feasible lp" and "route_model nets c limits budget = (lp, mx, pv)" and "candidates_for nets d = Inr c"
  obtains val ch where "hot val d nets pv ch" "\<forall>r \<in> set (constraints lp). holds val r"
proof -
  let ?u = "utilisation_base limits" and ?ks = "map length (cand_iter c)"
  have c: "cand_iter c = map (net_paths d) nets" using candidates_for_Inr [OF assms(3)] by blast
  have n: "length (cand_iter c) = length nets" by (simp add: c)
  from route_model_structure [OF assms(2) n] obtain labels rs where
    m: "pv = map (var_block ?u ?ks) [0..<length nets]" "vars lp = replicate ?u utilisation_var @ map binary_def labels"
      "length labels = sum_list ?ks" "set (map (path_row ?u ?ks) [0..<length nets]) \<subseteq> set (constraints lp)"
    by (metis Un_upper1 set_append)
  obtain val where v: "\<forall>v < length (vars lp). admissible (vars lp ! v) (val v)" "\<forall>r \<in> set (constraints lp). holds val r"
    using assms(1) by (auto simp: feasible_def)
  have "\<exists>k. one_hot val (pv ! i) k" if i: "i < length nets" for i
  proof (rule unit_sum_one_hot)
    have pvi: "pv ! i = var_block ?u ?ks i" using i by (simp add: m(1))
    show "\<forall>v \<in> set (pv ! i). val v = 0 \<or> val v = 1"
    proof
      fix x assume "x \<in> set (pv ! i)"
      then have x: "?u \<le> x" "x < ?u + sum_list ?ks" using block_in_range [of i ?ks x ?u] i n by (simp_all add: pvi)
      then have "vars lp ! x = binary_def (labels ! (x - ?u))" "x < length (vars lp)" using m(3) by (simp_all add: m(2) nth_append)
      then show "val x = 0 \<or> val x = 1" using v(1) by (metis VarDef.select_convs(2) admissible_def binary_def_def)
    qed
    have "path_row ?u ?ks i \<in> set (map (path_row ?u ?ks) [0..<length nets])" using i by simp
    then have "holds val (path_row ?u ?ks i)" using v(2) m(4) by blast
    then show "(\<Sum>v \<leftarrow> pv ! i. val v) = 1"
      by (simp add: holds_expr pvi row_value_def unit_sum_def LinExpr_sum_def comp_def)
  qed
  then obtain f where f: "\<And>i. i < length nets \<Longrightarrow> one_hot val (pv ! i) (f i)" by metis
  have len: "length (pv ! i) = length (net_paths d (nets ! i))" if "i < length nets" for i using that by (simp add: m(1) c)
  have "hot val d nets pv (map f [0..<length nets])"
    using f len by (auto simp: hot_def choice_ok_def one_hot_def)
  then show thesis using that v(2) by blast
qed

lemma choice_feasible:
  assumes "choice_ok d nets ch" and "ascending (map net_key nets) ch"
    and "route_model nets c (boundaries d) budget = (lp, mx, pv)" and "candidates_for nets d = Inr c"
    and "nets_ok nets" and "budget_ok d nets budget" and "\<not> vars_overflow lp" and "grid_complete d"
    and "loads_within d nets (chosen d nets ch)" and "registers_within budget nets (chosen d nets ch)"
  shows "feasible lp"
proof -
  let ?limits = "boundaries d" and ?ks = "map length (cand_iter c)"
  let ?u = "utilisation_base ?limits"
  have c: "cand_iter c = map (net_paths d) nets" "\<forall>k \<in> set (cand_of_net c). k < length (cand_sets c)"
    using candidates_for_Inr [OF assms(4)] by blast+
  have n: "length (cand_iter c) = length nets" by (simp add: c)
  from route_model_structure [OF assms(3) n] obtain labels rs where
    pv: "pv = map (var_block ?u ?ks) [0..<length nets]" and mx: "mx = (if ?u = 1 then Some 0 else None)"
    and vars: "vars lp = replicate ?u utilisation_var @ map binary_def labels" "length labels = sum_list ?ks"
    and cons: "constraints lp = map (path_row ?u ?ks) [0..<length nets] @ rs @
       (case budget of None \<Rightarrow> [] | Some b \<Rightarrow> register_rows nets c pv b) @ concat (map (boundary_rows nets c pv mx) (List.enumerate 0 ?limits))"
    and rs: "\<forall>r \<in> set rs. symmetry_row nets pv r" .
  define m where "m = (\<Sum>i < length nets. net_width (nets ! i))"
  define val where "val = choice_point ?u ?ks ch (of_nat m)"
  have k: "\<forall>i < length ?ks. ch ! i < ?ks ! i" using assms(1) by (simp add: choice_ok_def c)
  have pvi: "pv ! i = var_block ?u ?ks i" if "i < length nets" for i using that by (simp add: pv)
  have hot: "hot val d nets pv ch"
    using choice_point_one_hot [OF _ k, of _ ?u "of_nat m"] assms(1) by (simp add: hot_def val_def pvi c)
  have load: "edge_load nets (chosen d nets ch) u v \<le> m" for u v
    unfolding m_def edge_load_sum [OF chosen_simps(1) [OF assms(1)]] by (intro sum_mono) simp
  have "admissible (vars lp ! v) (val v)" if "v < length (vars lp)" for v
  proof (cases "v < ?u")
    case True
    then show ?thesis by (simp add: vars nth_append utilisation_var_def admissible_def val_def choice_point_def)
  next
    case False
    then have "vars lp ! v = binary_def (labels ! (v - ?u))" using that by (simp add: vars nth_append)
    then show ?thesis using False by (auto simp: binary_def_def admissible_def val_def choice_point_def)
  qed
  moreover have "holds val r" if r: "r \<in> set (constraints lp)" for r
  proof -
    consider (path) i where "i < length nets" "r = path_row ?u ?ks i" | (symmetry) "r \<in> set rs"
      | (register) b where "budget = Some b" "r \<in> set (register_rows nets c pv b)"
      | (boundary) k b where "(k, b) \<in> set (List.enumerate 0 ?limits)" "r \<in> set (boundary_rows nets c pv mx (k, b))"
      using r unfolding cons by (cases budget) auto
    then show ?thesis
    proof cases
      case path
      then show ?thesis using hot one_hot_sum pvi by (auto simp: holds_expr hot_def)
    next
      case symmetry
      have "length (pv ! i) \<le> 2 ^ 32" if "i < length nets" for i
      proof -
        have "sum_list (take i ?ks) + ?ks ! i \<le> sum_list ?ks" using that n sum_take_Suc [of i ?ks] sum_take_mono [of "Suc i" "length ?ks" ?ks] by simp
        moreover have "sum_list ?ks \<le> 2 ^ 32" using assms(7) vars by (simp add: vars_overflow_def)
        ultimately show ?thesis using that by (simp add: pvi)
      qed
      then show ?thesis using symmetry_row_holds [OF hot assms(2)] rs symmetry by blast
    next
      case register
      then show ?thesis using register_rows_hold [OF hot c(1) _ c(2), of b] assms(6,10) by simp
    next
      case boundary
      then have b: "b \<in> set ?limits" by (metis in_set_enumerate_eq nth_mem snd_conv add.right_neutral diff_zero fst_conv)
      have big: "of_nat (edge_load nets (chosen d nets ch) (bd_a b) (bd_b b)) \<le> val v" if "mx = Some v" for v
        using that load by (simp add: mx val_def choice_point_def split: if_splits)
      have "fits_limit (edge_load nets (chosen d nets ch) (bd_a b) (bd_b b)) (bd_capacity b)"
        using assms(9) b unfolding loads_within_iff [OF assms(8)] by blast
      then show ?thesis using boundary_rows_hold [OF hot c(1) assms(5) b big] boundary(2) by blast
    qed
  qed
  ultimately show ?thesis unfolding feasible_def by blast
qed

text \<open>C32: The routing program is exact.  For a validated device and endpoints with candidate paths, the integer program built by
  \<open>route_nets\<close> has a 0/1 solution if and only if there is a legal routing: one simple path per net within the detour, with every
  slot boundary within its capacity and every slot within its register budget.  The rows that order nets with equal endpoints and
  width therefore exclude no routing, and infeasibility of the program means that no legal routing exists.\<close>

theorem routing_model_exact:
  assumes "device_validate d = Inr ()" and "grid_ok (cols d) (rows d)" and "nets_ok nets" and "budget_ok d nets budget"
    and "candidates_for nets d = Inr c" and "route_model nets c (boundaries d) budget = (lp, mx, path_vars)" and "\<not> vars_overflow lp"
  shows "feasible lp \<longleftrightarrow>
    (\<exists>routes. list_all2 (legal_route d) nets routes \<and> loads_within d nets routes \<and> registers_within budget nets routes)"
proof
  have g: "grid_complete d" using assms(1) by (auto simp: device_validate_def bindR_eq_Inr validate_grid_Inr)
  {
    assume "feasible lp"
    from feasible_choice [OF this assms(6,5)] obtain val ch where
      h: "hot val d nets path_vars ch" "\<forall>r \<in> set (constraints lp). holds val r" .
    have n: "length (cand_iter c) = length nets" using candidates_for_Inr [OF assms(5)] by simp
    have ok: "choice_ok d nets ch" using h(1) by (simp add: hot_def)
    have "list_all2 (legal_route d) nets (chosen d nets ch)"
      using ok by (auto simp: list_all2_conv_all_nth choice_ok_def intro!: net_paths_legal [OF g assms(2)])
    moreover have "loads_within d nets (chosen d nets ch) \<and> registers_within budget nets (chosen d nets ch)"
    proof (rule rows_of_choice [OF h(1) assms(5,3,4) g])
      have sub: "set (case budget of None \<Rightarrow> [] | Some b \<Rightarrow> register_rows nets c path_vars b) \<union>
          set (concat (map (boundary_rows nets c path_vars mx) (List.enumerate 0 (boundaries d)))) \<subseteq> set (constraints lp)"
        using route_model_structure [OF assms(6) n] by (metis (no_types, lifting) Un_upper2 le_supI2 set_append)
      show "\<forall>x \<in> set (List.enumerate 0 (boundaries d)). \<forall>r \<in> set (boundary_rows nets c path_vars mx x). holds val r"
        using sub h(2) by (simp add: subset_iff) blast
      show "\<forall>r \<in> set (case budget of None \<Rightarrow> [] | Some b \<Rightarrow> register_rows nets c path_vars b). holds val r"
        using sub h(2) by blast
    qed
    ultimately show "\<exists>routes. list_all2 (legal_route d) nets routes \<and> loads_within d nets routes \<and> registers_within budget nets routes"
      by blast
  }
  assume "\<exists>routes. list_all2 (legal_route d) nets routes \<and> loads_within d nets routes \<and> registers_within budget nets routes"
  then obtain routes where r: "list_all2 (legal_route d) nets routes" "loads_within d nets routes" "registers_within budget nets routes"
    by blast
  from choice_of_routes [OF assms(2) r(1)] obtain ch where ch: "choice_ok d nets ch" "chosen d nets ch = routes" .
  obtain ch' where ch': "length ch' = length nets" "mset (zip (map net_key nets) ch') = mset (zip (map net_key nets) ch)"
      "ascending (map net_key nets) ch'"
    using ascending_exists [of ch "map net_key nets"] ch(1) by (auto simp: choice_ok_def)
  note same = permuted_choice [OF ch(1) ch'(1,2)]
  have "loads_within d nets (chosen d nets ch')" using r(2) same(2) ch(2) by (simp add: loads_within_def)
  moreover have "registers_within budget nets (chosen d nets ch')"
    using r(3) same(3) ch(2) by (simp add: registers_within_def split: option.splits)
  ultimately show "feasible lp" using choice_feasible [OF same(1) ch'(3) assms(6,5,3,4,7) g] by blast
qed

theorem routing_model_exact_witness: "feasible (fst (route_model [demo_net] demo_cands (boundaries demo_device) None))"
proof -
  obtain lp mx pv where m: "route_model [demo_net] demo_cands (boundaries demo_device) None = (lp, mx, pv)" by (metis prod_cases3)
  have g: "grid_complete demo_device" using demo_device_valid by (auto simp: device_validate_def bindR_eq_Inr validate_grid_Inr)
  have "list_all2 (legal_route demo_device) [demo_net] [[(0, 0), (1, 0)]]"
    using net_paths_legal [OF g demo_inputs(2), of _ demo_net] by (simp add: demo_net_paths)
  moreover have "loads_within demo_device [demo_net] [[(0, 0), (1, 0)]]"
    by (rule within_capacity_loads [OF demo_inputs(4,1) g])
  moreover have "registers_within None [demo_net] [[(0, 0), (1, 0)]]" "budget_ok demo_device [demo_net] None"
    by (simp_all add: registers_within_def budget_ok_def)
  ultimately have "feasible lp"
    using routing_model_exact [OF demo_device_valid demo_inputs(2,1) _ demo_inputs(3) m] demo_model [OF m] by blast
  then show ?thesis by (simp add: m)
qed

end
