(* ===== verification/Fp_Domains.thy ===== *)
theory Fp_Domains
  imports Fp_Graph Fp_Cut Fp_Solver
begin

text \<open>
  \<^verbatim>\<open>tapa-core/tapa-floorplan/src/partition/ilp.rs\<close>, first part: the configuration of a placement, the regions of an
  iteration, the derated capacity of a region and the candidate regions of every vertex.
\<close>

section \<open>Keys\<close>

text \<open>The derived orders of \<^verbatim>\<open>Coor\<close> and \<^verbatim>\<open>Resource\<close>.\<close>

instantiation Coor_ext :: (linorder) linorder
begin

definition less_eq_Coor_ext :: "'a Coor_ext \<Rightarrow> 'a Coor_ext \<Rightarrow> bool" where
  "a \<le> b \<longleftrightarrow> (dl_x a, dl_y a, ur_x a, ur_y a, Coor.more a) \<le> (dl_x b, dl_y b, ur_x b, ur_y b, Coor.more b)"

definition less_Coor_ext :: "'a Coor_ext \<Rightarrow> 'a Coor_ext \<Rightarrow> bool" where
  "a < b \<longleftrightarrow> (dl_x a, dl_y a, ur_x a, ur_y a, Coor.more a) < (dl_x b, dl_y b, ur_x b, ur_y b, Coor.more b)"

instance
proof
  fix a b c :: "'a Coor_ext"
  show "a < b \<longleftrightarrow> a \<le> b \<and> \<not> b \<le> a" unfolding less_Coor_ext_def less_eq_Coor_ext_def by (rule less_le_not_le)
  show "a \<le> a" unfolding less_eq_Coor_ext_def by (rule order_refl)
  show "a \<le> b \<Longrightarrow> b \<le> c \<Longrightarrow> a \<le> c" unfolding less_eq_Coor_ext_def by (rule order_trans)
  show "a \<le> b \<Longrightarrow> b \<le> a \<Longrightarrow> a = b" unfolding less_eq_Coor_ext_def by (drule (1) order_antisym) (simp add: Coor.equality)
  show "a \<le> b \<or> b \<le> a" unfolding less_eq_Coor_ext_def by (rule linear)
qed

end

fun resource_rank :: "Resource \<Rightarrow> nat" where
  "resource_rank Ff = 0"
| "resource_rank Lut = 1"
| "resource_rank Bram18k = 2"
| "resource_rank Dsp = 3"
| "resource_rank Uram = 4"

instantiation Resource :: linorder
begin

definition less_eq_Resource :: "Resource \<Rightarrow> Resource \<Rightarrow> bool" where
  "a \<le> b \<longleftrightarrow> resource_rank a \<le> resource_rank b"

definition less_Resource :: "Resource \<Rightarrow> Resource \<Rightarrow> bool" where
  "a < b \<longleftrightarrow> resource_rank a < resource_rank b"

instance
proof
  fix a b :: Resource
  show "a \<le> b \<Longrightarrow> b \<le> a \<Longrightarrow> a = b" unfolding less_eq_Resource_def by (cases a; cases b) simp_all
qed (auto simp: less_Resource_def less_eq_Resource_def)

end

section \<open>Configuration\<close>

definition USAGE_LIMIT_STEP :: f64 where
  "USAGE_LIMIT_STEP = to_f64 (2 / 100)"

definition MAX_USAGE_LIMIT :: f64 where
  "MAX_USAGE_LIMIT = to_f64 (95 / 100)"

definition FLAT_SCHEDULE_MAX_EDGE_COUNT :: nat where
  "FLAT_SCHEDULE_MAX_EDGE_COUNT = 300"

definition MULTILEVEL_SCHEDULE_EDGE_COUNT :: nat where
  "MULTILEVEL_SCHEDULE_EDGE_COUNT = 800"

definition MULTILEVEL_SCHEDULE_MIN_ROWS :: nat where
  "MULTILEVEL_SCHEDULE_MIN_ROWS = 3"

datatype PartitionStrategy = Auto | Flat | MultiLevel

type_synonym RegionAreas = "(Coor, Area) btree"
type_synonym RegionResourceLimits = "(string, (Resource, f64) btree) btree"

record PlacementConstraints =
  max_resource_limits :: RegionResourceLimits

definition PlacementConstraints_default :: PlacementConstraints where
  "PlacementConstraints_default = \<lparr>max_resource_limits = []\<rparr>"

record PlacementConfig =
  usage_limit :: f64
  retry_ceiling :: f64
  strategy :: PartitionStrategy
  cfg_constraints :: PlacementConstraints

definition PlacementConfig_default :: PlacementConfig where
  "PlacementConfig_default =
     \<lparr>usage_limit = DEFAULT_USAGE_LIMIT, retry_ceiling = MAX_USAGE_LIMIT, strategy = Auto, cfg_constraints = PlacementConstraints_default\<rparr>"

datatype demand_detail = OverBudget Resource nat nat | EverythingFits

datatype anchor_detail =
    NoTaggedRegion string string
  | AnchorExcluded string string "string list"
  | AnchorTooSmall string string "string list" Area Area

datatype assignment_fault =
    OmittedVariable string LpVar
  | NonBinaryValues string "f64 list"
  | NotOneCandidate string "f64 list"
  | NonAtomic string string
  | AccountingOverflow string

datatype IlpError =
    IlpSolver SolverError
  | IlpInfeasible f64 demand_detail
  | IlpNoIncumbent LpStatus
  | InvalidLimit string string f64 bool
  | CeilingBelowBase f64
  | NoCandidates string
  | AnchorUnplaceable anchor_detail
  | InvalidRegion string
  | IlpInvalidSolution assignment_fault

definition select_strategy :: "Device \<Rightarrow> nat \<Rightarrow> PartitionStrategy" where
  "select_strategy d edge_count =
     (if cols d = 1 \<or> edge_count < FLAT_SCHEDULE_MAX_EDGE_COUNT then Flat
      else if edge_count > MULTILEVEL_SCHEDULE_EDGE_COUNT then MultiLevel
      else if rows d \<ge> MULTILEVEL_SCHEDULE_MIN_ROWS then MultiLevel
      else Flat)"

definition resolve_strategy :: "FloorGraph \<Rightarrow> Device \<Rightarrow> PartitionStrategy \<Rightarrow> PartitionStrategy" where
  "resolve_strategy graph d requested =
     (case requested of Auto \<Rightarrow> select_strategy d (length (placement_edges graph)) | _ \<Rightarrow> requested)"

definition validate_limit :: "string \<Rightarrow> string \<Rightarrow> f64 \<Rightarrow> bool \<Rightarrow> IlpError + unit" where
  "validate_limit kind region v allow_zero =
     (let lower_bound_ok = f64_lt (Finite 0) v \<or> (allow_zero \<and> f64_le (Finite 0) v)
      in check (is_finite v \<and> lower_bound_ok \<and> f64_le v (Finite 1)) (InvalidLimit kind region v allow_zero))"

definition validate_config :: "PlacementConfig \<Rightarrow> IlpError + unit" where
  "validate_config config =
     bindR (validate_limit ''base'' ''all regions'' (usage_limit config) False) (\<lambda>_.
     bindR (validate_limit ''retry ceiling'' ''all regions'' (retry_ceiling config) False) (\<lambda>_.
     if f64_lt (retry_ceiling config) (usage_limit config) then Inl (CeilingBelowBase (retry_ceiling config))
     else foldR (\<lambda>_ (region, by_resource).
            foldR (\<lambda>_ (_, v). validate_limit ''maximum'' region v True) () by_resource)
            () (max_resource_limits (cfg_constraints config))))"

section \<open>Regions\<close>

definition region_areas :: "Device \<Rightarrow> Coor list \<Rightarrow> IlpError + RegionAreas" where
  "region_areas d regions =
     bindR (mapR (\<lambda>region. bindR (ok_or (InvalidRegion (region_name region)) (island_area d region)) (\<lambda>area. Inr (region, area))) regions)
       (\<lambda>entries. Inr (bt_collect entries))"

definition atomic_regions :: "Device \<Rightarrow> Coor list" where
  "atomic_regions d =
     concat (map (\<lambda>x. concat (map (\<lambda>y. if device_slot d x y \<noteq> None then [Coor_slot x y] else []) [0..<rows d])) [0..<cols d])"

definition row_regions :: "Device \<Rightarrow> Coor list" where
  "row_regions d = map (\<lambda>y. Coor_span 0 y (wrapping_sub 32 (cols d) 1) y) [0..<rows d]"

definition exact_resource_cap_constraints :: "Device \<Rightarrow> f64 \<Rightarrow> PlacementConstraints" where
  "exact_resource_cap_constraints d block_limit =
     (let by_resource = bt_collect (map (\<lambda>resource. (resource, block_limit))
            (filter (\<lambda>resource. plans_resource d resource \<and> \<not> is_logic resource) Resource_ALL))
      in \<lparr>max_resource_limits = bt_collect (map (\<lambda>region. (region_name region, by_resource)) (row_regions d @ atomic_regions d))\<rparr>)"

section \<open>Capacities\<close>

definition lookup_limit :: "RegionResourceLimits \<Rightarrow> Coor \<Rightarrow> Resource \<Rightarrow> f64 option" where
  "lookup_limit limits region resource =
     Option.bind (bt_get limits (region_name region)) (\<lambda>by_resource. bt_get by_resource resource)"

definition limit_or :: "RegionResourceLimits \<Rightarrow> Coor \<Rightarrow> Resource \<Rightarrow> f64 \<Rightarrow> f64" where
  "limit_or limits region resource default_limit =
     (case lookup_limit limits region resource of None \<Rightarrow> default_limit | Some limit \<Rightarrow> limit)"

definition scaled_area_with_overrides :: "Area \<Rightarrow> f64 \<Rightarrow> RegionResourceLimits \<Rightarrow> Coor \<Rightarrow> Area" where
  "scaled_area_with_overrides area default_limit limits region =
     from_amounts (\<lambda>resource. scaled_amount (amount resource area) (limit_or limits region resource default_limit))"

definition component_max :: "Area \<Rightarrow> Area \<Rightarrow> Area" where
  "component_max a b = from_amounts (\<lambda>resource. max (amount resource a) (amount resource b))"

definition area_fits_with :: "Area \<Rightarrow> Area \<Rightarrow> (Resource \<Rightarrow> bool) \<Rightarrow> bool" where
  "area_fits_with required available planned =
     list_all (\<lambda>resource. amount resource required \<le> amount resource available) (filter planned Resource_ALL)"

definition area_fits :: "Area \<Rightarrow> Area \<Rightarrow> bool" where
  "area_fits required available = area_fits_with required available (\<lambda>_. True)"

definition area_fits_on_device :: "Device \<Rightarrow> Area \<Rightarrow> Area \<Rightarrow> bool" where
  "area_fits_on_device d required available = area_fits_with required available (plans_resource d)"

fun join :: "string \<Rightarrow> string list \<Rightarrow> string" where
  "join sep [] = []"
| "join sep [x] = x"
| "join sep (x # y # xs) = x @ sep @ join sep (y # xs)"

definition describe_area :: "Area \<Rightarrow> string" where
  "describe_area area =
     (let parts = map (\<lambda>resource. resource_name resource @ ''='' @ show_nat (amount resource area))
            (filter (\<lambda>resource. amount resource area > 0) Resource_ALL)
      in if parts = [] then ''no resources'' else join '' '' parts)"

definition region_has_tag :: "Device \<Rightarrow> Coor \<Rightarrow> string \<Rightarrow> bool" where
  "region_has_tag d region required =
     list_ex (\<lambda>(x, y). case device_slot d x y of None \<Rightarrow> False | Some slot \<Rightarrow> list_ex (\<lambda>tag. tag = required) (slot_tags slot))
       (all_slot_coors region)"

section \<open>Messages\<close>

definition saturating_mul :: "nat \<Rightarrow> nat \<Rightarrow> nat \<Rightarrow> nat" where
  "saturating_mul bits a b = min (a * b) (2 ^ bits - 1)"

definition demand_step :: "Device \<Rightarrow> FloorGraph \<Rightarrow> RegionAreas \<Rightarrow> f64 \<Rightarrow> PlacementConstraints
    \<Rightarrow> (Resource \<times> nat \<times> nat) option \<Rightarrow> Resource \<Rightarrow> (Resource \<times> nat \<times> nat) option" where
  "demand_step d graph areas limit rules worst resource =
     (if \<not> plans_resource d resource then worst
      else let demand = wrap 64 (sum_list (map (\<lambda>vertex. amount resource (v_area vertex)) (vertices graph)));
               supply = wrap 64 (sum_list (map (\<lambda>(region, capacity).
                 scaled_amount (amount resource capacity) (limit_or (max_resource_limits rules) region resource limit)) areas))
           in if demand > supply \<and> (case worst of None \<Rightarrow> True
                | Some (_, worst_demand, worst_supply) \<Rightarrow> saturating_mul 64 demand worst_supply > saturating_mul 64 worst_demand supply)
              then Some (resource, demand, supply) else worst)"

definition describe_demand :: "Device \<Rightarrow> FloorGraph \<Rightarrow> RegionAreas \<Rightarrow> f64 \<Rightarrow> PlacementConstraints \<Rightarrow> demand_detail" where
  "describe_demand d graph areas limit rules =
     (case foldl (demand_step d graph areas limit rules) None Resource_ALL of
        Some (resource, demand, supply) \<Rightarrow> OverBudget resource demand supply
      | None \<Rightarrow> EverythingFits)"

definition anchor_unplaceable_error :: "Vertex \<Rightarrow> string \<Rightarrow> Device \<Rightarrow> Coor list \<Rightarrow> RegionAreas \<Rightarrow> f64 \<Rightarrow> PlacementConstraints \<Rightarrow> bool \<Rightarrow> IlpError" where
  "anchor_unplaceable_error vertex tag d regions areas limit rules externally_pinned =
     (let tagged = filter (\<lambda>region. region_has_tag d region tag) regions in
      if tagged = [] then AnchorUnplaceable (NoTaggedRegion (v_name vertex) tag)
      else let names = map region_name tagged;
               scaled = (\<lambda>region capacity. scaled_area_with_overrides capacity limit (max_resource_limits rules) region);
               fits_somewhere = list_ex (\<lambda>region. case bt_get areas region of None \<Rightarrow> False
                 | Some capacity \<Rightarrow> area_fits (v_area vertex) (scaled region capacity)) tagged
           in if fits_somewhere \<and> externally_pinned then AnchorUnplaceable (AnchorExcluded (v_name vertex) tag names)
              else let offers = List.map_filter (\<lambda>region. map_option (scaled region) (bt_get areas region)) tagged;
                       best_available = (case offers of [] \<Rightarrow> Area_default | a # as \<Rightarrow> foldl component_max a as)
                   in AnchorUnplaceable (AnchorTooSmall (v_name vertex) tag names (v_area vertex) best_available))"

section \<open>Candidate domains\<close>

definition admit_region :: "Device \<Rightarrow> RegionAreas \<Rightarrow> f64 \<Rightarrow> Coor option \<Rightarrow> PlacementConstraints \<Rightarrow> Vertex \<Rightarrow> Coor list \<Rightarrow> Coor \<Rightarrow> IlpError + Coor list" where
  "admit_region d areas limit parent rules vertex candidates region =
     (if (case parent of None \<Rightarrow> False | Some p \<Rightarrow> \<not> is_inside region p) then Inr candidates
      else if (case required_tag vertex of None \<Rightarrow> False | Some tag \<Rightarrow> \<not> region_has_tag d region tag) then Inr candidates
      else bindR (ok_or (InvalidRegion (region_name region)) (bt_get areas region)) (\<lambda>capacity.
        let available = scaled_area_with_overrides capacity limit (max_resource_limits rules) region
        in if \<not> area_fits_on_device d (v_area vertex) available then Inr candidates else Inr (candidates @ [region])))"

definition vertex_domain :: "Device \<Rightarrow> Coor list \<Rightarrow> RegionAreas \<Rightarrow> f64 \<Rightarrow> Coor option \<Rightarrow> PlacementConstraints \<Rightarrow> Vertex \<Rightarrow> IlpError + Coor list" where
  "vertex_domain d regions areas limit parent rules vertex =
     bindR (foldR (admit_region d areas limit parent rules vertex) [] regions) (\<lambda>candidates.
       let candidates' = remdups_adj (sort candidates)
       in if candidates' = []
          then Inl (case required_tag vertex of
                 Some tag \<Rightarrow> anchor_unplaceable_error vertex tag d regions areas limit rules (parent \<noteq> None)
               | None \<Rightarrow> NoCandidates (v_name vertex))
          else Inr candidates')"

text \<open>A list of parents shorter than the vertices is an index out of range.\<close>

definition candidate_domains :: "FloorGraph \<Rightarrow> Device \<Rightarrow> Coor list \<Rightarrow> RegionAreas \<Rightarrow> f64 \<Rightarrow> Coor list option \<Rightarrow> PlacementConstraints
    \<Rightarrow> IlpError fault + Coor list list" where
  "candidate_domains graph d regions areas limit parents rules =
     mapR (\<lambda>(index, vertex).
       case parents of
         None \<Rightarrow> map_err Err (vertex_domain d regions areas limit None rules vertex)
       | Some assignments \<Rightarrow>
           if index < length assignments
           then map_err Err (vertex_domain d regions areas limit (Some (assignments ! index)) rules vertex)
           else Inl Panicked)
       (List.enumerate 0 (vertices graph))"

section \<open>What a domain holds\<close>

definition capacity_at :: "f64 \<Rightarrow> PlacementConstraints \<Rightarrow> Coor \<Rightarrow> Area \<Rightarrow> Resource \<Rightarrow> nat" where
  "capacity_at limit rules region capacity r = scaled_amount (amount r capacity) (limit_or (max_resource_limits rules) region r limit)"

definition may_host :: "Device \<Rightarrow> RegionAreas \<Rightarrow> f64 \<Rightarrow> Coor option \<Rightarrow> PlacementConstraints \<Rightarrow> Vertex \<Rightarrow> Coor \<Rightarrow> bool" where
  "may_host d areas limit parent rules vertex region \<longleftrightarrow>
     (case parent of None \<Rightarrow> True | Some p \<Rightarrow> is_inside region p) \<and>
     (case required_tag vertex of None \<Rightarrow> True | Some tag \<Rightarrow> region_has_tag d region tag) \<and>
     (case bt_get areas region of None \<Rightarrow> False
      | Some capacity \<Rightarrow> \<forall>r. plans_resource d r \<longrightarrow> amount r (v_area vertex) \<le> capacity_at limit rules region capacity r)"

lemma area_fits_on_device_iff:
  "area_fits_on_device d required available \<longleftrightarrow> (\<forall>r. plans_resource d r \<longrightarrow> amount r required \<le> amount r available)"
  by (auto simp: area_fits_on_device_def area_fits_with_def list_all_iff all_Resource)

lemma admit_region_Inr:
  assumes "admit_region d areas limit parent rules vertex cs region = Inr cs'"
  shows "cs' = (if may_host d areas limit parent rules vertex region then cs @ [region] else cs)"
  using assms
  by (auto simp: admit_region_def may_host_def bindR_eq_Inr area_fits_on_device_iff scaled_area_with_overrides_def capacity_at_def Let_def
      split: if_splits option.splits)

lemma admit_regions_Inr:
  "foldR (admit_region d areas limit parent rules vertex) cs regions = Inr cs' \<Longrightarrow>
   cs' = cs @ filter (may_host d areas limit parent rules vertex) regions"
proof (induction regions arbitrary: cs)
  case (Cons region regions)
  then obtain v where v: "admit_region d areas limit parent rules vertex cs region = Inr v"
    "foldR (admit_region d areas limit parent rules vertex) v regions = Inr cs'" by (auto simp: bindR_eq_Inr)
  show ?case using Cons.IH [OF v(2)] admit_region_Inr [OF v(1)] by simp
qed simp

lemma sorted_distinct_remdups_adj: "sorted xs \<Longrightarrow> distinct (remdups_adj xs)"
proof (induction xs rule: remdups_adj.induct)
  case (3 x y xs)
  then have "x \<notin> set (y # xs)" if "x \<noteq> y" using that by force
  with 3 show ?case by auto
qed simp_all

lemma vertex_domain_Inr:
  assumes "vertex_domain d regions areas limit parent rules vertex = Inr dm"
  shows "set dm = set (filter (may_host d areas limit parent rules vertex) regions)" and "dm \<noteq> []" and "sorted dm" and "distinct dm"
proof -
  obtain cs where cs: "foldR (admit_region d areas limit parent rules vertex) [] regions = Inr cs" "dm = remdups_adj (sort cs)" "dm \<noteq> []"
    using assms by (auto simp: vertex_domain_def bindR_eq_Inr Let_def split: if_splits)
  show "dm \<noteq> []" by (rule cs(3))
  show "set dm = set (filter (may_host d areas limit parent rules vertex) regions)" using admit_regions_Inr [OF cs(1)] cs(2) by simp
  show "sorted dm" using cs(2) by (simp add: sorted_remdups_adj)
  show "distinct dm" using cs(2) by (simp add: sorted_distinct_remdups_adj)
qed

lemma ex_if: "\<exists>a. x = f a \<Longrightarrow> \<exists>a. y = f a \<Longrightarrow> \<exists>a. (if c then x else y) = f a"
  by simp

text \<open>An empty domain is the only failure when every region is known.\<close>

lemma vertex_domain_Inl:
  assumes "vertex_domain d regions areas limit parent rules vertex = Inl e" and "\<forall>region \<in> set regions. bt_get areas region \<noteq> None"
  shows "filter (may_host d areas limit parent rules vertex) regions = [] \<and> ((\<exists>v. e = NoCandidates v) \<or> (\<exists>a. e = AnchorUnplaceable a))"
proof -
  have "\<exists>cs. foldR (admit_region d areas limit parent rules vertex) [] regions = Inr cs"
    by (rule foldR_total) (use assms(2) in \<open>auto simp: admit_region_def Let_def split: option.splits\<close>)
  then obtain cs where cs: "foldR (admit_region d areas limit parent rules vertex) [] regions = Inr cs" ..
  note f = admit_regions_Inr [OF cs, simplified]
  have "remdups_adj (sort cs) = []" using assms(1) cs by (simp add: vertex_domain_def Let_def split: if_splits)
  then have "set cs = {}" by (metis list.set(1) remdups_adj_set set_sort)
  then have "cs = []" by simp
  moreover have "e = (case required_tag vertex of
                 Some tag \<Rightarrow> anchor_unplaceable_error vertex tag d regions areas limit rules (parent \<noteq> None)
               | None \<Rightarrow> NoCandidates (v_name vertex))"
    using assms(1) cs by (simp add: vertex_domain_def Let_def split: if_splits)
  moreover have "\<exists>a. anchor_unplaceable_error vertex tag d regions areas limit rules pinned = AnchorUnplaceable a" for tag pinned
    unfolding anchor_unplaceable_error_def Let_def by (intro ex_if) (rule exI, rule refl)+
  ultimately show ?thesis using f by (cases "required_tag vertex") auto
qed

end
