(* ===== verification/Fp_Place_Model.thy ===== *)
theory Fp_Place_Model
  imports Fp_Domains
begin

text \<open>
  \<^verbatim>\<open>tapa-core/tapa-floorplan/src/partition/ilp.rs\<close>, second part: the integer program of one placement iteration
  (\<^verbatim>\<open>FloorplanModel\<close>), its readback and its lexicographic refinement.
\<close>

section \<open>Variables\<close>

record FloorplanModel =
  fm_lp :: LpModel
  fm_x :: "LpVar list list"

record YTerm =
  yt_ei :: nat
  yt_edge :: PlacementEdge
  yt_src_ci :: nat
  yt_src :: Coor
  yt_dst_ci :: nat
  yt_dst :: Coor

definition yterm_var :: "YTerm \<Rightarrow> LpVar list list list \<Rightarrow> LpVar" where
  "yterm_var t y = y ! yt_ei t ! yt_src_ci t ! yt_dst_ci t"

definition edge_y_terms :: "nat \<Rightarrow> PlacementEdge \<Rightarrow> Coor list list \<Rightarrow> YTerm list" where
  "edge_y_terms ei edge domains =
     concat (map (\<lambda>(src_ci, src). map (\<lambda>(dst_ci, dst).
         \<lparr>yt_ei = ei, yt_edge = edge, yt_src_ci = src_ci, yt_src = src, yt_dst_ci = dst_ci, yt_dst = dst\<rparr>)
       (List.enumerate 0 (domains ! pe_dst edge))) (List.enumerate 0 (domains ! pe_src edge)))"

definition y_terms :: "FloorGraph \<Rightarrow> Coor list list \<Rightarrow> YTerm list" where
  "y_terms graph domains = concat (map (\<lambda>(ei, edge). edge_y_terms ei edge domains) (List.enumerate 0 (placement_edges graph)))"

definition add_assignment_vars :: "LpModel \<Rightarrow> FloorGraph \<Rightarrow> Coor list list \<Rightarrow> LpModel \<times> LpVar list list" where
  "add_assignment_vars lp graph domains =
     foldl (\<lambda>(lp, x) (vi, vertex).
       case add_one_of_k_row lp (''vertex_'' @ v_name vertex) (length (domains ! vi))
              (\<lambda>candidate. ''x_'' @ v_name vertex @ ''_'' @ region_name (domains ! vi ! candidate)) of
         (lp', row) \<Rightarrow> (lp', x @ [row]))
       (lp, []) (List.enumerate 0 (vertices graph))"

definition push_plane :: "LpModel \<times> LpVar list list \<Rightarrow> YTerm \<Rightarrow> LpModel \<times> LpVar list list" where
  "push_plane st t =
     (case st of (lp, plane) \<Rightarrow>
        (case add_binary lp (''y_'' @ show_nat (yt_ei t) @ ''_'' @ show_nat (yt_src_ci t) @ ''_'' @ show_nat (yt_dst_ci t)) of
           (lp', v) \<Rightarrow> (lp', plane[yt_src_ci t := plane ! yt_src_ci t @ [v]])))"

definition add_edge_plane :: "Coor list list \<Rightarrow> LpModel \<times> LpVar list list list \<Rightarrow> nat \<times> PlacementEdge \<Rightarrow> LpModel \<times> LpVar list list list" where
  "add_edge_plane domains st x =
     (case (st, x) of ((lp, y), (ei, edge)) \<Rightarrow>
        (case foldl push_plane (lp, replicate (length (domains ! pe_src edge)) []) (edge_y_terms ei edge domains) of
           (lp', plane) \<Rightarrow>
             (add_constraint lp' (''route_'' @ show_nat ei) (LinExpr_sum (map (Pair (Finite 1)) (concat plane))) Eq (Finite 1), y @ [plane])))"

definition add_edge_vars :: "LpModel \<Rightarrow> FloorGraph \<Rightarrow> Coor list list \<Rightarrow> LpModel \<times> LpVar list list list" where
  "add_edge_vars lp graph domains = foldl (add_edge_plane domains) (lp, []) (List.enumerate 0 (placement_edges graph))"

section \<open>Rows\<close>

definition bucket :: "LpVar list list list \<Rightarrow> SparseRow list \<times> SparseRow list \<Rightarrow> YTerm \<Rightarrow> SparseRow list \<times> SparseRow list" where
  "bucket y st t =
     (case st of (src_rows, dst_cols) \<Rightarrow>
        (src_rows[yt_src_ci t := sparse_push (src_rows ! yt_src_ci t) (Finite 1) (yterm_var t y)],
         dst_cols[yt_dst_ci t := sparse_push (dst_cols ! yt_dst_ci t) (Finite 1) (yterm_var t y)]))"

definition couple_rows :: "string \<Rightarrow> nat \<Rightarrow> LpVar list \<Rightarrow> LpModel \<Rightarrow> SparseRow list \<Rightarrow> LpModel" where
  "couple_rows side ei xs lp rs =
     foldl (\<lambda>lp (ci, row). add_constraint lp (''edge_'' @ show_nat ei @ side @ show_nat ci)
         (into_expr (sparse_push row (Finite (- 1)) (xs ! ci))) Eq (Finite 0))
       lp (List.enumerate 0 rs)"

definition couple_edge :: "Coor list list \<Rightarrow> LpVar list list \<Rightarrow> LpVar list list list \<Rightarrow> LpModel \<Rightarrow> nat \<times> PlacementEdge \<Rightarrow> LpModel" where
  "couple_edge domains x y lp e =
     (case e of (ei, edge) \<Rightarrow>
        (case foldl (bucket y) (replicate (length (domains ! pe_src edge)) [], replicate (length (domains ! pe_dst edge)) [])
                (edge_y_terms ei edge domains) of
           (src_rows, dst_cols) \<Rightarrow>
             couple_rows ''_dst_'' ei (x ! pe_dst edge) (couple_rows ''_src_'' ei (x ! pe_src edge) lp src_rows) dst_cols))"

definition add_coupling :: "LpModel \<Rightarrow> FloorGraph \<Rightarrow> Coor list list \<Rightarrow> LpVar list list \<Rightarrow> LpVar list list list \<Rightarrow> LpModel" where
  "add_coupling lp graph domains x y = foldl (couple_edge domains x y) lp (List.enumerate 0 (placement_edges graph))"

text \<open>\<^verbatim>\<open>Iterator::position\<close>.\<close>

fun position :: "('a \<Rightarrow> bool) \<Rightarrow> 'a list \<Rightarrow> nat option" where
  "position P [] = None"
| "position P (x # xs) = (if P x then Some 0 else map_option Suc (position P xs))"

definition head_terms :: "LpVar list list list \<Rightarrow> Coor \<Rightarrow> YTerm \<Rightarrow> SparseRow" where
  "head_terms y region t =
     (if yt_src t = yt_dst t then []
      else let heads = (if yt_src t = region then forward_width (yt_edge t) else if yt_dst t = region then reverse_width (yt_edge t) else 0)
           in if heads > 0 then [(of_uint heads, yterm_var t y)] else [])"

definition add_crossing_head_terms :: "SparseRow \<Rightarrow> FloorGraph \<Rightarrow> Coor list list \<Rightarrow> LpVar list list list \<Rightarrow> Coor \<Rightarrow> SparseRow" where
  "add_crossing_head_terms row graph domains y region = row @ concat (map (head_terms y region) (y_terms graph domains))"

definition usage_terms :: "FloorGraph \<Rightarrow> Coor list list \<Rightarrow> LpVar list list \<Rightarrow> Coor \<Rightarrow> Resource \<Rightarrow> SparseRow" where
  "usage_terms graph domains x region resource =
     concat (map (\<lambda>(vi, vertex). case position (\<lambda>candidate. candidate = region) (domains ! vi) of
         None \<Rightarrow> []
       | Some ci \<Rightarrow> [(of_uint (amount resource (v_area vertex)), x ! vi ! ci)]) (List.enumerate 0 (vertices graph)))"

definition add_resource_row :: "Device \<Rightarrow> FloorGraph \<Rightarrow> Coor list list \<Rightarrow> f64 \<Rightarrow> PlacementConstraints \<Rightarrow> LpVar list list \<Rightarrow> LpVar list list list
    \<Rightarrow> Coor \<Rightarrow> Area \<Rightarrow> LpModel \<Rightarrow> Resource \<Rightarrow> LpModel" where
  "add_resource_row d graph domains limit rules x y region capacity lp resource =
     (if \<not> plans_resource d resource then lp
      else let row = usage_terms graph domains x region resource;
               row' = (if resource = Ff then add_crossing_head_terms row graph domains y region else row);
               max_rhs = of_uint (scaled_amount (amount resource capacity) (limit_or (max_resource_limits rules) region resource limit))
           in add_constraint lp (''node_'' @ region_name region @ ''_'' @ resource_name resource @ ''_usage'') (into_expr row') Le max_rhs)"

definition active_regions :: "Coor list list \<Rightarrow> Coor list" where
  "active_regions domains = sorted_list_of_set (set (concat domains))"

definition add_resource_constraints :: "Device \<Rightarrow> LpModel \<Rightarrow> FloorGraph \<Rightarrow> RegionAreas \<Rightarrow> Coor list list \<Rightarrow> f64 \<Rightarrow> PlacementConstraints
    \<Rightarrow> LpVar list list \<Rightarrow> LpVar list list list \<Rightarrow> IlpError + LpModel" where
  "add_resource_constraints d lp graph areas domains limit rules x y =
     foldR (\<lambda>lp region.
       bindR (ok_or (InvalidRegion (region_name region)) (bt_get areas region)) (\<lambda>capacity.
         Inr (foldl (add_resource_row d graph domains limit rules x y region capacity) lp Resource_ALL)))
       lp (active_regions domains)"

definition term_crosses :: "Cut \<Rightarrow> YTerm \<Rightarrow> bool" where
  "term_crosses k t \<longleftrightarrow> (yt_src t \<in> set (cut_lhs k) \<and> yt_dst t \<in> set (cut_rhs k)) \<or> (yt_src t \<in> set (cut_rhs k) \<and> yt_dst t \<in> set (cut_lhs k))"

definition add_cut_row :: "FloorGraph \<Rightarrow> Coor list list \<Rightarrow> LpVar list list list \<Rightarrow> LpModel \<Rightarrow> Cut \<Rightarrow> LpModel" where
  "add_cut_row graph domains y lp k =
     add_constraint lp (''cut_'' @ cut_name k @ ''_capacity'')
       (into_expr (concat (map (\<lambda>t. if term_crosses k t then [(of_uint (pe_width (yt_edge t)), yterm_var t y)] else []) (y_terms graph domains))))
       Le (of_uint (cut_capacity k))"

definition add_cut_constraints :: "LpModel \<Rightarrow> FloorGraph \<Rightarrow> Coor list list \<Rightarrow> Cut list \<Rightarrow> LpVar list list list \<Rightarrow> LpModel" where
  "add_cut_constraints lp graph domains cuts y = foldl (add_cut_row graph domains y) lp cuts"

section \<open>Objective\<close>

definition of_sint :: "int \<Rightarrow> f64" where
  "of_sint z = to_f64 (of_int z)"

definition centroid_quarters :: "Device \<Rightarrow> Coor \<Rightarrow> IlpError + int \<times> int" where
  "centroid_quarters d region =
     bindR (ok_or (InvalidRegion (region_name region)) (device_slot d (dl_x region) (dl_y region))) (\<lambda>dl.
     bindR (ok_or (InvalidRegion (region_name region)) (device_slot d (ur_x region) (ur_y region))) (\<lambda>ur.
       Inr (wrap_i64 (2 * wrap_i64 (centroid_x dl + centroid_x ur)), wrap_i64 (2 * wrap_i64 (centroid_y dl + centroid_y ur)))))"

definition vertex_location_quarters :: "Device \<Rightarrow> Vertex \<Rightarrow> int \<times> int \<Rightarrow> int \<times> int" where
  "vertex_location_quarters d vertex centroid =
     (case Option.bind (required_tag vertex) (anchor_position_quarters d) of None \<Rightarrow> centroid | Some p \<Rightarrow> p)"

definition distance_quarters :: "int \<times> int \<Rightarrow> int \<times> int \<Rightarrow> int" where
  "distance_quarters a b =
     wrap_i64 (wrap_i64 \<bar>wrap_i64 (fst a - fst b)\<bar> + wrap_i64 (VERTICAL_DIST_PENALTY * wrap_i64 \<bar>wrap_i64 (snd a - snd b)\<bar>))"

text \<open>Division by 4 is multiplication by the double 1/4.\<close>

definition objective_term :: "Device \<Rightarrow> FloorGraph \<Rightarrow> (Coor, int \<times> int) btree \<Rightarrow> LpVar list list list \<Rightarrow> YTerm \<Rightarrow> SparseRow" where
  "objective_term d graph centroids y t =
     (let src_location = vertex_location_quarters d (vertices graph ! pe_src (yt_edge t)) (the (bt_get centroids (yt_src t)));
          dst_location = vertex_location_quarters d (vertices graph ! pe_dst (yt_edge t)) (the (bt_get centroids (yt_dst t)));
          dist = distance_quarters src_location dst_location
      in if dist \<noteq> 0
         then [(f64_mul (f64_mul (of_uint (pe_width (yt_edge t))) (of_sint dist)) (Finite (1 / 4)), yterm_var t y)] else [])"

definition add_objective :: "LpModel \<Rightarrow> FloorGraph \<Rightarrow> Device \<Rightarrow> Coor list list \<Rightarrow> LpVar list list list \<Rightarrow> IlpError + LpModel" where
  "add_objective lp graph d domains y =
     bindR (mapR (\<lambda>region. bindR (centroid_quarters d region) (\<lambda>centroid. Inr (region, centroid))) (concat domains)) (\<lambda>entries.
       let centroids = bt_collect entries
       in Inr (set_objective lp (plus_constant (into_expr (concat (map (objective_term d graph centroids y) (y_terms graph domains)))) (Finite 1))))"

section \<open>The model\<close>

definition edges_in_range :: "FloorGraph \<Rightarrow> Coor list list \<Rightarrow> bool" where
  "edges_in_range graph domains \<longleftrightarrow>
     list_all (\<lambda>e. pe_src e < length domains \<and> pe_dst e < length domains) (placement_edges graph)"

definition FloorplanModel_build :: "FloorGraph \<Rightarrow> Device \<Rightarrow> Coor list list \<Rightarrow> RegionAreas \<Rightarrow> Cut list \<Rightarrow> f64 \<Rightarrow> PlacementConstraints
    \<Rightarrow> IlpError fault + FloorplanModel" where
  "FloorplanModel_build graph d domains areas cuts limit rules =
     (if length domains < length (vertices graph) \<or> \<not> edges_in_range graph domains then Inl Panicked
      else case add_assignment_vars LpModel_new graph domains of (lp0, x) \<Rightarrow>
        (case add_edge_vars lp0 graph domains of (lp1, y) \<Rightarrow>
          if vars_overflow lp1 then Inl Panicked
          else bindR (map_err Err (add_resource_constraints d (add_coupling lp1 graph domains x y) graph areas domains limit rules x y)) (\<lambda>lp2.
            bindR (map_err Err (add_objective (add_cut_constraints lp2 graph domains cuts y) graph d domains y)) (\<lambda>lp3.
              Inr \<lparr>fm_lp = lp3, fm_x = x\<rparr>))))"

definition assignment_error :: "FloorplanModel \<Rightarrow> nat \<Rightarrow> Vertex \<Rightarrow> OneOfKError \<Rightarrow> IlpError" where
  "assignment_error model vi vertex e =
     IlpInvalidSolution (case e of
       MissingVariable pos \<Rightarrow> OmittedVariable (v_name vertex) (fm_x model ! vi ! pos)
     | NonBinary _ _ values \<Rightarrow> NonBinaryValues (v_name vertex) values
     | SelectionCount _ values \<Rightarrow> NotOneCandidate (v_name vertex) values)"

definition read_back :: "FloorplanModel \<Rightarrow> FloorGraph \<Rightarrow> Coor list list \<Rightarrow> LpSolution \<Rightarrow> IlpError + Coor list" where
  "read_back model graph domains solution =
     mapR (\<lambda>(vi, vertex).
       bindR (map_err (assignment_error model vi vertex) (read_one_of_k solution (fm_x model ! vi))) (\<lambda>selected.
         Inr (domains ! vi ! selected)))
       (List.enumerate 0 (vertices graph))"

definition floorplan_refine :: "FloorplanModel \<Rightarrow> Solver \<Rightarrow> SolveOpts \<Rightarrow> LpSolution \<Rightarrow> FloorplanModel \<times> (SolverError + LpSolution option)" where
  "floorplan_refine model solver opts primary =
     (case refine (fm_lp model) solver opts (objective (fm_lp model)) (sol_objective primary) (fm_x model) of
        (lp, refined) \<Rightarrow> (model\<lparr>fm_lp := lp\<rparr>, refined))"

end
