(* ===== verification/Fp_Partition.thy ===== *)
theory Fp_Partition
  imports Fp_Place_Model
begin

text \<open>
  \<^verbatim>\<open>tapa-core/tapa-floorplan/src/partition/ilp.rs\<close>, third part: the utilization ladder, the search for its lowest rung
  that places, the flat and multilevel schedules and the completed assignment.
\<close>

section \<open>The ladder\<close>

text \<open>The loop adds a step to the last rung; on numbers too large for the step it would not end, which is \<open>None\<close>.\<close>

partial_function (option) ladder_loop :: "f64 \<Rightarrow> f64 list \<Rightarrow> f64 list option" where
  "ladder_loop upper rungs =
     (if f64_lt (last rungs) upper
      then ladder_loop upper (rungs @ [f64_min (f64_add (last rungs) USAGE_LIMIT_STEP) upper])
      else Some rungs)"

definition usage_ladder :: "f64 \<Rightarrow> f64 \<Rightarrow> f64 list option" where
  "usage_ladder base upper = ladder_loop upper [base]"

section \<open>Searching the ladder\<close>

record FeasibleRung =
  fr_usage_limit :: f64
  fr_model :: FloorplanModel
  fr_domains :: "Coor list list"
  fr_solution :: LpSolution

datatype ('p, 'e) rung = Placed 'p | Unplaced 'e

lemma gallop_progress: "infeasible + 2 ^ k \<le> last_rung \<Longrightarrow> last_rung - (infeasible + 2 ^ k) < last_rung - infeasible" for last_rung :: nat
proof -
  assume "infeasible + 2 ^ k \<le> last_rung"
  moreover have "0 < (2 :: nat) ^ k" by simp
  ultimately show ?thesis by linarith
qed

text \<open>The search sees a probe of a rung; the stride is the power of two \<open>2 ^ k\<close>.\<close>

function gallop :: "(nat \<Rightarrow> 'e fault + ('p, 'e) rung) \<Rightarrow> nat \<Rightarrow> nat \<Rightarrow> nat \<Rightarrow> 'e fault + nat \<times> nat \<times> 'p" where
  "gallop probe last_rung infeasible k =
     (let rung = min (infeasible + 2 ^ k) last_rung in
      case probe rung of
        Inl e \<Rightarrow> Inl e
      | Inr (Placed found) \<Rightarrow> Inr (infeasible, rung, found)
      | Inr (Unplaced reason) \<Rightarrow> if rung = last_rung then Inl (Err reason) else gallop probe last_rung rung (k + 1))"
  by pat_completeness auto

termination
  by (relation "measure (\<lambda>(probe, last_rung, infeasible, k). last_rung - infeasible)")
    (auto simp: min_def gallop_progress split: if_splits)

declare gallop.simps [simp del]

function bisect :: "(nat \<Rightarrow> 'e fault + ('p, 'e) rung) \<Rightarrow> nat \<Rightarrow> nat \<Rightarrow> 'p \<Rightarrow> 'e fault + 'p" where
  "bisect probe infeasible feasible placed =
     (if feasible - infeasible > 1
      then let rung = infeasible + (feasible - infeasible) div 2 in
        case probe rung of
          Inl e \<Rightarrow> Inl e
        | Inr (Placed found) \<Rightarrow> bisect probe infeasible rung found
        | Inr (Unplaced _) \<Rightarrow> bisect probe rung feasible placed
      else Inr placed)"
  by pat_completeness auto

termination
  by (relation "measure (\<lambda>(probe, infeasible, feasible, placed). feasible - infeasible)") auto

declare bisect.simps [simp del]

definition search_ladder :: "(nat \<Rightarrow> 'e fault + ('p, 'e) rung) \<Rightarrow> nat \<Rightarrow> 'e fault + 'p" where
  "search_ladder probe len =
     (case probe 0 of
        Inl e \<Rightarrow> Inl e
      | Inr (Placed found) \<Rightarrow> Inr found
      | Inr (Unplaced reason) \<Rightarrow>
          if len = 1 then Inl (Err reason)
          else bindR (gallop probe (len - 1) 0 0) (\<lambda>(infeasible, feasible, placed). bisect probe infeasible feasible placed))"

section \<open>One iteration\<close>

record SolvedIteration =
  si_placements :: "Coor list"
  si_usage_limit :: f64

definition attempt_placement :: "FloorGraph \<Rightarrow> Device \<Rightarrow> Coor list \<Rightarrow> RegionAreas \<Rightarrow> Coor list option \<Rightarrow> PlacementConfig \<Rightarrow> Cut list \<Rightarrow> f64
    \<Rightarrow> Solver \<Rightarrow> SolveOpts \<Rightarrow> IlpError fault + (FeasibleRung, IlpError) rung" where
  "attempt_placement graph d regions areas parents config cuts limit solver opts =
     (case candidate_domains graph d regions areas limit parents (cfg_constraints config) of
        Inl (Err (NoCandidates v)) \<Rightarrow> Inr (Unplaced (NoCandidates v))
      | Inl (Err (AnchorUnplaceable a)) \<Rightarrow> Inr (Unplaced (AnchorUnplaceable a))
      | Inl e \<Rightarrow> Inl e
      | Inr domains \<Rightarrow>
          bindR (FloorplanModel_build graph d domains areas cuts limit (cfg_constraints config)) (\<lambda>model.
          bindR (map_err (Err \<circ> IlpSolver) (solver (fm_lp model) opts)) (\<lambda>solution.
            if is_found solution
            then Inr (Placed \<lparr>fr_usage_limit = limit, fr_model = model, fr_domains = domains, fr_solution = solution\<rparr>)
            else case status solution of
              Infeasible \<Rightarrow> Inr (Unplaced (IlpInfeasible (retry_ceiling config)
                (describe_demand d graph areas (retry_ceiling config) (cfg_constraints config))))
            | NotSolved \<Rightarrow> Inl (Err (IlpNoIncumbent (status solution)))
            | Unbounded \<Rightarrow> Inl (Err (IlpNoIncumbent (status solution)))
            | _ \<Rightarrow> Inl Panicked)))"

definition finish_iteration :: "FloorGraph \<Rightarrow> FeasibleRung \<Rightarrow> Solver \<Rightarrow> SolveOpts \<Rightarrow> IlpError + SolvedIteration" where
  "finish_iteration graph rung solver opts =
     (case floorplan_refine (fr_model rung) solver opts (fr_solution rung) of
        (model, refined) \<Rightarrow>
          bindR (map_err IlpSolver refined) (\<lambda>refined.
          bindR (read_back model graph (fr_domains rung) (case refined of None \<Rightarrow> fr_solution rung | Some s \<Rightarrow> s)) (\<lambda>placements.
            Inr \<lparr>si_placements = placements, si_usage_limit = fr_usage_limit rung\<rparr>)))"

definition solve_iteration :: "FloorGraph \<Rightarrow> Device \<Rightarrow> Coor list \<Rightarrow> Coor list option \<Rightarrow> PlacementConfig \<Rightarrow> f64 \<Rightarrow> Solver \<Rightarrow> SolveOpts
    \<Rightarrow> (IlpError fault + SolvedIteration) option" where
  "solve_iteration graph d regions parents config base solver opts =
     (let cuts = find_cuts_for_regions d regions in
      case region_areas d regions of
        Inl e \<Rightarrow> Some (Inl (Err e))
      | Inr areas \<Rightarrow>
          map_option (\<lambda>ladder.
            bindR (search_ladder (\<lambda>rung. attempt_placement graph d regions areas parents config cuts (ladder ! rung) solver opts) (length ladder))
              (\<lambda>placed. map_err Err (finish_iteration graph placed solver opts)))
            (usage_ladder base (retry_ceiling config)))"

section \<open>Schedules\<close>

record Assignment =
  as_regions :: "(nat \<times> nat) list"
  as_slot_usage :: "(nat \<times> nat, Area) btree"

definition assign_vertex :: "Assignment \<Rightarrow> Vertex \<times> Coor \<Rightarrow> IlpError + Assignment" where
  "assign_vertex a x =
     (case x of (vertex, slot) \<Rightarrow>
        if coor_width slot \<noteq> 1 \<or> coor_height slot \<noteq> 1 then Inl (IlpInvalidSolution (NonAtomic (v_name vertex) (region_name slot)))
        else let cell = (dl_x slot, dl_y slot); a' = a\<lparr>as_regions := as_regions a @ [cell]\<rparr>
             in if materialize vertex
                then (let entry = (case bt_get (as_slot_usage a) cell of None \<Rightarrow> Area_default | Some area \<Rightarrow> area)
                      in bindR (ok_or (IlpInvalidSolution (AccountingOverflow (region_name slot))) (area_checked_add entry (v_area vertex))) (\<lambda>area.
                           Inr (a'\<lparr>as_slot_usage := bt_insert cell area (as_slot_usage a)\<rparr>)))
                else Inr a')"

definition complete_assignment :: "FloorGraph \<Rightarrow> Coor list \<Rightarrow> IlpError + Assignment" where
  "complete_assignment graph placements =
     foldR assign_vertex \<lparr>as_regions = [], as_slot_usage = []\<rparr> (zip (vertices graph) placements)"

text \<open>The early return of an iteration that may not end.\<close>

definition bindI :: "('e + 'a) option \<Rightarrow> ('a \<Rightarrow> ('e + 'b) option) \<Rightarrow> ('e + 'b) option" where
  "bindI m f = Option.bind m (\<lambda>r. case r of Inl e \<Rightarrow> Some (Inl e) | Inr x \<Rightarrow> f x)"

definition multilevel :: "FloorGraph \<Rightarrow> Device \<Rightarrow> PlacementConfig \<Rightarrow> Solver \<Rightarrow> SolveOpts \<Rightarrow> (IlpError fault + Coor list) option" where
  "multilevel graph d config solver opts =
     bindI (solve_iteration graph d (row_regions d) None config (usage_limit config) solver opts) (\<lambda>row_pass.
       let atomic_base = si_usage_limit row_pass; slots = atomic_regions d in
       Option.bind (solve_iteration graph d slots (Some (si_placements row_pass)) config atomic_base solver opts) (\<lambda>r.
         let retry = bindI (solve_iteration graph d slots None config atomic_base solver opts) (\<lambda>a. Some (Inr (si_placements a))) in
         case r of
           Inr a \<Rightarrow> Some (Inr (si_placements a))
         | Inl (Err (IlpInfeasible _ _)) \<Rightarrow> retry
         | Inl (Err (NoCandidates _)) \<Rightarrow> retry
         | Inl e \<Rightarrow> Some (Inl e)))"

definition floorplan_with_config :: "FloorGraph \<Rightarrow> Device \<Rightarrow> PlacementConfig \<Rightarrow> Solver \<Rightarrow> SolveOpts \<Rightarrow> (IlpError fault + Assignment) option" where
  "floorplan_with_config graph d config solver opts =
     (case validate_config config of
        Inl e \<Rightarrow> Some (Inl (Err e))
      | Inr () \<Rightarrow>
          bindI (case resolve_strategy graph d (strategy config) of
              Auto \<Rightarrow> Some (Inl Panicked)
            | Flat \<Rightarrow> bindI (solve_iteration graph d (atomic_regions d) None config (usage_limit config) solver opts) (\<lambda>a. Some (Inr (si_placements a)))
            | MultiLevel \<Rightarrow> multilevel graph d config solver opts) (\<lambda>final_regions.
            Some (map_err Err (complete_assignment graph final_regions))))"

definition floorplan_with_strategy :: "FloorGraph \<Rightarrow> Device \<Rightarrow> f64 \<Rightarrow> f64 \<Rightarrow> PartitionStrategy \<Rightarrow> Solver \<Rightarrow> SolveOpts \<Rightarrow> (IlpError fault + Assignment) option" where
  "floorplan_with_strategy graph d base upper strat solver opts =
     floorplan_with_config graph d
       \<lparr>usage_limit = base, retry_ceiling = upper, strategy = strat, cfg_constraints = PlacementConstraints_default\<rparr> solver opts"

definition floorplan_with_exact_resource_caps :: "FloorGraph \<Rightarrow> Device \<Rightarrow> f64 \<Rightarrow> f64 \<Rightarrow> PartitionStrategy \<Rightarrow> Solver \<Rightarrow> SolveOpts
    \<Rightarrow> (IlpError fault + Assignment \<times> PartitionStrategy) option" where
  "floorplan_with_exact_resource_caps graph d logic_limit block_limit requested solver opts =
     (let strat = resolve_strategy graph d requested;
          rules = (if strat = MultiLevel then exact_resource_cap_constraints d block_limit else PlacementConstraints_default)
      in bindI (floorplan_with_config graph d
           \<lparr>usage_limit = logic_limit, retry_ceiling = logic_limit, strategy = strat, cfg_constraints = rules\<rparr> solver opts)
           (\<lambda>assignment. Some (Inr (assignment, strat))))"

section \<open>The search finds the lowest rung\<close>

text \<open>
  What the search assumes of the ladder: a probe never fails outright, and a rung that places stays placed further up.  The
  result of a search over such a ladder is determined: the lowest rung that places, else the reason of the last rung.
\<close>

definition unplaced :: "(nat \<Rightarrow> 'e fault + ('p, 'e) rung) \<Rightarrow> nat \<Rightarrow> bool" where
  "unplaced probe i \<longleftrightarrow> (\<exists>reason. probe i = Inr (Unplaced reason))"

definition rung_ladder :: "(nat \<Rightarrow> 'e fault + ('p, 'e) rung) \<Rightarrow> nat \<Rightarrow> bool" where
  "rung_ladder probe len \<longleftrightarrow> 0 < len \<and> (\<forall>i < len. \<exists>r. probe i = Inr r) \<and>
     (\<forall>i j p. i \<le> j \<longrightarrow> j < len \<longrightarrow> probe i = Inr (Placed p) \<longrightarrow> (\<exists>q. probe j = Inr (Placed q)))"

lemma rung_answers: "rung_ladder probe len \<Longrightarrow> i < len \<Longrightarrow> \<exists>r. probe i = Inr r"
  by (simp add: rung_ladder_def)

lemma unplaced_below:
  assumes "rung_ladder probe len" and "unplaced probe j" and "i \<le> j" and "j < len"
  shows "unplaced probe i"
proof -
  obtain r where "probe i = Inr r" using rung_answers [OF assms(1), of i] assms(3,4) by auto
  then show ?thesis using assms by (cases r) (fastforce simp: rung_ladder_def unplaced_def)+
qed

lemma bisect_lowest:
  assumes ladder: "rung_ladder probe len" and "probe feasible = Inr (Placed placed)" and "unplaced probe infeasible" and "infeasible < feasible" and "feasible < len"
  shows "\<exists>i p. bisect probe infeasible feasible placed = Inr p \<and> i < len \<and> probe i = Inr (Placed p) \<and> (\<forall>j < i. unplaced probe j)"
  using assms(2-)
proof (induction "feasible - infeasible" arbitrary: infeasible feasible placed rule: less_induct)
  case less
  show ?case
  proof (cases "feasible - infeasible > 1")
    case True
    define m where "m = infeasible + (feasible - infeasible) div 2"
    have m: "infeasible < m" "m < feasible" "m < len" using True less.prems(3,4) by (auto simp: m_def)
    obtain r where r: "probe m = Inr r" using rung_answers [OF ladder] m(3) by blast
    have step: "bisect probe infeasible feasible placed =
        (case r of Placed found \<Rightarrow> bisect probe infeasible m found | Unplaced _ \<Rightarrow> bisect probe m feasible placed)"
      using True r by (subst bisect.simps) (simp add: m_def [symmetric] Let_def split: rung.splits)
    show ?thesis
    proof (cases r)
      case (Placed p)
      then show ?thesis using less.hyps [of m infeasible p] m less.prems r by (simp add: step)
    next
      case (Unplaced e)
      then have "unplaced probe m" using r by (simp add: unplaced_def)
      then show ?thesis using less.hyps [of feasible m placed] m less.prems Unplaced by (simp add: step)
    qed
  next
    case False
    then have "feasible = Suc infeasible" using less.prems(3) by simp
    then have "\<forall>j < feasible. unplaced probe j" using unplaced_below [OF ladder less.prems(2)] less.prems(4) by auto
    moreover have "bisect probe infeasible feasible placed = Inr placed" using False by (subst bisect.simps) simp
    ultimately show ?thesis using less.prems by blast
  qed
qed

lemma gallop_bracket:
  assumes ladder: "rung_ladder probe len" and "unplaced probe infeasible" and "infeasible < len - 1"
  shows "(\<exists>lo hi p. gallop probe (len - 1) infeasible k = Inr (lo, hi, p) \<and> unplaced probe lo \<and> lo < hi \<and> hi < len \<and> probe hi = Inr (Placed p)) \<or>
    (\<exists>reason. gallop probe (len - 1) infeasible k = Inl (Err reason) \<and> probe (len - 1) = Inr (Unplaced reason))"
  using assms(2-)
proof (induction "len - infeasible" arbitrary: infeasible k rule: less_induct)
  case less
  define m where "m = min (infeasible + 2 ^ k) (len - 1)"
  have "0 < (2 :: nat) ^ k" by simp
  then have m: "infeasible < m" "m < len" "m \<le> len - 1" using less.prems(2) unfolding m_def by linarith+
  obtain r where r: "probe m = Inr r" using rung_answers [OF ladder] m(2) by blast
  have step: "gallop probe (len - 1) infeasible k = (case r of Placed found \<Rightarrow> Inr (infeasible, m, found)
      | Unplaced reason \<Rightarrow> if m = len - 1 then Inl (Err reason) else gallop probe (len - 1) m (k + 1))"
    unfolding gallop.simps [of probe "len - 1" infeasible k] Let_def m_def [symmetric] r by (simp split: rung.splits)
  show ?case
  proof (cases r)
    case (Placed p)
    then show ?thesis unfolding step using less.prems m r by simp
  next
    case (Unplaced e)
    show ?thesis
    proof (cases "m = len - 1")
      case True
      then show ?thesis unfolding step using Unplaced r by simp
    next
      case False
      moreover have "unplaced probe m" using r Unplaced by (simp add: unplaced_def)
      ultimately show ?thesis using less.hyps [of m "k + 1"] m Unplaced unfolding step by simp
    qed
  qed
qed

lemma search_lowest:
  assumes ladder: "rung_ladder probe len"
  shows "(\<exists>i p. search_ladder probe len = Inr p \<and> i < len \<and> probe i = Inr (Placed p) \<and> (\<forall>j < i. unplaced probe j)) \<or>
   (\<exists>reason. search_ladder probe len = Inl (Err reason) \<and> probe (len - 1) = Inr (Unplaced reason) \<and> (\<forall>j < len. unplaced probe j))"
proof -
  have nonempty: "0 < len" using ladder by (simp add: rung_ladder_def)
  have top: "\<forall>j < len. unplaced probe j" if "probe (len - 1) = Inr (Unplaced reason)" for reason
    using that unplaced_below [OF ladder, of "len - 1"] nonempty by (auto simp: unplaced_def)
  obtain r where r: "probe 0 = Inr r" using rung_answers [OF ladder] nonempty by blast
  show ?thesis
  proof (cases r)
    case (Placed p)
    then show ?thesis using r nonempty by (intro disjI1 exI [of _ 0] exI [of _ p]) (simp add: search_ladder_def)
  next
    case (Unplaced e)
    show ?thesis
    proof (cases "len = 1")
      case True
      then show ?thesis using r Unplaced top by (simp add: search_ladder_def)
    next
      case False
      have u: "unplaced probe 0" "0 < len - 1" using r Unplaced False nonempty by (simp_all add: unplaced_def)
      show ?thesis using gallop_bracket [OF ladder u, of 0]
      proof (elim disjE exE conjE)
        fix lo hi p assume g: "gallop probe (len - 1) 0 0 = Inr (lo, hi, p)" and b: "unplaced probe lo" "lo < hi" "hi < len" "probe hi = Inr (Placed p)"
        show ?thesis using bisect_lowest [OF ladder b(4,1,2,3)] r Unplaced False g by (simp add: search_ladder_def)
      next
        fix reason assume "gallop probe (len - 1) 0 0 = Inl (Err reason)" "probe (len - 1) = Inr (Unplaced reason)"
        then show ?thesis using r Unplaced False top by (simp add: search_ladder_def)
      qed
    qed
  qed
qed


text \<open>On any ladder, what the search returns was placed on one of its rungs.\<close>

lemma bisect_placed:
  "bisect probe lo hi placed = Inr p \<Longrightarrow> probe hi = Inr (Placed placed) \<Longrightarrow> \<exists>i \<le> hi. probe i = Inr (Placed p)"
proof (induction "hi - lo" arbitrary: lo hi placed rule: less_induct)
  case less
  show ?case
  proof (cases "hi - lo > 1")
    case True
    define m where "m = lo + (hi - lo) div 2"
    have m: "lo < m" "m < hi" using True by (auto simp: m_def)
    have step: "bisect probe lo hi placed = (case probe m of Inl e \<Rightarrow> Inl e
        | Inr (Placed found) \<Rightarrow> bisect probe lo m found | Inr (Unplaced _) \<Rightarrow> bisect probe m hi placed)"
      using True by (subst bisect.simps) (simp add: m_def [symmetric] Let_def)
    show ?thesis
    proof (cases "probe m")
      case (Inr r)
      show ?thesis
      proof (cases r)
        case (Placed q)
        then have "\<exists>i \<le> m. probe i = Inr (Placed p)" using less.hyps [of m lo q] less.prems(1) m Inr by (simp add: step)
        then show ?thesis using m(2) by (meson less_imp_le le_trans)
      next
        case (Unplaced e)
        then show ?thesis using less.hyps [of hi m placed] less.prems m Inr by (simp add: step)
      qed
    qed (use less.prems(1) step in simp)
  next
    case False
    then show ?thesis using less.prems by (subst (asm) bisect.simps) auto
  qed
qed

lemma gallop_placed:
  "gallop probe top_rung lo k = Inr (lo', hi, p) \<Longrightarrow> hi \<le> top_rung \<and> probe hi = Inr (Placed p)"
proof (induction probe top_rung lo k rule: gallop.induct)
  case (1 probe top_rung lo k)
  define m where "m = min (lo + 2 ^ k) top_rung"
  have step: "gallop probe top_rung lo k = (case probe m of Inl e \<Rightarrow> Inl e | Inr (Placed found) \<Rightarrow> Inr (lo, m, found)
      | Inr (Unplaced reason) \<Rightarrow> if m = top_rung then Inl (Err reason) else gallop probe top_rung m (k + 1))"
    by (subst gallop.simps) (simp add: m_def [symmetric] Let_def)
  have "m \<le> top_rung" by (simp add: m_def)
  then show ?case using "1.prems" "1.IH" [OF m_def] by (auto simp: step split: sum.splits rung.splits if_splits)
qed

lemma search_placed:
  assumes "search_ladder probe len = Inr p" and "0 < len"
  shows "\<exists>i < len. probe i = Inr (Placed p)"
proof (cases "probe 0")
  case (Inr r)
  show ?thesis
  proof (cases r)
    case (Placed q)
    then show ?thesis using Inr assms by (auto simp: search_ladder_def)
  next
    case (Unplaced e)
    then obtain lo hi q where g: "gallop probe (len - 1) 0 0 = Inr (lo, hi, q)" "bisect probe lo hi q = Inr p"
      using Inr assms(1) by (auto simp: search_ladder_def bindR_eq_Inr split: if_splits)
    note h = gallop_placed [OF g(1)]
    then obtain i where "i \<le> hi" "probe i = Inr (Placed p)" using bisect_placed [OF g(2)] by blast
    then show ?thesis using h assms(2) by (intro exI [of _ i]) auto
  qed
qed (use assms in \<open>simp add: search_ladder_def\<close>)

section \<open>The ladder ends\<close>

lemma ladder_step:
  assumes "0 \<le> q" and "q < c" and "c \<le> 1"
  obtains n where "f64_min (f64_add (Finite q) USAGE_LIMIT_STEP) (Finite c) = Finite n" "q < n" "n \<le> c" "n = c \<or> q + 1 / 100 \<le> n"
proof -
  define s where "s = rnd (2 / 100 :: rat)"
  have S: "USAGE_LIMIT_STEP = Finite s" unfolding USAGE_LIMIT_STEP_def s_def by (rule to_f64_near) simp
  have s: "19 / 1000 \<le> s" "s \<le> 21 / 1000" using rnd_between [of "2 / 100"] by (simp_all add: s_def)
  define t where "t = rnd (q + s)"
  have pos: "\<bar>q + s\<bar> = q + s" using assms(1) s(1) by simp
  have "\<bar>q + s\<bar> \<le> 2" using assms s by simp
  then have add: "f64_add (Finite q) USAGE_LIMIT_STEP = Finite t" by (simp add: S t_def to_f64_near)
  have t: "q + 1 / 100 \<le> t" 
  proof -
    have "(q + s) * 1000000000000 \<le> t * 1000000000000 + (q + s) + 1"
      using rnd_between(2) [of "q + s"] unfolding t_def [symmetric] pos .
    moreover have "q + s \<le> 2" using assms s by simp
    moreover have "19000000000 \<le> s * 1000000000000" using s(1) by simp
    ultimately have "q * 1000000000000 + 10000000000 \<le> t * 1000000000000" by (simp add: distrib_right)
    then show ?thesis by simp
  qed
  have "f64_min (Finite t) (Finite c) = Finite (min t c)" by (simp add: f64_min_def min_def)
  moreover have "q < min t c" "min t c \<le> c" "min t c = c \<or> q + 1 / 100 \<le> min t c" using t assms by (auto simp: min_def)
  ultimately show thesis using that [of "min t c"] add by simp
qed

definition rungs_ok :: "rat \<Rightarrow> rat \<Rightarrow> rat list \<Rightarrow> bool" where
  "rungs_ok base c qs \<longleftrightarrow> qs \<noteq> [] \<and> hd qs = base \<and> sorted_wrt (<) qs \<and> last qs \<le> c"

lemma ladder_loop_ends:
  assumes "rungs_ok base c qs" and "0 \<le> base" and "c \<le> 1"
  shows "\<exists>rs. ladder_loop (Finite c) (map Finite qs) = Some (map Finite rs) \<and> rungs_ok base c rs \<and> last rs = c"
  using assms
proof (induction "nat \<lceil>(c - last qs) * 100\<rceil>" arbitrary: qs rule: less_induct)
  case less
  have ne: "qs \<noteq> []" and below: "\<forall>q \<in> set qs. q \<le> last qs" and hd: "base \<le> last qs"
  proof -
    show ne: "qs \<noteq> []" using less.prems(1) by (simp add: rungs_ok_def)
    obtain ys y where qs: "qs = ys @ [y]" using ne by (cases qs rule: rev_cases) auto
    have "sorted_wrt (<) (ys @ [y])" using less.prems(1) qs by (simp add: rungs_ok_def)
    then show "\<forall>q \<in> set qs. q \<le> last qs" unfolding qs sorted_wrt_append by auto
    then show "base \<le> last qs" using ne less.prems(1) by (auto simp: rungs_ok_def)
  qed
  have last_map: "last (map Finite qs) = Finite (last qs)" using ne by (simp add: last_map)
  show ?case
  proof (cases "last qs < c")
    case True
    obtain n where n: "f64_min (f64_add (Finite (last qs)) USAGE_LIMIT_STEP) (Finite c) = Finite n" "last qs < n" "n \<le> c"
        "n = c \<or> last qs + 1 / 100 \<le> n"
      using ladder_step [OF _ True less.prems(3)] less.prems(2) hd by (metis order_trans)
    have ok: "rungs_ok base c (qs @ [n])" using less.prems(1) ne below n(2,3) by (auto simp: rungs_ok_def sorted_wrt_append)
    have "nat \<lceil>(c - last (qs @ [n])) * 100\<rceil> < nat \<lceil>(c - last qs) * 100\<rceil>"
    proof -
      have "0 < (c - last qs) * 100" using True by simp
      then have "0 < \<lceil>(c - last qs) * 100\<rceil>" by simp
      moreover have "\<lceil>(c - n) * 100\<rceil> \<le> \<lceil>(c - last qs) * 100\<rceil> - 1 \<or> \<lceil>(c - n) * 100\<rceil> = 0"
      proof (cases "n = c")
        case False
        then have "(c - n) * 100 \<le> (c - last qs) * 100 - 1" using n(4) by (simp add: algebra_simps)
        then have "\<lceil>(c - n) * 100\<rceil> \<le> \<lceil>(c - last qs) * 100 - 1\<rceil>" by (rule ceiling_mono)
        then show ?thesis by simp
      qed simp
      ultimately show ?thesis by (auto simp: nat_less_eq_zless)
    qed
    from less.hyps [OF this ok less.prems(2,3)] obtain rs where
      rs: "ladder_loop (Finite c) (map Finite (qs @ [n])) = Some (map Finite rs)" "rungs_ok base c rs" "last rs = c" by blast
    have "ladder_loop (Finite c) (map Finite qs) = ladder_loop (Finite c) (map Finite (qs @ [n]))"
      using True n(1) by (subst ladder_loop.simps) (simp add: last_map)
    then show ?thesis using rs by auto
  next
    case False
    then have "last qs = c" using less.prems(1) by (simp add: rungs_ok_def)
    then show ?thesis using less.prems(1) by (subst ladder_loop.simps) (auto simp: last_map)
  qed
qed

lemma usage_ladder_ends:
  assumes "0 \<le> b" and "b \<le> c" and "c \<le> 1"
  shows "\<exists>rs. usage_ladder (Finite b) (Finite c) = Some (map Finite rs) \<and> rungs_ok b c rs \<and> last rs = c"
  using ladder_loop_ends [of b c "[b]"] assms by (simp add: usage_ladder_def rungs_ok_def)

end
