(* ===== verification/Fp_Place_Exact.thy ===== *)
theory Fp_Place_Exact
  imports Fp_Route_Model Fp_Partition
begin

text \<open>
  The placement program of \<^verbatim>\<open>partition/ilp.rs\<close> says what it should: over exact numbers it has a 0/1 solution if and only
  if there is a placement that respects every domain, every derated capacity with the Head registers of its crossings, and every
  cut.  Raising the limit keeps every placement, so the ladder search finds the lowest limit at which one exists.
\<close>

section \<open>Satisfied rows\<close>

definition satisfies :: "(LpVar \<Rightarrow> rat) \<Rightarrow> LpModel \<Rightarrow> bool" where
  "satisfies val lp \<longleftrightarrow> (\<forall>r \<in> set (constraints lp). holds val r)"

lemma satisfies_new [simp]: "satisfies val LpModel_new"
  by (simp add: satisfies_def LpModel_new_def)

lemma vars_new [simp]: "vars LpModel_new = []"
  by (simp add: LpModel_new_def)

lemma satisfies_set_objective [simp]: "satisfies val (set_objective lp e) = satisfies val lp" "vars (set_objective lp e) = vars lp"
  by (simp_all add: satisfies_def set_objective_def)

lemma satisfies_vars [simp]: "satisfies val (lp\<lparr>vars := vs\<rparr>) = satisfies val lp"
  by (simp add: satisfies_def)

lemma vars_add_constraint [simp]: "vars (add_constraint lp name e cmp rhs) = vars lp"
  by (simp add: add_constraint_def)

lemma satisfies_add_constraint [simp]:
  "satisfies val (add_constraint lp name (LinExpr_sum row) Le rhs) \<longleftrightarrow> satisfies val lp \<and> row_value row val \<le> f64_rat rhs"
  "satisfies val (add_constraint lp name (LinExpr_sum row) Eq rhs) \<longleftrightarrow> satisfies val lp \<and> row_value row val = f64_rat rhs"
  by (auto simp: satisfies_def add_constraint_def holds_def LinExpr_sum_def Let_def)

lemma row_value_simps [simp]:
  "row_value [] val = 0" "row_value ((a, v) # row) val = f64_rat a * val v + row_value row val"
  "row_value (sparse_push row a v) val = row_value row val + f64_rat a * val v"
  by (simp_all add: row_value_def sparse_push_def)

lemma row_value_ones: "row_value (map (Pair (Finite 1)) vs) val = (\<Sum>v \<leftarrow> vs. val v)"
  by (simp add: row_value_def comp_def)

lemma row_value_concat: "row_value (concat (map F ts)) val = (\<Sum>t \<leftarrow> ts. row_value (F t) val)"
  unfolding row_value_def sum_list_concat_map by simp

section \<open>Shape of the variables\<close>

definition extends :: "LpModel \<Rightarrow> nat \<Rightarrow> LpModel \<Rightarrow> bool" where
  "extends lp n lp' \<longleftrightarrow> (\<exists>labels. vars lp' = vars lp @ map binary_def labels \<and> length labels = n)"

lemma extends_refl: "extends lp 0 lp"
  by (simp add: extends_def)

lemma extends_trans: "extends lp m lp' \<Longrightarrow> extends lp' n lp'' \<Longrightarrow> extends lp (m + n) lp''"
  unfolding extends_def by (metis append.assoc length_append map_append)

lemma extends_length: "extends lp n lp' \<Longrightarrow> length (vars lp') = length (vars lp) + n"
  by (auto simp: extends_def)

lemma assignment_vars_shape:
  assumes "foldl (\<lambda>(lp, x) (vi, vertex).
       case add_one_of_k_row lp (''vertex_'' @ v_name vertex) (length (domains ! vi))
              (\<lambda>candidate. ''x_'' @ v_name vertex @ ''_'' @ region_name (domains ! vi ! candidate)) of
         (lp', row) \<Rightarrow> (lp', x @ [row])) (lp, x) (List.enumerate k vs) = (lp', x')"
  shows "\<exists>new. x' = x @ new \<and> map length new = map (\<lambda>i. length (domains ! (k + i))) [0..<length vs] \<and>
    concat new = [length (vars lp)..<length (vars lp')] \<and> extends lp (length (concat new)) lp' \<and>
    (\<forall>val. satisfies val lp' \<longleftrightarrow> satisfies val lp \<and> (\<forall>row \<in> set new. (\<Sum>v \<leftarrow> row. val v) = 1))"
  using assms
proof (induction vs arbitrary: lp x k)
  case Nil
  then show ?case by (simp add: extends_refl)
next
  case (Cons v vs)
  let ?n = "length (domains ! k)" and ?L = "length (vars lp)"
  obtain lp1 where lp1: "add_one_of_k_row lp (''vertex_'' @ v_name v) ?n
      (\<lambda>candidate. ''x_'' @ v_name v @ ''_'' @ region_name (domains ! k ! candidate)) = (lp1, [?L..<?L + ?n])"
    and e: "extends lp ?n lp1" and sat: "\<And>val. satisfies val lp1 \<longleftrightarrow> satisfies val lp \<and> (\<Sum>v \<leftarrow> [?L..<?L + ?n]. val v) = 1"
    by (simp add: add_one_of_k_row_eq extends_def row_value_ones) (metis length_map length_upt map_map diff_zero)
  from Cons.IH [of lp1 "x @ [[?L..<?L + ?n]]" "Suc k"] Cons.prems lp1 obtain new where
    new: "x' = (x @ [[?L..<?L + ?n]]) @ new" "map length new = map (\<lambda>i. length (domains ! (Suc k + i))) [0..<length vs]"
      "concat new = [length (vars lp1)..<length (vars lp')]" "extends lp1 (length (concat new)) lp'"
      "\<forall>val. satisfies val lp' \<longleftrightarrow> satisfies val lp1 \<and> (\<forall>row \<in> set new. (\<Sum>v \<leftarrow> row. val v) = 1)" by auto
  have L: "length (vars lp1) = ?L + ?n" "?L + ?n \<le> length (vars lp')" using e new(4) by (auto dest!: extends_length)
  show ?case
  proof (intro exI [of _ "[?L..<?L + ?n] # new"] conjI)
    show "map length ([?L..<?L + ?n] # new) = map (\<lambda>i. length (domains ! (k + i))) [0..<length (v # vs)]"
      by (simp add: new(2) upt_conv_Cons map_Suc_upt [symmetric] comp_def del: upt_Suc)
    show "concat ([?L..<?L + ?n] # new) = [?L..<length (vars lp')]" using L by (simp add: new(3) upt_add_eq_append [symmetric] le_iff_add) (metis upt_add_eq_append le_add1 le_add_diff_inverse)
    show "extends lp (length (concat ([?L..<?L + ?n] # new))) lp'" using extends_trans [OF e new(4)] by simp
    show "\<forall>val. satisfies val lp' \<longleftrightarrow> satisfies val lp \<and> (\<forall>row \<in> set ([?L..<?L + ?n] # new). (\<Sum>v \<leftarrow> row. val v) = 1)"
      by (simp add: new(5) sat)
  qed (simp add: new(1))
qed

lemma concat_consecutive:
  "concat (map (\<lambda>i. [L + i * n..<L + i * n + n]) [0..<m]) = [L..<L + m * n]"
proof (induction m)
  case (Suc m)
  have "[L..<L + m * n] @ [L + m * n..<L + m * n + n] = [L..<L + m * n + n]" by (rule upt_add_eq_append [symmetric]) simp
  then show ?case using Suc.IH by (simp add: add.commute add.left_commute)
qed simp

text \<open>One row of a plane, then the whole plane.\<close>

lemma push_row:
  fixes ei :: nat and e :: PlacementEdge and src :: Coor
  assumes "a < length plane"
  defines "T \<equiv> \<lambda>(b, dst). \<lparr>yt_ei = ei, yt_edge = e, yt_src_ci = a, yt_src = src, yt_dst_ci = b, yt_dst = dst\<rparr>"
  shows "\<exists>lp'. foldl push_plane (lp, plane) (map T (List.enumerate k dsts)) =
      (lp', plane[a := plane ! a @ [length (vars lp)..<length (vars lp) + length dsts]]) \<and>
    extends lp (length dsts) lp' \<and> (\<forall>val. satisfies val lp' = satisfies val lp)"
  using assms(1)
proof (induction dsts arbitrary: lp plane k)
  case Nil
  then show ?case by (simp add: extends_refl)
next
  case (Cons d dsts)
  let ?L = "length (vars lp)" and ?p = "plane[a := plane ! a @ [length (vars lp)]]"
  obtain lp1 where lp1: "push_plane (lp, plane) (T (k, d)) = (lp1, ?p)" and e: "extends lp 1 lp1"
    and sat: "\<And>val. satisfies val lp1 = satisfies val lp"
    by (simp add: push_plane_def T_def add_binary_def add_var_def extends_def) (metis (no_types) One_nat_def binary_def_def length_Cons list.simps(9) list.size(3) map_is_Nil_conv)
  from Cons.IH [of ?p lp1 "Suc k"] Cons.prems obtain lp' where
    lp': "foldl push_plane (lp1, ?p) (map T (List.enumerate (Suc k) dsts)) =
        (lp', ?p[a := ?p ! a @ [length (vars lp1)..<length (vars lp1) + length dsts]])"
      "extends lp1 (length dsts) lp'" "\<forall>val. satisfies val lp' = satisfies val lp1" by auto
  have L: "length (vars lp1) = Suc ?L" using e by (auto dest: extends_length)
  have "?p[a := ?p ! a @ [Suc ?L..<Suc ?L + length dsts]] = plane[a := plane ! a @ [?L..<?L + length (d # dsts)]]"
    using Cons.prems by (simp add: upt_conv_Cons del: upt_Suc)
  then show ?case using lp' lp1 sat extends_trans [OF e lp'(2)] L by (intro exI [of _ lp']) simp
qed

lemma push_rows:
  fixes ei :: nat and e :: PlacementEdge and dsts :: "Coor list"
  assumes "length plane = k + length srcs" and "drop k plane = replicate (length srcs) []"
  defines "T \<equiv> \<lambda>(a, src). map (\<lambda>(b, dst). \<lparr>yt_ei = ei, yt_edge = e, yt_src_ci = a, yt_src = src, yt_dst_ci = b, yt_dst = dst\<rparr>) (List.enumerate 0 dsts)"
    and "n \<equiv> length dsts"
  shows "\<exists>lp'. foldl push_plane (lp, plane) (concat (map T (List.enumerate k srcs))) =
      (lp', take k plane @ map (\<lambda>i. [length (vars lp) + i * n..<length (vars lp) + i * n + n]) [0..<length srcs]) \<and>
    extends lp (length srcs * n) lp' \<and> (\<forall>val. satisfies val lp' = satisfies val lp)"
  using assms(1,2)
proof (induction srcs arbitrary: lp plane k)
  case Nil
  then show ?case by (simp add: extends_refl)
next
  case (Cons s srcs)
  let ?L = "length (vars lp)"
  have k: "k < length plane" using Cons.prems(1) by simp
  have dk: "plane ! k # drop (Suc k) plane = [] # replicate (length srcs) []"
    using Cons.prems(2) Cons_nth_drop_Suc [OF k] by simp
  obtain lp1 where lp1: "foldl push_plane (lp, plane) (T (k, s)) = (lp1, plane[k := plane ! k @ [?L..<?L + n]])"
      "extends lp n lp1" "\<forall>val. satisfies val lp1 = satisfies val lp"
    using push_row [OF k, of lp ei e s 0 dsts] by (auto simp: T_def n_def)
  define p where "p = plane[k := [?L..<?L + n]]"
  have p: "length p = Suc k + length srcs" "drop (Suc k) p = replicate (length srcs) []" "take (Suc k) p = take k plane @ [[?L..<?L + n]]"
    using Cons.prems(1) dk k by (auto simp: p_def take_Suc_conv_app_nth)
  from Cons.IH [OF p(1,2), of lp1] obtain lp' where
    lp': "foldl push_plane (lp1, p) (concat (map T (List.enumerate (Suc k) srcs))) =
        (lp', take (Suc k) p @ map (\<lambda>i. [length (vars lp1) + i * n..<length (vars lp1) + i * n + n]) [0..<length srcs])"
      "extends lp1 (length srcs * n) lp'" "\<forall>val. satisfies val lp' = satisfies val lp1" by blast
  have L: "length (vars lp1) = ?L + n" using lp1(2) by (auto dest: extends_length)
  have "[?L..<?L + n] # map (\<lambda>i. [?L + n + i * n..<?L + n + i * n + n]) [0..<length srcs] =
      map (\<lambda>i. [?L + i * n..<?L + i * n + n]) [0..<length (s # srcs)]"
    by (simp add: upt_conv_Cons map_Suc_upt [symmetric] comp_def add.assoc del: upt_Suc)
  then show ?case using lp' lp1 dk extends_trans [OF lp1(2) lp'(2)] L p(3)
    by (intro exI [of _ lp']) (simp add: p_def [symmetric])
qed

definition plane_ok :: "Coor list list \<Rightarrow> PlacementEdge \<Rightarrow> LpVar list list \<Rightarrow> bool" where
  "plane_ok domains e plane \<longleftrightarrow> length plane = length (domains ! pe_src e) \<and> (\<forall>row \<in> set plane. length row = length (domains ! pe_dst e))"

lemma edge_plane_shape:
  obtains lp' plane where "add_edge_plane domains (lp, y) (ei, e) = (lp', y @ [plane])" "plane_ok domains e plane"
    "concat plane = [length (vars lp)..<length (vars lp')]" "extends lp (length (concat plane)) lp'"
    "\<forall>val. satisfies val lp' \<longleftrightarrow> satisfies val lp \<and> (\<Sum>v \<leftarrow> concat plane. val v) = 1"
proof -
  let ?srcs = "domains ! pe_src e" and ?n = "length (domains ! pe_dst e)" and ?L = "length (vars lp)"
  define plane where "plane = map (\<lambda>i. [?L + i * ?n..<?L + i * ?n + ?n]) [0..<length ?srcs]"
  obtain lp1 where lp1: "foldl push_plane (lp, replicate (length ?srcs) []) (edge_y_terms ei e domains) = (lp1, plane)"
      "extends lp (length ?srcs * ?n) lp1" "\<forall>val. satisfies val lp1 = satisfies val lp"
    using push_rows [of "replicate (length ?srcs) []" 0 ?srcs lp ei e "domains ! pe_dst e"] by (auto simp: edge_y_terms_def plane_def)
  have c: "concat plane = [?L..<?L + length ?srcs * ?n]" unfolding plane_def by (rule concat_consecutive)
  have L: "length (vars lp1) = ?L + length ?srcs * ?n" using lp1(2) by (rule extends_length)
  show thesis
  proof (rule that)
    show "add_edge_plane domains (lp, y) (ei, e) =
        (add_constraint lp1 (''route_'' @ show_nat ei) (LinExpr_sum (map (Pair (Finite 1)) (concat plane))) Eq (Finite 1), y @ [plane])"
      by (simp add: add_edge_plane_def lp1(1))
    show "plane_ok domains e plane" by (auto simp: plane_ok_def plane_def)
  qed (use c L lp1(2,3) in \<open>simp_all add: extends_def row_value_ones\<close>)
qed

lemma edge_vars_shape:
  assumes "foldl (add_edge_plane domains) (lp, y) (List.enumerate k es) = (lp', y')"
  shows "\<exists>new. y' = y @ new \<and> list_all2 (plane_ok domains) es new \<and> concat (map concat new) = [length (vars lp)..<length (vars lp')] \<and>
    extends lp (length (concat (map concat new))) lp' \<and>
    (\<forall>val. satisfies val lp' \<longleftrightarrow> satisfies val lp \<and> (\<forall>plane \<in> set new. (\<Sum>v \<leftarrow> concat plane. val v) = 1))"
  using assms
proof (induction es arbitrary: lp y k)
  case Nil
  then show ?case by (simp add: extends_refl)
next
  case (Cons e es)
  obtain lp1 plane where p: "add_edge_plane domains (lp, y) (k, e) = (lp1, y @ [plane])" "plane_ok domains e plane"
    "concat plane = [length (vars lp)..<length (vars lp1)]" "extends lp (length (concat plane)) lp1"
    "\<forall>val. satisfies val lp1 \<longleftrightarrow> satisfies val lp \<and> (\<Sum>v \<leftarrow> concat plane. val v) = 1"
    by (rule edge_plane_shape)
  from Cons.IH [of lp1 "y @ [plane]" "Suc k"] Cons.prems p(1) obtain new where
    new: "y' = (y @ [plane]) @ new" "list_all2 (plane_ok domains) es new" "concat (map concat new) = [length (vars lp1)..<length (vars lp')]"
      "extends lp1 (length (concat (map concat new))) lp'"
      "\<forall>val. satisfies val lp' \<longleftrightarrow> satisfies val lp1 \<and> (\<forall>plane \<in> set new. (\<Sum>v \<leftarrow> concat plane. val v) = 1)" by auto
  have "length (vars lp) \<le> length (vars lp1)" "length (vars lp1) \<le> length (vars lp')" using p(4) new(4) by (auto dest!: extends_length)
  then have "[length (vars lp)..<length (vars lp1)] @ [length (vars lp1)..<length (vars lp')] = [length (vars lp)..<length (vars lp')]"
    by (metis le_add_diff_inverse upt_add_eq_append)
  moreover have "extends lp (length (concat (map concat (plane # new)))) lp'" using extends_trans [OF p(4) new(4)] by simp
  moreover have "concat (map concat (plane # new)) = concat plane @ concat (map concat new)" by simp
  ultimately show ?case using new(1,2,3,5) p(2,3,5) by (intro exI [of _ "plane # new"] conjI) (simp_all only: append.assoc append_Cons append_Nil, simp_all)
qed

section \<open>Sums over edge terms\<close>

definition yt :: "nat \<Rightarrow> PlacementEdge \<Rightarrow> Coor list list \<Rightarrow> nat \<Rightarrow> nat \<Rightarrow> YTerm" where
  "yt ei e domains a b = \<lparr>yt_ei = ei, yt_edge = e, yt_src_ci = a, yt_src = domains ! pe_src e ! a, yt_dst_ci = b, yt_dst = domains ! pe_dst e ! b\<rparr>"

lemma yt_simps [simp]:
  "yt_ei (yt ei e domains a b) = ei" "yt_edge (yt ei e domains a b) = e" "yt_src_ci (yt ei e domains a b) = a"
  "yt_dst_ci (yt ei e domains a b) = b" "yt_src (yt ei e domains a b) = domains ! pe_src e ! a"
  "yt_dst (yt ei e domains a b) = domains ! pe_dst e ! b" "yterm_var (yt ei e domains a b) y = y ! ei ! a ! b"
  by (simp_all add: yt_def yterm_var_def)

lemma edge_y_terms_yt:
  "edge_y_terms ei e domains = concat (map (\<lambda>a. map (yt ei e domains a) [0..<length (domains ! pe_dst e)]) [0..<length (domains ! pe_src e)])"
proof -
  have en: "map (\<lambda>(i, x). F i x) (List.enumerate 0 xs) = map (\<lambda>i. F i (xs ! i)) [0..<length xs]" for F :: "nat \<Rightarrow> Coor \<Rightarrow> 'b" and xs
    by (rule nth_equalityI) (simp_all add: nth_enumerate_eq)
  show ?thesis unfolding edge_y_terms_def en yt_def ..
qed

lemma sum_edge_terms:
  "(\<Sum>t \<leftarrow> edge_y_terms ei e domains. f t) = (\<Sum>a < length (domains ! pe_src e). \<Sum>b < length (domains ! pe_dst e). f (yt ei e domains a b))"
  for f :: "YTerm \<Rightarrow> rat"
  unfolding edge_y_terms_yt sum_list_concat_map by (simp add: comp_def interv_sum_list_conv_sum_set_nat atLeast0LessThan)

lemma sum_y_terms:
  "(\<Sum>t \<leftarrow> y_terms graph domains. f t) = (\<Sum>ei < length (placement_edges graph). \<Sum>t \<leftarrow> edge_y_terms ei (placement_edges graph ! ei) domains. f t)"
  for f :: "YTerm \<Rightarrow> rat"
proof -
  have "(\<Sum>t \<leftarrow> y_terms graph domains. f t) = (\<Sum>(ei, e) \<leftarrow> List.enumerate 0 (placement_edges graph). \<Sum>t \<leftarrow> edge_y_terms ei e domains. f t)"
    unfolding y_terms_def sum_list_concat_map by (simp add: case_prod_unfold)
  then show ?thesis by (simp only: sum_list_enumerate add_0)
qed

lemma bucket_fold:
  assumes "\<forall>t \<in> set ts. yt_src_ci t < length S \<and> yt_dst_ci t < length D" and "foldl (bucket y) (S, D) ts = (S', D')"
  shows "length S' = length S \<and> length D' = length D \<and>
    (\<forall>a < length S. row_value (S' ! a) val = row_value (S ! a) val + (\<Sum>t \<leftarrow> ts. if yt_src_ci t = a then val (yterm_var t y) else 0)) \<and>
    (\<forall>b < length D. row_value (D' ! b) val = row_value (D ! b) val + (\<Sum>t \<leftarrow> ts. if yt_dst_ci t = b then val (yterm_var t y) else 0))"
  using assms
proof (induction ts arbitrary: S D)
  case (Cons t ts)
  let ?S = "S[yt_src_ci t := sparse_push (S ! yt_src_ci t) (Finite 1) (yterm_var t y)]"
    and ?D = "D[yt_dst_ci t := sparse_push (D ! yt_dst_ci t) (Finite 1) (yterm_var t y)]"
  have b: "bucket y (S, D) t = (?S, ?D)" by (simp add: bucket_def)
  have "foldl (bucket y) (?S, ?D) ts = (S', D')" using Cons.prems(2) by (simp add: b)
  then show ?case using Cons.IH [of ?S ?D] Cons.prems(1) by (auto simp: nth_list_update add.assoc)
qed simp

text \<open>Rows added one after the other.\<close>

lemma rows_sat:
  assumes "\<And>lp z. satisfies val (f lp z) \<longleftrightarrow> satisfies val lp \<and> P z" and "\<And>lp z. vars (f lp z) = vars lp"
  shows "satisfies val (foldl f lp zs) \<longleftrightarrow> satisfies val lp \<and> (\<forall>z \<in> set zs. P z)" and "vars (foldl f lp zs) = vars lp"
  by (induction zs arbitrary: lp) (simp_all add: assms)

lemma ball_enumerate: "(\<forall>z \<in> set (List.enumerate 0 xs). P z) \<longleftrightarrow> (\<forall>i < length xs. P (i, xs ! i))"
  by (auto simp: in_set_enumerate_eq)

lemma couple_rows_sat:
  "satisfies val (couple_rows side ei xs lp rs) \<longleftrightarrow> satisfies val lp \<and> (\<forall>i < length rs. row_value (rs ! i) val = val (xs ! i))"
  "vars (couple_rows side ei xs lp rs) = vars lp"
proof -
  let ?f = "\<lambda>lp (ci, row). add_constraint lp (''edge_'' @ show_nat ei @ side @ show_nat ci) (into_expr (sparse_push row (Finite (- 1)) (xs ! ci))) Eq (Finite 0)"
  have "satisfies val (?f lp z) \<longleftrightarrow> satisfies val lp \<and> row_value (snd z) val = val (xs ! fst z)" "vars (?f lp z) = vars lp" for lp z
    by (auto simp: into_expr_def split: prod.splits)
  note r = rows_sat [of val ?f, OF this]
  show "satisfies val (couple_rows side ei xs lp rs) \<longleftrightarrow> satisfies val lp \<and> (\<forall>i < length rs. row_value (rs ! i) val = val (xs ! i))"
    "vars (couple_rows side ei xs lp rs) = vars lp" unfolding couple_rows_def r by (simp_all add: ball_enumerate)
qed

definition coupled :: "(LpVar \<Rightarrow> rat) \<Rightarrow> Coor list list \<Rightarrow> LpVar list list \<Rightarrow> LpVar list list \<Rightarrow> PlacementEdge \<Rightarrow> bool" where
  "coupled val domains x plane e \<longleftrightarrow>
     (\<forall>a < length (domains ! pe_src e). (\<Sum>b < length (domains ! pe_dst e). val (plane ! a ! b)) = val (x ! pe_src e ! a)) \<and>
     (\<forall>b < length (domains ! pe_dst e). (\<Sum>a < length (domains ! pe_src e). val (plane ! a ! b)) = val (x ! pe_dst e ! b))"

lemma couple_edge_sat:
  "satisfies val (couple_edge domains x y lp (ei, e)) \<longleftrightarrow> satisfies val lp \<and> coupled val domains x (y ! ei) e"
  "vars (couple_edge domains x y lp (ei, e)) = vars lp"
proof -
  let ?m = "length (domains ! pe_src e)" and ?n = "length (domains ! pe_dst e)"
  obtain S D where SD: "foldl (bucket y) (replicate ?m [], replicate ?n []) (edge_y_terms ei e domains) = (S, D)" by (metis surj_pair)
  have "\<forall>t \<in> set (edge_y_terms ei e domains). yt_src_ci t < length (replicate ?m []) \<and> yt_dst_ci t < length (replicate ?n [])"
    by (auto simp: edge_y_terms_yt)
  note f = bucket_fold [OF this SD, of val]
  have src: "row_value (S ! a) val = (\<Sum>b < ?n. val (y ! ei ! a ! b))" if "a < ?m" for a
  proof -
    have "row_value (S ! a) val = (\<Sum>a' < ?m. if a' = a then \<Sum>b < ?n. val (y ! ei ! a ! b) else 0)"
    proof -
      have "row_value (S ! a) val = (\<Sum>t \<leftarrow> edge_y_terms ei e domains. if yt_src_ci t = a then val (yterm_var t y) else 0)" using f that by simp
      then show ?thesis unfolding sum_edge_terms by (simp only: yt_simps) (intro sum.cong refl, simp)
    qed
    then show ?thesis using that by simp
  qed
  have dst: "row_value (D ! b) val = (\<Sum>a < ?m. val (y ! ei ! a ! b))" if "b < ?n" for b
    using f that by (simp add: sum_edge_terms)
  show "satisfies val (couple_edge domains x y lp (ei, e)) \<longleftrightarrow> satisfies val lp \<and> coupled val domains x (y ! ei) e"
    "vars (couple_edge domains x y lp (ei, e)) = vars lp"
    using f src dst by (auto simp: couple_edge_def SD couple_rows_sat coupled_def)
qed

lemma add_coupling_sat:
  "satisfies val (add_coupling lp graph domains x y) \<longleftrightarrow>
     satisfies val lp \<and> (\<forall>ei < length (placement_edges graph). coupled val domains x (y ! ei) (placement_edges graph ! ei))"
  "vars (add_coupling lp graph domains x y) = vars lp"
proof -
  let ?P = "\<lambda>z. coupled val domains x (y ! fst z) (snd z)"
  have "satisfies val (couple_edge domains x y lp z) \<longleftrightarrow> satisfies val lp \<and> ?P z" "vars (couple_edge domains x y lp z) = vars lp" for lp z
    by (cases z; simp add: couple_edge_sat)+
  note r = rows_sat [of val "couple_edge domains x y", OF this]
  show "satisfies val (add_coupling lp graph domains x y) \<longleftrightarrow>
     satisfies val lp \<and> (\<forall>ei < length (placement_edges graph). coupled val domains x (y ! ei) (placement_edges graph ! ei))"
    "vars (add_coupling lp graph domains x y) = vars lp" unfolding add_coupling_def r by (simp_all add: ball_enumerate)
qed

section \<open>Points of the program and placements\<close>

definition hot_point :: "(LpVar \<Rightarrow> rat) \<Rightarrow> FloorGraph \<Rightarrow> Coor list list \<Rightarrow> LpVar list list \<Rightarrow> LpVar list list list \<Rightarrow> nat list \<Rightarrow> bool" where
  "hot_point val graph domains x y ch \<longleftrightarrow>
     length ch = length domains \<and>
     (\<forall>i < length domains. ch ! i < length (domains ! i) \<and> one_hot val (x ! i) (ch ! i)) \<and>
     (\<forall>ei < length (placement_edges graph). let e = placement_edges graph ! ei in
        \<forall>a < length (domains ! pe_src e). \<forall>b < length (domains ! pe_dst e).
          val (y ! ei ! a ! b) = (if a = ch ! pe_src e \<and> b = ch ! pe_dst e then 1 else 0))"

definition placement_of :: "Coor list list \<Rightarrow> nat list \<Rightarrow> Coor list" where
  "placement_of domains ch = map2 (\<lambda>domain k. domain ! k) domains ch"

lemma placement_of_nth [simp]: "i < length domains \<Longrightarrow> length ch = length domains \<Longrightarrow> placement_of domains ch ! i = domains ! i ! (ch ! i)"
  by (simp add: placement_of_def)

definition widths_ok :: "FloorGraph \<Rightarrow> bool" where
  "widths_ok graph \<longleftrightarrow>
     list_all (\<lambda>e. fits 32 (pe_width e) \<and> fits 32 (forward_width e) \<and> fits 32 (reverse_width e)) (placement_edges graph) \<and>
     list_all (\<lambda>v. \<forall>r. amount r (v_area v) \<le> 2 ^ 53) (vertices graph)"

text \<open>The registers a placement's crossings leave in a region, the resources it uses there, and the wires it sends across a cut.\<close>

definition heads_in :: "Coor list \<Rightarrow> Coor \<Rightarrow> PlacementEdge \<Rightarrow> nat" where
  "heads_in ps region e =
     (let a = ps ! pe_src e; b = ps ! pe_dst e
      in if a = b then 0 else if a = region then forward_width e else if b = region then reverse_width e else 0)"

definition region_load :: "FloorGraph \<Rightarrow> Coor list \<Rightarrow> Coor \<Rightarrow> Resource \<Rightarrow> nat" where
  "region_load graph ps region r =
     (\<Sum>i < length (vertices graph). if ps ! i = region then amount r (v_area (vertices graph ! i)) else 0) +
     (if r = Ff then \<Sum>e \<leftarrow> placement_edges graph. heads_in ps region e else 0)"

definition edge_crosses :: "Cut \<Rightarrow> Coor list \<Rightarrow> PlacementEdge \<Rightarrow> bool" where
  "edge_crosses k ps e \<longleftrightarrow> (ps ! pe_src e \<in> set (cut_lhs k) \<and> ps ! pe_dst e \<in> set (cut_rhs k)) \<or>
     (ps ! pe_src e \<in> set (cut_rhs k) \<and> ps ! pe_dst e \<in> set (cut_lhs k))"

definition cut_demand :: "FloorGraph \<Rightarrow> Coor list \<Rightarrow> Cut \<Rightarrow> nat" where
  "cut_demand graph ps k = (\<Sum>e \<leftarrow> placement_edges graph. if edge_crosses k ps e then pe_width e else 0)"

definition resource_terms :: "FloorGraph \<Rightarrow> Coor list list \<Rightarrow> LpVar list list \<Rightarrow> LpVar list list list \<Rightarrow> Coor \<Rightarrow> Resource \<Rightarrow> SparseRow" where
  "resource_terms graph domains x y region r =
     usage_terms graph domains x region r @ (if r = Ff then concat (map (head_terms y region) (y_terms graph domains)) else [])"

definition cut_terms :: "FloorGraph \<Rightarrow> Coor list list \<Rightarrow> LpVar list list list \<Rightarrow> Cut \<Rightarrow> SparseRow" where
  "cut_terms graph domains y k =
     concat (map (\<lambda>t. if term_crosses k t then [(of_uint (pe_width (yt_edge t)), yterm_var t y)] else []) (y_terms graph domains))"

lemma hot_edge_sum:
  assumes "hot_point val graph domains x y ch" and "ei < length (placement_edges graph)" and "e = placement_edges graph ! ei"
    and "pe_src e < length domains" and "pe_dst e < length domains"
  shows "(\<Sum>t \<leftarrow> edge_y_terms ei e domains. if P t then c t * val (yterm_var t y) else 0) =
    (if P (yt ei e domains (ch ! pe_src e) (ch ! pe_dst e)) then c (yt ei e domains (ch ! pe_src e) (ch ! pe_dst e)) else 0)"
proof -
  let ?m = "length (domains ! pe_src e)" and ?n = "length (domains ! pe_dst e)" and ?s = "ch ! pe_src e" and ?t = "ch ! pe_dst e"
  let ?v = "if P (yt ei e domains ?s ?t) then c (yt ei e domains ?s ?t) else 0"
  have in_range: "?s < ?m" "?t < ?n" using assms by (auto simp: hot_point_def)
  have hot: "val (y ! ei ! a ! b) = (if a = ?s \<and> b = ?t then 1 else 0)" if "a < ?m" "b < ?n" for a b
    using assms(1-3) that by (simp add: hot_point_def Let_def)
  have "(\<Sum>t \<leftarrow> edge_y_terms ei e domains. if P t then c t * val (yterm_var t y) else 0) =
      (\<Sum>a < ?m. \<Sum>b < ?n. if a = ?s then (if b = ?t then ?v else 0) else 0)"
    unfolding sum_edge_terms by (intro sum.cong refl) (auto simp: hot)
  also have "\<dots> = (\<Sum>a < ?m. if a = ?s then (\<Sum>b < ?n. if b = ?t then ?v else 0) else 0)" by (intro sum.cong refl) simp
  also have "\<dots> = ?v" using in_range by simp
  finally show ?thesis .
qed

lemma hot_terms_value:
  assumes "hot_point val graph domains x y ch" and "edges_in_range graph domains"
    and "\<And>t. F t = (if P t then [(A t, yterm_var t y)] else [])"
    and "\<And>ei. ei < length (placement_edges graph) \<Longrightarrow> (let e = placement_edges graph ! ei; t = yt ei e domains (ch ! pe_src e) (ch ! pe_dst e)
      in (if P t then f64_rat (A t) else 0) = of_nat (g e))"
  shows "row_value (concat (map F (y_terms graph domains))) val = of_nat (\<Sum>e \<leftarrow> placement_edges graph. g e)"
proof -
  let ?es = "placement_edges graph"
  have "row_value (concat (map F (y_terms graph domains))) val = (\<Sum>t \<leftarrow> y_terms graph domains. if P t then f64_rat (A t) * val (yterm_var t y) else 0)"
    unfolding row_value_concat by (intro arg_cong [of _ _ sum_list] map_cong refl) (simp add: assms(3))
  also have "\<dots> = (\<Sum>ei < length ?es. of_nat (g (?es ! ei)))"
    unfolding sum_y_terms
  proof (intro sum.cong refl)
    fix ei assume "ei \<in> {..<length ?es}"
    then have i: "ei < length ?es" by simp
    then have "pe_src (?es ! ei) < length domains" "pe_dst (?es ! ei) < length domains" using assms(2) by (auto simp: edges_in_range_def list_all_length)
    from hot_edge_sum [OF assms(1) i refl this, of P "\<lambda>t. f64_rat (A t)"] assms(4) [OF i]
    show "(\<Sum>t \<leftarrow> edge_y_terms ei (?es ! ei) domains. if P t then f64_rat (A t) * val (yterm_var t y) else 0) = of_nat (g (?es ! ei))"
      by (simp add: Let_def)
  qed
  also have "\<dots> = of_nat (\<Sum>e \<leftarrow> ?es. g e)" by (simp add: sum_list_sum_nth atLeast0LessThan)
  finally show ?thesis .
qed

lemma small_uint: "fits 32 n \<Longrightarrow> f64_rat (of_uint n) = of_nat n"
  by (rule of_uint_rat) (simp add: fits_def)

lemma edge_widths: "widths_ok graph \<Longrightarrow> ei < length (placement_edges graph) \<Longrightarrow>
    fits 32 (pe_width (placement_edges graph ! ei)) \<and> fits 32 (forward_width (placement_edges graph ! ei)) \<and> fits 32 (reverse_width (placement_edges graph ! ei))"
  by (simp add: widths_ok_def list_all_length)

lemma heads_value:
  assumes "hot_point val graph domains x y ch" and "edges_in_range graph domains" and "widths_ok graph"
  shows "row_value (concat (map (head_terms y region) (y_terms graph domains))) val =
    of_nat (\<Sum>e \<leftarrow> placement_edges graph. heads_in (placement_of domains ch) region e)"
proof (rule hot_terms_value [OF assms(1,2)])
  let ?h = "\<lambda>t. if yt_src t = region then forward_width (yt_edge t) else if yt_dst t = region then reverse_width (yt_edge t) else 0"
  show "head_terms y region t = (if yt_src t \<noteq> yt_dst t \<and> ?h t > 0 then [(of_uint (?h t), yterm_var t y)] else [])" for t
    by (auto simp: head_terms_def Let_def)
  have len: "length ch = length domains" using assms(1) by (simp add: hot_point_def)
  fix ei assume i: "ei < length (placement_edges graph)"
  let ?e = "placement_edges graph ! ei"
  have r: "pe_src ?e < length domains" "pe_dst ?e < length domains" using i assms(2) by (auto simp: edges_in_range_def list_all_length)
  show "let e = placement_edges graph ! ei; t = yt ei e domains (ch ! pe_src e) (ch ! pe_dst e)
      in (if yt_src t \<noteq> yt_dst t \<and> ?h t > 0 then f64_rat (of_uint (?h t)) else 0) = of_nat (heads_in (placement_of domains ch) region e)"
    using edge_widths [OF assms(3) i] r len by (simp add: Let_def heads_in_def small_uint)
qed

lemma cut_value:
  assumes "hot_point val graph domains x y ch" and "edges_in_range graph domains" and "widths_ok graph"
  shows "row_value (cut_terms graph domains y k) val =
    of_nat (cut_demand graph (placement_of domains ch) k)"
  unfolding cut_demand_def cut_terms_def
proof (rule hot_terms_value [OF assms(1,2)])
  have len: "length ch = length domains" using assms(1) by (simp add: hot_point_def)
  fix ei assume i: "ei < length (placement_edges graph)"
  let ?e = "placement_edges graph ! ei"
  have r: "pe_src ?e < length domains" "pe_dst ?e < length domains" using i assms(2) by (auto simp: edges_in_range_def list_all_length)
  show "let e = placement_edges graph ! ei; t = yt ei e domains (ch ! pe_src e) (ch ! pe_dst e)
      in (if term_crosses k t then f64_rat (of_uint (pe_width (yt_edge t))) else 0) =
         of_nat (if edge_crosses k (placement_of domains ch) e then pe_width e else 0)"
    using edge_widths [OF assms(3) i] r len by (simp add: Let_def term_crosses_def edge_crosses_def small_uint)
qed (rule refl)

lemma position_Some: "position P xs = Some i \<Longrightarrow> i < length xs \<and> P (xs ! i)"
  by (induction xs arbitrary: i) (auto split: if_splits)

lemma position_None: "position P xs = None \<longleftrightarrow> (\<forall>x \<in> set xs. \<not> P x)"
  by (induction xs) auto

lemma usage_value:
  assumes "hot_point val graph domains x y ch" and "widths_ok graph" and "length domains = length (vertices graph)" and "\<forall>dm \<in> set domains. distinct dm"
    and "\<forall>i < length domains. length (x ! i) = length (domains ! i)"
  shows "row_value (usage_terms graph domains x region r) val =
    of_nat (\<Sum>i < length (vertices graph). if placement_of domains ch ! i = region then amount r (v_area (vertices graph ! i)) else 0)"
proof -
  let ?vs = "vertices graph"
  let ?F = "\<lambda>vi vertex. case position (\<lambda>candidate. candidate = region) (domains ! vi) of None \<Rightarrow> [] | Some ci \<Rightarrow> [(of_uint (amount r (v_area vertex)), x ! vi ! ci)]"
  have len: "length ch = length domains" using assms(1) by (simp add: hot_point_def)
  have "row_value (usage_terms graph domains x region r) val = (\<Sum>(vi, vertex) \<leftarrow> List.enumerate 0 ?vs. row_value (?F vi vertex) val)"
    unfolding usage_terms_def row_value_concat by (simp add: case_prod_unfold)
  also have "\<dots> = (\<Sum>i < length ?vs. row_value (?F i (?vs ! i)) val)" by (simp only: sum_list_enumerate add_0)
  also have "\<dots> = (\<Sum>i < length ?vs. of_nat (if placement_of domains ch ! i = region then amount r (v_area (?vs ! i)) else 0))"
  proof (intro sum.cong refl)
    fix i assume "i \<in> {..<length ?vs}"
    then have i: "i < length domains" "i < length ?vs" using assms(3) by auto
    have k: "ch ! i < length (domains ! i)" "one_hot val (x ! i) (ch ! i)" using assms(1) i by (auto simp: hot_point_def)
    have small: "amount r (v_area (?vs ! i)) \<le> 2 ^ 53" using assms(2) i by (simp add: widths_ok_def list_all_length)
    show "row_value (?F i (?vs ! i)) val = of_nat (if placement_of domains ch ! i = region then amount r (v_area (?vs ! i)) else 0)"
    proof (cases "position (\<lambda>candidate. candidate = region) (domains ! i)")
      case None
      then have "domains ! i ! (ch ! i) \<noteq> region" using k(1) by (auto simp: position_None)
      then show ?thesis using None i len by simp
    next
      case (Some ci)
      then have ci: "ci < length (domains ! i)" "domains ! i ! ci = region" by (auto dest: position_Some)
      have "val (x ! i ! ci) = (if ci = ch ! i then 1 else 0)" using k(2) ci assms(5) i by (simp add: one_hot_def)
      moreover have "domains ! i ! (ch ! i) = region \<longleftrightarrow> ci = ch ! i"
        using ci k(1) assms(4) i nth_eq_iff_index_eq [of "domains ! i" ci "ch ! i"] by auto
      ultimately show ?thesis using Some i len of_uint_rat [OF small] by simp
    qed
  qed
  finally show ?thesis by simp
qed

section \<open>Resource rows and cut rows\<close>

lemma resource_row_sat:
  shows "satisfies val (add_resource_row d graph domains limit rules x y region capacity lp r) \<longleftrightarrow> satisfies val lp \<and>
      (plans_resource d r \<longrightarrow> row_value (resource_terms graph domains x y region r) val \<le> f64_rat (of_uint (capacity_at limit rules region capacity r)))"
    and "vars (add_resource_row d graph domains limit rules x y region capacity lp r) = vars lp"
  by (auto simp: add_resource_row_def resource_terms_def add_crossing_head_terms_def into_expr_def capacity_at_def Let_def)

lemma resource_constraints_sat:
  assumes "add_resource_constraints d lp graph areas domains limit rules x y = Inr lp'"
  shows "vars lp' = vars lp" and "satisfies val lp' \<longleftrightarrow> satisfies val lp \<and>
    (\<forall>region \<in> set (concat domains). \<exists>cap. bt_get areas region = Some cap \<and> (\<forall>r. plans_resource d r \<longrightarrow>
       row_value (resource_terms graph domains x y region r) val \<le> f64_rat (of_uint (capacity_at limit rules region cap r))))"
proof -
  let ?step = "\<lambda>lp region. bindR (ok_or (InvalidRegion (region_name region)) (bt_get areas region)) (\<lambda>capacity.
      Inr (foldl (add_resource_row d graph domains limit rules x y region capacity) lp Resource_ALL))"
  let ?ok = "\<lambda>region. \<exists>cap. bt_get areas region = Some cap \<and> (\<forall>r. plans_resource d r \<longrightarrow>
       row_value (resource_terms graph domains x y region r) val \<le> f64_rat (of_uint (capacity_at limit rules region cap r)))"
  have one: "vars lp1 = vars lp \<and> (satisfies val lp1 \<longleftrightarrow> satisfies val lp \<and> ?ok region)" if step: "?step lp region = Inr lp1" for lp lp1 region
  proof -
    obtain cap where cap: "bt_get areas region = Some cap" "lp1 = foldl (add_resource_row d graph domains limit rules x y region cap) lp Resource_ALL"
      using step by (auto simp: bindR_eq_Inr)
    note r = rows_sat [of val "add_resource_row d graph domains limit rules x y region cap", OF resource_row_sat]
    show ?thesis unfolding cap(2) r using cap(1) all_Resource by (auto simp: resource_terms_def)
  qed
  have all: "foldR ?step lp regions = Inr lp' \<Longrightarrow> vars lp' = vars lp \<and> (satisfies val lp' \<longleftrightarrow> satisfies val lp \<and> (\<forall>region \<in> set regions. ?ok region))" for regions lp
  proof (induction regions arbitrary: lp)
    case (Cons region regions)
    then obtain lp1 where "?step lp region = Inr lp1" "foldR ?step lp1 regions = Inr lp'" by (auto simp: bindR_eq_Inr)
    then show ?case using one Cons.IH by (metis (no_types, lifting) list.set_intros(1) list.set_intros(2) set_ConsD)
  qed simp
  have "set (active_regions domains) = set (concat domains)" by (simp add: active_regions_def)
  then show "vars lp' = vars lp" "satisfies val lp' \<longleftrightarrow> satisfies val lp \<and> (\<forall>region \<in> set (concat domains). ?ok region)"
    using all [of lp "active_regions domains"] assms(1) unfolding add_resource_constraints_def by blast+
qed

lemma cut_constraints_sat:
  "satisfies val (add_cut_constraints lp graph domains cuts y) \<longleftrightarrow> satisfies val lp \<and> (\<forall>k \<in> set cuts.
     row_value (cut_terms graph domains y k) val
       \<le> f64_rat (of_uint (cut_capacity k)))"
  "vars (add_cut_constraints lp graph domains cuts y) = vars lp"
proof -
  have "satisfies val (add_cut_row graph domains y lp k) \<longleftrightarrow> satisfies val lp \<and>
      row_value (cut_terms graph domains y k) val
       \<le> f64_rat (of_uint (cut_capacity k))" "vars (add_cut_row graph domains y lp k) = vars lp" for lp k
    by (simp_all add: add_cut_row_def cut_terms_def into_expr_def)
  note r = rows_sat [of val "add_cut_row graph domains y", OF this]
  show "satisfies val (add_cut_constraints lp graph domains cuts y) \<longleftrightarrow> satisfies val lp \<and> (\<forall>k \<in> set cuts.
     row_value (cut_terms graph domains y k) val
       \<le> f64_rat (of_uint (cut_capacity k)))"
    "vars (add_cut_constraints lp graph domains cuts y) = vars lp" unfolding add_cut_constraints_def r by simp_all
qed

section \<open>The whole model\<close>

definition structural :: "(LpVar \<Rightarrow> rat) \<Rightarrow> FloorGraph \<Rightarrow> Coor list list \<Rightarrow> LpVar list list \<Rightarrow> LpVar list list list \<Rightarrow> bool" where
  "structural val graph domains x y \<longleftrightarrow>
     (\<forall>row \<in> set x. (\<Sum>v \<leftarrow> row. val v) = 1) \<and> (\<forall>plane \<in> set y. (\<Sum>v \<leftarrow> concat plane. val v) = 1) \<and>
     (\<forall>ei < length (placement_edges graph). coupled val domains x (y ! ei) (placement_edges graph ! ei))"

lemma build_shape:
  assumes "FloorplanModel_build graph d domains areas cuts limit rules = Inr model"
  obtains x y where "fm_x model = x" "map length x = map length (take (length (vertices graph)) domains)"
    "list_all2 (plane_ok domains) (placement_edges graph) y" "distinct (concat x @ concat (map concat y))"
    "set (concat x @ concat (map concat y)) = {..<length (vars (fm_lp model))}" "edges_in_range graph domains"
    "\<forall>v < length (vars (fm_lp model)). \<exists>label. vars (fm_lp model) ! v = binary_def label" "length (vertices graph) \<le> length domains"
    "\<forall>val. satisfies val (fm_lp model) \<longleftrightarrow> structural val graph domains x y \<and>
       (\<forall>region \<in> set (concat domains). \<exists>cap. bt_get areas region = Some cap \<and> (\<forall>r. plans_resource d r \<longrightarrow>
          row_value (resource_terms graph domains x y region r) val
            \<le> f64_rat (of_uint (capacity_at limit rules region cap r)))) \<and>
       (\<forall>k \<in> set cuts. row_value (cut_terms graph domains y k) val
         \<le> f64_rat (of_uint (cut_capacity k)))"
proof -
  obtain lp0 x where x: "add_assignment_vars LpModel_new graph domains = (lp0, x)" by (metis surj_pair)
  obtain lp1 y where y: "add_edge_vars lp0 graph domains = (lp1, y)" by (metis surj_pair)
  have range: "length (vertices graph) \<le> length domains" "edges_in_range graph domains"
    using assms by (auto simp: FloorplanModel_build_def split: if_splits)
  obtain lp2 lp3 where lp2: "add_resource_constraints d (add_coupling lp1 graph domains x y) graph areas domains limit rules x y = Inr lp2"
    and lp3: "add_objective (add_cut_constraints lp2 graph domains cuts y) graph d domains y = Inr lp3" and model: "model = \<lparr>fm_lp = lp3, fm_x = x\<rparr>"
    using assms x y by (auto simp: FloorplanModel_build_def bindR_eq_Inr map_err_def split: if_splits sum.splits)
  have xs: "map length x = map (\<lambda>i. length (domains ! i)) [0..<length (vertices graph)]" "concat x = [0..<length (vars lp0)]"
      "extends LpModel_new (length (concat x)) lp0" "\<forall>val. satisfies val lp0 \<longleftrightarrow> (\<forall>row \<in> set x. (\<Sum>v \<leftarrow> row. val v) = 1)"
    using assignment_vars_shape [OF x [unfolded add_assignment_vars_def]] by auto
  have ys: "list_all2 (plane_ok domains) (placement_edges graph) y" "concat (map concat y) = [length (vars lp0)..<length (vars lp1)]"
      "extends lp0 (length (concat (map concat y))) lp1"
      "\<forall>val. satisfies val lp1 \<longleftrightarrow> satisfies val lp0 \<and> (\<forall>plane \<in> set y. (\<Sum>v \<leftarrow> concat plane. val v) = 1)"
    using edge_vars_shape [OF y [unfolded add_edge_vars_def]] by auto
  have obj: "vars lp3 = vars (add_cut_constraints lp2 graph domains cuts y)" "\<And>val. satisfies val lp3 = satisfies val (add_cut_constraints lp2 graph domains cuts y)"
    using lp3 by (auto simp: add_objective_def bindR_eq_Inr Let_def)
  have v: "vars lp3 = vars lp1" using obj(1) resource_constraints_sat(1) [OF lp2] by (simp add: cut_constraints_sat(2) add_coupling_sat(2))
  have len: "length (vars lp0) \<le> length (vars lp1)" using ys(3) by (auto dest: extends_length)
  have ext: "extends LpModel_new (length (concat x) + length (concat (map concat y))) lp1" using xs(3) ys(3) by (rule extends_trans)
  show thesis
  proof (rule that [of x y])
    show "map length x = map length (take (length (vertices graph)) domains)"
      unfolding xs(1) using range(1) by (intro nth_equalityI) auto
    have cc: "concat x @ concat (map concat y) = [0..<length (vars lp1)]"
      unfolding xs(2) ys(2) using len by (metis le0 le_add_diff_inverse plus_nat.add_0 upt_add_eq_append)
    show "distinct (concat x @ concat (map concat y))" "set (concat x @ concat (map concat y)) = {..<length (vars (fm_lp model))}"
      unfolding cc by (auto simp: model v)
    show "\<forall>v < length (vars (fm_lp model)). \<exists>label. vars (fm_lp model) ! v = binary_def label"
      using ext by (auto simp: model v extends_def)
  qed (use model range ys(1) in \<open>simp_all add: structural_def obj(2) cut_constraints_sat(1) resource_constraints_sat(2) [OF lp2] add_coupling_sat(1) xs(4) ys(4)\<close>)
qed

section \<open>From points to choices and back\<close>

lemma matrix_one_hot:
  fixes z :: "nat \<Rightarrow> nat \<Rightarrow> rat"
  assumes "\<forall>a < m. \<forall>b < n. z a b = 0 \<or> z a b = 1" and "s < m" and "t < n"
    and "\<forall>a < m. (\<Sum>b < n. z a b) = (if a = s then 1 else 0)" and "\<forall>b < n. (\<Sum>a < m. z a b) = (if b = t then 1 else 0)"
    and "a < m" and "b < n"
  shows "z a b = (if a = s \<and> b = t then 1 else 0)"
proof -
  have nonneg: "0 \<le> z a b" if "a < m" "b < n" for a b using assms(1) that by (metis order_refl zero_le_one)
  have row0: "z a b = 0" if "a < m" "b < n" "a \<noteq> s" for a b
  proof -
    have "(\<Sum>b < n. z a b) = 0" using assms(4) that by simp
    then show ?thesis using nonneg that by (subst (asm) sum_nonneg_eq_0_iff) auto
  qed
  have col0: "z a b = 0" if "a < m" "b < n" "b \<noteq> t" for a b
  proof -
    have "(\<Sum>a < m. z a b) = 0" using assms(5) that by simp
    then show ?thesis using nonneg that by (subst (asm) sum_nonneg_eq_0_iff) auto
  qed
  have "1 = (\<Sum>b < n. z s b)" using assms(2,4) by simp
  also have "\<dots> = (\<Sum>b < n. if b = t then z s t else 0)" by (intro sum.cong refl) (use col0 assms(2) in auto)
  also have "\<dots> = z s t" using assms(3) by simp
  finally show ?thesis using row0 col0 assms(6,7) by auto
qed

lemma concat_nth_unique:
  assumes "distinct (concat xss)" and "i < length xss" and "i' < length xss" and "j < length (xss ! i)" and "j' < length (xss ! i')"
    and "xss ! i ! j = xss ! i' ! j'"
  shows "i = i' \<and> j = j'"
  using assms
proof (induction xss arbitrary: i i')
  case (Cons xs xss)
  have sep: "xs ! k \<noteq> xss ! l ! h" if "k < length xs" "l < length xss" "h < length (xss ! l)" for k l h
    using Cons.prems(1) that by (metis IntI concat.simps(2) distinct_append empty_iff in_set_conv_nth nth_mem set_concat UN_iff)
  show ?case
  proof (cases i; cases i')
    assume "i = 0" "i' = 0"
    then show ?thesis using Cons.prems by (simp add: nth_eq_iff_index_eq)
  next
    fix k assume "i = 0" "i' = Suc k"
    then show ?thesis using Cons.prems sep [of j k j'] by simp
  next
    fix k assume "i = Suc k" "i' = 0"
    then show ?thesis using Cons.prems sep [of j' k j] by simp
  next
    fix k k' assume "i = Suc k" "i' = Suc k'"
    then show ?thesis using Cons.prems Cons.IH [of k k'] by simp
  qed
qed simp

definition plane_var :: "LpVar list list list \<Rightarrow> PlacementEdge list \<Rightarrow> nat list \<Rightarrow> nat \<Rightarrow> LpVar" where
  "plane_var y es ch ei = y ! ei ! (ch ! pe_src (es ! ei)) ! (ch ! pe_dst (es ! ei))"

definition point_of :: "FloorGraph \<Rightarrow> LpVar list list \<Rightarrow> LpVar list list list \<Rightarrow> nat list \<Rightarrow> LpVar \<Rightarrow> rat" where
  "point_of graph x y ch v =
     (if (\<exists>i < length x. v = x ! i ! (ch ! i)) \<or> (\<exists>ei < length y. v = plane_var y (placement_edges graph) ch ei) then 1 else 0)"

lemma plane_nth:
  assumes "list_all2 (plane_ok domains) es y" and "ei < length es"
  shows "length y = length es" and "length (y ! ei) = length (domains ! pe_src (es ! ei))"
    and "a < length (domains ! pe_src (es ! ei)) \<Longrightarrow> length (y ! ei ! a) = length (domains ! pe_dst (es ! ei))"
  using assms by (auto simp: list_all2_conv_all_nth plane_ok_def)

lemma plane_mem:
  assumes "list_all2 (plane_ok domains) es y" and "ei < length es" and "a < length (domains ! pe_src (es ! ei))" and "b < length (domains ! pe_dst (es ! ei))"
  shows "y ! ei ! a ! b \<in> set (concat (y ! ei))"
  using plane_nth [OF assms(1,2)] assms(3,4) by (auto intro!: bexI [of _ "y ! ei ! a"])

lemma plane_unique:
  assumes "list_all2 (plane_ok domains) es y" and "distinct (concat (map concat y))" and "ei < length es" and "ei' < length es"
    and "a < length (domains ! pe_src (es ! ei))" and "b < length (domains ! pe_dst (es ! ei))"
    and "a' < length (domains ! pe_src (es ! ei'))" and "b' < length (domains ! pe_dst (es ! ei'))"
    and "y ! ei ! a ! b = y ! ei' ! a' ! b'"
  shows "ei = ei' \<and> a = a' \<and> b = b'"
proof -
  note p = plane_nth [OF assms(1)]
  obtain k where k: "k < length (concat (y ! ei))" "concat (y ! ei) ! k = y ! ei ! a ! b"
    using plane_mem [OF assms(1,3,5,6)] by (metis in_set_conv_nth)
  obtain k' where k': "k' < length (concat (y ! ei'))" "concat (y ! ei') ! k' = y ! ei' ! a' ! b'"
    using plane_mem [OF assms(1,4,7,8)] by (metis in_set_conv_nth)
  have e: "ei = ei'"
    using concat_nth_unique [OF assms(2), of ei ei' k k'] assms(3,4,9) k k' p(1) [OF assms(3)] by simp
  have "distinct (concat (y ! ei))" using assms(2,3) p(1) [OF assms(3)] by (metis distinct_concat_iff length_map nth_map nth_mem)
  then show ?thesis using concat_nth_unique [of "y ! ei" a a' b b'] e p(2,3) [OF assms(3)] assms(5-9) by simp
qed

lemma structural_hot:
  assumes "structural val graph domains x y" and "map length x = map length domains" and "list_all2 (plane_ok domains) (placement_edges graph) y"
    and "edges_in_range graph domains" and "\<forall>v \<in> set (concat x @ concat (map concat y)). val v = 0 \<or> val v = 1"
  shows "\<exists>ch. hot_point val graph domains x y ch"
proof -
  let ?es = "placement_edges graph"
  have len: "length x = length domains" "\<And>i. i < length domains \<Longrightarrow> length (x ! i) = length (domains ! i)"
    using assms(2) by (metis length_map, metis length_map nth_map)
  have "\<exists>k. one_hot val (x ! i) k" if "i < length domains" for i
  proof (rule unit_sum_one_hot)
    have i: "x ! i \<in> set x" using that len(1) by simp
    then show "(\<Sum>v \<leftarrow> x ! i. val v) = 1" using assms(1) by (simp add: structural_def)
    show "\<forall>v \<in> set (x ! i). val v = 0 \<or> val v = 1" using assms(5) i unfolding set_append set_concat by blast
  qed
  then obtain f where f: "\<And>i. i < length domains \<Longrightarrow> one_hot val (x ! i) (f i)" by metis
  define ch where "ch = map f [0..<length domains]"
  have ch: "length ch = length domains" "\<And>i. i < length domains \<Longrightarrow> one_hot val (x ! i) (ch ! i)" by (simp_all add: ch_def f)
  have lt: "ch ! i < length (domains ! i)" if "i < length domains" for i using ch(2) [OF that] len(2) [OF that] by (simp add: one_hot_def)
  have "val (y ! ei ! a ! b) = (if a = ch ! pe_src (?es ! ei) \<and> b = ch ! pe_dst (?es ! ei) then 1 else 0)"
    if ei: "ei < length ?es" and a: "a < length (domains ! pe_src (?es ! ei))" and b: "b < length (domains ! pe_dst (?es ! ei))" for ei a b
  proof -
    let ?e = "?es ! ei"
    have r: "pe_src ?e < length domains" "pe_dst ?e < length domains" using ei assms(4) by (auto simp: edges_in_range_def list_all_length)
    have ly: "length y = length ?es" using plane_nth(1) [OF assms(3) ei] .
    have bin: "\<forall>a < length (domains ! pe_src ?e). \<forall>b < length (domains ! pe_dst ?e). val (y ! ei ! a ! b) = 0 \<or> val (y ! ei ! a ! b) = 1"
    proof (intro allI impI)
      fix a b assume ab: "a < length (domains ! pe_src ?e)" "b < length (domains ! pe_dst ?e)"
      have "y ! ei ! a ! b \<in> set (concat (map concat y))" using plane_mem [OF assms(3) ei ab] ei ly by (auto intro!: bexI [of _ "y ! ei"])
      then show "val (y ! ei ! a ! b) = 0 \<or> val (y ! ei ! a ! b) = 1" using assms(5) by simp
    qed
    have cp: "coupled val domains x (y ! ei) ?e" using assms(1) ei by (simp add: structural_def)
    have "val (x ! pe_src ?e ! a) = (if a = ch ! pe_src ?e then 1 else 0)" if "a < length (domains ! pe_src ?e)" for a
      using ch(2) [OF r(1)] len(2) [OF r(1)] that by (simp add: one_hot_def)
    moreover have "val (x ! pe_dst ?e ! b) = (if b = ch ! pe_dst ?e then 1 else 0)" if "b < length (domains ! pe_dst ?e)" for b
      using ch(2) [OF r(2)] len(2) [OF r(2)] that by (simp add: one_hot_def)
    ultimately show ?thesis using cp by (intro matrix_one_hot [OF bin lt [OF r(1)] lt [OF r(2)] _ _ a b]) (auto simp: coupled_def)
  qed
  then show ?thesis using ch lt by (intro exI [of _ ch]) (simp add: hot_point_def Let_def)
qed

lemma hot_structural:
  assumes "hot_point val graph domains x y ch" and "map length x = map length domains" and "list_all2 (plane_ok domains) (placement_edges graph) y"
    and "edges_in_range graph domains"
  shows "structural val graph domains x y"
proof -
  let ?es = "placement_edges graph"
  have len: "length x = length domains" "\<And>i. i < length domains \<Longrightarrow> length (x ! i) = length (domains ! i)"
    using assms(2) by (metis length_map, metis length_map nth_map)
  have x: "one_hot val (x ! i) (ch ! i)" "ch ! i < length (domains ! i)" if "i < length domains" for i using assms(1) that by (auto simp: hot_point_def)
  have "(\<Sum>v \<leftarrow> x ! i. val v) = 1" if "i < length domains" for i
    using one_hot_sum [OF x(1) [OF that]] by (simp add: unit_sum_def LinExpr_sum_def row_value_ones)
  moreover have edge: "coupled val domains x (y ! ei) (?es ! ei)" "(\<Sum>v \<leftarrow> concat (y ! ei). val v) = 1" if ei: "ei < length ?es" for ei
  proof -
    let ?e = "?es ! ei" and ?m = "length (domains ! pe_src (?es ! ei))" and ?n = "length (domains ! pe_dst (?es ! ei))"
    let ?s = "ch ! pe_src ?e" and ?t = "ch ! pe_dst ?e"
    have r: "pe_src ?e < length domains" "pe_dst ?e < length domains" using ei assms(4) by (auto simp: edges_in_range_def list_all_length)
    have z: "val (y ! ei ! a ! b) = (if a = ?s \<and> b = ?t then 1 else 0)" if "a < ?m" "b < ?n" for a b
      using assms(1) ei that by (simp add: hot_point_def Let_def)
    have row: "(\<Sum>b < ?n. val (y ! ei ! a ! b)) = (if a = ?s then 1 else 0)" if "a < ?m" for a
      using x(2) [OF r(2)] that by (simp add: z)
    have col: "(\<Sum>a < ?m. val (y ! ei ! a ! b)) = (if b = ?t then 1 else 0)" if "b < ?n" for b
      using x(2) [OF r(1)] that by (simp add: z)
    show "coupled val domains x (y ! ei) ?e"
      using row col x(1) [OF r(1)] x(1) [OF r(2)] len(2) [OF r(1)] len(2) [OF r(2)] by (simp add: coupled_def one_hot_def)
    have "(\<Sum>v \<leftarrow> concat (y ! ei). val v) = (\<Sum>row \<leftarrow> y ! ei. \<Sum>v \<leftarrow> row. val v)"
      using sum_list_concat_map [of val id "y ! ei"] by simp
    also have "\<dots> = (\<Sum>a < ?m. \<Sum>b < ?n. val (y ! ei ! a ! b))"
      using plane_nth(2,3) [OF assms(3) ei] by (simp add: sum_list_sum_nth atLeast0LessThan)
    also have "\<dots> = 1" using row x(2) [OF r(1)] by simp
    finally show "(\<Sum>v \<leftarrow> concat (y ! ei). val v) = 1" .
  qed
  ultimately show ?thesis using len(1) assms(3) by (auto simp: structural_def in_set_conv_nth list_all2_lengthD)
qed

lemma point_of_hot:
  assumes "length ch = length domains" and "\<forall>i < length domains. ch ! i < length (domains ! i)" and "map length x = map length domains"
    and "list_all2 (plane_ok domains) (placement_edges graph) y" and "edges_in_range graph domains" and "distinct (concat x @ concat (map concat y))"
  shows "hot_point (point_of graph x y ch) graph domains x y ch"
proof -
  let ?es = "placement_edges graph"
  have len: "length x = length domains" "\<And>i. i < length domains \<Longrightarrow> length (x ! i) = length (domains ! i)"
    using assms(3) by (metis length_map, metis length_map nth_map)
  have dx: "distinct (concat x)" "distinct (concat (map concat y))" "set (concat x) \<inter> set (concat (map concat y)) = {}" using assms(6) by auto
  have r: "pe_src (?es ! ei) < length domains" "pe_dst (?es ! ei) < length domains" if "ei < length ?es" for ei
    using that assms(5) by (auto simp: edges_in_range_def list_all_length)
  have ly: "length y = length ?es" using assms(4) by (simp add: list_all2_lengthD)
  have iny: "y ! ei ! a ! b \<in> set (concat (map concat y))"
    if "ei < length ?es" "a < length (domains ! pe_src (?es ! ei))" "b < length (domains ! pe_dst (?es ! ei))" for ei a b
    using plane_mem [OF assms(4) that] that(1) ly by (auto intro!: bexI [of _ "y ! ei"])
  have pv: "plane_var y ?es ch ei \<in> set (concat (map concat y))" if "ei < length ?es" for ei
    unfolding plane_var_def by (rule iny) (use that assms(2) r in auto)
  have inx: "x ! i ! j \<in> set (concat x)" if "i < length domains" "j < length (domains ! i)" for i j
    using that len by (auto intro!: bexI [of _ "x ! i"])
  have X: "point_of graph x y ch (x ! i ! j) = (if j = ch ! i then 1 else 0)" if ij: "i < length domains" "j < length (domains ! i)" for i j
  proof -
    have "x ! i ! j \<noteq> plane_var y ?es ch ei" if "ei < length ?es" for ei using inx [OF ij] pv [OF that] dx(3) by (metis IntI empty_iff)
    moreover have "(\<exists>i' < length x. x ! i ! j = x ! i' ! (ch ! i')) \<longleftrightarrow> j = ch ! i"
      using concat_nth_unique [OF dx(1), of i _ j] ij len assms(2) by metis
    ultimately show ?thesis by (auto simp: point_of_def ly)
  qed
  have Y: "point_of graph x y ch (y ! ei ! a ! b) = (if a = ch ! pe_src (?es ! ei) \<and> b = ch ! pe_dst (?es ! ei) then 1 else 0)"
    if e: "ei < length ?es" "a < length (domains ! pe_src (?es ! ei))" "b < length (domains ! pe_dst (?es ! ei))" for ei a b
  proof -
    have "y ! ei ! a ! b \<noteq> x ! i ! (ch ! i)" if "i < length domains" for i using inx [of i "ch ! i"] iny [OF e] dx(3) assms(2) that by (metis IntI empty_iff)
    moreover have "(\<exists>ei' < length y. y ! ei ! a ! b = plane_var y ?es ch ei') \<longleftrightarrow> a = ch ! pe_src (?es ! ei) \<and> b = ch ! pe_dst (?es ! ei)"
      unfolding plane_var_def ly
      using plane_unique [OF assms(4) dx(2) e(1) _ e(2,3)] e r assms(2) by metis
    ultimately show ?thesis by (auto simp: point_of_def len(1))
  qed
  show ?thesis using assms(1,2) X Y len by (simp add: hot_point_def one_hot_def Let_def)
qed

section \<open>The program is exact\<close>

definition limit_ok :: "f64 \<Rightarrow> bool" where
  "limit_ok limit \<longleftrightarrow> (\<exists>q. limit = Finite q \<and> 0 \<le> q \<and> q \<le> 1)"

definition rules_ok :: "PlacementConstraints \<Rightarrow> bool" where
  "rules_ok rules \<longleftrightarrow> (\<forall>(region, by_resource) \<in> set (max_resource_limits rules). \<forall>(r, limit) \<in> set by_resource. limit_ok limit)"

definition areas_ok :: "RegionAreas \<Rightarrow> bool" where
  "areas_ok areas \<longleftrightarrow> (\<forall>(region, cap) \<in> set areas. \<forall>r. amount r cap \<le> 2 ^ 53)"

definition cuts_ok :: "Cut list \<Rightarrow> bool" where
  "cuts_ok cuts \<longleftrightarrow> list_all (\<lambda>k. cut_capacity k \<le> 2 ^ 53) cuts"

definition loads_fit :: "Device \<Rightarrow> FloorGraph \<Rightarrow> RegionAreas \<Rightarrow> f64 \<Rightarrow> PlacementConstraints \<Rightarrow> Coor list \<Rightarrow> bool" where
  "loads_fit d graph areas limit rules ps \<longleftrightarrow>
     (\<forall>region cap r. bt_get areas region = Some cap \<longrightarrow> plans_resource d r \<longrightarrow> region_load graph ps region r \<le> capacity_at limit rules region cap r)"

definition cuts_fit :: "FloorGraph \<Rightarrow> Cut list \<Rightarrow> Coor list \<Rightarrow> bool" where
  "cuts_fit graph cuts ps \<longleftrightarrow> list_all (\<lambda>k. cut_demand graph ps k \<le> cut_capacity k) cuts"

definition parent_of :: "Coor list option \<Rightarrow> nat \<Rightarrow> Coor option" where
  "parent_of parents i = map_option (\<lambda>ps. ps ! i) parents"

text \<open>A placement at a limit: a region per vertex that may host it, no region over its derated capacity, no cut over its wires.\<close>

definition legal_placement :: "FloorGraph \<Rightarrow> Device \<Rightarrow> Coor list \<Rightarrow> RegionAreas \<Rightarrow> Coor list option \<Rightarrow> PlacementConstraints \<Rightarrow> Cut list \<Rightarrow> f64 \<Rightarrow> Coor list \<Rightarrow> bool" where
  "legal_placement graph d regions areas parents rules cuts limit ps \<longleftrightarrow>
     length ps = length (vertices graph) \<and>
     (\<forall>i < length (vertices graph). ps ! i \<in> set regions \<and> may_host d areas limit (parent_of parents i) rules (vertices graph ! i) (ps ! i)) \<and>
     loads_fit d graph areas limit rules ps \<and> cuts_fit graph cuts ps"

lemma limit_or_ok: "rules_ok rules \<Longrightarrow> limit_ok limit \<Longrightarrow> limit_ok (limit_or (max_resource_limits rules) region r limit)"
  by (auto simp: limit_or_def lookup_limit_def rules_ok_def bind_eq_Some_conv split: option.splits dest!: bt_get_Some_in)

lemma scaled_amount_le: "amt \<le> 2 ^ 53 \<Longrightarrow> limit_ok limit \<Longrightarrow> scaled_amount amt limit \<le> 2 ^ 53"
proof -
  assume amt: "amt \<le> 2 ^ 53" and l: "limit_ok limit"
  obtain q where q: "limit = Finite q" "0 \<le> q" "q \<le> 1" using l by (auto simp: limit_ok_def)
  have "amt < 2 ^ 64" using amt by simp
  then have "scaled_amount amt limit \<le> scaled_amount amt (Finite 1)" unfolding q(1) using q(2,3) by (intro scaled_amount_mono) auto
  also have "\<dots> = min (nat \<lfloor>rnd (rnd (of_nat amt) * 1)\<rfloor>) (2 ^ 64 - 1)" by (rule scaled_amount_Finite(1)) (use amt in auto)
  also have "\<dots> \<le> amt" using rnd_of_nat [OF amt] by simp
  finally show ?thesis using amt by simp
qed

lemma capacity_at_small:
  assumes "areas_ok areas" and "rules_ok rules" and "limit_ok limit" and "bt_get areas region = Some cap"
  shows "f64_rat (of_uint (capacity_at limit rules region cap r)) = of_nat (capacity_at limit rules region cap r)"
proof (rule of_uint_rat)
  have "amount r cap \<le> 2 ^ 53" using assms(1) bt_get_Some_in [OF assms(4)] by (auto simp: areas_ok_def)
  then show "capacity_at limit rules region cap r \<le> 2 ^ 53"
    unfolding capacity_at_def by (rule scaled_amount_le) (rule limit_or_ok [OF assms(2,3)])
qed

lemma candidate_domains_Inr:
  assumes "candidate_domains graph d regions areas limit parents rules = Inr domains"
  shows "length domains = length (vertices graph)" and "\<forall>dm \<in> set domains. distinct dm"
    and "i < length (vertices graph) \<Longrightarrow> set (domains ! i) = {region \<in> set regions. may_host d areas limit (parent_of parents i) rules (vertices graph ! i) region}"
proof -
  let ?F = "\<lambda>(index, vertex). case parents of
         None \<Rightarrow> map_err Err (vertex_domain d regions areas limit None rules vertex)
       | Some assignments \<Rightarrow>
           if index < length assignments
           then map_err Err (vertex_domain d regions areas limit (Some (assignments ! index)) rules vertex)
           else Inl Panicked"
  have m: "mapR ?F (List.enumerate 0 (vertices graph)) = Inr domains" using assms by (simp add: candidate_domains_def)
  have L: "list_all2 (\<lambda>z dm. ?F z = Inr dm) (List.enumerate 0 (vertices graph)) domains" using m by (simp add: mapR_eq_Inr)
  then show len: "length domains = length (vertices graph)" by (auto dest: list_all2_lengthD)
  have v: "vertex_domain d regions areas limit (parent_of parents i) rules (vertices graph ! i) = Inr (domains ! i)" if "i < length (vertices graph)" for i
  proof -
    have "?F (i, vertices graph ! i) = Inr (domains ! i)" using list_all2_nthD [OF L, of i] that by (simp add: nth_enumerate_eq)
    then show ?thesis by (auto simp: parent_of_def map_err_def split: option.splits if_splits sum.splits)
  qed
  show "\<forall>dm \<in> set domains. distinct dm" using v vertex_domain_Inr(4) len by (metis in_set_conv_nth)
  show "i < length (vertices graph) \<Longrightarrow> set (domains ! i) = {region \<in> set regions. may_host d areas limit (parent_of parents i) rules (vertices graph ! i) region}"
    using vertex_domain_Inr(1) [OF v] by auto
qed

lemma resource_value:
  assumes "hot_point val graph domains x y ch" and "edges_in_range graph domains" and "widths_ok graph" and "length domains = length (vertices graph)"
    and "\<forall>dm \<in> set domains. distinct dm" and "map length x = map length domains"
  shows "row_value (resource_terms graph domains x y region r) val = of_nat (region_load graph (placement_of domains ch) region r)"
proof -
  have "\<forall>i < length domains. length (x ! i) = length (domains ! i)" using assms(6) by (metis length_map nth_map)
  from usage_value [OF assms(1,3,4,5) this, of region r] heads_value [OF assms(1,2,3), of region]
  show ?thesis by (simp add: resource_terms_def region_load_def)
qed

lemma unused_region:
  assumes "\<forall>i < length (vertices graph). ps ! i \<noteq> region" and "edges_in_range graph domains" and "length domains = length (vertices graph)"
  shows "region_load graph ps region r = 0"
proof -
  have "heads_in ps region e = 0" if "e \<in> set (placement_edges graph)" for e
    using that assms by (auto simp: heads_in_def Let_def edges_in_range_def list_all_iff)
  then show ?thesis using assms(1) by (simp add: region_load_def)
qed

lemma choice_exists:
  assumes "length ps = length domains" and "\<forall>i < length domains. ps ! i \<in> set (domains ! i)"
  shows "\<exists>ch. length ch = length domains \<and> (\<forall>i < length domains. ch ! i < length (domains ! i)) \<and> placement_of domains ch = ps"
proof -
  have "\<forall>i. \<exists>k. i < length domains \<longrightarrow> k < length (domains ! i) \<and> domains ! i ! k = ps ! i"
    using assms(2) unfolding in_set_conv_nth by blast
  then obtain f where f: "\<And>i. i < length domains \<Longrightarrow> f i < length (domains ! i) \<and> domains ! i ! f i = ps ! i" by metis
  have "placement_of domains (map f [0..<length domains]) = ps"
    by (rule nth_equalityI) (use f assms(1) in \<open>simp_all add: placement_of_def\<close>)
  then show ?thesis using f by (intro exI [of _ "map f [0..<length domains]"]) simp
qed

lemma feasible_binary:
  assumes "\<forall>v < length (vars lp). \<exists>label. vars lp ! v = binary_def label"
  shows "feasible lp \<longleftrightarrow> (\<exists>val. (\<forall>v < length (vars lp). val v = 0 \<or> val v = 1) \<and> satisfies val lp)"
proof -
  have "admissible (vars lp ! v) q \<longleftrightarrow> q = 0 \<or> q = 1" if "v < length (vars lp)" for v q
    using assms that by (auto simp: admissible_def binary_def_def)
  then show ?thesis by (auto simp: feasible_def satisfies_def)
qed

definition row_conditions :: "(LpVar \<Rightarrow> rat) \<Rightarrow> FloorGraph \<Rightarrow> Device \<Rightarrow> Coor list list \<Rightarrow> RegionAreas \<Rightarrow> Cut list \<Rightarrow> f64 \<Rightarrow> PlacementConstraints
    \<Rightarrow> LpVar list list \<Rightarrow> LpVar list list list \<Rightarrow> bool" where
  "row_conditions val graph d domains areas cuts limit rules x y \<longleftrightarrow>
     (\<forall>region \<in> set (concat domains). \<exists>cap. bt_get areas region = Some cap \<and> (\<forall>r. plans_resource d r \<longrightarrow>
        row_value (resource_terms graph domains x y region r) val \<le> f64_rat (of_uint (capacity_at limit rules region cap r)))) \<and>
     (\<forall>k \<in> set cuts. row_value (cut_terms graph domains y k) val \<le> f64_rat (of_uint (cut_capacity k)))"

lemma domain_capacity:
  assumes "candidate_domains graph d regions areas limit parents rules = Inr domains" and "region \<in> set (concat domains)"
  shows "\<exists>cap. bt_get areas region = Some cap"
proof -
  note D = candidate_domains_Inr [OF assms(1)]
  obtain dm where "dm \<in> set domains" "region \<in> set dm" using assms(2) by auto
  then obtain i where i: "i < length (vertices graph)" "region \<in> set (domains ! i)" using D(1) by (metis in_set_conv_nth)
  then have "may_host d areas limit (parent_of parents i) rules (vertices graph ! i) region" using D(3) by blast
  then show ?thesis by (cases "bt_get areas region") (simp_all add: may_host_def)
qed

lemma loads_fit_active:
  assumes "length ch = length domains" and "\<forall>i < length domains. ch ! i < length (domains ! i)" and "edges_in_range graph domains"
    and "length domains = length (vertices graph)"
  shows "loads_fit d graph areas limit rules (placement_of domains ch) \<longleftrightarrow> (\<forall>region \<in> set (concat domains). \<forall>cap. bt_get areas region = Some cap \<longrightarrow>
    (\<forall>r. plans_resource d r \<longrightarrow> region_load graph (placement_of domains ch) region r \<le> capacity_at limit rules region cap r))"
proof -
  let ?ps = "placement_of domains ch"
  have zero: "region_load graph ?ps region r = 0" if out: "region \<notin> set (concat domains)" for region r
  proof (rule unused_region [OF _ assms(3,4)], intro allI impI)
    fix i assume "i < length (vertices graph)"
    then have i: "i < length domains" using assms(4) by simp
    then have "domains ! i ! (ch ! i) \<in> set (domains ! i)" using assms(2) by simp
    then have "domains ! i ! (ch ! i) \<in> set (concat domains)" unfolding set_concat using i by (meson UN_I nth_mem)
    then show "?ps ! i \<noteq> region" using out i assms(1) by auto
  qed
  have "region_load graph ?ps region r \<le> n" if "region \<notin> set (concat domains)" for region r n using zero [OF that] by simp
  then show ?thesis unfolding loads_fit_def by blast
qed

lemma hot_rows:
  assumes dom: "candidate_domains graph d regions areas limit parents rules = Inr domains" and hot: "hot_point val graph domains x y ch"
    and range: "edges_in_range graph domains" and x: "map length x = map length domains"
    and ok: "widths_ok graph" "areas_ok areas" "rules_ok rules" "limit_ok limit" "cuts_ok cuts"
  shows "row_conditions val graph d domains areas cuts limit rules x y \<longleftrightarrow>
    loads_fit d graph areas limit rules (placement_of domains ch) \<and> cuts_fit graph cuts (placement_of domains ch)"
proof -
  let ?ps = "placement_of domains ch"
  note D = candidate_domains_Inr [OF dom]
  have len: "length ch = length domains" "\<forall>i < length domains. ch ! i < length (domains ! i)" using hot by (auto simp: hot_point_def)
  have cut: "row_value (cut_terms graph domains y k) val \<le> f64_rat (of_uint (cut_capacity k)) \<longleftrightarrow> cut_demand graph ?ps k \<le> cut_capacity k"
    if "k \<in> set cuts" for k
  proof -
    have "cut_capacity k \<le> 2 ^ 53" using ok(5) that by (simp add: cuts_ok_def list_all_iff)
    then show ?thesis unfolding cut_value [OF hot range ok(1)] by (simp only: of_uint_rat of_nat_le_iff)
  qed
  have res: "row_value (resource_terms graph domains x y region r) val \<le> f64_rat (of_uint (capacity_at limit rules region cap r)) \<longleftrightarrow>
      region_load graph ?ps region r \<le> capacity_at limit rules region cap r" if "bt_get areas region = Some cap" for region cap r
    unfolding resource_value [OF hot range ok(1) D(1,2) x] capacity_at_small [OF ok(2,3,4) that] by (rule of_nat_le_iff)
  have here: "(\<exists>cap. bt_get areas region = Some cap \<and> (\<forall>r. plans_resource d r \<longrightarrow>
        row_value (resource_terms graph domains x y region r) val \<le> f64_rat (of_uint (capacity_at limit rules region cap r)))) \<longleftrightarrow>
      (\<forall>cap. bt_get areas region = Some cap \<longrightarrow> (\<forall>r. plans_resource d r \<longrightarrow> region_load graph ?ps region r \<le> capacity_at limit rules region cap r))"
    if reg: "region \<in> set (concat domains)" for region
  proof -
    obtain cap where cap: "bt_get areas region = Some cap" using domain_capacity [OF dom reg] by blast
    show ?thesis using cap res [OF cap] by simp
  qed
  show ?thesis unfolding row_conditions_def loads_fit_active [OF len range D(1)] cuts_fit_def list_all_iff
    by (intro arg_cong2 [where f = conj] ball_cong refl here cut)
qed

definition model_shape :: "FloorGraph \<Rightarrow> Device \<Rightarrow> Coor list list \<Rightarrow> RegionAreas \<Rightarrow> Cut list \<Rightarrow> f64 \<Rightarrow> PlacementConstraints \<Rightarrow> FloorplanModel \<Rightarrow> LpVar list list list \<Rightarrow> bool" where
  "model_shape graph d domains areas cuts limit rules model y \<longleftrightarrow>
     (let x = fm_x model; n = length (vars (fm_lp model)) in
      map length x = map length domains \<and> list_all2 (plane_ok domains) (placement_edges graph) y \<and>
      distinct (concat x @ concat (map concat y)) \<and> set (concat x @ concat (map concat y)) = {..<n} \<and> edges_in_range graph domains \<and>
      (\<forall>v < n. \<exists>label. vars (fm_lp model) ! v = binary_def label) \<and>
      (\<forall>val. satisfies val (fm_lp model) \<longleftrightarrow> structural val graph domains x y \<and> row_conditions val graph d domains areas cuts limit rules x y))"

lemma model_shape_build:
  assumes "candidate_domains graph d regions areas limit parents rules = Inr domains"
    and "FloorplanModel_build graph d domains areas cuts limit rules = Inr model"
  shows "\<exists>y. model_shape graph d domains areas cuts limit rules model y"
proof -
  have n: "length domains = length (vertices graph)" using assms(1) by (rule candidate_domains_Inr)
  show ?thesis
  proof (rule build_shape [OF assms(2)], goal_cases)
    case (1 x y)
    then show ?case using n by (intro exI [of _ y]) (simp add: model_shape_def Let_def row_conditions_def)
  qed
qed

lemma shape_rows:
  assumes dom: "candidate_domains graph d regions areas limit parents rules = Inr domains"
    and shape: "model_shape graph d domains areas cuts limit rules model y" and hot: "hot_point val graph domains (fm_x model) y ch"
    and ok: "widths_ok graph" "areas_ok areas" "rules_ok rules" "limit_ok limit" "cuts_ok cuts"
  shows "satisfies val (fm_lp model) \<longleftrightarrow> loads_fit d graph areas limit rules (placement_of domains ch) \<and> cuts_fit graph cuts (placement_of domains ch)"
proof -
  have x: "map length (fm_x model) = map length domains" "list_all2 (plane_ok domains) (placement_edges graph) y" "edges_in_range graph domains"
    using shape by (auto simp: model_shape_def Let_def)
  show ?thesis using shape hot_structural [OF hot x] hot_rows [OF dom hot x(3,1) ok] by (simp add: model_shape_def Let_def)
qed

text \<open>A 0/1 point of the program is a legal placement; the chosen candidates are those its assignment variables select.\<close>

lemma point_legal:
  assumes dom: "candidate_domains graph d regions areas limit parents rules = Inr domains"
    and shape: "model_shape graph d domains areas cuts limit rules model y"
    and ok: "widths_ok graph" "areas_ok areas" "rules_ok rules" "limit_ok limit" "cuts_ok cuts"
    and bin: "\<forall>v < length (vars (fm_lp model)). val v = 0 \<or> val v = 1" and sat: "satisfies val (fm_lp model)"
  shows "\<exists>ch. hot_point val graph domains (fm_x model) y ch \<and> legal_placement graph d regions areas parents rules cuts limit (placement_of domains ch)"
proof -
  note D = candidate_domains_Inr [OF dom]
  let ?x = "fm_x model"
  have x: "map length ?x = map length domains" "list_all2 (plane_ok domains) (placement_edges graph) y" "edges_in_range graph domains"
      "set (concat ?x @ concat (map concat y)) = {..<length (vars (fm_lp model))}" "structural val graph domains ?x y"
    using shape sat unfolding model_shape_def Let_def by blast+
  have "\<forall>v \<in> set (concat ?x @ concat (map concat y)). val v = 0 \<or> val v = 1" unfolding x(4) using bin by blast
  then obtain ch where hot: "hot_point val graph domains ?x y ch" using structural_hot [OF x(5,1-3)] by blast
  let ?ps = "placement_of domains ch"
  have len: "length ?ps = length (vertices graph)" using hot D(1) by (simp add: hot_point_def placement_of_def)
  have "?ps ! i \<in> set (domains ! i)" if "i < length (vertices graph)" for i using hot that D(1) by (simp add: hot_point_def)
  then have host: "?ps ! i \<in> set regions \<and> may_host d areas limit (parent_of parents i) rules (vertices graph ! i) (?ps ! i)"
    if "i < length (vertices graph)" for i using D(3) [OF that] that by blast
  have fit: "loads_fit d graph areas limit rules ?ps \<and> cuts_fit graph cuts ?ps" using shape_rows [OF dom shape hot ok] sat by simp
  have "legal_placement graph d regions areas parents rules cuts limit ?ps"
    unfolding legal_placement_def by (intro conjI allI impI len host fit [THEN conjunct1] fit [THEN conjunct2] host [THEN conjunct1] host [THEN conjunct2])
  then show ?thesis using hot by blast
qed

lemma legal_point:
  assumes dom: "candidate_domains graph d regions areas limit parents rules = Inr domains"
    and shape: "model_shape graph d domains areas cuts limit rules model y"
    and ok: "widths_ok graph" "areas_ok areas" "rules_ok rules" "limit_ok limit" "cuts_ok cuts"
    and legal: "legal_placement graph d regions areas parents rules cuts limit ps"
  shows "\<exists>val. (\<forall>v < length (vars (fm_lp model)). val v = 0 \<or> val v = 1) \<and> satisfies val (fm_lp model)"
proof -
  note D = candidate_domains_Inr [OF dom]
  let ?x = "fm_x model"
  have x: "map length ?x = map length domains" "list_all2 (plane_ok domains) (placement_edges graph) y" "edges_in_range graph domains"
      "distinct (concat ?x @ concat (map concat y))"
    using shape unfolding model_shape_def Let_def by blast+
  have "ps ! i \<in> set (domains ! i)" if "i < length domains" for i
    using legal D(3) [of i] that unfolding D(1) legal_placement_def by blast
  moreover have "length ps = length domains" using legal D(1) by (simp add: legal_placement_def)
  ultimately obtain ch where ch: "length ch = length domains" "\<forall>i < length domains. ch ! i < length (domains ! i)" "placement_of domains ch = ps"
    using choice_exists by blast
  have hot: "hot_point (point_of graph ?x y ch) graph domains ?x y ch" by (rule point_of_hot [OF ch(1,2) x])
  have "satisfies (point_of graph ?x y ch) (fm_lp model)"
    unfolding shape_rows [OF dom shape hot ok] ch(3) using legal by (simp add: legal_placement_def)
  moreover have "point_of graph ?x y ch v = 0 \<or> point_of graph ?x y ch v = 1" for v by (simp add: point_of_def)
  ultimately show ?thesis by blast
qed

lemma placement_model_iff:
  assumes dom: "candidate_domains graph d regions areas limit parents rules = Inr domains"
    and build: "FloorplanModel_build graph d domains areas cuts limit rules = Inr model"
    and ok: "widths_ok graph" "areas_ok areas" "rules_ok rules" "limit_ok limit" "cuts_ok cuts"
  shows "feasible (fm_lp model) \<longleftrightarrow> (\<exists>ps. legal_placement graph d regions areas parents rules cuts limit ps)"
proof -
  obtain y where shape: "model_shape graph d domains areas cuts limit rules model y" using model_shape_build [OF dom build] by blast
  have "\<forall>v < length (vars (fm_lp model)). \<exists>label. vars (fm_lp model) ! v = binary_def label" using shape by (simp add: model_shape_def Let_def)
  from feasible_binary [OF this] show ?thesis using point_legal [OF dom shape ok] legal_point [OF dom shape ok] by blast
qed

end
