(* ===== verification/Fp_Place_Search.thy ===== *)
theory Fp_Place_Search
  imports Fp_Place_Exact
begin

text \<open>
  Correctness of one placement iteration and of the schedules of \<^verbatim>\<open>partition/ilp.rs\<close>: with an exact solver an iteration returns
  a legal placement at the lowest limit of the ladder that has one; with any solver the planner returns, and an assignment it
  returns puts every vertex in a slot that may host it.
\<close>

section \<open>Raising the limit\<close>

lemma capacity_at_mono:
  assumes "areas_ok areas" and "bt_get areas region = Some cap" and "0 \<le> q" and "q \<le> p" and "p \<le> 1"
  shows "capacity_at (Finite q) rules region cap r \<le> capacity_at (Finite p) rules region cap r"
proof -
  have "amount r cap \<le> 2 ^ 53" using assms(1) bt_get_Some_in [OF assms(2)] by (auto simp: areas_ok_def)
  then have "amount r cap < 2 ^ 64" by simp
  then show ?thesis using assms(3-5) by (auto simp: capacity_at_def limit_or_def intro: scaled_amount_mono split: option.splits)
qed

lemma may_host_mono:
  assumes "areas_ok areas" and "0 \<le> q" and "q \<le> p" and "p \<le> 1" and "may_host d areas (Finite q) parent rules v region"
  shows "may_host d areas (Finite p) parent rules v region"
proof -
  obtain cap where cap: "bt_get areas region = Some cap" using assms(5) by (auto simp: may_host_def split: option.splits)
  show ?thesis using assms(5) capacity_at_mono [OF assms(1) cap assms(2-4)] cap unfolding may_host_def by (simp, meson order_trans)
qed

lemma legal_placement_mono:
  assumes "areas_ok areas" and "0 \<le> q" and "q \<le> p" and "p \<le> 1" and "legal_placement graph d regions areas parents rules cuts (Finite q) ps"
  shows "legal_placement graph d regions areas parents rules cuts (Finite p) ps"
proof -
  have "loads_fit d graph areas (Finite q) rules ps" using assms(5) by (simp add: legal_placement_def)
  then have "loads_fit d graph areas (Finite p) rules ps"
    unfolding loads_fit_def using capacity_at_mono [OF assms(1) _ assms(2-4)] by (meson order_trans)
  then show ?thesis using assms(5) may_host_mono [OF assms(1-4)] by (simp add: legal_placement_def)
qed

section \<open>An exact solver\<close>

definition solution_point :: "LpSolution \<Rightarrow> LpModel \<Rightarrow> (LpVar \<Rightarrow> rat) \<Rightarrow> bool" where
  "solution_point s lp val \<longleftrightarrow>
     (\<forall>v < length (vars lp). map_of (sol_values s) v = Some (Finite (val v)) \<and> admissible (vars lp ! v) (val v)) \<and> satisfies val lp"

text \<open>What an exact solver promises: a point of a feasible program, and a proof of infeasibility otherwise.\<close>

definition exact_solver :: "Solver \<Rightarrow> SolveOpts \<Rightarrow> bool" where
  "exact_solver solver opts \<longleftrightarrow> (\<forall>lp. \<exists>s. solver lp opts = Inr s \<and>
     (if feasible lp then is_found s \<and> (\<exists>val. solution_point s lp val) else status s = Infeasible))"

lemma near_values: "near_one (Finite 1)" "near_zero (Finite 0)" "\<not> near_one (Finite 0)"
proof -
  obtain t where t: "SOLUTION_TOLERANCE = Finite t" "0 < t" "t * 500000 \<le> 1" using tolerance by blast
  have num: "to_f64 0 = Finite 0" "to_f64 (- 1) = Finite (- 1)"
    using to_f64_near [of 0] to_f64_near [of "- 1"] rnd_minus [of 1] rnd_power [of 0] by simp_all
  show "near_one (Finite 1)" using t(2) by (simp add: near_one_def f64_sub_Finite t(1) num)
  show "near_zero (Finite 0)" "\<not> near_one (Finite 0)" using t(2,3) by (simp_all add: near_zero_def near_one_def f64_sub_Finite t(1) num)
qed

lemma filter_upt_single: "k < n \<Longrightarrow> filter (\<lambda>j. j = k) [0..<n] = [k]"
  by (induction n) (auto simp: less_Suc_eq filter_empty_conv)

lemma read_one_hot:
  assumes "one_hot val vs k" and "\<forall>v \<in> set vs. map_of (sol_values s) v = Some (Finite (val v))"
  shows "read_one_of_k s vs = Inr k"
proof -
  have k: "k < length vs" and v: "\<And>j. j < length vs \<Longrightarrow> val (vs ! j) = (if j = k then 1 else 0)" using assms(1) by (auto simp: one_hot_def)
  have vals: "row_values s vs ! j = Finite (if j = k then 1 else 0)" if "j < length vs" for j using assms(2) v that by (simp add: row_values_def)
  have "row_readable s vs" unfolding row_readable_def
  proof
    fix u assume "u \<in> set vs"
    then obtain j where "j < length vs" "u = vs ! j" by (metis in_set_conv_nth)
    then show "\<exists>w. map_of (sol_values s) u = Some w \<and> binary_like w" using assms(2) v near_values by (auto simp: binary_like_def)
  qed
  moreover have "map fst (filter (near_one \<circ> snd) (List.enumerate 0 (row_values s vs))) = [k]"
  proof -
    have l: "length (row_values s vs) = length vs" by (simp add: row_values_def)
    have "List.enumerate 0 (row_values s vs) = map (\<lambda>j. (j, Finite (if j = k then 1 else 0))) [0..<length vs]"
      by (rule nth_equalityI) (simp_all add: l nth_enumerate_eq vals)
    then have "map fst (filter (near_one \<circ> snd) (List.enumerate 0 (row_values s vs))) = filter (\<lambda>j. j = k) [0..<length vs]"
      using near_values by (simp add: filter_map comp_def if_distrib [of near_one] if_distrib [of Finite] cong: if_cong)
    also have "\<dots> = [k]" using k by (rule filter_upt_single)
    finally show ?thesis .
  qed
  ultimately show ?thesis by (simp add: read_one_of_k_Inr)
qed

section \<open>The model of an iteration can be built\<close>

definition edges_ok :: "FloorGraph \<Rightarrow> bool" where
  "edges_ok graph \<longleftrightarrow> list_all (\<lambda>e. pe_src e < length (vertices graph) \<and> pe_dst e < length (vertices graph)) (placement_edges graph)"

text \<open>Rectangles, and fewer variables than a 32-bit index counts.\<close>

definition regions_ok :: "FloorGraph \<Rightarrow> Coor list \<Rightarrow> bool" where
  "regions_ok graph regions \<longleftrightarrow> list_all (\<lambda>c. dl_x c \<le> ur_x c \<and> dl_y c \<le> ur_y c) regions \<and>
     length (vertices graph) * length regions + length (placement_edges graph) * (length regions * length regions) \<le> 2 ^ 32"

definition parents_ok :: "FloorGraph \<Rightarrow> Coor list option \<Rightarrow> bool" where
  "parents_ok graph parents \<longleftrightarrow> (case parents of None \<Rightarrow> True | Some ps \<Rightarrow> length ps = length (vertices graph))"

lemma mapR_total: "(\<And>x. x \<in> set xs \<Longrightarrow> \<exists>y. f x = Inr y) \<Longrightarrow> \<exists>ys. mapR f xs = Inr ys"
proof (induction xs)
  case (Cons x xs)
  then obtain y ys where "f x = Inr y" "mapR f xs = Inr ys" by (meson list.set_intros)
  then show ?case by simp
qed simp

lemma region_areas_get:
  assumes "region_areas d regions = Inr areas"
  shows "bt_get areas region = (if region \<in> set regions then island_area d region else None)"
    and "region \<in> set regions \<Longrightarrow> island_area d region \<noteq> None"
proof -
  let ?F = "\<lambda>region. bindR (ok_or (InvalidRegion (region_name region)) (island_area d region)) (\<lambda>area. Inr (region, area))"
  obtain entries where m: "mapR ?F regions = Inr entries" and a: "areas = bt_collect entries" using assms by (auto simp: region_areas_def bindR_eq_Inr)
  have L: "list_all2 (\<lambda>c z. ?F c = Inr z) regions entries" using m by (simp only: mapR_eq_Inr)
  then have "list_all2 (\<lambda>c z. fst z = c \<and> island_area d c = Some (snd z)) regions entries"
    by (rule list_all2_mono) (auto simp: bindR_eq_Inr)
  then have e: "entries = map (\<lambda>c. (c, the (island_area d c))) regions \<and> (\<forall>c \<in> set regions. island_area d c \<noteq> None)"
    by (induction regions entries) auto
  then show "region \<in> set regions \<Longrightarrow> island_area d region \<noteq> None" by blast
  have "map_of (rev (map (\<lambda>c. (c, the (island_area d c))) regions)) region = (if region \<in> set regions then island_area d region else None)"
    using e by (auto simp: rev_map map_of_map_restrict restrict_map_def)
  then show "bt_get areas region = (if region \<in> set regions then island_area d region else None)" using e by (simp add: a bt_get_collect)
qed

lemma region_corners:
  assumes "island_area d c \<noteq> None" and "dl_x c \<le> ur_x c" and "dl_y c \<le> ur_y c"
  shows "\<exists>p. centroid_quarters d c = Inr p"
proof -
  obtain u where u: "foldl (add_slot_area d) (Some Area_default) (all_slot_coors c) = Some u" using assms(1) by (auto simp: island_area_def)
  have "amount r Area_default < 2 ^ 64" for r by (cases r) (simp_all add: Area_default_def)
  from foldl_island [OF this] u have s: "\<forall>p \<in> set (all_slot_coors c). device_slot d (fst p) (snd p) \<noteq> None" by blast
  have "(dl_x c, dl_y c) \<in> set (all_slot_coors c)" "(ur_x c, ur_y c) \<in> set (all_slot_coors c)" using assms(2,3) by (simp_all add: set_all_slot_coors)
  then have "device_slot d (dl_x c) (dl_y c) \<noteq> None" "device_slot d (ur_x c) (ur_y c) \<noteq> None" using s by (metis fst_conv snd_conv)+
  then show ?thesis by (auto simp: centroid_quarters_def)
qed

lemma domain_sizes:
  assumes "candidate_domains graph d regions areas limit parents rules = Inr domains" and "i < length domains"
  shows "length (domains ! i) \<le> length regions"
proof -
  note D = candidate_domains_Inr [OF assms(1)]
  have "length (domains ! i) = card (set (domains ! i))" using D(2) assms(2) by (simp add: distinct_card)
  also have "\<dots> \<le> card (set regions)" using D(1,3) assms(2) by (intro card_mono) auto
  also have "\<dots> \<le> length regions" by (rule card_length)
  finally show ?thesis .
qed

lemma sum_list_le: "\<forall>n \<in> set ns. n \<le> b \<Longrightarrow> sum_list ns \<le> length ns * b" for ns :: "nat list"
  by (induction ns) (auto simp: add_mono)

lemma few_variables:
  assumes dom: "candidate_domains graph d regions areas limit parents rules = Inr domains" and "edges_ok graph" and "regions_ok graph regions"
    and x: "add_assignment_vars LpModel_new graph domains = (lp0, x)" and y: "add_edge_vars lp0 graph domains = (lp1, y)"
  shows "\<not> vars_overflow lp1"
proof -
  note n = candidate_domains_Inr(1) [OF dom]
  let ?R = "length regions" and ?es = "placement_edges graph"
  have xs: "map length x = map (\<lambda>i. length (domains ! i)) [0..<length (vertices graph)]" "extends LpModel_new (length (concat x)) lp0"
    using assignment_vars_shape [OF x [unfolded add_assignment_vars_def]] by auto
  have ys: "list_all2 (plane_ok domains) ?es y" "extends lp0 (length (concat (map concat y))) lp1"
    using edge_vars_shape [OF y [unfolded add_edge_vars_def]] by auto
  have "length (concat x) \<le> length (vertices graph) * ?R"
    unfolding length_concat xs(1) using sum_list_le [of "map (\<lambda>i. length (domains ! i)) [0..<length (vertices graph)]" ?R] domain_sizes [OF dom] n by auto
  moreover have "length (concat (map concat y)) \<le> length ?es * (?R * ?R)"
  proof -
    have plane: "length (concat (y ! ei)) \<le> ?R * ?R" if ei: "ei < length ?es" for ei
    proof -
      have r: "pe_src (?es ! ei) < length domains" "pe_dst (?es ! ei) < length domains"
        using ei assms(2) n by (auto simp: edges_ok_def list_all_length)
      have ok: "plane_ok domains (?es ! ei) (y ! ei)" using ys(1) ei by (simp add: list_all2_conv_all_nth)
      then have "\<forall>k \<in> set (map length (y ! ei)). k \<le> ?R" using domain_sizes [OF dom r(2)] by (auto simp: plane_ok_def)
      then have "length (concat (y ! ei)) \<le> length (y ! ei) * ?R" unfolding length_concat using sum_list_le by fastforce
      also have "\<dots> \<le> ?R * ?R" using ok domain_sizes [OF dom r(1)] by (simp add: plane_ok_def)
      finally show ?thesis .
    qed
    have len: "length y = length ?es" using ys(1) by (simp add: list_all2_lengthD)
    have "\<forall>k \<in> set (map length (map concat y)). k \<le> ?R * ?R" using plane len by (auto simp: in_set_conv_nth)
    then show ?thesis unfolding length_concat using sum_list_le [of "map length (map concat y)"] len by fastforce
  qed
  moreover have "length (vars lp1) = length (concat x) + length (concat (map concat y))"
    using extends_length [OF xs(2)] extends_length [OF ys(2)] by simp
  ultimately show ?thesis using assms(3) unfolding vars_overflow_def regions_ok_def by linarith
qed

lemma build_total:
  assumes dom: "candidate_domains graph d regions areas limit parents rules = Inr domains" and "edges_ok graph" and "regions_ok graph regions"
    and "region_areas d regions = Inr areas"
  shows "\<exists>model. FloorplanModel_build graph d domains areas cuts limit rules = Inr model"
proof -
  note D = candidate_domains_Inr [OF dom]
  obtain lp0 x where x: "add_assignment_vars LpModel_new graph domains = (lp0, x)" by (metis surj_pair)
  obtain lp1 y where y: "add_edge_vars lp0 graph domains = (lp1, y)" by (metis surj_pair)
  have range: "edges_in_range graph domains" using assms(2) D(1) by (simp add: edges_in_range_def edges_ok_def)
  have "\<exists>lp2. add_resource_constraints d lp graph areas domains limit rules x y = Inr lp2" for lp
    unfolding add_resource_constraints_def
  proof (rule foldR_total)
    fix lp region assume "region \<in> set (active_regions domains)"
    then have "region \<in> set (concat domains)" by (simp add: active_regions_def)
    then show "\<exists>lp'. bindR (ok_or (InvalidRegion (region_name region)) (bt_get areas region))
        (\<lambda>capacity. Inr (foldl (add_resource_row d graph domains limit rules x y region capacity) lp Resource_ALL)) = Inr lp'"
      using domain_capacity [OF dom] by fastforce
  qed
  then obtain lp2 where lp2: "add_resource_constraints d (add_coupling lp1 graph domains x y) graph areas domains limit rules x y = Inr lp2" by blast
  have "\<exists>z. bindR (centroid_quarters d c) (\<lambda>centroid. Inr (c, centroid)) = Inr z" if c: "c \<in> set (concat domains)" for c
  proof -
    obtain i where "i < length domains" "c \<in> set (domains ! i)" using c by (auto simp: in_set_conv_nth [of _ domains])
    then have "c \<in> set regions" using D(1,3) by auto
    then show ?thesis using region_corners [of d c] region_areas_get(2) [OF assms(4)] assms(3) by (auto simp: regions_ok_def list_all_iff)
  qed
  then have "\<exists>entries. mapR (\<lambda>region. bindR (centroid_quarters d region) (\<lambda>centroid. Inr (region, centroid))) (concat domains) = Inr entries"
    by (rule mapR_total)
  then show ?thesis using x y D(1) range few_variables [OF dom assms(2,3) x y] lp2
    by (auto simp: FloorplanModel_build_def add_objective_def map_err_def Let_def)
qed

section \<open>One iteration with an exact solver\<close>

definition iteration_ok :: "FloorGraph \<Rightarrow> Device \<Rightarrow> Coor list \<Rightarrow> RegionAreas \<Rightarrow> Coor list option \<Rightarrow> PlacementConstraints \<Rightarrow> Cut list \<Rightarrow> bool" where
  "iteration_ok graph d regions areas parents rules cuts \<longleftrightarrow>
     edges_ok graph \<and> widths_ok graph \<and> regions_ok graph regions \<and> parents_ok graph parents \<and> region_areas d regions = Inr areas \<and>
     areas_ok areas \<and> rules_ok rules \<and> cuts_ok cuts"

lemma domains_answer:
  assumes "iteration_ok graph d regions areas parents rules cuts"
  shows "(\<exists>domains. candidate_domains graph d regions areas limit parents rules = Inr domains) \<or>
    (\<exists>e. candidate_domains graph d regions areas limit parents rules = Inl (Err e) \<and> ((\<exists>v. e = NoCandidates v) \<or> (\<exists>a. e = AnchorUnplaceable a)) \<and>
      (\<nexists>ps. legal_placement graph d regions areas parents rules cuts limit ps))"
proof (cases "candidate_domains graph d regions areas limit parents rules")
  case (Inl f)
  have known: "\<forall>region \<in> set regions. bt_get areas region \<noteq> None"
    using assms region_areas_get [of d regions areas] by (auto simp: iteration_ok_def)
  from Inl obtain i where i: "i < length (vertices graph)" and "(case parents of
         None \<Rightarrow> map_err Err (vertex_domain d regions areas limit None rules (vertices graph ! i))
       | Some assignments \<Rightarrow>
           if i < length assignments
           then map_err Err (vertex_domain d regions areas limit (Some (assignments ! i)) rules (vertices graph ! i))
           else Inl Panicked) = Inl f"
    by (auto simp: candidate_domains_def in_set_enumerate_eq dest!: mapR_Inl)
  then obtain e where e: "f = Err e" "vertex_domain d regions areas limit (parent_of parents i) rules (vertices graph ! i) = Inl e"
    using assms by (auto simp: iteration_ok_def parents_ok_def parent_of_def map_err_def split: option.splits sum.splits)
  note none = vertex_domain_Inl [OF e(2) known]
  have "\<not> legal_placement graph d regions areas parents rules cuts limit ps" for ps
    using none i by (auto simp: legal_placement_def filter_empty_conv)
  then show ?thesis using Inl e none by blast
qed blast

definition sound_rung :: "FloorGraph \<Rightarrow> Device \<Rightarrow> Coor list \<Rightarrow> RegionAreas \<Rightarrow> Coor list option \<Rightarrow> PlacementConstraints \<Rightarrow> Cut list \<Rightarrow> f64 \<Rightarrow> FeasibleRung \<Rightarrow> bool" where
  "sound_rung graph d regions areas parents rules cuts limit rung \<longleftrightarrow>
     fr_usage_limit rung = limit \<and> candidate_domains graph d regions areas limit parents rules = Inr (fr_domains rung) \<and>
     FloorplanModel_build graph d (fr_domains rung) areas cuts limit rules = Inr (fr_model rung) \<and>
     (\<exists>val. solution_point (fr_solution rung) (fm_lp (fr_model rung)) val)"

lemma probe_exact:
  assumes ok: "iteration_ok graph d regions areas parents (cfg_constraints config) cuts" and limit: "limit_ok limit" and exact: "exact_solver solver opts"
  defines "legal \<equiv> \<lambda>ps. legal_placement graph d regions areas parents (cfg_constraints config) cuts limit ps"
    and "run \<equiv> attempt_placement graph d regions areas parents config cuts limit solver opts"
  shows "(\<exists>rung. run = Inr (Placed rung) \<and> sound_rung graph d regions areas parents (cfg_constraints config) cuts limit rung \<and> (\<exists>ps. legal ps)) \<or>
    (\<exists>e. run = Inr (Unplaced e) \<and> (\<nexists>ps. legal ps))"
  using domains_answer [OF ok, of limit]
proof (elim disjE exE conjE)
  fix domains assume dom: "candidate_domains graph d regions areas limit parents (cfg_constraints config) = Inr domains"
  obtain model where build: "FloorplanModel_build graph d domains areas cuts limit (cfg_constraints config) = Inr model"
    using build_total [OF dom] ok by (auto simp: iteration_ok_def)
  obtain s where s: "solver (fm_lp model) opts = Inr s"
      "if feasible (fm_lp model) then is_found s \<and> (\<exists>val. solution_point s (fm_lp model) val) else status s = Infeasible"
    using exact by (auto simp: exact_solver_def)
  have iff: "feasible (fm_lp model) \<longleftrightarrow> (\<exists>ps. legal ps)"
    unfolding legal_def using ok limit by (intro placement_model_iff [OF dom build]) (auto simp: iteration_ok_def)
  show ?thesis
  proof (cases "feasible (fm_lp model)")
    case True
    let ?rung = "\<lparr>fr_usage_limit = limit, fr_model = model, fr_domains = domains, fr_solution = s\<rparr>"
    have "run = Inr (Placed ?rung)" using True s by (simp add: run_def attempt_placement_def dom build map_err_def)
    moreover have "sound_rung graph d regions areas parents (cfg_constraints config) cuts limit ?rung"
      using True s dom build by (simp add: sound_rung_def)
    ultimately show ?thesis using iff True by blast
  next
    case False
    then have "\<exists>e. run = Inr (Unplaced e)" using s by (simp add: run_def attempt_placement_def dom build map_err_def is_found_def)
    then show ?thesis using iff False by blast
  qed
qed (auto simp: run_def attempt_placement_def legal_def)

lemma satisfies_fewer: "satisfies val (add_constraint lp name e cmp rhs) \<Longrightarrow> satisfies val lp"
  by (simp add: satisfies_def add_constraint_def)

lemma solution_read_back:
  assumes dom: "candidate_domains graph d regions areas limit parents rules = Inr domains"
    and build: "FloorplanModel_build graph d domains areas cuts limit rules = Inr model"
    and ok: "iteration_ok graph d regions areas parents rules cuts" and limit: "limit_ok limit"
    and s: "solution_point s lp val" "vars lp = vars (fm_lp model)" "satisfies val (fm_lp model)" and m: "fm_x m = fm_x model"
  shows "\<exists>ps. read_back m graph domains s = Inr ps \<and> legal_placement graph d regions areas parents rules cuts limit ps"
proof -
  note D = candidate_domains_Inr [OF dom]
  obtain y where shape: "model_shape graph d domains areas cuts limit rules model y" using model_shape_build [OF dom build] by blast
  have bin: "\<forall>v < length (vars (fm_lp model)). val v = 0 \<or> val v = 1"
  proof (intro allI impI)
    fix v assume v: "v < length (vars (fm_lp model))"
    then obtain label where "vars lp ! v = binary_def label" using shape s(2) by (auto simp: model_shape_def Let_def)
    then show "val v = 0 \<or> val v = 1" using s(1,2) v by (auto simp: solution_point_def admissible_def binary_def_def)
  qed
  obtain ch where hot: "hot_point val graph domains (fm_x model) y ch" and legal: "legal_placement graph d regions areas parents rules cuts limit (placement_of domains ch)"
    using point_legal [OF dom shape _ _ _ limit _ bin s(3)] ok by (auto simp: iteration_ok_def)
  have len: "length (fm_x model) = length domains" using shape by (metis (no_types, lifting) length_map model_shape_def)
  have read: "read_one_of_k s (fm_x m ! i) = Inr (ch ! i)" if i: "i < length domains" for i
  proof (rule read_one_hot)
    show "one_hot val (fm_x m ! i) (ch ! i)" using hot i by (simp add: hot_point_def m)
    show "\<forall>v \<in> set (fm_x m ! i). map_of (sol_values s) v = Some (Finite (val v))"
    proof
      fix v assume "v \<in> set (fm_x m ! i)"
      then have "v \<in> set (concat (fm_x model))" using i len by (auto simp: m intro!: bexI [of _ "fm_x model ! i"])
      moreover have "set (concat (fm_x model) @ concat (map concat y)) = {..<length (vars (fm_lp model))}" using shape unfolding model_shape_def Let_def by blast
      ultimately have "v < length (vars (fm_lp model))" unfolding set_append by blast
      then show "map_of (sol_values s) v = Some (Finite (val v))" using s(1,2) by (simp add: solution_point_def)
    qed
  qed
  have "read_back m graph domains s = Inr (placement_of domains ch)"
    unfolding read_back_def mapR_eq_Inr list_all2_conv_all_nth
    using D(1) hot read by (simp add: nth_enumerate_eq hot_point_def placement_of_def map_err_def)
  then show ?thesis using legal by blast
qed

lemma finish_exact:
  assumes rung: "sound_rung graph d regions areas parents rules cuts limit rung"
    and ok: "iteration_ok graph d regions areas parents rules cuts" and limit: "limit_ok limit" and exact: "exact_solver solver opts"
  shows "\<exists>it. finish_iteration graph rung solver opts = Inr it \<and> si_usage_limit it = limit \<and>
    legal_placement graph d regions areas parents rules cuts limit (si_placements it)"
proof -
  let ?m = "fr_model rung" and ?lp = "fm_lp (fr_model rung)"
  have r: "fr_usage_limit rung = limit" "candidate_domains graph d regions areas limit parents rules = Inr (fr_domains rung)"
      "FloorplanModel_build graph d (fr_domains rung) areas cuts limit rules = Inr ?m" using rung by (auto simp: sound_rung_def)
  obtain val where val: "solution_point (fr_solution rung) ?lp val" using rung by (auto simp: sound_rung_def)
  define lp' where "lp' = set_objective (add_constraint ?lp ''lexicographic_pin'' (objective ?lp) Le (pin_bound (sol_objective (fr_solution rung)))) (rank_objective (fm_x ?m))"
  obtain s where s: "solver lp' opts = Inr s" "if feasible lp' then is_found s \<and> (\<exists>val. solution_point s lp' val) else status s = Infeasible"
    using exact by (auto simp: exact_solver_def)
  have v: "vars lp' = vars ?lp" by (simp add: lp'_def)
  have refined: "floorplan_refine ?m solver opts (fr_solution rung) = (?m\<lparr>fm_lp := lp'\<rparr>, Inr (if is_found s then Some s else None))"
    using s(1) by (simp add: floorplan_refine_def refine_def lp'_def Let_def)
  have "\<exists>t val lp. (case (if is_found s then Some s else None) of None \<Rightarrow> fr_solution rung | Some s \<Rightarrow> s) = t \<and>
      solution_point t lp val \<and> vars lp = vars ?lp \<and> satisfies val ?lp"
  proof (cases "is_found s")
    case True
    then have "feasible lp'" using s(2) by (auto simp: is_found_def split: if_splits)
    then obtain w where w: "solution_point s lp' w" using s(2) by auto
    then have "satisfies w ?lp" by (auto simp: solution_point_def lp'_def dest: satisfies_fewer)
    then show ?thesis using True w v by auto
  next
    case False
    then show ?thesis using val by (auto simp: solution_point_def)
  qed
  then obtain t w lp where t: "(case (if is_found s then Some s else None) of None \<Rightarrow> fr_solution rung | Some s \<Rightarrow> s) = t"
      "solution_point t lp w" "vars lp = vars ?lp" "satisfies w ?lp" by blast
  obtain ps where ps: "read_back (?m\<lparr>fm_lp := lp'\<rparr>) graph (fr_domains rung) t = Inr ps" "legal_placement graph d regions areas parents rules cuts limit ps"
    using solution_read_back [OF r(2,3) ok limit t(2-4), of "?m\<lparr>fm_lp := lp'\<rparr>"] by auto
  have "finish_iteration graph rung solver opts = Inr \<lparr>si_placements = ps, si_usage_limit = limit\<rparr>"
    by (simp add: finish_iteration_def refined map_err_def r(1) t(1) ps(1))
  then show ?thesis using ps(2) by simp
qed

lemma rungs_nth:
  assumes "rungs_ok b c qs" and "i \<le> j" and "j < length qs"
  shows "b \<le> qs ! i" and "qs ! i \<le> qs ! j" and "qs ! j \<le> c"
proof -
  have mono: "qs ! i \<le> qs ! j" if "i \<le> j" "j < length qs" for i j
    using assms(1) that by (cases "i = j") (auto simp: rungs_ok_def sorted_wrt_iff_nth_less less_imp_le)
  have ne: "qs \<noteq> []" "hd qs = b" "last qs \<le> c" using assms(1) by (auto simp: rungs_ok_def)
  show "qs ! i \<le> qs ! j" by (rule mono [OF assms(2,3)])
  show "b \<le> qs ! i" using mono [of 0 i] ne assms(2,3) by (simp add: hd_conv_nth)
  have "qs ! j \<le> qs ! (length qs - 1)" using mono [of j "length qs - 1"] assms(3) by linarith
  then show "qs ! j \<le> c" using ne by (simp add: last_conv_nth)
qed

definition lowest_placement :: "(f64 \<Rightarrow> Coor list \<Rightarrow> bool) \<Rightarrow> f64 list \<Rightarrow> IlpError fault + SolvedIteration \<Rightarrow> bool" where
  "lowest_placement legal rungs r \<longleftrightarrow>
     (case r of
        Inr it \<Rightarrow> \<exists>i < length rungs. si_usage_limit it = rungs ! i \<and> legal (rungs ! i) (si_placements it) \<and> (\<forall>j < i. \<nexists>ps. legal (rungs ! j) ps)
      | Inl (Err e) \<Rightarrow> \<forall>j < length rungs. \<nexists>ps. legal (rungs ! j) ps
      | Inl Panicked \<Rightarrow> False)"

lemma iteration_exact:
  assumes lim: "0 \<le> b" "b \<le> c" "c \<le> 1" "retry_ceiling config = Finite c"
    and ok: "iteration_ok graph d regions areas parents (cfg_constraints config) (find_cuts_for_regions d regions)" and exact: "exact_solver solver opts"
  defines "legal \<equiv> legal_placement graph d regions areas parents (cfg_constraints config) (find_cuts_for_regions d regions)"
  shows "\<exists>rungs r. usage_ladder (Finite b) (Finite c) = Some rungs \<and>
    solve_iteration graph d regions parents config (Finite b) solver opts = Some r \<and> lowest_placement legal rungs r"
proof -
  let ?cuts = "find_cuts_for_regions d regions"
  obtain qs where qs: "usage_ladder (Finite b) (Finite c) = Some (map Finite qs)" "rungs_ok b c qs" using usage_ladder_ends [OF lim(1-3)] by blast
  define rungs where "rungs = map Finite qs"
  define probe where "probe = (\<lambda>i. attempt_placement graph d regions areas parents config ?cuts (rungs ! i) solver opts)"
  have limit: "limit_ok (rungs ! i)" if "i < length rungs" for i
    using rungs_nth [OF qs(2), of i i] that lim by (force simp: limit_ok_def rungs_def)
  have p: "(\<exists>rung. probe i = Inr (Placed rung) \<and> sound_rung graph d regions areas parents (cfg_constraints config) ?cuts (rungs ! i) rung \<and> (\<exists>ps. legal (rungs ! i) ps)) \<or>
      (\<exists>e. probe i = Inr (Unplaced e) \<and> (\<nexists>ps. legal (rungs ! i) ps))" if "i < length rungs" for i
    using probe_exact [OF ok limit [OF that] exact] unfolding probe_def legal_def .
  have up: "\<exists>ps. legal (rungs ! j) ps" if "i \<le> j" "j < length rungs" "\<exists>ps. legal (rungs ! i) ps" for i j
  proof -
    have "areas_ok areas" using ok by (simp add: iteration_ok_def)
    moreover have "0 \<le> qs ! i" "qs ! i \<le> qs ! j" "qs ! j \<le> 1" using rungs_nth [OF qs(2), of i j] that(1,2) lim by (auto simp: rungs_def)
    ultimately show ?thesis using legal_placement_mono that unfolding legal_def rungs_def by (auto simp del: ex_simps) blast
  qed
  have ladder: "rung_ladder probe (length rungs)"
    unfolding rung_ladder_def
  proof (intro conjI allI impI)
    show "0 < length rungs" using qs(2) by (simp add: rungs_ok_def rungs_def)
    show "\<exists>r. probe i = Inr r" if "i < length rungs" for i using p [OF that] by blast
    show "\<exists>q. probe j = Inr (Placed q)" if ij: "i \<le> j" "j < length rungs" "probe i = Inr (Placed rung)" for i j rung
      using p [of i] p [of j] up [of i j] ij by auto
  qed
  have none: "\<nexists>ps. legal (rungs ! j) ps" if "unplaced probe j" "j < length rungs" for j using p [OF that(2)] that(1) by (auto simp: unplaced_def)
  have run: "solve_iteration graph d regions parents config (Finite b) solver opts =
      Some (bindR (search_ladder probe (length rungs)) (\<lambda>placed. map_err Err (finish_iteration graph placed solver opts)))"
    using ok qs(1) lim(4) by (simp add: solve_iteration_def iteration_ok_def probe_def rungs_def Let_def)
  have "lowest_placement legal rungs (bindR (search_ladder probe (length rungs)) (\<lambda>placed. map_err Err (finish_iteration graph placed solver opts)))"
    using search_lowest [OF ladder]
  proof (elim disjE exE conjE)
    fix i rung assume r: "search_ladder probe (length rungs) = Inr rung" "i < length rungs" "probe i = Inr (Placed rung)" "\<forall>j < i. unplaced probe j"
    then have sound: "sound_rung graph d regions areas parents (cfg_constraints config) ?cuts (rungs ! i) rung" using p [of i] by auto
    obtain it where "finish_iteration graph rung solver opts = Inr it" "si_usage_limit it = rungs ! i" "legal (rungs ! i) (si_placements it)"
      using finish_exact [OF sound ok limit [OF r(2)] exact] unfolding legal_def by blast
    then show ?thesis using r none by (auto simp: lowest_placement_def map_err_def intro!: exI [of _ i])
  next
    fix e assume "search_ladder probe (length rungs) = Inl (Err e)" "\<forall>j < length rungs. unplaced probe j"
    then show ?thesis using none by (simp add: lowest_placement_def)
  qed
  then show ?thesis using run qs(1) by (auto simp: rungs_def)
qed

text \<open>C25: With an exact solver a placement iteration is correct and complete: it returns a legal placement at the lowest limit of
  the utilization ladder at which a legal placement exists, and it fails only when no limit of the ladder has one.  In particular the
  galloping and bisecting search skips no limit.\<close>

theorem iteration_finds_lowest:
  assumes "0 \<le> b" and "b \<le> c" and "c \<le> 1" and "retry_ceiling config = Finite c"
    and "iteration_ok graph d regions areas parents (cfg_constraints config) (find_cuts_for_regions d regions)" and "exact_solver solver opts"
  shows "\<exists>rungs r. usage_ladder (Finite b) (Finite c) = Some rungs \<and>
    solve_iteration graph d regions parents config (Finite b) solver opts = Some r \<and>
    lowest_placement (legal_placement graph d regions areas parents (cfg_constraints config) (find_cuts_for_regions d regions)) rungs r"
  using assms by (rule iteration_exact)

section \<open>A concrete iteration\<close>

text \<open>An exact solver exists.\<close>

definition ideal_solver :: Solver where
  "ideal_solver lp opts =
     (if feasible lp
      then let val = (SOME val. (\<forall>v < length (vars lp). admissible (vars lp ! v) (val v)) \<and> satisfies val lp)
           in Inr \<lparr>status = Optimal, sol_objective = Finite 0, sol_values = map (\<lambda>v. (v, Finite (val v))) [0..<length (vars lp)]\<rparr>
      else Inr \<lparr>status = Infeasible, sol_objective = Finite 0, sol_values = []\<rparr>)"

lemma ideal_solver_exact: "exact_solver ideal_solver opts"
  unfolding exact_solver_def
proof
  fix lp
  show "\<exists>s. ideal_solver lp opts = Inr s \<and> (if feasible lp then is_found s \<and> (\<exists>val. solution_point s lp val) else status s = Infeasible)"
  proof (cases "feasible lp")
    case True
    let ?P = "\<lambda>val. (\<forall>v < length (vars lp). admissible (vars lp ! v) (val v)) \<and> satisfies val lp"
    define val where "val = (SOME val. ?P val)"
    have "\<exists>val. ?P val" using True by (simp add: feasible_def satisfies_def)
    then have val: "?P val" unfolding val_def by (rule someI_ex)
    let ?s = "\<lparr>status = Optimal, sol_objective = Finite 0, sol_values = map (\<lambda>v. (v, Finite (val v))) [0..<length (vars lp)]\<rparr>"
    have "map_of (sol_values ?s) v = Some (Finite (val v))" if "v < length (vars lp)" for v using that by (simp add: map_of_map_restrict)
    then have "solution_point ?s lp val" using val by (simp add: solution_point_def)
    moreover have "ideal_solver lp opts = Inr ?s" using True by (simp add: ideal_solver_def val_def)
    ultimately show ?thesis using True by (intro exI [of _ ?s]) (auto simp: is_found_def)
  qed (simp add: ideal_solver_def)
qed

definition demo_edge :: PlacementEdge where
  "demo_edge = \<lparr>pe_src = 0, pe_dst = 1, pe_width = 8, forward_width = 7, reverse_width = 1\<rparr>"

definition demo_place :: "string \<Rightarrow> Vertex" where
  "demo_place name = \<lparr>v_name = name, v_area = \<lparr>lut = 30, ff = 40, bram_18k = 0, dsp = 0, uram = 0\<rparr>, required_tag = None, materialize = True\<rparr>"

definition demo_design :: FloorGraph where
  "demo_design = \<lparr>vertices = [demo_place ''a'', demo_place ''b''], placement_edges = [demo_edge], streams = [], axi_nets = [], control_nets = [],
     vertex_index = [(''a'', 0), (''b'', 1)], co_located = []\<rparr>"

definition demo_config :: PlacementConfig where
  "demo_config = \<lparr>usage_limit = Finite 1, retry_ceiling = Finite 1, strategy = Flat, cfg_constraints = PlacementConstraints_default\<rparr>"

definition demo_capacity :: Area where
  "demo_capacity = \<lparr>lut = 1000, ff = 2000, bram_18k = 10, dsp = 5, uram = 0\<rparr>"

lemma demo_island: "region \<in> set demo_regions \<Longrightarrow> island_area demo_device region = Some demo_capacity"
  by (auto simp: demo_regions_def island_area_def all_slot_coors_def Coor_slot_def add_slot_area_def device_slot_def demo_device_def demo_slot_def
      area_checked_add_def area_checked_add_scaled_def add_scaled_def checked_mul_def checked_add_def fits_def Area_default_def demo_capacity_def)

lemma demo_cuts:
  "find_cuts_for_regions demo_device demo_regions =
    [\<lparr>cut_name = ''y=0'', cut_lhs = [Coor_slot 0 0, Coor_slot 1 0], cut_rhs = [Coor_slot 0 1, Coor_slot 1 1], cut_capacity = 140\<rparr>,
     \<lparr>cut_name = ''x=0'', cut_lhs = [Coor_slot 0 0, Coor_slot 0 1], cut_rhs = [Coor_slot 1 0, Coor_slot 1 1], cut_capacity = 56\<rparr>]"
proof -
  have eq: "find_cuts_for_regions demo_device demo_regions = spec_cuts demo_device demo_regions"
    using find_cuts_spec [OF demo_device_valid _ _ demo_regions_tile] by (simp add: demo_device_def)
  have zero: "show_nat 0 = ''0''" by code_simp
  show ?thesis unfolding eq
    by (simp add: spec_cuts_def spec_cut_def row_budget_def column_budget_def demo_device_def demo_regions_def cap_at_def
        device_slot_def demo_slot_def Coor_slot_def bounded_border_capacity_def WIRE_CAPACITY_INF_def
        usable_wire_capacity_def wrap_def upt_rec zero)
qed

definition demo_areas :: RegionAreas where
  "demo_areas = bt_collect (map (\<lambda>c. (c, demo_capacity)) demo_regions)"

lemma demo_region_areas: "region_areas demo_device demo_regions = Inr demo_areas"
proof -
  have "mapR (\<lambda>region. bindR (ok_or (InvalidRegion (region_name region)) (island_area demo_device region)) (\<lambda>area. Inr (region, area))) demo_regions
      = Inr (map (\<lambda>c. (c, demo_capacity)) demo_regions)"
    unfolding mapR_eq_Inr by (simp add: list_all2_conv_all_nth demo_island)
  then show ?thesis by (simp add: region_areas_def demo_areas_def)
qed

lemma demo_areas_get: "bt_get demo_areas region = (if region \<in> set demo_regions then Some demo_capacity else None)"
  using region_areas_get(1) [OF demo_region_areas, of region] demo_island by auto

lemma demo_iteration: "iteration_ok demo_design demo_device demo_regions demo_areas None (cfg_constraints demo_config) (find_cuts_for_regions demo_device demo_regions)"
  unfolding iteration_ok_def
proof (intro conjI)
  show "areas_ok demo_areas"
  proof -
    have "area = demo_capacity" if "(c, area) \<in> set demo_areas" for c area
    proof -
      have "bt_ok demo_areas" by (simp add: demo_areas_def)
      then have "bt_get demo_areas c = Some area" using that by (simp add: bt_get_iff)
      then show ?thesis by (simp add: demo_areas_get split: if_splits)
    qed
    moreover have "amount r demo_capacity \<le> 2 ^ 53" for r by (cases r) (simp_all add: demo_capacity_def)
    ultimately show ?thesis unfolding areas_ok_def by blast
  qed
  show "widths_ok demo_design"
  proof -
    have "amount r (v_area (demo_place n)) \<le> 2 ^ 53" for r n by (cases r) (simp_all add: demo_place_def)
    then show ?thesis by (simp add: widths_ok_def demo_design_def demo_edge_def fits_def)
  qed
  show "cuts_ok (find_cuts_for_regions demo_device demo_regions)" by (simp add: cuts_ok_def demo_cuts)
  show "region_areas demo_device demo_regions = Inr demo_areas" by (rule demo_region_areas)
qed (simp_all add: edges_ok_def regions_ok_def parents_ok_def rules_ok_def demo_design_def demo_edge_def demo_config_def
    demo_regions_def Coor_slot_def PlacementConstraints_default_def)

lemma demo_capacity_at: "capacity_at (Finite 1) (cfg_constraints demo_config) region demo_capacity r = amount r demo_capacity"
proof -
  have "amount r demo_capacity < 2 ^ 53" by (cases r) (simp_all add: demo_capacity_def)
  then show ?thesis
    by (simp add: capacity_at_def limit_or_def lookup_limit_def demo_config_def PlacementConstraints_default_def bt_get_def scaled_amount_one)
qed

lemma demo_legal:
  "legal_placement demo_design demo_device demo_regions demo_areas None (cfg_constraints demo_config) (find_cuts_for_regions demo_device demo_regions)
     (Finite 1) [Coor_slot 0 0, Coor_slot 0 0]"
proof -
  have host: "may_host demo_device demo_areas (Finite 1) (parent_of None i) (cfg_constraints demo_config) (demo_place n) (Coor_slot 0 0)" for i n
  proof -
    have "amount r (v_area (demo_place n)) \<le> amount r demo_capacity" for r by (cases r) (simp_all add: demo_place_def demo_capacity_def)
    moreover have "required_tag (demo_place n) = None" by (simp add: demo_place_def)
    ultimately show ?thesis by (simp add: may_host_def parent_of_def demo_areas_get demo_regions_def demo_capacity_at)
  qed
  have "region_load demo_design [Coor_slot 0 0, Coor_slot 0 0] region r \<le> amount r demo_capacity" for region r
    by (cases r) (simp_all add: region_load_def demo_design_def demo_place_def demo_edge_def heads_in_def demo_capacity_def lessThan_Suc)
  then have "loads_fit demo_device demo_design demo_areas (Finite 1) (cfg_constraints demo_config) [Coor_slot 0 0, Coor_slot 0 0]"
    by (auto simp: loads_fit_def demo_areas_get demo_capacity_at split: if_splits)
  moreover have "cuts_fit demo_design (find_cuts_for_regions demo_device demo_regions) [Coor_slot 0 0, Coor_slot 0 0]"
    by (simp add: cuts_fit_def demo_cuts cut_demand_def demo_design_def demo_edge_def)
  moreover have "Coor_slot 0 0 \<in> set demo_regions" by (simp add: demo_regions_def)
  ultimately show ?thesis using host by (auto simp: legal_placement_def demo_design_def less_Suc_eq numeral_2_eq_2)
qed

theorem iteration_finds_lowest_witness:
  "\<exists>it. solve_iteration demo_design demo_device demo_regions None demo_config (Finite 1) ideal_solver demo_opts = Some (Inr it) \<and>
     si_usage_limit it = Finite 1 \<and> length (si_placements it) = 2"
proof -
  have c: "retry_ceiling demo_config = Finite 1" by (simp add: demo_config_def)
  have "usage_ladder (Finite 1) (Finite 1) = Some [Finite 1]" by (simp add: usage_ladder_def ladder_loop.simps)
  then obtain r where r: "solve_iteration demo_design demo_device demo_regions None demo_config (Finite 1) ideal_solver demo_opts = Some r"
    and low: "lowest_placement (legal_placement demo_design demo_device demo_regions demo_areas None (cfg_constraints demo_config)
      (find_cuts_for_regions demo_device demo_regions)) [Finite 1] r"
    using iteration_finds_lowest [of 1 1, OF _ _ _ c demo_iteration ideal_solver_exact] by auto
  have len: "length ps = 2" if "legal_placement demo_design demo_device demo_regions demo_areas None (cfg_constraints demo_config)
      (find_cuts_for_regions demo_device demo_regions) (Finite 1) ps" for ps
    using that by (simp add: legal_placement_def) (simp add: demo_design_def)
  show ?thesis using r low demo_legal len by (cases r) (auto simp: lowest_placement_def split: fault.splits)
qed

text \<open>C26: The placement program of an iteration has a 0/1 solution if and only if the iteration has a legal placement: every vertex
  in a region inside its parent that carries its tag and can hold it, no region over its derated capacity in a planned resource
  (counting the Head registers of the channels leaving it), and no cut over its wire capacity.\<close>

theorem placement_model_exact:
  assumes "candidate_domains graph d regions areas limit parents rules = Inr domains"
    and "FloorplanModel_build graph d domains areas cuts limit rules = Inr model"
    and "widths_ok graph" and "areas_ok areas" and "rules_ok rules" and "limit_ok limit" and "cuts_ok cuts"
  shows "feasible (fm_lp model) \<longleftrightarrow> (\<exists>ps. legal_placement graph d regions areas parents rules cuts limit ps)"
  using assms by (rule placement_model_iff)

theorem placement_model_exact_witness:
  "\<exists>domains model. candidate_domains demo_design demo_device demo_regions demo_areas (Finite 1) None (cfg_constraints demo_config) = Inr domains \<and>
     FloorplanModel_build demo_design demo_device domains demo_areas (find_cuts_for_regions demo_device demo_regions) (Finite 1) (cfg_constraints demo_config) = Inr model \<and>
     feasible (fm_lp model)"
proof -
  obtain domains where dom: "candidate_domains demo_design demo_device demo_regions demo_areas (Finite 1) None (cfg_constraints demo_config) = Inr domains"
    using domains_answer [OF demo_iteration, of "Finite 1"] demo_legal by blast
  have ok: "edges_ok demo_design" "regions_ok demo_design demo_regions" "widths_ok demo_design" "areas_ok demo_areas" "rules_ok (cfg_constraints demo_config)"
    "cuts_ok (find_cuts_for_regions demo_device demo_regions)" using demo_iteration by (simp_all add: iteration_ok_def)
  obtain model where build: "FloorplanModel_build demo_design demo_device domains demo_areas (find_cuts_for_regions demo_device demo_regions) (Finite 1)
      (cfg_constraints demo_config) = Inr model" using build_total [OF dom ok(1,2) demo_region_areas] by blast
  have "limit_ok (Finite 1)" by (simp add: limit_ok_def)
  then have "feasible (fm_lp model)" using placement_model_exact [OF dom build ok(3,4,5) _ ok(6)] demo_legal by blast
  then show ?thesis using dom build by blast
qed

section \<open>Any solver\<close>

definition slot_hosts :: "Device \<Rightarrow> f64 \<Rightarrow> PlacementConstraints \<Rightarrow> Vertex \<Rightarrow> nat \<times> nat \<Rightarrow> bool" where
  "slot_hosts d limit rules v cell \<longleftrightarrow>
     (let region = Coor_slot (fst cell) (snd cell) in
      device_slot d (fst cell) (snd cell) \<noteq> None \<and>
      (case required_tag v of None \<Rightarrow> True | Some tag \<Rightarrow> region_has_tag d region tag) \<and>
      (\<exists>cap. island_area d region = Some cap \<and> (\<forall>r. plans_resource d r \<longrightarrow> amount r (v_area v) \<le> capacity_at limit rules region cap r)))"

definition iteration_result :: "FloorGraph \<Rightarrow> Device \<Rightarrow> Coor list \<Rightarrow> PlacementConfig \<Rightarrow> rat \<Rightarrow> rat \<Rightarrow> SolvedIteration \<Rightarrow> bool" where
  "iteration_result graph d regions config b c it \<longleftrightarrow>
     (\<exists>q areas parents. si_usage_limit it = Finite q \<and> b \<le> q \<and> q \<le> c \<and> region_areas d regions = Inr areas \<and>
        length (si_placements it) = length (vertices graph) \<and>
        (\<forall>i < length (vertices graph). si_placements it ! i \<in> set regions \<and>
           may_host d areas (Finite q) (parent_of parents i) (cfg_constraints config) (vertices graph ! i) (si_placements it ! i)))"

lemma read_one_of_k_lt: "read_one_of_k s vs = Inr k \<Longrightarrow> k < length vs"
proof -
  assume "read_one_of_k s vs = Inr k"
  then have "k \<in> set (map fst (filter (near_one \<circ> snd) (List.enumerate 0 (row_values s vs))))" by (simp add: read_one_of_k_Inr)
  then show ?thesis by (auto simp: in_set_enumerate_eq row_values_def)
qed

lemma attempt_placed:
  assumes "attempt_placement graph d regions areas parents config cuts limit solver opts = Inr (Placed rung)"
  shows "fr_usage_limit rung = limit" and "candidate_domains graph d regions areas limit parents (cfg_constraints config) = Inr (fr_domains rung)"
    and "FloorplanModel_build graph d (fr_domains rung) areas cuts limit (cfg_constraints config) = Inr (fr_model rung)"
  using assms unfolding attempt_placement_def
  by (auto simp: bindR_eq_Inr split: sum.splits fault.splits IlpError.splits if_splits LpStatus.splits)

lemma finish_placed:
  assumes run: "attempt_placement graph d regions areas parents config cuts limit solver opts = Inr (Placed rung)"
    and fin: "finish_iteration graph rung solver opts = Inr it"
  shows "si_usage_limit it = limit \<and> length (si_placements it) = length (vertices graph) \<and>
    (\<forall>i < length (vertices graph). si_placements it ! i \<in> set regions \<and>
      may_host d areas limit (parent_of parents i) (cfg_constraints config) (vertices graph ! i) (si_placements it ! i))"
proof -
  note r = attempt_placed [OF run]
  note D = candidate_domains_Inr [OF r(2)]
  obtain y where "model_shape graph d (fr_domains rung) areas cuts limit (cfg_constraints config) (fr_model rung) y" using model_shape_build [OF r(2,3)] by blast
  then have x: "map length (fm_x (fr_model rung)) = map length (fr_domains rung)" by (simp add: model_shape_def Let_def)
  obtain m refined s where m: "floorplan_refine (fr_model rung) solver opts (fr_solution rung) = (m, refined)"
    and rb: "read_back m graph (fr_domains rung) s = Inr (si_placements it)" and lim: "si_usage_limit it = fr_usage_limit rung"
    using fin by (auto simp: finish_iteration_def bindR_eq_Inr split: prod.splits)
  have mx: "fm_x m = fm_x (fr_model rung)" using m by (auto simp: floorplan_refine_def split: prod.splits)
  have L: "list_all2 (\<lambda>(vi, vertex) p. \<exists>k. read_one_of_k s (fm_x m ! vi) = Inr k \<and> p = fr_domains rung ! vi ! k)
      (List.enumerate 0 (vertices graph)) (si_placements it)"
    using rb unfolding read_back_def mapR_eq_Inr by (rule list_all2_mono) (auto simp: bindR_eq_Inr map_err_def split: sum.splits)
  have len: "length (si_placements it) = length (vertices graph)" using list_all2_lengthD [OF L] by simp
  have "si_placements it ! i \<in> set (fr_domains rung ! i)" if i: "i < length (vertices graph)" for i
  proof -
    obtain k where k: "read_one_of_k s (fm_x m ! i) = Inr k" "si_placements it ! i = fr_domains rung ! i ! k"
      using list_all2_nthD [OF L, of i] i by (auto simp: nth_enumerate_eq)
    have "length (fm_x m ! i) = length (fr_domains rung ! i)" using x mx i D(1) by (metis length_map nth_map)
    then show ?thesis using read_one_of_k_lt [OF k(1)] k(2) by simp
  qed
  then show ?thesis using D(3) len lim r(1) by blast
qed

lemma iteration_returns:
  assumes "0 \<le> b" and "b \<le> c" and "c \<le> 1" and "retry_ceiling config = Finite c"
  shows "\<exists>r. solve_iteration graph d regions parents config (Finite b) solver opts = Some r \<and> (\<forall>it. r = Inr it \<longrightarrow> iteration_result graph d regions config b c it)"
proof (cases "region_areas d regions")
  case (Inl e)
  then show ?thesis by (simp add: solve_iteration_def Let_def)
next
  case (Inr areas)
  obtain qs where qs: "usage_ladder (Finite b) (Finite c) = Some (map Finite qs)" "rungs_ok b c qs" using usage_ladder_ends [OF assms(1-3)] by blast
  define probe where "probe = (\<lambda>i. attempt_placement graph d regions areas parents config (find_cuts_for_regions d regions) (map Finite qs ! i) solver opts)"
  have run: "solve_iteration graph d regions parents config (Finite b) solver opts =
      Some (bindR (search_ladder probe (length qs)) (\<lambda>placed. map_err Err (finish_iteration graph placed solver opts)))"
    using Inr qs(1) assms(4) by (simp add: solve_iteration_def probe_def Let_def)
  have "iteration_result graph d regions config b c it"
    if it: "bindR (search_ladder probe (length qs)) (\<lambda>placed. map_err Err (finish_iteration graph placed solver opts)) = Inr it" for it
  proof -
    obtain rung where s: "search_ladder probe (length qs) = Inr rung" "map_err Err (finish_iteration graph rung solver opts) = Inr it"
      using it by (auto simp: bindR_eq_Inr)
    then have fin: "finish_iteration graph rung solver opts = Inr it" by (cases "finish_iteration graph rung solver opts") (auto simp: map_err_def)
    obtain i where i: "i < length qs" "probe i = Inr (Placed rung)" using search_placed [OF s(1)] qs(2) by (auto simp: rungs_ok_def)
    have "attempt_placement graph d regions areas parents config (find_cuts_for_regions d regions) (Finite (qs ! i)) solver opts = Inr (Placed rung)"
      using i by (simp add: probe_def)
    note f = finish_placed [OF this fin]
    show ?thesis unfolding iteration_result_def using f rungs_nth [OF qs(2), of i i] i(1) Inr by blast
  qed
  then show ?thesis using run by blast
qed

lemma validate_limit_Inr: "validate_limit kind region v False = Inr () \<longleftrightarrow> (\<exists>q. v = Finite q \<and> 0 < q \<and> q \<le> 1)"
  by (cases v) (auto simp: validate_limit_def check_def)

lemma validate_config_Inr:
  assumes "validate_config config = Inr ()"
  obtains b c where "usage_limit config = Finite b" "retry_ceiling config = Finite c" "0 < b" "b \<le> c" "c \<le> 1"
  using assms by (auto simp: validate_config_def bindR_eq_Inr validate_limit_Inr not_less split: if_splits)

text \<open>The regions a schedule ends with are placed by an iteration over the atomic slots.\<close>

lemma iteration_again:
  assumes "iteration_result graph d regions config b c it" and "0 \<le> b"
  obtains q where "si_usage_limit it = Finite q" "0 \<le> q" "b \<le> q" "q \<le> c"
  using assms by (auto simp: iteration_result_def)

lemma iteration_result_mono: "iteration_result graph d regions config q c it \<Longrightarrow> b \<le> q \<Longrightarrow> iteration_result graph d regions config b c it"
  unfolding iteration_result_def by (meson order_trans)

lemma multilevel_returns:
  assumes "0 \<le> b" and "b \<le> c" and "c \<le> 1" and "usage_limit config = Finite b" and "retry_ceiling config = Finite c"
  shows "\<exists>r. multilevel graph d config solver opts = Some r \<and>
    (\<forall>ps. r = Inr ps \<longrightarrow> (\<exists>it. ps = si_placements it \<and> iteration_result graph d (atomic_regions d) config b c it))"
proof -
  note ret = iteration_returns [OF _ _ assms(3,5)]
  obtain r0 where r0: "solve_iteration graph d (row_regions d) None config (Finite b) solver opts = Some r0"
      "\<forall>it. r0 = Inr it \<longrightarrow> iteration_result graph d (row_regions d) config b c it" using ret [OF assms(1,2)] by blast
  show ?thesis
  proof (cases r0)
    case (Inl e)
    then show ?thesis using r0 assms(4) by (simp add: multilevel_def bindI_def)
  next
    case (Inr row)
    have "iteration_result graph d (row_regions d) config b c row" using r0(2) Inr by blast
    then obtain q where q: "si_usage_limit row = Finite q" "0 \<le> q" "b \<le> q" "q \<le> c" using assms(1) by (rule iteration_again)
    obtain r1 where r1: "solve_iteration graph d (atomic_regions d) (Some (si_placements row)) config (Finite q) solver opts = Some r1"
        "\<forall>it. r1 = Inr it \<longrightarrow> iteration_result graph d (atomic_regions d) config q c it" using ret [OF q(2,4)] by blast
    obtain r2 where r2: "solve_iteration graph d (atomic_regions d) None config (Finite q) solver opts = Some r2"
        "\<forall>it. r2 = Inr it \<longrightarrow> iteration_result graph d (atomic_regions d) config q c it" using ret [OF q(2,4)] by blast
    show ?thesis using Inr r0(1) r1 r2 q assms(4) iteration_result_mono [OF _ q(3)]
      by (auto simp: multilevel_def bindI_def Let_def split: sum.splits fault.splits IlpError.splits)
  qed
qed

text \<open>What an assignment accounts for: the areas of the materialised vertices a slot holds.\<close>

definition slot_demand :: "Vertex list \<Rightarrow> (nat \<times> nat) list \<Rightarrow> nat \<times> nat \<Rightarrow> Resource \<Rightarrow> nat" where
  "slot_demand vs cells cell r = (\<Sum>(v, c) \<leftarrow> zip vs cells. if materialize v \<and> c = cell then amount r (v_area v) else 0)"

definition usage_of :: "Assignment \<Rightarrow> nat \<times> nat \<Rightarrow> Area" where
  "usage_of a cell = (case bt_get (as_slot_usage a) cell of None \<Rightarrow> Area_default | Some area \<Rightarrow> area)"

lemma amount_default [simp]: "amount r Area_default = 0"
  by (cases r) (auto simp: Area_default_def)

lemma assign_vertex_Inr:
  assumes "assign_vertex a (v, slot) = Inr a'"
  shows "coor_width slot = 1" and "coor_height slot = 1" and "as_regions a' = as_regions a @ [(dl_x slot, dl_y slot)]"
    and "amount r (usage_of a' cell) = amount r (usage_of a cell) + (if materialize v \<and> (dl_x slot, dl_y slot) = cell then amount r (v_area v) else 0)"
  using assms by (auto simp: assign_vertex_def Let_def usage_of_def bindR_eq_Inr ok_or_def area_add_Some bt_get_insert
      split: if_splits option.splits)

lemma complete_assignment_Inr:
  assumes "length ss = length vs" and "foldR assign_vertex a (zip vs ss) = Inr a'"
  shows "as_regions a' = as_regions a @ map (\<lambda>slot. (dl_x slot, dl_y slot)) ss \<and>
    (\<forall>cell r. amount r (usage_of a' cell) = amount r (usage_of a cell) + slot_demand vs (map (\<lambda>slot. (dl_x slot, dl_y slot)) ss) cell r)"
  using assms
proof (induction ss vs arbitrary: a rule: list_induct2)
  case Nil
  then show ?case by (simp add: slot_demand_def)
next
  case (Cons slot ss v vs)
  then obtain b where b: "assign_vertex a (v, slot) = Inr b" "foldR assign_vertex b (zip vs ss) = Inr a'" by (auto simp: bindR_eq_Inr)
  show ?case using Cons.IH [OF b(2)] assign_vertex_Inr(3,4) [OF b(1)] by (simp add: slot_demand_def)
qed

lemma atomic_regions_iff: "region \<in> set (atomic_regions d) \<longleftrightarrow> (\<exists>x < cols d. \<exists>y < rows d. device_slot d x y \<noteq> None \<and> region = Coor_slot x y)"
proof -
  have "set (atomic_regions d) = (\<Union>x \<in> {0..<cols d}. \<Union>y \<in> {0..<rows d}. if device_slot d x y \<noteq> None then {Coor_slot x y} else {})"
    unfolding atomic_regions_def set_concat set_map set_upt image_image by (intro SUP_cong refl) simp
  moreover have "region \<in> (if P then {z} else {}) \<longleftrightarrow> P \<and> region = z" for P z by simp
  ultimately show ?thesis by (simp only: UN_iff atLeastLessThan_iff Bex_def) (simp only: zero_le simp_thms)
qed

lemma atomic_host:
  assumes "region_areas d (atomic_regions d) = Inr areas" and "region \<in> set (atomic_regions d)" and "may_host d areas limit parent rules v region"
  shows "slot_hosts d limit rules v (dl_x region, dl_y region)"
proof -
  have r: "Coor_slot (dl_x region) (dl_y region) = region" and "device_slot d (dl_x region) (dl_y region) \<noteq> None"
    using assms(2) by (auto simp: atomic_regions_iff Coor_slot_def)
  then show ?thesis using assms region_areas_get [OF assms(1), of region] by (auto simp: slot_hosts_def may_host_def Let_def split: option.splits)
qed

definition sound_assignment :: "FloorGraph \<Rightarrow> Device \<Rightarrow> PlacementConfig \<Rightarrow> Assignment \<Rightarrow> bool" where
  "sound_assignment graph d config a \<longleftrightarrow>
     length (as_regions a) = length (vertices graph) \<and>
     (\<exists>b q c. usage_limit config = Finite b \<and> retry_ceiling config = Finite c \<and> b \<le> q \<and> q \<le> c \<and>
        (\<forall>i < length (vertices graph). slot_hosts d (Finite q) (cfg_constraints config) (vertices graph ! i) (as_regions a ! i))) \<and>
     (\<forall>cell r. amount r (usage_of a cell) = slot_demand (vertices graph) (as_regions a) cell r) \<and> bt_ok (as_slot_usage a)"

lemma complete_assignment_ok:
  assumes "complete_assignment graph placements = Inr a"
  shows "bt_ok (as_slot_usage a)"
  by (rule foldR_invariant [OF assms [unfolded complete_assignment_def], of "\<lambda>a. bt_ok (as_slot_usage a)"])
    (auto simp: assign_vertex_def Let_def bindR_eq_Inr split: if_splits)

lemma assignment_sound:
  assumes it: "iteration_result graph d (atomic_regions d) config b c it" and lim: "usage_limit config = Finite b" "retry_ceiling config = Finite c"
    and a: "complete_assignment graph (si_placements it) = Inr a"
  shows "sound_assignment graph d config a"
proof -
  obtain q areas parents where q: "b \<le> q" "q \<le> c" and areas: "region_areas d (atomic_regions d) = Inr areas"
    and len: "length (si_placements it) = length (vertices graph)"
    and host: "\<And>i. i < length (vertices graph) \<Longrightarrow> si_placements it ! i \<in> set (atomic_regions d) \<and>
       may_host d areas (Finite q) (parent_of parents i) (cfg_constraints config) (vertices graph ! i) (si_placements it ! i)"
    using it unfolding iteration_result_def by blast
  note acc = complete_assignment_Inr [OF len a [unfolded complete_assignment_def]]
  have regions: "as_regions a = map (\<lambda>slot. (dl_x slot, dl_y slot)) (si_placements it)" using acc by simp
  have "slot_hosts d (Finite q) (cfg_constraints config) (vertices graph ! i) (as_regions a ! i)" if i: "i < length (vertices graph)" for i
    using atomic_host [OF areas conjunct1 [OF host [OF i]] conjunct2 [OF host [OF i]]] i len by (simp add: regions)
  moreover have "amount r (usage_of a cell) = slot_demand (vertices graph) (as_regions a) cell r" for cell r
  proof -
    have "usage_of \<lparr>as_regions = [], as_slot_usage = []\<rparr> cell = Area_default" by (simp add: usage_of_def bt_get_def)
    then show ?thesis using acc regions by (metis add_0 amount_default)
  qed
  ultimately show ?thesis using len q lim complete_assignment_ok [OF a] by (auto simp: sound_assignment_def regions)
qed

lemma floorplan_returns:
  "\<exists>r. floorplan_with_config graph d config solver opts = Some r \<and> (\<forall>a. r = Inr a \<longrightarrow> sound_assignment graph d config a)"
proof (cases "validate_config config")
  case (Inl e)
  then show ?thesis by (simp add: floorplan_with_config_def)
next
  case (Inr u)
  then obtain b c where lim: "usage_limit config = Finite b" "retry_ceiling config = Finite c" "0 < b" "b \<le> c" "c \<le> 1"
    using validate_config_Inr [of config] by auto
  obtain r where r: "solve_iteration graph d (atomic_regions d) None config (Finite b) solver opts = Some r"
      "\<forall>it. r = Inr it \<longrightarrow> iteration_result graph d (atomic_regions d) config b c it" using iteration_returns [of b c config] lim by (meson less_imp_le)
  obtain m where m: "multilevel graph d config solver opts = Some m"
      "\<forall>ps. m = Inr ps \<longrightarrow> (\<exists>it. ps = si_placements it \<and> iteration_result graph d (atomic_regions d) config b c it)"
    using multilevel_returns [of b c config] lim by (meson less_imp_le)
  have sound: "sound_assignment graph d config a" if "iteration_result graph d (atomic_regions d) config b c it"
      "map_err Err (complete_assignment graph (si_placements it)) = Inr a" for it a
    using assignment_sound [OF that(1) lim(1,2)] that(2) by (cases "complete_assignment graph (si_placements it)") (auto simp: map_err_def)
  define finish where "finish = (\<lambda>ps. Some (map_err (Err :: IlpError \<Rightarrow> IlpError fault) (complete_assignment graph ps)))"
  have run: "floorplan_with_config graph d config solver opts = bindI (case resolve_strategy graph d (strategy config) of Auto \<Rightarrow> Some (Inl Panicked)
      | Flat \<Rightarrow> bindI (Some r) (\<lambda>a. Some (Inr (si_placements a))) | MultiLevel \<Rightarrow> Some m) finish"
    unfolding floorplan_with_config_def Inr finish_def sum.case lim(1) r(1) m(1) by (cases u) (simp only: old.unit.case)
  show ?thesis
  proof (cases "resolve_strategy graph d (strategy config)")
    case Auto
    then show ?thesis by (simp add: run bindI_def)
  next
    case Flat
    then show ?thesis using r(2) sound by (cases r) (auto simp: run bindI_def finish_def)
  next
    case MultiLevel
    then show ?thesis using m(2) sound by (cases m) (auto simp: run bindI_def finish_def)
  qed
qed

text \<open>C28: Placement always returns: whatever the design, the device, the configuration and the answers of the solver, the ladder of
  usage limits ends and the schedule reaches an assignment, an error or the declared panic of an unresolved strategy.\<close>

theorem placement_returns: "\<exists>r. floorplan_with_config graph d config solver opts = Some r"
  using floorplan_returns by blast

text \<open>C27: Whatever the solver answers, an assignment that placement returns is sound: it gives every vertex an existing slot that
  carries the vertex's tag and holds the vertex's area at one usage limit between the configured limit and the retry ceiling, and
  its usage of a slot is exactly the sum of the areas of the materialised vertices in that slot.\<close>

theorem placement_sound:
  assumes "floorplan_with_config graph d config solver opts = Some (Inr a)"
  shows "sound_assignment graph d config a"
  using floorplan_returns [of graph d config solver opts] assms by auto

lemma demo_atomic: "atomic_regions demo_device = demo_regions"
  by (simp add: atomic_regions_def demo_regions_def demo_device_def demo_slot_def device_slot_def upt_rec)

lemma demo_solved:
  "\<exists>it. solve_iteration demo_design demo_device demo_regions None demo_config (Finite 1) ideal_solver demo_opts = Some (Inr it) \<and>
     length (si_placements it) = 2 \<and> set (si_placements it) \<subseteq> set demo_regions"
proof -
  have c: "retry_ceiling demo_config = Finite 1" by (simp add: demo_config_def)
  have "usage_ladder (Finite 1) (Finite 1) = Some [Finite 1]" by (simp add: usage_ladder_def ladder_loop.simps)
  then obtain r where r: "solve_iteration demo_design demo_device demo_regions None demo_config (Finite 1) ideal_solver demo_opts = Some r"
    and low: "lowest_placement (legal_placement demo_design demo_device demo_regions demo_areas None (cfg_constraints demo_config)
      (find_cuts_for_regions demo_device demo_regions)) [Finite 1] r"
    using iteration_exact [of 1 1, OF _ _ _ c demo_iteration ideal_solver_exact] by auto
  then obtain it where it: "r = Inr it" "legal_placement demo_design demo_device demo_regions demo_areas None (cfg_constraints demo_config)
      (find_cuts_for_regions demo_device demo_regions) (Finite 1) (si_placements it)"
    using demo_legal by (cases r) (auto simp: lowest_placement_def split: fault.splits)
  have "length (si_placements it) = length (vertices demo_design)" "\<forall>i < length (vertices demo_design). si_placements it ! i \<in> set demo_regions"
    using it(2) by (auto simp: legal_placement_def)
  then show ?thesis using r it(1) by (auto simp: demo_design_def in_set_conv_nth)
qed

lemma demo_complete:
  assumes "length ps = 2" and "set ps \<subseteq> set demo_regions"
  shows "\<exists>a. complete_assignment demo_design ps = Inr a"
proof -
  obtain p q where "ps = [p, q]" using assms(1) by (auto simp: numeral_2_eq_2 length_Suc_conv)
  then show ?thesis using assms(2)
    by (auto simp: demo_regions_def complete_assignment_def demo_design_def demo_place_def assign_vertex_def Coor_slot_def coor_width_def
        coor_height_def bt_get_def Area_default_def Let_def area_checked_add_def area_checked_add_scaled_def add_scaled_def checked_mul_def
        checked_add_def fits_def ok_or_def split: option.splits)
qed

theorem placement_sound_witness:
  "\<exists>a. floorplan_with_config demo_design demo_device demo_config ideal_solver demo_opts = Some (Inr a) \<and>
     sound_assignment demo_design demo_device demo_config a \<and> length (as_regions a) = 2"
proof -
  obtain it where it: "solve_iteration demo_design demo_device demo_regions None demo_config (Finite 1) ideal_solver demo_opts = Some (Inr it)"
      "length (si_placements it) = 2" "set (si_placements it) \<subseteq> set demo_regions" using demo_solved by blast
  obtain a where a: "complete_assignment demo_design (si_placements it) = Inr a" using demo_complete [OF it(2,3)] by blast
  have cfg: "validate_config demo_config = Inr ()" "strategy demo_config = Flat" "usage_limit demo_config = Finite 1"
    by (simp_all add: demo_config_def validate_config_def validate_limit_def check_def PlacementConstraints_default_def)
  have "floorplan_with_config demo_design demo_device demo_config ideal_solver demo_opts = Some (Inr a)"
    unfolding floorplan_with_config_def cfg demo_atomic it(1) sum.case old.unit.case by (simp add: resolve_strategy_def bindI_def a map_err_def)
  note run = this
  have sound: "sound_assignment demo_design demo_device demo_config a" by (rule placement_sound [OF run])
  then have "length (as_regions a) = length (vertices demo_design)" unfolding sound_assignment_def by blast
  then have "length (as_regions a) = 2" by (simp add: demo_design_def)
  then show ?thesis using run sound by blast
qed

end
