(* ===== verification/Fp_Build.thy ===== *)
theory Fp_Build
  imports Fp_Graph Ir_Transforms
begin

text \<open>
  \<^verbatim>\<open>tapa-core/tapa-floorplan/src/graph\<close>: the construction of the placement graph from a flattened task graph
  (\<^verbatim>\<open>build.rs\<close>), the names and memory interfaces it validates on the way (\<^verbatim>\<open>validate.rs\<close>), and the views of a
  built graph that planning uses (\<^verbatim>\<open>query.rs\<close>).  A builder is passed from step to step; the two hash maps are only
  looked up, so they are \<open>btree\<close>s.  \<open>Panicked\<close> is an \<^verbatim>\<open>expect\<close>, an index or an \<^verbatim>\<open>unreachable!\<close> of the source.
\<close>

section \<open>Orders of the map keys\<close>

instantiation AxiEndpoint_ext :: (linorder) linorder
begin

definition less_eq_AxiEndpoint_ext :: "'a AxiEndpoint_ext \<Rightarrow> 'a AxiEndpoint_ext \<Rightarrow> bool" where
  "less_eq_AxiEndpoint_ext a b \<longleftrightarrow>
     (axi_instance a, axi_port a, axi_top_port a, AxiEndpoint.more a) \<le> (axi_instance b, axi_port b, axi_top_port b, AxiEndpoint.more b)"

definition less_AxiEndpoint_ext :: "'a AxiEndpoint_ext \<Rightarrow> 'a AxiEndpoint_ext \<Rightarrow> bool" where
  "less_AxiEndpoint_ext a b \<longleftrightarrow> a \<le> b \<and> \<not> b \<le> a"

instance
proof
  fix a b :: "'a AxiEndpoint_ext"
  assume "a \<le> b" "b \<le> a"
  then show "a = b" unfolding less_eq_AxiEndpoint_ext_def by (intro AxiEndpoint.equality) auto
qed (auto simp: less_eq_AxiEndpoint_ext_def less_AxiEndpoint_ext_def)

end

fun bank_rank :: "MemoryBank \<Rightarrow> nat \<times> nat" where
  "bank_rank (MemoryBank kind index) = (case kind of Hbm \<Rightarrow> 0 | Ddr \<Rightarrow> 1, index)"

lemma bank_rank_inj: "bank_rank a = bank_rank b \<Longrightarrow> a = b"
  by (cases a; cases b) (auto split: MemoryKind.splits)

instantiation MemoryBank :: linorder
begin

definition less_eq_MemoryBank :: "MemoryBank \<Rightarrow> MemoryBank \<Rightarrow> bool" where
  "less_eq_MemoryBank a b \<longleftrightarrow> bank_rank a \<le> bank_rank b"

definition less_MemoryBank :: "MemoryBank \<Rightarrow> MemoryBank \<Rightarrow> bool" where
  "less_MemoryBank a b \<longleftrightarrow> bank_rank a < bank_rank b"

instance
  by standard (auto simp: less_eq_MemoryBank_def less_MemoryBank_def bank_rank_inj)

end

section \<open>Errors\<close>

datatype GraphError =
    GraphMissingTop string
  | MissingTaskDef string
  | UnresolvedFifoWidth string
  | FifoWidthMismatch string nat nat
  | NameConflict string string string
  | UnanchoredFifo string
  | DanglingFifoEndpoint string string string nat
  | ResourceOverflow string
  | PlacementWidthOverflow string
  | MissingHostRegion string string
  | MissingMemoryInterface AxiEndpoint
  | UnknownMemoryInterface AxiEndpoint
  | DuplicateMemoryInterface string string
  | UnsupportedMemoryInterface string string
  | InvalidAxiWidth string string AxiChannel nat
  | UnrepresentableStreamName string string
  | DuplicateVertex string
  | DuplicateCanonicalName string
  | SanitizedNameCollision string string string
  | GeneratedNameCollision string string
  | ScalarMetadata string string string
  | ControlWidthOverflow string ControlChannel

record ControlInterface =
  has_s_axi_control :: bool

definition CONTROL_S_AXI_INSTANCE :: string where
  "CONTROL_S_AXI_INSTANCE = ''control_s_axi_U''"

text \<open>The names the debug format prints.\<close>

fun axi_debug :: "AxiChannel \<Rightarrow> string" where
  "axi_debug ReadAddress = ''ReadAddress''"
| "axi_debug ReadData = ''ReadData''"
| "axi_debug WriteAddress = ''WriteAddress''"
| "axi_debug WriteData = ''WriteData''"
| "axi_debug WriteResponse = ''WriteResponse''"

fun control_debug :: "ControlChannel \<Rightarrow> string" where
  "control_debug Launch = ''Launch''"
| "control_debug Reset = ''Reset''"
| "control_debug Completion = ''Completion''"

definition quoted :: "string \<Rightarrow> string" where
  "quoted s = ''`'' @ s @ ''`''"

section \<open>The children of the top task\<close>

text \<open>Instances are visited lazily: an index beyond 32 bits panics when it is reached.\<close>

definition child_instances :: "Task \<Rightarrow> (string \<times> string \<times> nat \<times> TaskInstance) list" where
  "child_instances top_task =
     concat (map (\<lambda>(definition_name, instances).
       map (\<lambda>(index, inst). (definition_name, canonical_name inst definition_name index, index, inst)) (List.enumerate 0 instances)) (task_tasks top_task))"

definition for_children :: "('s \<Rightarrow> string \<Rightarrow> string \<Rightarrow> nat \<Rightarrow> TaskInstance \<Rightarrow> 'e fault + 's) \<Rightarrow> 's \<Rightarrow> Task \<Rightarrow> 'e fault + 's" where
  "for_children f s top_task =
     foldR (\<lambda>s (definition_name, canonical, index, inst). if fits 32 index then f s definition_name canonical index inst else Inl Panicked)
       s (child_instances top_task)"

section \<open>Occupied names\<close>

record OccupiedName =
  occ_owner :: string
  occ_description :: string

type_synonym Occupied = "(string, OccupiedName) btree"

definition occupy :: "Occupied \<Rightarrow> string \<Rightarrow> string \<Rightarrow> string \<Rightarrow> GraphError fault + Occupied" where
  "occupy occupied name owner description =
     (case bt_get occupied name of
        Some existing \<Rightarrow>
          if occ_owner existing \<noteq> owner then Inl (Err (NameConflict name (occ_description existing) description)) else Inr occupied
      | None \<Rightarrow> Inr (bt_insert name \<lparr>occ_owner = owner, occ_description = description\<rparr> occupied))"

definition reserve_generated_name :: "Occupied \<Rightarrow> string \<Rightarrow> string \<Rightarrow> GraphError fault + Occupied" where
  "reserve_generated_name occupied generated owner =
     (case bt_get occupied generated of
        Some existing \<Rightarrow> Inl (Err (GeneratedNameCollision generated (occ_description existing)))
      | None \<Rightarrow> Inr (bt_insert generated \<lparr>occ_owner = generated, occ_description = owner\<rparr> occupied))"

definition occupy_vertex :: "Occupied \<Rightarrow> Vertex \<Rightarrow> GraphError fault + Occupied" where
  "occupy_vertex occupied vertex =
     (let description = ''placement vertex '' @ quoted (v_name vertex); owner = ''vertex:'' @ v_name vertex in
      bindR (occupy occupied (v_name vertex) owner description) (\<lambda>occupied.
        occupy occupied (sanitize_identifier_name (v_name vertex)) owner description))"

definition occupy_fifo :: "Occupied \<Rightarrow> string \<Rightarrow> GraphError fault + Occupied" where
  "occupy_fifo occupied fifo =
     (let description = ''stream '' @ quoted fifo; owner = ''stream:'' @ fifo; rtl = sanitize_array_name fifo @ ''_fifo'' in
      if sanitize_identifier_name rtl \<noteq> rtl then Inl (Err (UnrepresentableStreamName fifo rtl))
      else bindR (occupy occupied fifo owner description) (\<lambda>occupied. occupy occupied rtl owner description))"

definition occupy_alias :: "Task \<Rightarrow> Occupied \<Rightarrow> CoLocatedInstance \<Rightarrow> GraphError fault + Occupied" where
  "occupy_alias top_task occupied a =
     (if bt_contains (task_fifos top_task) (co_name a) then Inr occupied
      else let description = ''co-located RTL instance '' @ quoted (co_name a); owner = ''alias:'' @ co_name a in
        bindR (occupy occupied (co_name a) owner description) (\<lambda>occupied.
          occupy occupied (sanitize_identifier_name (co_name a)) owner description))"

definition occupied_rtl_names :: "Task \<Rightarrow> Vertex list \<Rightarrow> CoLocatedInstance list \<Rightarrow> GraphError fault + Occupied" where
  "occupied_rtl_names top_task vs aliases =
     bindR (foldR occupy_vertex [] vs) (\<lambda>occupied.
     bindR (foldR occupy_fifo occupied (bt_keys (task_fifos top_task))) (\<lambda>occupied.
     foldR (occupy_alias top_task) occupied aliases))"

definition reserve_axi_pipeline_names :: "Occupied \<Rightarrow> MemoryInterface \<Rightarrow> GraphError fault + Occupied" where
  "reserve_axi_pipeline_names occupied interface =
     foldR (\<lambda>occupied (channel, _). reserve_generated_name occupied (axi_pipeline_instance_name (mi_endpoint interface) channel)
         (axi_debug channel @ '' AXI pipeline for '' @ quoted (axi_top_port (mi_endpoint interface))))
       occupied (enabled_channels (mi_channel_widths interface))"

definition validate_sanitized_instance_names :: "Task \<Rightarrow> GraphError fault + unit" where
  "validate_sanitized_instance_names top_task =
     bindR (for_children (\<lambda>seen _ canonical _ _.
       let sanitized = sanitize_identifier_name canonical; seen' = bt_insert sanitized canonical seen in
       case bt_get seen sanitized of
         Some first \<Rightarrow> if first \<noteq> canonical then Inl (Err (SanitizedNameCollision first canonical sanitized)) else Inr seen'
       | None \<Rightarrow> Inr seen') [] top_task) (\<lambda>_. Inr ())"

text \<open>The upper task occurrences below the top, whose controllers are generated.\<close>

definition control_scopes :: "FlatProjection option \<Rightarrow> TaskOccurrence list" where
  "control_scopes projection =
     (case projection of
        None \<Rightarrow> []
      | Some p \<Rightarrow> filter (\<lambda>o'. occ_parent o' \<noteq> None \<and> occ_flat_endpoint o' = None) (fp_occurrences p))"

definition scope_names :: "TaskOccurrence \<Rightarrow> string list" where
  "scope_names scope = [scope_controller_instance_name (occ_global_name scope), local_controller_instance_name (occ_global_name scope)]"

definition reserve_child_names :: "Occupied \<Rightarrow> string \<Rightarrow> TaskInstance \<Rightarrow> GraphError fault + Occupied" where
  "reserve_child_names occupied canonical inst =
     bindR (reserve_generated_name occupied (local_controller_instance_name canonical) (''local controller for '' @ quoted canonical)) (\<lambda>occupied.
     foldR (\<lambda>occupied channel. reserve_generated_name occupied (control_pipeline_instance_name canonical channel)
         (control_debug channel @ '' pipeline for '' @ quoted canonical))
       occupied ([Launch, Reset] @ (if inst_step inst \<ge> 0 then [Completion] else [])))"

definition validate_control_names :: "Task \<Rightarrow> MemoryInterface list \<Rightarrow> ControlInterface \<Rightarrow> Vertex list \<Rightarrow> CoLocatedInstance list
    \<Rightarrow> FlatProjection option \<Rightarrow> GraphError fault + unit" where
  "validate_control_names top_task memory control vs aliases projection =
     bindR (occupied_rtl_names top_task vs aliases) (\<lambda>occupied.
     bindR (foldR reserve_axi_pipeline_names occupied memory) (\<lambda>occupied.
     bindR (reserve_generated_name occupied global_controller_instance_name ''global controller'') (\<lambda>occupied.
     bindR (if has_s_axi_control control then reserve_generated_name occupied CONTROL_S_AXI_INSTANCE ''S-AXI control block'' else Inr occupied) (\<lambda>occupied.
     bindR (for_children (\<lambda>occupied _ canonical _ inst. reserve_child_names occupied canonical inst) occupied top_task) (\<lambda>occupied.
     bindR (foldR (\<lambda>occupied scope. foldR (\<lambda>occupied name. reserve_generated_name occupied name
         (''upper controller for '' @ quoted (occ_global_name scope))) occupied (scope_names scope)) occupied (control_scopes projection)) (\<lambda>_.
     Inr ()))))))"

section \<open>Memory interfaces\<close>

record ExpectedMemoryEndpoint =
  ex_task_vertex :: nat
  ex_child_category :: ArgCategory

definition validate_memory_interface_shape :: "MemoryInterface \<Rightarrow> ExpectedMemoryEndpoint \<Rightarrow> GraphError fault + unit" where
  "validate_memory_interface_shape interface expected =
     (let endpoint = mi_endpoint interface;
          dotted = axi_instance endpoint @ ''.'' @ axi_port endpoint;
          unsupported = (\<lambda>detail. Err (UnsupportedMemoryInterface (axi_top_port endpoint) detail));
          widths = mi_channel_widths interface;
          read_address = (w_read_address widths \<noteq> 0); read_data = (w_read_data widths \<noteq> 0);
          write_address = (w_write_address widths \<noteq> 0); write_data = (w_write_data widths \<noteq> 0); write_response = (w_write_response widths \<noteq> 0)
      in bindR (case (ex_child_category expected, mi_bridge_instance interface) of
             (Mmap, Some _) \<Rightarrow> Inl (unsupported (''plain mmap endpoint '' @ quoted dotted @ '' cannot own an async bridge''))
           | (AsyncMmap, Some actual) \<Rightarrow>
               (let stable = async_mmap_bridge_instance_name (axi_top_port endpoint) in
                check (actual = stable) (unsupported (''async bridge name '' @ quoted actual @ '' does not match stable hierarchy '' @ quoted stable)))
           | (Mmap, None) \<Rightarrow> Inr ()
           | (AsyncMmap, None) \<Rightarrow> Inr ()
           | _ \<Rightarrow> Inl Panicked) (\<lambda>_.
         bindR (check (read_address = read_data) (unsupported (''endpoint '' @ quoted dotted @ '' has a partial read channel group''))) (\<lambda>_.
         bindR (check (write_address = write_data \<and> write_address = write_response)
           (unsupported (''endpoint '' @ quoted dotted @ '' has a partial write channel group''))) (\<lambda>_.
         check (mi_bridge_instance interface \<noteq> None \<or> read_address \<and> write_address)
           (unsupported (''direct compact M-AXI endpoint '' @ quoted dotted @ '' must expose all five channels''))))))"

type_synonym ExpectedEndpoints = "(AxiEndpoint, ExpectedMemoryEndpoint) btree"

type_synonym PortUsers = "(string, string list) btree"

text \<open>One argument of a child instance.\<close>

definition expect_argument :: "Task \<Rightarrow> Task \<Rightarrow> string \<Rightarrow> nat \<Rightarrow> ExpectedEndpoints \<times> PortUsers \<Rightarrow> string \<times> Arg
    \<Rightarrow> GraphError fault + ExpectedEndpoints \<times> PortUsers" where
  "expect_argument top_task task instance_name task_vertex acc x =
     (case acc of (expected, users) \<Rightarrow> case x of (child_port, argument) \<Rightarrow>
      if \<not> is_direct_mmap (arg_cat argument) then Inr acc
      else let dotted = instance_name @ ''.'' @ child_port;
               unsupported = (\<lambda>port detail. Err (UnsupportedMemoryInterface port detail)) in
        bindR (ok_or (unsupported child_port (''child endpoint '' @ quoted dotted @ '' binds a constant, not a top-level mmap'')) (arg_name argument)) (\<lambda>parent_port.
        bindR (ok_or (unsupported parent_port (''child endpoint '' @ quoted dotted @ '' has no port metadata'')) (task_port task child_port)) (\<lambda>child.
        bindR (ok_or (unsupported parent_port ''top-level mmap port metadata is missing'') (task_port top_task parent_port)) (\<lambda>parent.
        bindR (check (port_cat child = arg_cat argument \<and> port_cat parent = Mmap)
          (unsupported parent_port (''child binding category '' @ quoted (category_str (arg_cat argument)) @ '' must match child metadata '' @
             quoted (category_str (port_cat child)) @ '' and connect to a plain top mmap''))) (\<lambda>_.
        bindR (check (port_chan_count child = None \<and> port_chan_size child = None \<and> port_chan_count parent = None \<and> port_chan_size parent = None)
          (unsupported parent_port ''hierarchical mmap channels are not modeled'')) (\<lambda>_.
        let endpoint = \<lparr>axi_instance = instance_name, axi_port = child_port, axi_top_port = parent_port\<rparr>;
            previous = (case bt_get users parent_port of None \<Rightarrow> [] | Some us \<Rightarrow> us)
        in Inr (bt_insert endpoint \<lparr>ex_task_vertex = task_vertex, ex_child_category = port_cat child\<rparr> expected,
                bt_insert parent_port (previous @ [dotted]) users)))))))"

fun join_names :: "string \<Rightarrow> string list \<Rightarrow> string" where
  "join_names separator [] = []"
| "join_names separator [x] = x"
| "join_names separator (x # y # xs) = x @ separator @ join_names separator (y # xs)"

type_synonym Endpoints = "(string \<times> nat, nat) btree"

definition expected_memory_interfaces :: "TaskGraph \<Rightarrow> Task \<Rightarrow> Endpoints \<Rightarrow> GraphError fault + ExpectedEndpoints" where
  "expected_memory_interfaces flat top_task task_endpoints =
     bindR (for_children (\<lambda>acc definition_name canonical index inst.
       bindR (ok_or (Err (MissingTaskDef definition_name)) (bt_get (g_tasks flat) definition_name)) (\<lambda>task.
       bindR (ok_or Panicked (bt_get task_endpoints (definition_name, index))) (\<lambda>task_vertex.
       foldR (expect_argument top_task task canonical task_vertex) acc (inst_args inst)))) ([], []) top_task) (\<lambda>(expected, users).
     case find (\<lambda>(_, us). length us > 1) users of
       Some (top_port, us) \<Rightarrow> Inl (Err (UnsupportedMemoryInterface top_port (''shared by '' @ join_names '', '' us @ '' child endpoints'')))
     | None \<Rightarrow> Inr expected)"

section \<open>The builder\<close>

record DirectedWidth =
  dw_forward :: nat
  dw_reverse :: nat

record FloorGraphBuilder =
  fb_vertices :: "Vertex list"
  fb_index :: "(string, nat) btree"
  fb_task_endpoints :: Endpoints
  fb_placement_widths :: "(nat \<times> nat, DirectedWidth) btree"
  fb_co_located :: "CoLocatedInstance list"

definition FloorGraphBuilder_default :: FloorGraphBuilder where
  "FloorGraphBuilder_default = \<lparr>fb_vertices = [], fb_index = [], fb_task_endpoints = [], fb_placement_widths = [], fb_co_located = []\<rparr>"

definition co_locate :: "string \<Rightarrow> nat \<Rightarrow> FloorGraphBuilder \<Rightarrow> FloorGraphBuilder" where
  "co_locate name host b = b\<lparr>fb_co_located := fb_co_located b @ [\<lparr>co_name = name, co_host = host\<rparr>]\<rparr>"

definition push_vertex :: "Vertex \<Rightarrow> FloorGraphBuilder \<Rightarrow> FloorGraphBuilder" where
  "push_vertex vertex b =
     b\<lparr>fb_index := bt_insert (v_name vertex) (length (fb_vertices b)) (fb_index b), fb_vertices := fb_vertices b @ [vertex]\<rparr>"

definition add_task_vertices :: "TaskGraph \<Rightarrow> Task \<Rightarrow> FloorGraphBuilder \<Rightarrow> GraphError fault + FloorGraphBuilder" where
  "add_task_vertices flat top_task b =
     for_children (\<lambda>b definition_name name index _.
       bindR (ok_or (Err (MissingTaskDef definition_name)) (bt_get (g_tasks flat) definition_name)) (\<lambda>def.
       let area = (case task_self_area def of None \<Rightarrow> Area_default | Some a \<Rightarrow> a) in
       bindR (check (\<not> bt_contains (fb_index b) name) (Err (DuplicateCanonicalName name))) (\<lambda>_.
       Inr (push_vertex \<lparr>v_name = name, v_area = area, required_tag = None, materialize = True\<rparr>
         (b\<lparr>fb_task_endpoints := bt_insert (definition_name, index) (length (fb_vertices b)) (fb_task_endpoints b)\<rparr>))))) b top_task"

definition add_placement_width :: "nat \<Rightarrow> nat \<Rightarrow> nat \<Rightarrow> FloorGraphBuilder \<Rightarrow> FloorGraphBuilder option" where
  "add_placement_width src dst width b =
     (let key = (min src dst, max src dst);
          entry = (case bt_get (fb_placement_widths b) key of None \<Rightarrow> \<lparr>dw_forward = 0, dw_reverse = 0\<rparr> | Some e \<Rightarrow> e)
      in Option.bind (if src < dst
             then map_option (\<lambda>w. entry\<lparr>dw_forward := w\<rparr>) (checked_add 32 (dw_forward entry) width)
             else map_option (\<lambda>w. entry\<lparr>dw_reverse := w\<rparr>) (checked_add 32 (dw_reverse entry) width)) (\<lambda>entry.
         Option.bind (checked_add 32 (dw_forward entry) (dw_reverse entry)) (\<lambda>_.
           Some (b\<lparr>fb_placement_widths := bt_insert key entry (fb_placement_widths b)\<rparr>))))"

subsection \<open>FIFOs\<close>

record FifoArgWidths =
  faw_producer :: "nat option"
  faw_consumer :: "nat option"

definition get_or_insert :: "nat \<Rightarrow> nat option \<Rightarrow> nat option" where
  "get_or_insert x o' = (case o' of None \<Rightarrow> Some x | Some y \<Rightarrow> Some y)"

definition index_binding :: "(string, FifoArgWidths) btree \<Rightarrow> PortBinding \<Rightarrow> (string, FifoArgWidths) btree" where
  "index_binding index binding =
     (if \<not> is_stream (arg_cat (pb_argument binding)) then index
      else case (pb_port binding, arg_name (pb_argument binding)) of
        (Some port, Some fifo) \<Rightarrow>
          (let entry = (case bt_get index fifo of None \<Rightarrow> \<lparr>faw_producer = None, faw_consumer = None\<rparr> | Some e \<Rightarrow> e)
           in bt_insert fifo (if is_output_stream (arg_cat (pb_argument binding))
                then entry\<lparr>faw_producer := get_or_insert (port_width port) (faw_producer entry)\<rparr>
                else entry\<lparr>faw_consumer := get_or_insert (port_width port) (faw_consumer entry)\<rparr>) index)
      | _ \<Rightarrow> index)"

definition index_fifo_arg_widths :: "TaskGraph \<Rightarrow> Task \<Rightarrow> (string, FifoArgWidths) btree" where
  "index_fifo_arg_widths flat top_task = foldl index_binding [] (graph_bindings flat top_task)"

definition resolve_fifo_data_width :: "(string, FifoArgWidths) btree \<Rightarrow> string \<Rightarrow> GraphError fault + nat" where
  "resolve_fifo_data_width index fifo_name =
     (let widths = (case bt_get index fifo_name of None \<Rightarrow> \<lparr>faw_producer = None, faw_consumer = None\<rparr> | Some w \<Rightarrow> w) in
      bindR (case (faw_producer widths, faw_consumer widths) of
          (Some producer, Some consumer) \<Rightarrow>
            if producer \<noteq> consumer then Inl (Err (FifoWidthMismatch fifo_name producer consumer)) else Inr producer
        | (Some producer, None) \<Rightarrow> Inr producer
        | (None, Some consumer) \<Rightarrow> Inr consumer
        | (None, None) \<Rightarrow> Inl (Err (UnresolvedFifoWidth fifo_name))) (\<lambda>payload.
      ok_or (Err (UnresolvedFifoWidth fifo_name)) (checked_add 32 payload 1)))"

definition resolve_fifo_endpoint :: "Endpoints \<Rightarrow> string \<Rightarrow> string \<Rightarrow> EndpointRef option \<Rightarrow> GraphError fault + nat option" where
  "resolve_fifo_endpoint endpoints fifo_name role endpoint =
     (case endpoint of
        None \<Rightarrow> Inr None
      | Some reference \<Rightarrow>
          bindR (ok_or (Err (DanglingFifoEndpoint fifo_name role (ep_task reference) (ep_index reference)))
            (bt_get endpoints (ep_task reference, ep_index reference))) (\<lambda>vertex. Inr (Some vertex)))"

definition charge_vertex :: "nat \<Rightarrow> Area \<Rightarrow> GraphError \<Rightarrow> FloorGraphBuilder \<Rightarrow> GraphError fault + FloorGraphBuilder" where
  "charge_vertex host area overflow b =
     (if host < length (fb_vertices b)
      then bindR (ok_or (Err overflow) (area_checked_add (v_area (fb_vertices b ! host)) area)) (\<lambda>charged.
        Inr (b\<lparr>fb_vertices := (fb_vertices b)[host := (fb_vertices b ! host)\<lparr>v_area := charged\<rparr>]\<rparr>))
      else Inl Panicked)"

definition cluster_fifo :: "(string, FifoArgWidths) btree \<Rightarrow> FloorGraphBuilder \<times> Stream list \<Rightarrow> string \<times> InterconnectDefinition
    \<Rightarrow> GraphError fault + FloorGraphBuilder \<times> Stream list" where
  "cluster_fifo fifo_widths acc x =
     (case acc of (b, links) \<Rightarrow> case x of (fifo_name, fifo) \<Rightarrow>
      case ic_depth fifo of
        None \<Rightarrow> Inr acc
      | Some depth \<Rightarrow>
          bindR (resolve_fifo_data_width fifo_widths fifo_name) (\<lambda>data_width.
          bindR (ok_or (Err (UnresolvedFifoWidth fifo_name)) (checked_add 32 data_width 2)) (\<lambda>physical.
          bindR (resolve_fifo_endpoint (fb_task_endpoints b) fifo_name ''producer'' (ic_produced_by fifo)) (\<lambda>src.
          bindR (resolve_fifo_endpoint (fb_task_endpoints b) fifo_name ''consumer'' (ic_consumed_by fifo)) (\<lambda>dst.
          bindR (ok_or (Err (UnanchoredFifo fifo_name)) (case dst of Some h \<Rightarrow> Some h | None \<Rightarrow> src)) (\<lambda>host.
          bindR (charge_vertex host (fifo_area data_width (floorplanned_fifo_storage_depth depth)) (ResourceOverflow fifo_name) b) (\<lambda>b.
          let b = co_locate fifo_name host b in
          case (src, dst) of
            (Some src, Some dst) \<Rightarrow>
              if src \<noteq> dst
              then bindR (ok_or (Err (PlacementWidthOverflow fifo_name)) (add_placement_width src dst physical b)) (\<lambda>b.
                Inr (b, links @ [\<lparr>s_link = fifo_name, s_src = src, s_dst = dst, s_width = physical, s_data_width = data_width, s_depth = depth\<rparr>]))
              else Inr (b, links)
          | _ \<Rightarrow> Inr (b, links))))))))"

definition cluster_internal_fifos :: "TaskGraph \<Rightarrow> Task \<Rightarrow> FloorGraphBuilder \<Rightarrow> GraphError fault + FloorGraphBuilder \<times> Stream list" where
  "cluster_internal_fifos flat top_task b = foldR (cluster_fifo (index_fifo_arg_widths flat top_task)) (b, []) (task_fifos top_task)"

subsection \<open>External memory\<close>

fun bank_kind_name :: "MemoryKind \<Rightarrow> string" where
  "bank_kind_name Hbm = ''hbm''"
| "bank_kind_name Ddr = ''ddr''"

definition bank_terminal_name :: "MemoryBank \<Rightarrow> string" where
  "bank_terminal_name bank = ''__tapa_bank_'' @ bank_kind_name (bank_kind bank) @ ''_'' @ show_nat (bank_index bank)"

type_synonym Provided = "(AxiEndpoint, MemoryInterface) btree"

definition provide_interface :: "Provided \<Rightarrow> MemoryInterface \<Rightarrow> GraphError fault + Provided" where
  "provide_interface provided interface =
     (let endpoint = mi_endpoint interface in
      if bt_contains provided endpoint then Inl (Err (DuplicateMemoryInterface (axi_instance endpoint) (axi_port endpoint)))
      else Inr (bt_insert endpoint interface provided))"

definition match_interfaces :: "ExpectedEndpoints \<Rightarrow> Provided \<Rightarrow> GraphError fault + unit" where
  "match_interfaces expected provided =
     bindR (foldR (\<lambda>_ endpoint. check (bt_contains provided endpoint) (Err (MissingMemoryInterface endpoint))) () (bt_keys expected)) (\<lambda>_.
     foldR (\<lambda>_ endpoint. check (bt_contains expected endpoint) (Err (UnknownMemoryInterface endpoint))) () (bt_keys provided))"

definition claim_interface :: "Provided \<Rightarrow> FloorGraphBuilder \<times> Occupied \<Rightarrow> AxiEndpoint \<times> ExpectedMemoryEndpoint
    \<Rightarrow> GraphError fault + FloorGraphBuilder \<times> Occupied" where
  "claim_interface provided acc x =
     (case acc of (b, occupied) \<Rightarrow> case x of (endpoint, expected) \<Rightarrow>
      bindR (ok_or Panicked (bt_get provided endpoint)) (\<lambda>interface.
      bindR (validate_memory_interface_shape interface expected) (\<lambda>_.
      bindR (reserve_axi_pipeline_names occupied interface) (\<lambda>occupied.
      case mi_bridge_instance interface of
        None \<Rightarrow> Inr (b, occupied)
      | Some bridge \<Rightarrow>
          bindR (reserve_generated_name occupied bridge (''async mmap bridge for '' @ quoted (axi_top_port endpoint))) (\<lambda>occupied.
            Inr (co_locate bridge (ex_task_vertex expected) b, occupied))))))"

type_synonym Terminals = "(MemoryBank, nat) btree"

definition bank_terminal :: "MemoryBank \<Rightarrow> FloorGraphBuilder \<times> Terminals \<Rightarrow> GraphError fault + nat \<times> FloorGraphBuilder \<times> Terminals" where
  "bank_terminal bank acc =
     (case acc of (b, terminals) \<Rightarrow>
      case bt_get terminals bank of
        Some terminal \<Rightarrow> Inr (terminal, b, terminals)
      | None \<Rightarrow>
          (let name = bank_terminal_name bank; terminal = length (fb_vertices b) in
           bindR (check (\<not> bt_contains (fb_index b) name) (Err (DuplicateVertex name))) (\<lambda>_.
           Inr (terminal, push_vertex \<lparr>v_name = name, v_area = Area_default, required_tag = Some (show_bank bank), materialize = False\<rparr> b,
                bt_insert bank terminal terminals))))"

definition axi_direction :: "AxiChannel \<Rightarrow> nat \<Rightarrow> nat \<Rightarrow> nat \<times> nat" where
  "axi_direction channel task_vertex terminal =
     (case channel of
        ReadData \<Rightarrow> (terminal, task_vertex)
      | WriteResponse \<Rightarrow> (terminal, task_vertex)
      | _ \<Rightarrow> (task_vertex, terminal))"

definition add_axi_channel :: "AxiEndpoint \<Rightarrow> MemoryBank \<Rightarrow> nat \<Rightarrow> nat \<Rightarrow> FloorGraphBuilder \<times> AxiNet list \<Rightarrow> AxiChannel \<times> nat
    \<Rightarrow> GraphError fault + FloorGraphBuilder \<times> AxiNet list" where
  "add_axi_channel endpoint bank task_vertex terminal acc x =
     (case acc of (b, nets) \<Rightarrow> case x of (channel, width) \<Rightarrow>
      bindR (ok_or (Err (InvalidAxiWidth (axi_instance endpoint) (axi_port endpoint) channel width))
        (Option.bind (checked_sub width 2) (\<lambda>payload. if payload > 0 then Some payload else None))) (\<lambda>payload.
      case axi_direction channel task_vertex terminal of (src, dst) \<Rightarrow>
      bindR (ok_or (Err (PlacementWidthOverflow (axi_instance endpoint @ ''.'' @ axi_port endpoint @ '' '' @ axi_debug channel)))
        (add_placement_width src dst width b)) (\<lambda>b.
      Inr (b, nets @ [\<lparr>an_endpoint = endpoint, an_bank = bank, an_channel = channel, an_src = src, an_dst = dst, an_width = width,
        an_payload_width = payload\<rparr>]))))"

definition connect_interface :: "Provided \<Rightarrow> (FloorGraphBuilder \<times> Terminals) \<times> AxiNet list \<Rightarrow> AxiEndpoint \<times> ExpectedMemoryEndpoint
    \<Rightarrow> GraphError fault + (FloorGraphBuilder \<times> Terminals) \<times> AxiNet list" where
  "connect_interface provided acc x =
     (case acc of (bt, nets) \<Rightarrow> case x of (endpoint, expected) \<Rightarrow>
      bindR (ok_or Panicked (bt_get provided endpoint)) (\<lambda>interface.
      let enabled = enabled_channels (mi_channel_widths interface) in
      if enabled = [] then Inr acc
      else bindR (bank_terminal (mi_bank interface) bt) (\<lambda>(terminal, b, terminals).
        bindR (foldR (add_axi_channel endpoint (mi_bank interface) (ex_task_vertex expected) terminal) (b, nets) enabled) (\<lambda>(b, nets).
        Inr ((b, terminals), nets)))))"

definition add_memory_interfaces :: "TaskGraph \<Rightarrow> Task \<Rightarrow> MemoryInterface list \<Rightarrow> FloorGraphBuilder
    \<Rightarrow> GraphError fault + FloorGraphBuilder \<times> AxiNet list" where
  "add_memory_interfaces flat top_task memory b =
     bindR (expected_memory_interfaces flat top_task (fb_task_endpoints b)) (\<lambda>expected.
     bindR (foldR provide_interface [] memory) (\<lambda>provided.
     bindR (match_interfaces expected provided) (\<lambda>_.
     bindR (occupied_rtl_names top_task (fb_vertices b) (fb_co_located b)) (\<lambda>occupied.
     bindR (foldR (claim_interface provided) (b, occupied) expected) (\<lambda>(b, _).
     bindR (foldR (connect_interface provided) ((b, []), []) expected) (\<lambda>((b, _), nets).
     Inr (b, nets)))))))"

subsection \<open>Distributed control\<close>

definition scalar_port_width :: "TaskInstance \<Rightarrow> string \<Rightarrow> nat \<Rightarrow> Port \<Rightarrow> GraphError fault + nat" where
  "scalar_port_width inst instance_name width port =
     bindR (ok_or (Err (ScalarMetadata instance_name (port_name port) ''child scalar port has no instance argument'')) (bt_get (inst_args inst) (port_name port))) (\<lambda>argument.
     bindR (check (is_scalar (arg_cat argument)) (Err (ScalarMetadata instance_name (port_name port)
       (''child port is scalar but its instance argument is '' @ category_str (arg_cat argument))))) (\<lambda>_.
     bindR (check (port_width port \<noteq> 0) (Err (ScalarMetadata instance_name (port_name port) ''scalar width must be greater than zero''))) (\<lambda>_.
     ok_or (Err (ControlWidthOverflow instance_name Launch)) (checked_add 32 width (port_width port)))))"

definition argument_width :: "Task \<Rightarrow> string \<Rightarrow> nat \<Rightarrow> string \<times> Arg \<Rightarrow> GraphError fault + nat" where
  "argument_width task instance_name width x =
     (case x of (name, argument) \<Rightarrow>
      if is_scalar (arg_cat argument) \<and>
         (case find (\<lambda>port. port_name port = name) (task_ports task) of None \<Rightarrow> True | Some port \<Rightarrow> \<not> is_scalar (port_cat port))
      then Inl (Err (ScalarMetadata instance_name name ''instance argument is scalar but child scalar port metadata is missing''))
      else if is_direct_mmap (arg_cat argument)
      then ok_or (Err (ControlWidthOverflow instance_name Launch)) (checked_add 32 width 64)
      else Inr width)"

definition control_launch_width :: "Task \<Rightarrow> TaskInstance \<Rightarrow> string \<Rightarrow> GraphError fault + nat" where
  "control_launch_width task inst instance_name =
     bindR (foldR (scalar_port_width inst instance_name) (if inst_step inst < 0 then 1 else 2) (filter (is_scalar \<circ> port_cat) (task_ports task))) (\<lambda>width.
     foldR (argument_width task instance_name) width (inst_args inst))"

definition add_control_net :: "string \<Rightarrow> ControlChannel \<Rightarrow> nat \<Rightarrow> nat \<Rightarrow> nat \<Rightarrow> FloorGraphBuilder \<times> ControlNet list
    \<Rightarrow> GraphError fault + FloorGraphBuilder \<times> ControlNet list" where
  "add_control_net inst channel src dst width acc =
     (case acc of (b, nets) \<Rightarrow>
      bindR (ok_or (Err (ControlWidthOverflow inst channel)) (add_placement_width src dst width b)) (\<lambda>b.
      Inr (b, nets @ [\<lparr>cn_instance = inst, cn_channel = channel, cn_src = src, cn_dst = dst, cn_width = width\<rparr>])))"

definition control_child :: "TaskGraph \<Rightarrow> nat \<Rightarrow> FloorGraphBuilder \<times> ControlNet list \<Rightarrow> string \<Rightarrow> string \<Rightarrow> nat \<Rightarrow> TaskInstance
    \<Rightarrow> GraphError fault + FloorGraphBuilder \<times> ControlNet list" where
  "control_child flat global acc definition_name canonical index inst =
     (case acc of (b, nets) \<Rightarrow>
      bindR (ok_or (Err (MissingTaskDef definition_name)) (bt_get (g_tasks flat) definition_name)) (\<lambda>task.
      bindR (ok_or Panicked (bt_get (fb_task_endpoints b) (definition_name, index))) (\<lambda>child.
      let b = co_locate (local_controller_instance_name canonical) child b in
      bindR (control_launch_width task inst canonical) (\<lambda>launch_width.
      bindR (add_control_net canonical Launch global child launch_width (b, nets)) (\<lambda>acc.
      bindR (add_control_net canonical Reset global child 1 acc) (\<lambda>acc.
      if inst_step inst \<ge> 0 then add_control_net canonical Completion child global 1 acc else Inr acc))))))"

definition add_control_interface :: "TaskGraph \<Rightarrow> Task \<Rightarrow> MemoryInterface list \<Rightarrow> ControlInterface \<Rightarrow> string option \<Rightarrow> FlatProjection option
    \<Rightarrow> FloorGraphBuilder \<Rightarrow> GraphError fault + FloorGraphBuilder \<times> ControlNet list" where
  "add_control_interface flat top_task memory control global_anchor projection b =
     bindR (validate_control_names top_task memory control (fb_vertices b) (fb_co_located b) projection) (\<lambda>_.
     bindR (check (\<not> bt_contains (fb_index b) global_controller_instance_name)
       (Err (GeneratedNameCollision global_controller_instance_name ''placement vertex''))) (\<lambda>_.
     let global = length (fb_vertices b);
         b = push_vertex \<lparr>v_name = global_controller_instance_name, v_area = Area_default, required_tag = global_anchor, materialize = True\<rparr> b;
         b = (if has_s_axi_control control then co_locate CONTROL_S_AXI_INSTANCE global b else b);
         b = foldl (\<lambda>b name. co_locate name global b) b (concat (map scope_names (control_scopes projection)))
     in for_children (control_child flat global) (b, []) top_task))"

section \<open>The graph\<close>

definition finish_edges :: "(nat \<times> nat, DirectedWidth) btree \<Rightarrow> PlacementEdge list" where
  "finish_edges widths =
     map (\<lambda>((src, dst), w). \<lparr>pe_src = src, pe_dst = dst, pe_width = wrap 32 (dw_forward w + dw_reverse w), forward_width = dw_forward w,
       reverse_width = dw_reverse w\<rparr>) widths"

definition build_with_scopes :: "TaskGraph \<Rightarrow> MemoryInterface list \<Rightarrow> ControlInterface option \<Rightarrow> string option \<Rightarrow> FlatProjection option
    \<Rightarrow> GraphError fault + FloorGraph" where
  "build_with_scopes flat memory control global_anchor projection =
     bindR (ok_or (Err (GraphMissingTop (g_top flat))) (bt_get (g_tasks flat) (g_top flat))) (\<lambda>top_task.
     bindR (add_task_vertices flat top_task FloorGraphBuilder_default) (\<lambda>b.
     bindR (validate_sanitized_instance_names top_task) (\<lambda>_.
     bindR (cluster_internal_fifos flat top_task b) (\<lambda>(b, links).
     bindR (add_memory_interfaces flat top_task memory b) (\<lambda>(b, axi).
     let has_children = (case projection of None \<Rightarrow> task_tasks top_task \<noteq> [] | Some p \<Rightarrow> length (fp_occurrences p) > 1) in
     bindR (case control of
         Some c \<Rightarrow> if has_children then add_control_interface flat top_task memory c global_anchor projection b else Inr (b, [])
       | None \<Rightarrow> Inr (b, [])) (\<lambda>(b, control_links).
     bindR (occupied_rtl_names top_task (fb_vertices b) (fb_co_located b)) (\<lambda>_.
     Inr \<lparr>vertices = fb_vertices b, placement_edges = finish_edges (fb_placement_widths b), streams = links, axi_nets = axi,
       control_nets = control_links, vertex_index = fb_index b, co_located = fb_co_located b\<rparr>)))))))"

definition build_with_projection :: "FlatProjection \<Rightarrow> MemoryInterface list \<Rightarrow> ControlInterface option \<Rightarrow> string option
    \<Rightarrow> GraphError fault + FloorGraph" where
  "build_with_projection projection memory control global_anchor =
     build_with_scopes (fp_flat projection) memory control global_anchor (Some projection)"

section \<open>Published regions\<close>

definition materialize_co_location :: "FloorGraph \<Rightarrow> (string, string) btree \<Rightarrow> CoLocatedInstance \<Rightarrow> GraphError fault + (string, string) btree" where
  "materialize_co_location graph regions a =
     (if co_host a < length (vertices graph)
      then let host = v_name (vertices graph ! co_host a) in
        bindR (ok_or (Err (MissingHostRegion (co_name a) host)) (bt_get regions host)) (\<lambda>region.
        case bt_get regions (co_name a) of
          Some existing \<Rightarrow> Inl (Err (NameConflict (co_name a) (''the instance already placed in '' @ quoted existing)
            (''co-located alias of host '' @ quoted host)))
        | None \<Rightarrow> Inr (bt_insert (co_name a) region regions))
      else Inl Panicked)"

definition materialize_co_locations :: "FloorGraph \<Rightarrow> (string, string) btree \<Rightarrow> GraphError fault + (string, string) btree" where
  "materialize_co_locations graph regions = foldR (materialize_co_location graph) regions (co_located graph)"

definition remove_transient_regions :: "FloorGraph \<Rightarrow> (string, string) btree \<Rightarrow> (string, string) btree" where
  "remove_transient_regions graph regions =
     filter (\<lambda>(name, _). case bt_get (vertex_index graph) name of None \<Rightarrow> True | Some vertex \<Rightarrow> materialize (vertices graph ! vertex)) regions"

end
