(* ===== verification/Fp_Build_Correct.thy ===== *)
theory Fp_Build_Correct
  imports Fp_Build
begin

text \<open>
  The placement graph says what the design says: vertices and hosts are in range, names are unique, and the placement edges carry,
  for every pair of vertices and either direction, exactly the wires of the channels between them.
\<close>

section \<open>The invariant of the builder\<close>

text \<open>A channel is its source, its destination and its width.\<close>

type_synonym Channel = "nat \<times> nat \<times> nat"

definition width_flow :: "Channel list \<Rightarrow> nat \<Rightarrow> nat \<Rightarrow> nat" where
  "width_flow cs s d = (\<Sum>(a, b, w) \<leftarrow> cs. if a = s \<and> b = d then w else 0)"

definition index_exact :: "FloorGraphBuilder \<Rightarrow> bool" where
  "index_exact b \<longleftrightarrow> (\<forall>name i. bt_get (fb_index b) name = Some i \<longleftrightarrow> i < length (fb_vertices b) \<and> v_name (fb_vertices b ! i) = name)"

definition in_range :: "FloorGraphBuilder \<Rightarrow> Channel list \<Rightarrow> bool" where
  "in_range b cs \<longleftrightarrow>
     (\<forall>k i. bt_get (fb_task_endpoints b) k = Some i \<longrightarrow> i < length (fb_vertices b)) \<and>
     (\<forall>a \<in> set (fb_co_located b). co_host a < length (fb_vertices b)) \<and>
     (\<forall>(s, d, w) \<in> set cs. s < length (fb_vertices b) \<and> d < length (fb_vertices b) \<and> s \<noteq> d)"

definition widths_exact :: "FloorGraphBuilder \<Rightarrow> Channel list \<Rightarrow> bool" where
  "widths_exact b cs \<longleftrightarrow>
     bt_ok (fb_placement_widths b) \<and>
     (\<forall>s d e. bt_get (fb_placement_widths b) (s, d) = Some e \<longrightarrow>
        s < d \<and> d < length (fb_vertices b) \<and> dw_forward e = width_flow cs s d \<and> dw_reverse e = width_flow cs d s \<and> dw_forward e + dw_reverse e < 2 ^ 32 \<and>
        (\<exists>w. (s, d, w) \<in> set cs \<or> (d, s, w) \<in> set cs)) \<and>
     (\<forall>(s, d, w) \<in> set cs. bt_get (fb_placement_widths b) (min s d, max s d) \<noteq> None)"

definition builder_inv :: "FloorGraphBuilder \<Rightarrow> Channel list \<Rightarrow> bool" where
  "builder_inv b cs \<longleftrightarrow> index_exact b \<and> in_range b cs \<and> widths_exact b cs"

lemma width_flow_append: "width_flow (cs @ [(a, b, w)]) s d = width_flow cs s d + (if a = s \<and> b = d then w else 0)"
  by (simp add: width_flow_def)

lemma width_flow_none: "(\<And>w. (s, d, w) \<notin> set cs) \<Longrightarrow> width_flow cs s d = 0"
proof (induction cs)
  case (Cons c cs)
  have "width_flow cs s d = 0" using Cons by (metis list.set_intros(2))
  moreover have "(case c of (a, b, w) \<Rightarrow> if a = s \<and> b = d then w else 0) = 0" using Cons(2) [of "snd (snd c)"] by (cases c) auto
  ultimately show ?case by (simp add: width_flow_def)
qed (simp add: width_flow_def)

lemma widths_exact_mono:
  assumes "widths_exact b cs" and "fb_placement_widths b' = fb_placement_widths b" and "length (fb_vertices b) \<le> length (fb_vertices b')"
  shows "widths_exact b' cs"
proof -
  have "d < length (fb_vertices b')" if "bt_get (fb_placement_widths b) (s, d) = Some e" for s d e
    using assms(1,3) that unfolding widths_exact_def by (meson less_le_trans)
  then show ?thesis using assms(1) unfolding widths_exact_def assms(2) by blast
qed

lemma in_range_mono:
  assumes "in_range b cs" and "fb_task_endpoints b' = fb_task_endpoints b" and "fb_co_located b' = fb_co_located b"
    and "length (fb_vertices b) \<le> length (fb_vertices b')"
  shows "in_range b' cs"
  unfolding in_range_def assms(2,3)
proof (intro conjI allI impI ballI)
  show "i < length (fb_vertices b')" if "bt_get (fb_task_endpoints b) k = Some i" for k i
    using assms(1,4) that unfolding in_range_def by (meson less_le_trans)
  show "co_host a < length (fb_vertices b')" if "a \<in> set (fb_co_located b)" for a
    using assms(1,4) that unfolding in_range_def by (meson less_le_trans)
  show "case c of (s, d, w) \<Rightarrow> s < length (fb_vertices b') \<and> d < length (fb_vertices b') \<and> s \<noteq> d" if "c \<in> set cs" for c
    using assms(1,4) that unfolding in_range_def by (cases c) fastforce
qed

lemma builder_inv_default: "builder_inv FloorGraphBuilder_default []"
  by (simp add: builder_inv_def index_exact_def in_range_def widths_exact_def FloorGraphBuilder_default_def bt_get_def)

lemma push_vertex_inv:
  assumes "builder_inv b cs" and "\<not> bt_contains (fb_index b) (v_name vertex)"
  shows "builder_inv (push_vertex vertex b) cs"
proof -
  have "bt_get (fb_index b) (v_name vertex) = None" using assms(2) by (simp add: bt_contains_def)
  moreover have idx: "bt_get (fb_index b) name = Some i \<longleftrightarrow> i < length (fb_vertices b) \<and> v_name (fb_vertices b ! i) = name" for name i
    using assms(1) unfolding builder_inv_def index_exact_def by blast
  ultimately have fresh: "i < length (fb_vertices b) \<Longrightarrow> v_name (fb_vertices b ! i) \<noteq> v_name vertex" for i using idx [of "v_name vertex" i] by auto
  have "bt_get (fb_index (push_vertex vertex b)) name = Some i \<longleftrightarrow> i < length (fb_vertices (push_vertex vertex b)) \<and> v_name (fb_vertices (push_vertex vertex b) ! i) = name" for name i
  proof (cases "i = length (fb_vertices b)")
    case True
    then show ?thesis using idx [of name i] by (auto simp: push_vertex_def bt_get_insert)
  next
    case False
    then show ?thesis using idx [of name i] fresh [of i] by (auto simp: push_vertex_def bt_get_insert nth_append)
  qed
  then have "index_exact (push_vertex vertex b)" by (simp add: index_exact_def)
  moreover have "in_range (push_vertex vertex b) cs"
    by (rule in_range_mono [of b]) (use assms(1) in \<open>simp_all add: builder_inv_def push_vertex_def\<close>)
  moreover have "widths_exact (push_vertex vertex b) cs"
    by (rule widths_exact_mono [of b]) (use assms(1) in \<open>simp_all add: builder_inv_def push_vertex_def\<close>)
  ultimately show ?thesis by (simp add: builder_inv_def)
qed

lemma co_locate_inv: "builder_inv b cs \<Longrightarrow> host < length (fb_vertices b) \<Longrightarrow> builder_inv (co_locate name host b) cs"
  using widths_exact_mono [of b cs "co_locate name host b"] by (auto simp: builder_inv_def index_exact_def in_range_def co_locate_def)

lemma charge_vertex_same:
  assumes "charge_vertex host area e b = Inr b'"
  shows "fb_placement_widths b' = fb_placement_widths b" "length (fb_vertices b') = length (fb_vertices b)" "fb_index b' = fb_index b"
    "fb_task_endpoints b' = fb_task_endpoints b" "fb_co_located b' = fb_co_located b" "map v_name (fb_vertices b') = map v_name (fb_vertices b)"
  using assms by (auto simp: charge_vertex_def bindR_eq_Inr map_update list_update_same_conv split: if_splits)

lemma index_exact_names: "index_exact b \<longleftrightarrow> (\<forall>name i. bt_get (fb_index b) name = Some i \<longleftrightarrow> i < length (map v_name (fb_vertices b)) \<and> map v_name (fb_vertices b) ! i = name)"
  by (auto simp: index_exact_def)

lemma charge_vertex_inv:
  assumes "builder_inv b cs" and "charge_vertex host area e b = Inr b'"
  shows "builder_inv b' cs"
  using assms(1) widths_exact_mono [of b cs b'] unfolding builder_inv_def index_exact_names charge_vertex_same [OF assms(2)] in_range_def by simp

lemma add_placement_width_widths:
  assumes "widths_exact b cs" and "in_range b cs" and "add_placement_width src dst w b = Some b'"
    and "src < length (fb_vertices b)" and "dst < length (fb_vertices b)" and "src \<noteq> dst"
  shows "widths_exact b' (cs @ [(src, dst, w)])"
proof -
  let ?key = "(min src dst, max src dst)" and ?W = "fb_placement_widths b"
  define entry where "entry = (case bt_get ?W ?key of None \<Rightarrow> \<lparr>dw_forward = 0, dw_reverse = 0\<rparr> | Some e \<Rightarrow> e)"
  define entry' where "entry' = (if src < dst then entry\<lparr>dw_forward := dw_forward entry + w\<rparr> else entry\<lparr>dw_reverse := dw_reverse entry + w\<rparr>)"
  have b': "b' = b\<lparr>fb_placement_widths := bt_insert ?key entry' ?W\<rparr>" and sum: "dw_forward entry' + dw_reverse entry' < 2 ^ 32"
    using assms(3) unfolding add_placement_width_def Let_def entry_def [symmetric]
    by (auto simp: entry'_def bind_eq_Some_conv checked_add_Some fits_def split: if_splits)
  have "dw_forward entry = width_flow cs (min src dst) (max src dst) \<and> dw_reverse entry = width_flow cs (max src dst) (min src dst)"
  proof (cases "bt_get ?W ?key")
    case None
    have "(min src dst, max src dst, v) \<notin> set cs \<and> (max src dst, min src dst, v) \<notin> set cs" for v
      using assms(1) None by (fastforce simp: widths_exact_def min_def max_def split: if_splits)
    then show ?thesis using None by (simp add: entry_def width_flow_none)
  next
    case (Some e)
    then show ?thesis using assms(1) by (simp add: widths_exact_def entry_def)
  qed
  then have new: "dw_forward entry' = width_flow (cs @ [(src, dst, w)]) (min src dst) (max src dst) \<and>
      dw_reverse entry' = width_flow (cs @ [(src, dst, w)]) (max src dst) (min src dst)"
    using assms(6) by (auto simp: entry'_def width_flow_append min_def max_def)
  have old: "width_flow (cs @ [(src, dst, w)]) s d = width_flow cs s d \<and> width_flow (cs @ [(src, dst, w)]) d s = width_flow cs d s"
    if "(s, d) \<noteq> ?key" "s < d" for s d
    using that by (auto simp: width_flow_append min_def max_def split: if_splits)
  show ?thesis unfolding widths_exact_def
  proof (intro conjI allI impI)
    show "bt_ok (fb_placement_widths b')" using assms(1) by (simp add: b' widths_exact_def)
    show "\<forall>(s, d, w) \<in> set (cs @ [(src, dst, w)]). bt_get (fb_placement_widths b') (min s d, max s d) \<noteq> None"
      using assms(1) by (auto simp: b' widths_exact_def bt_get_insert)
  next
    fix s d e
    assume e: "bt_get (fb_placement_widths b') (s, d) = Some e"
    have "s < d \<and> d < length (fb_vertices b) \<and> dw_forward e = width_flow (cs @ [(src, dst, w)]) s d \<and> dw_reverse e = width_flow (cs @ [(src, dst, w)]) d s \<and>
        dw_forward e + dw_reverse e < 2 ^ 32 \<and> (\<exists>v. (s, d, v) \<in> set (cs @ [(src, dst, w)]) \<or> (d, s, v) \<in> set (cs @ [(src, dst, w)]))"
    proof (cases "(s, d) = ?key")
      case True
      then have "e = entry'" using e by (simp add: b' bt_get_insert)
      then show ?thesis using True new sum assms(4-6) by (auto simp: min_def max_def split: if_splits)
    next
      case False
      then have "bt_get ?W (s, d) = Some e" using e by (simp add: b' bt_get_insert split: if_splits)
      then have "s < d \<and> d < length (fb_vertices b) \<and> dw_forward e = width_flow cs s d \<and> dw_reverse e = width_flow cs d s \<and>
          dw_forward e + dw_reverse e < 2 ^ 32 \<and> (\<exists>v. (s, d, v) \<in> set cs \<or> (d, s, v) \<in> set cs)"
        using assms(1) unfolding widths_exact_def by blast
      then show ?thesis using old [OF False] by auto
    qed
    then show "s < d" "d < length (fb_vertices b')" "dw_forward e = width_flow (cs @ [(src, dst, w)]) s d" "dw_reverse e = width_flow (cs @ [(src, dst, w)]) d s"
      "dw_forward e + dw_reverse e < 2 ^ 32" "\<exists>v. (s, d, v) \<in> set (cs @ [(src, dst, w)]) \<or> (d, s, v) \<in> set (cs @ [(src, dst, w)])"
      by (simp_all add: b')
  qed
qed

lemma add_placement_width_inv:
  assumes "builder_inv b cs" and "add_placement_width src dst w b = Some b'"
    and "src < length (fb_vertices b)" and "dst < length (fb_vertices b)" and "src \<noteq> dst"
  shows "builder_inv b' (cs @ [(src, dst, w)])"
proof -
  have same: "fb_vertices b' = fb_vertices b" "fb_index b' = fb_index b" "fb_task_endpoints b' = fb_task_endpoints b" "fb_co_located b' = fb_co_located b"
    using assms(2) by (auto simp: add_placement_width_def Let_def bind_eq_Some_conv split: if_splits)
  have "widths_exact b' (cs @ [(src, dst, w)])" using assms(1) by (intro add_placement_width_widths [OF _ _ assms(2-5)]) (simp_all add: builder_inv_def)
  moreover have "index_exact b'" using assms(1) by (simp add: builder_inv_def index_exact_def same)
  moreover have "in_range b' (cs @ [(src, dst, w)])" using assms(1,3-5) by (simp add: builder_inv_def in_range_def same)
  ultimately show ?thesis by (simp add: builder_inv_def)
qed

section \<open>The steps of the builder\<close>

definition stream_channels :: "Stream list \<Rightarrow> Channel list" where
  "stream_channels = map (\<lambda>s. (s_src s, s_dst s, s_width s))"

definition axi_channels_of :: "AxiNet list \<Rightarrow> Channel list" where
  "axi_channels_of = map (\<lambda>n. (an_src n, an_dst n, an_width n))"

definition control_channels :: "ControlNet list \<Rightarrow> Channel list" where
  "control_channels = map (\<lambda>n. (cn_src n, cn_dst n, cn_width n))"

lemmas channel_defs = stream_channels_def axi_channels_of_def control_channels_def

lemma builder_endpoint: "builder_inv b cs \<Longrightarrow> bt_get (fb_task_endpoints b) k = Some i \<Longrightarrow> i < length (fb_vertices b)"
  unfolding builder_inv_def in_range_def by blast

lemma for_children_invariant:
  assumes "for_children f s t = Inr s'" and "I s"
    and "\<And>s d c i inst s'. I s \<Longrightarrow> (d, c, i, inst) \<in> set (child_instances t) \<Longrightarrow> f s d c i inst = Inr s' \<Longrightarrow> I s'"
  shows "I s'"
  using assms(1) unfolding for_children_def
  by (rule foldR_invariant [of _ s _ s' I]) (use assms(2,3) in \<open>auto split: if_splits\<close>)

lemma add_task_vertices_inv:
  assumes "add_task_vertices flat t b = Inr b'" and "builder_inv b []"
  shows "builder_inv b' []"
  using assms(1) unfolding add_task_vertices_def
proof (rule for_children_invariant [where I = "\<lambda>b. builder_inv b []"])
  fix b d c i inst b'
  assume b: "builder_inv b []"
    and step: "bindR (ok_or (Err (MissingTaskDef d)) (bt_get (g_tasks flat) d)) (\<lambda>def.
       let area = (case task_self_area def of None \<Rightarrow> Area_default | Some a \<Rightarrow> a) in
       bindR (check (\<not> bt_contains (fb_index b) c) (Err (DuplicateCanonicalName c))) (\<lambda>_.
       Inr (push_vertex \<lparr>v_name = c, v_area = area, required_tag = None, materialize = True\<rparr>
         (b\<lparr>fb_task_endpoints := bt_insert (d, i) (length (fb_vertices b)) (fb_task_endpoints b)\<rparr>)))) = Inr b'"
  then obtain area where fresh: "\<not> bt_contains (fb_index b) c"
    and b': "b' = push_vertex \<lparr>v_name = c, v_area = area, required_tag = None, materialize = True\<rparr>
         (b\<lparr>fb_task_endpoints := bt_insert (d, i) (length (fb_vertices b)) (fb_task_endpoints b)\<rparr>)"
    by (auto simp: bindR_eq_Inr Let_def)
  define b0 where "b0 = push_vertex \<lparr>v_name = c, v_area = area, required_tag = None, materialize = True\<rparr> b"
  have "builder_inv b0 []" unfolding b0_def by (rule push_vertex_inv [OF b]) (simp add: fresh)
  moreover have "b' = b0\<lparr>fb_task_endpoints := bt_insert (d, i) (length (fb_vertices b)) (fb_task_endpoints b)\<rparr>"
    by (simp add: b' b0_def push_vertex_def)
  moreover have "length (fb_vertices b0) = Suc (length (fb_vertices b))" "fb_task_endpoints b0 = fb_task_endpoints b" by (simp_all add: b0_def push_vertex_def)
  ultimately show "builder_inv b' []"
    by (auto simp: builder_inv_def index_exact_def in_range_def widths_exact_def bt_get_insert)
qed (rule assms(2))

lemma cluster_fifo_inv:
  assumes "builder_inv b (stream_channels links)" and "cluster_fifo widths (b, links) x = Inr (b', links')"
  shows "builder_inv b' (stream_channels links')"
proof (cases "ic_depth (snd x)")
  case None
  then show ?thesis using assms by (auto simp: cluster_fifo_def split: prod.splits)
next
  case (Some depth)
  obtain name fifo where x: "x = (name, fifo)" by force
  obtain dw pw src dst host b1 where r: "resolve_fifo_endpoint (fb_task_endpoints b) name ''producer'' (ic_produced_by fifo) = Inr src"
      "resolve_fifo_endpoint (fb_task_endpoints b) name ''consumer'' (ic_consumed_by fifo) = Inr dst"
      "(case dst of Some h \<Rightarrow> Some h | None \<Rightarrow> src) = Some host"
      "charge_vertex host (fifo_area dw (floorplanned_fifo_storage_depth depth)) (ResourceOverflow name) b = Inr b1"
    and rest: "(case (src, dst) of
            (Some src, Some dst) \<Rightarrow>
              if src \<noteq> dst
              then bindR (ok_or (Err (PlacementWidthOverflow name)) (add_placement_width src dst pw (co_locate name host b1))) (\<lambda>b.
                Inr (b, links @ [\<lparr>s_link = name, s_src = src, s_dst = dst, s_width = pw, s_data_width = dw, s_depth = depth\<rparr>]))
              else Inr (co_locate name host b1, links)
          | _ \<Rightarrow> Inr (co_locate name host b1, links)) = Inr (b', links')"
    using assms(2) Some x by (auto simp: cluster_fifo_def bindR_eq_Inr Let_def)
  have ends: "i < length (fb_vertices b)" if "src = Some i \<or> dst = Some i" for i
    using that r(1,2) builder_endpoint [OF assms(1)] by (auto simp: resolve_fifo_endpoint_def bindR_eq_Inr split: option.splits)
  have len: "length (fb_vertices b1) = length (fb_vertices b)" "fb_vertices (co_locate name host b1) = fb_vertices b1"
    using charge_vertex_same(2) [OF r(4)] by (simp_all add: co_locate_def)
  have "host < length (fb_vertices b1)" using r(3) ends len by (auto split: option.splits)
  then have inv: "builder_inv (co_locate name host b1) (stream_channels links)" using charge_vertex_inv [OF assms(1) r(4)] by (rule co_locate_inv [rotated])
  show ?thesis
  proof (cases "\<exists>s d. src = Some s \<and> dst = Some d \<and> s \<noteq> d")
    case True
    then obtain s d where sd: "src = Some s" "dst = Some d" "s \<noteq> d" by blast
    then obtain b2 where "add_placement_width s d pw (co_locate name host b1) = Some b2" "b' = b2"
        "links' = links @ [\<lparr>s_link = name, s_src = s, s_dst = d, s_width = pw, s_data_width = dw, s_depth = depth\<rparr>]"
      using rest by (auto simp: bindR_eq_Inr)
    then show ?thesis using add_placement_width_inv [OF inv, of s d pw b2] sd ends len by (simp add: stream_channels_def)
  next
    case False
    then show ?thesis using rest inv by (auto split: option.splits if_splits)
  qed
qed

lemma cluster_internal_fifos_inv:
  assumes "cluster_internal_fifos flat t b = Inr (b', links)" and "builder_inv b []"
  shows "builder_inv b' (stream_channels links)"
proof -
  have "case (b', links) of (b, links) \<Rightarrow> builder_inv b (stream_channels links)"
    using assms(1) unfolding cluster_internal_fifos_def
    by (rule foldR_invariant) (use assms(2) cluster_fifo_inv in \<open>auto simp: stream_channels_def\<close>)
  then show ?thesis by simp
qed

definition expected_in :: "nat \<Rightarrow> ExpectedEndpoints \<Rightarrow> bool" where
  "expected_in n expected \<longleftrightarrow> (\<forall>(k, e) \<in> set expected. ex_task_vertex e < n)"

lemma expect_argument_in:
  assumes "expect_argument t task name vertex (expected, users) x = Inr acc'" and "vertex < n" and "expected_in n expected"
  shows "expected_in n (fst acc')"
  using assms set_bt_insert_subset
  by (fastforce simp: expect_argument_def expected_in_def bindR_eq_Inr Let_def split: prod.splits if_splits)

lemma expected_memory_in:
  assumes "expected_memory_interfaces flat t endpoints = Inr expected" and "\<And>k i. bt_get endpoints k = Some i \<Longrightarrow> i < n"
  shows "expected_in n expected"
proof -
  let ?step = "\<lambda>acc definition_name canonical index inst.
       bindR (ok_or (Err (MissingTaskDef definition_name)) (bt_get (g_tasks flat) definition_name)) (\<lambda>task.
       bindR (ok_or Panicked (bt_get endpoints (definition_name, index))) (\<lambda>task_vertex.
       foldR (expect_argument t task canonical task_vertex) acc (inst_args inst)))"
  obtain users where run: "for_children ?step ([], []) t = Inr (expected, users)"
    using assms(1) by (auto simp: expected_memory_interfaces_def bindR_eq_Inr split: option.splits prod.splits)
  have "expected_in n (fst (expected, users))"
    using run
  proof (rule for_children_invariant [where I = "\<lambda>acc. expected_in n (fst acc)"])
    fix acc d c i inst acc'
    assume acc: "expected_in n (fst acc)" and step: "?step acc d c i inst = Inr acc'"
    then obtain task vertex where v: "bt_get endpoints (d, i) = Some vertex"
        and f: "foldR (expect_argument t task c vertex) acc (inst_args inst) = Inr acc'" by (auto simp: bindR_eq_Inr)
    show "expected_in n (fst acc')"
      using f acc by (rule foldR_invariant [where I = "\<lambda>acc. expected_in n (fst acc)"])
        (metis assms(2) expect_argument_in prod.collapse v)
  qed (simp add: expected_in_def)
  then show ?thesis by simp
qed

lemma claim_interface_inv:
  assumes "builder_inv b cs" and "claim_interface provided (b, occupied) (endpoint, e) = Inr (b', occupied')" and "ex_task_vertex e < length (fb_vertices b)"
  shows "builder_inv b' cs \<and> fb_vertices b' = fb_vertices b"
  using assms co_locate_inv by (auto simp: claim_interface_def bindR_eq_Inr co_locate_def split: option.splits)

lemma claim_interfaces_inv:
  assumes "foldR (claim_interface provided) (b, occupied) expected = Inr (b', occupied')" and "builder_inv b cs" and "expected_in (length (fb_vertices b)) expected"
  shows "builder_inv b' cs \<and> fb_vertices b' = fb_vertices b"
proof -
  have "case (b', occupied') of (c, _) \<Rightarrow> builder_inv c cs \<and> fb_vertices c = fb_vertices b"
    using assms(1)
  proof (rule foldR_invariant)
    fix acc x acc'
    assume x: "x \<in> set expected" and acc: "case acc of (c, _) \<Rightarrow> builder_inv c cs \<and> fb_vertices c = fb_vertices b" and step: "claim_interface provided acc x = Inr acc'"
    have "ex_task_vertex (snd x) < length (fb_vertices b)" using assms(3) x by (auto simp: expected_in_def)
    then show "case acc' of (c, _) \<Rightarrow> builder_inv c cs \<and> fb_vertices c = fb_vertices b"
      using claim_interface_inv [of "fst acc" cs provided "snd acc" "fst x" "snd x" "fst acc'" "snd acc'"] acc step by (auto split: prod.splits)
  qed (simp add: assms(2))
  then show ?thesis by simp
qed

lemma bank_terminal_inv:
  assumes "builder_inv b cs" and "\<forall>k i. bt_get terminals k = Some i \<longrightarrow> i < length (fb_vertices b) \<and> n \<le> i" and "n \<le> length (fb_vertices b)"
    and "bank_terminal bank (b, terminals) = Inr (terminal, b', terminals')"
  shows "builder_inv b' cs \<and> n \<le> terminal \<and> terminal < length (fb_vertices b') \<and> n \<le> length (fb_vertices b') \<and>
    (\<forall>k i. bt_get terminals' k = Some i \<longrightarrow> i < length (fb_vertices b') \<and> n \<le> i)"
proof (cases "bt_get terminals bank")
  case (Some i)
  then show ?thesis using assms by (auto simp: bank_terminal_def)
next
  case None
  define v where "v = \<lparr>v_name = bank_terminal_name bank, v_area = Area_default, required_tag = Some (show_bank bank), materialize = False\<rparr>"
  have r: "\<not> bt_contains (fb_index b) (v_name v)" "b' = push_vertex v b" "terminal = length (fb_vertices b)" "terminals' = bt_insert bank terminal terminals"
    using assms(4) None by (auto simp: bank_terminal_def Let_def bindR_eq_Inr v_def)
  have "length (fb_vertices b') = Suc (length (fb_vertices b))" using r(2) by (simp add: push_vertex_def)
  then show ?thesis using push_vertex_inv [OF assms(1) r(1)] r assms(2,3) by (auto simp: bt_get_insert less_Suc_eq split: if_splits)
qed

lemma add_axi_channel_inv:
  assumes "builder_inv b (cs @ axi_channels_of nets)" and "add_axi_channel endpoint bank task terminal (b, nets) x = Inr (b', nets')"
    and "task < length (fb_vertices b)" and "terminal < length (fb_vertices b)" and "task \<noteq> terminal"
  shows "builder_inv b' (cs @ axi_channels_of nets') \<and> fb_vertices b' = fb_vertices b"
proof -
  obtain channel width where x: "x = (channel, width)" by force
  obtain src dst where d: "axi_direction channel task terminal = (src, dst)" by force
  have sd: "src < length (fb_vertices b)" "dst < length (fb_vertices b)" "src \<noteq> dst" using d assms(3-5) by (auto simp: axi_direction_def split: AxiChannel.splits)
  obtain payload where w: "add_placement_width src dst width b = Some b'"
      "nets' = nets @ [\<lparr>an_endpoint = endpoint, an_bank = bank, an_channel = channel, an_src = src, an_dst = dst, an_width = width, an_payload_width = payload\<rparr>]"
    using assms(2) x d by (auto simp: add_axi_channel_def bindR_eq_Inr)
  have "fb_vertices b' = fb_vertices b" using w(1) by (auto simp: add_placement_width_def Let_def bind_eq_Some_conv split: if_splits)
  then show ?thesis using add_placement_width_inv [OF assms(1) w(1) sd] w(2) by (simp add: axi_channels_of_def)
qed

lemma add_axi_channels_inv:
  assumes "foldR (add_axi_channel endpoint bank task terminal) (b, nets) xs = Inr (b', nets')" and "builder_inv b (cs @ axi_channels_of nets)"
    and "task < length (fb_vertices b)" and "terminal < length (fb_vertices b)" and "task \<noteq> terminal"
  shows "builder_inv b' (cs @ axi_channels_of nets') \<and> fb_vertices b' = fb_vertices b"
proof -
  have "case (b', nets') of (c, ns) \<Rightarrow> builder_inv c (cs @ axi_channels_of ns) \<and> fb_vertices c = fb_vertices b"
    using assms(1)
  proof (rule foldR_invariant)
    fix acc x acc'
    assume "case acc of (c, ns) \<Rightarrow> builder_inv c (cs @ axi_channels_of ns) \<and> fb_vertices c = fb_vertices b" "add_axi_channel endpoint bank task terminal acc x = Inr acc'"
    then show "case acc' of (c, ns) \<Rightarrow> builder_inv c (cs @ axi_channels_of ns) \<and> fb_vertices c = fb_vertices b"
      using add_axi_channel_inv [of "fst acc" cs "snd acc" endpoint bank task terminal x "fst acc'" "snd acc'"] assms(3-5) by (auto split: prod.splits)
  qed (simp add: assms(2))
  then show ?thesis by simp
qed

definition connect_inv :: "nat \<Rightarrow> Channel list \<Rightarrow> (FloorGraphBuilder \<times> Terminals) \<times> AxiNet list \<Rightarrow> bool" where
  "connect_inv n cs acc \<longleftrightarrow> (case acc of ((b, terminals), nets) \<Rightarrow> builder_inv b (cs @ axi_channels_of nets) \<and> n \<le> length (fb_vertices b) \<and>
     (\<forall>k i. bt_get terminals k = Some i \<longrightarrow> i < length (fb_vertices b) \<and> n \<le> i))"

lemma connect_interface_inv:
  assumes "connect_inv n cs acc" and "connect_interface provided acc (endpoint, e) = Inr acc'" and "ex_task_vertex e < n"
  shows "connect_inv n cs acc'"
proof -
  obtain b terminals nets where acc: "acc = ((b, terminals), nets)" by (metis prod.collapse)
  obtain interface where i: "bt_get provided endpoint = Some interface" using assms(2) acc by (auto simp: connect_interface_def bindR_eq_Inr)
  show ?thesis
  proof (cases "enabled_channels (mi_channel_widths interface) = []")
    case True
    then show ?thesis using assms(1,2) i acc by (auto simp: connect_interface_def)
  next
    case False
    then obtain terminal b1 terminals' b2 nets' where t: "bank_terminal (mi_bank interface) (b, terminals) = Inr (terminal, b1, terminals')"
        "foldR (add_axi_channel endpoint (mi_bank interface) (ex_task_vertex e) terminal) (b1, nets) (enabled_channels (mi_channel_widths interface)) = Inr (b2, nets')"
        "acc' = ((b2, terminals'), nets')"
      using assms(2) i acc by (auto simp: connect_interface_def Let_def bindR_eq_Inr split: prod.splits)
    have c: "builder_inv b (cs @ axi_channels_of nets)" "\<forall>k i. bt_get terminals k = Some i \<longrightarrow> i < length (fb_vertices b) \<and> n \<le> i" "n \<le> length (fb_vertices b)"
      using assms(1) acc by (simp_all add: connect_inv_def)
    note bt = bank_terminal_inv [OF c t(1)]
    then have "builder_inv b2 (cs @ axi_channels_of nets') \<and> fb_vertices b2 = fb_vertices b1"
      using assms(3) by (intro add_axi_channels_inv [OF t(2)]) auto
    then show ?thesis using bt t(3) by (simp add: connect_inv_def)
  qed
qed

lemma add_memory_interfaces_inv:
  assumes "add_memory_interfaces flat t memory b = Inr (b', nets)" and "builder_inv b cs"
  shows "builder_inv b' (cs @ axi_channels_of nets)"
proof -
  obtain expected provided occupied b1 occupied1 terminals where r: "expected_memory_interfaces flat t (fb_task_endpoints b) = Inr expected"
      "foldR (claim_interface provided) (b, occupied) expected = Inr (b1, occupied1)"
      "foldR (connect_interface provided) ((b1, []), []) expected = Inr ((b', terminals), nets)"
    using assms(1) by (auto simp: add_memory_interfaces_def bindR_eq_Inr split: prod.splits)
  have e: "expected_in (length (fb_vertices b)) expected" using expected_memory_in [OF r(1)] builder_endpoint [OF assms(2)] by blast
  have b1: "builder_inv b1 cs" "fb_vertices b1 = fb_vertices b" using claim_interfaces_inv [OF r(2) assms(2) e] by auto
  have "connect_inv (length (fb_vertices b)) cs ((b', terminals), nets)"
    using r(3)
  proof (rule foldR_invariant)
    show "connect_inv (length (fb_vertices b)) cs ((b1, []), [])" using b1 by (simp add: connect_inv_def axi_channels_of_def bt_get_def)
    show "connect_inv (length (fb_vertices b)) cs acc'" if "x \<in> set expected" "connect_inv (length (fb_vertices b)) cs acc" "connect_interface provided acc x = Inr acc'" for acc x acc'
      using connect_interface_inv [OF that(2), of provided "fst x" "snd x" acc'] that(1,3) e by (auto simp: expected_in_def)
  qed
  then show ?thesis by (simp add: connect_inv_def)
qed

lemma add_placement_width_same:
  assumes "add_placement_width src dst w b = Some b'"
  shows "fb_vertices b' = fb_vertices b" "fb_index b' = fb_index b" "fb_task_endpoints b' = fb_task_endpoints b" "fb_co_located b' = fb_co_located b"
  using assms by (auto simp: add_placement_width_def Let_def bind_eq_Some_conv split: if_splits)

text \<open>What the control pass keeps: the task endpoints, and the vertices with the global controller last.\<close>

definition control_inv :: "FloorGraphBuilder \<Rightarrow> Channel list \<Rightarrow> FloorGraphBuilder \<times> ControlNet list \<Rightarrow> bool" where
  "control_inv b0 cs acc \<longleftrightarrow> (case acc of (b, nets) \<Rightarrow> builder_inv b (cs @ control_channels nets) \<and>
     fb_task_endpoints b = fb_task_endpoints b0 \<and> fb_vertices b = fb_vertices b0)"

lemma add_control_net_inv:
  assumes "control_inv b0 cs acc" and "add_control_net name channel src dst w acc = Inr acc'"
    and "src < length (fb_vertices b0)" and "dst < length (fb_vertices b0)" and "src \<noteq> dst"
  shows "control_inv b0 cs acc'"
proof -
  obtain b nets where acc: "acc = (b, nets)" by force
  obtain b' where b': "add_placement_width src dst w b = Some b'"
      "acc' = (b', nets @ [\<lparr>cn_instance = name, cn_channel = channel, cn_src = src, cn_dst = dst, cn_width = w\<rparr>])"
    using assms(2) acc by (auto simp: add_control_net_def bindR_eq_Inr)
  show ?thesis using assms(1,3-5) add_placement_width_inv [of b "cs @ control_channels nets", OF _ b'(1)] add_placement_width_same [OF b'(1)] b'(2) acc
    by (simp add: control_inv_def control_channels_def)
qed

lemma control_child_inv:
  assumes "control_inv b0 cs acc" and "control_child flat global acc d c i inst = Inr acc'"
    and "\<And>k i. bt_get (fb_task_endpoints b0) k = Some i \<Longrightarrow> i < global" and "global < length (fb_vertices b0)"
  shows "control_inv b0 cs acc'"
proof -
  obtain b nets where acc: "acc = (b, nets)" by force
  obtain child w acc1 acc2 where r: "bt_get (fb_task_endpoints b) (d, i) = Some child"
      "add_control_net c Launch global child w (co_locate (local_controller_instance_name c) child b, nets) = Inr acc1"
      "add_control_net c Reset global child 1 acc1 = Inr acc2"
      "(if inst_step inst \<ge> 0 then add_control_net c Completion child global 1 acc2 else Inr acc2) = Inr acc'"
    using assms(2) acc by (auto simp: control_child_def Let_def bindR_eq_Inr)
  have same: "fb_task_endpoints b = fb_task_endpoints b0" "fb_vertices b = fb_vertices b0" using assms(1) acc by (simp_all add: control_inv_def)
  have child: "child < global" using assms(3) r(1) same(1) by simp
  then have n: "child < length (fb_vertices b)" "child < length (fb_vertices b0)" "child \<noteq> global" using assms(4) same(2) by simp_all
  let ?b = "co_locate (local_controller_instance_name c) child b"
  have "builder_inv ?b (cs @ control_channels nets)" using assms(1) acc by (intro co_locate_inv [OF _ n(1)]) (simp add: control_inv_def)
  moreover have "fb_task_endpoints ?b = fb_task_endpoints b" "fb_vertices ?b = fb_vertices b" by (simp_all add: co_locate_def)
  ultimately have "control_inv b0 cs (?b, nets)" by (simp add: control_inv_def same)
  from add_control_net_inv [OF add_control_net_inv [OF this r(2) assms(4) n(2) n(3) [symmetric]] r(3) assms(4) n(2) n(3) [symmetric]]
  have "control_inv b0 cs acc2" .
  then show ?thesis using r(4) add_control_net_inv [OF _ _ n(2) assms(4) n(3), of cs acc2] by (auto split: if_splits)
qed

lemma co_locates_inv:
  assumes "builder_inv b cs" and "host < length (fb_vertices b)"
  shows "builder_inv (foldl (\<lambda>b name. co_locate name host b) b names) cs \<and>
    fb_vertices (foldl (\<lambda>b name. co_locate name host b) b names) = fb_vertices b \<and>
    fb_task_endpoints (foldl (\<lambda>b name. co_locate name host b) b names) = fb_task_endpoints b \<and>
    fb_co_located (foldl (\<lambda>b name. co_locate name host b) b names) = fb_co_located b @ map (\<lambda>name. \<lparr>co_name = name, co_host = host\<rparr>) names"
  using assms
proof (induction names arbitrary: b)
  case (Cons name names)
  have "fb_vertices (co_locate name host b) = fb_vertices b" "fb_task_endpoints (co_locate name host b) = fb_task_endpoints b"
    "fb_co_located (co_locate name host b) = fb_co_located b @ [\<lparr>co_name = name, co_host = host\<rparr>]" by (simp_all add: co_locate_def)
  then show ?case using Cons.IH [OF co_locate_inv [OF Cons.prems]] Cons.prems(2) by simp
qed simp

definition control_base :: "FlatProjection option \<Rightarrow> ControlInterface \<Rightarrow> string option \<Rightarrow> FloorGraphBuilder \<Rightarrow> FloorGraphBuilder" where
  "control_base projection control anchor b =
     (let global = length (fb_vertices b);
          b = push_vertex \<lparr>v_name = global_controller_instance_name, v_area = Area_default, required_tag = anchor, materialize = True\<rparr> b;
          b = (if has_s_axi_control control then co_locate CONTROL_S_AXI_INSTANCE global b else b)
      in foldl (\<lambda>b name. co_locate name global b) b (concat (map scope_names (control_scopes projection))))"

lemma add_control_interface_Inr:
  assumes "add_control_interface flat t memory control anchor projection b = Inr (b', nets)"
  shows "validate_control_names t memory control (fb_vertices b) (fb_co_located b) projection = Inr ()"
    and "\<not> bt_contains (fb_index b) global_controller_instance_name"
    and "for_children (control_child flat (length (fb_vertices b))) (control_base projection control anchor b, []) t = Inr (b', nets)"
  using assms by (auto simp: add_control_interface_def control_base_def bindR_eq_Inr Let_def)

lemma control_base_inv:
  assumes "builder_inv b cs" and "\<not> bt_contains (fb_index b) global_controller_instance_name"
  shows "builder_inv (control_base projection control anchor b) cs" and "fb_task_endpoints (control_base projection control anchor b) = fb_task_endpoints b"
    and "length (fb_vertices (control_base projection control anchor b)) = Suc (length (fb_vertices b))"
    and "fb_co_located (control_base projection control anchor b) = fb_co_located b @ map (\<lambda>name. \<lparr>co_name = name, co_host = length (fb_vertices b)\<rparr>)
      ((if has_s_axi_control control then [CONTROL_S_AXI_INSTANCE] else []) @ concat (map scope_names (control_scopes projection)))"
proof -
  let ?v = "\<lparr>v_name = global_controller_instance_name, v_area = Area_default, required_tag = anchor, materialize = True\<rparr>" and ?n = "length (fb_vertices b)"
  define b1 where "b1 = (if has_s_axi_control control then co_locate CONTROL_S_AXI_INSTANCE ?n (push_vertex ?v b) else push_vertex ?v b)"
  have "builder_inv (push_vertex ?v b) cs" using assms by (intro push_vertex_inv) simp_all
  moreover have len: "?n < length (fb_vertices (push_vertex ?v b))" by (simp add: push_vertex_def)
  ultimately have b1: "builder_inv b1 cs" by (simp add: b1_def co_locate_inv)
  have same: "fb_vertices b1 = fb_vertices b @ [?v]" "fb_task_endpoints b1 = fb_task_endpoints b"
      "fb_co_located b1 = fb_co_located b @ map (\<lambda>name. \<lparr>co_name = name, co_host = ?n\<rparr>) (if has_s_axi_control control then [CONTROL_S_AXI_INSTANCE] else [])"
    by (simp_all add: b1_def co_locate_def push_vertex_def)
  have base: "control_base projection control anchor b = foldl (\<lambda>b name. co_locate name ?n b) b1 (concat (map scope_names (control_scopes projection)))"
    by (simp only: control_base_def b1_def Let_def)
  note c = co_locates_inv [OF b1, of ?n "concat (map scope_names (control_scopes projection))", folded base]
  show "builder_inv (control_base projection control anchor b) cs" "fb_task_endpoints (control_base projection control anchor b) = fb_task_endpoints b"
    "length (fb_vertices (control_base projection control anchor b)) = Suc ?n"
    "fb_co_located (control_base projection control anchor b) = fb_co_located b @ map (\<lambda>name. \<lparr>co_name = name, co_host = ?n\<rparr>)
      ((if has_s_axi_control control then [CONTROL_S_AXI_INSTANCE] else []) @ concat (map scope_names (control_scopes projection)))"
    using c same by simp_all
qed

lemma add_control_interface_inv:
  assumes "add_control_interface flat t memory control anchor projection b = Inr (b', nets)" and "builder_inv b cs"
  shows "builder_inv b' (cs @ control_channels nets)"
proof -
  note r = add_control_interface_Inr [OF assms(1)]
  let ?b0 = "control_base projection control anchor b"
  note base = control_base_inv [OF assms(2) r(2)]
  have "control_inv ?b0 cs (b', nets)"
    using r(3)
  proof (rule for_children_invariant)
    show "control_inv ?b0 cs (?b0, [])" by (simp add: control_inv_def control_channels_def base(1))
  next
    fix acc d c i inst acc'
    assume "control_inv ?b0 cs acc" "control_child flat (length (fb_vertices b)) acc d c i inst = Inr acc'"
    then show "control_inv ?b0 cs acc'"
      by (rule control_child_inv) (use builder_endpoint [OF assms(2)] base(2,3) in auto)
  qed
  then show ?thesis by (simp add: control_inv_def)
qed

section \<open>The built graph\<close>

definition graph_channels :: "FloorGraph \<Rightarrow> Channel list" where
  "graph_channels g = stream_channels (streams g) @ axi_channels_of (axi_nets g) @ control_channels (control_nets g)"

definition vertices_exact :: "FloorGraph \<Rightarrow> bool" where
  "vertices_exact g \<longleftrightarrow>
     distinct (map v_name (vertices g)) \<and>
     (\<forall>name i. bt_get (vertex_index g) name = Some i \<longleftrightarrow> i < length (vertices g) \<and> v_name (vertices g ! i) = name) \<and>
     (\<forall>a \<in> set (co_located g). co_host a < length (vertices g))"

definition edges_exact :: "FloorGraph \<Rightarrow> bool" where
  "edges_exact g \<longleftrightarrow>
     sorted_wrt (\<lambda>e f. (pe_src e, pe_dst e) < (pe_src f, pe_dst f)) (placement_edges g) \<and>
     (\<forall>e \<in> set (placement_edges g). pe_src e < pe_dst e \<and> pe_dst e < length (vertices g) \<and>
        forward_width e = width_flow (graph_channels g) (pe_src e) (pe_dst e) \<and> reverse_width e = width_flow (graph_channels g) (pe_dst e) (pe_src e) \<and>
        pe_width e = forward_width e + reverse_width e \<and> pe_width e < 2 ^ 32) \<and>
     (\<forall>(s, d, w) \<in> set (graph_channels g). s < length (vertices g) \<and> d < length (vertices g) \<and> s \<noteq> d \<and>
        (\<exists>e \<in> set (placement_edges g). pe_src e = min s d \<and> pe_dst e = max s d))"

lemma index_exact_distinct: "index_exact b \<Longrightarrow> distinct (map v_name (fb_vertices b))"
  unfolding distinct_conv_nth index_exact_def by (metis length_map nth_map option.inject)

lemma finish_edges_exact:
  assumes "builder_inv b cs"
  shows "sorted_wrt (\<lambda>e f. (pe_src e, pe_dst e) < (pe_src f, pe_dst f)) (finish_edges (fb_placement_widths b))"
    and "e \<in> set (finish_edges (fb_placement_widths b)) \<Longrightarrow> pe_src e < pe_dst e \<and> pe_dst e < length (fb_vertices b) \<and>
        forward_width e = width_flow cs (pe_src e) (pe_dst e) \<and> reverse_width e = width_flow cs (pe_dst e) (pe_src e) \<and>
        pe_width e = forward_width e + reverse_width e \<and> pe_width e < 2 ^ 32"
    and "(s, d, w) \<in> set cs \<Longrightarrow> s < length (fb_vertices b) \<and> d < length (fb_vertices b) \<and> s \<noteq> d \<and>
        (\<exists>e \<in> set (finish_edges (fb_placement_widths b)). pe_src e = min s d \<and> pe_dst e = max s d)"
proof -
  let ?W = "fb_placement_widths b"
  have ok: "bt_ok ?W" using assms by (simp add: builder_inv_def widths_exact_def)
  show "sorted_wrt (\<lambda>e f. (pe_src e, pe_dst e) < (pe_src f, pe_dst f)) (finish_edges ?W)"
    using ok by (simp add: finish_edges_def bt_ok_def sorted_wrt_map case_prod_unfold less_prod_def less_le_not_le)
  show "pe_src e < pe_dst e \<and> pe_dst e < length (fb_vertices b) \<and>
        forward_width e = width_flow cs (pe_src e) (pe_dst e) \<and> reverse_width e = width_flow cs (pe_dst e) (pe_src e) \<and>
        pe_width e = forward_width e + reverse_width e \<and> pe_width e < 2 ^ 32" if e: "e \<in> set (finish_edges ?W)"
  proof -
    obtain src dst w where w: "((src, dst), w) \<in> set ?W" and e: "e = \<lparr>pe_src = src, pe_dst = dst, pe_width = wrap 32 (dw_forward w + dw_reverse w),
      forward_width = dw_forward w, reverse_width = dw_reverse w\<rparr>" using e by (auto simp: finish_edges_def)
    have "bt_get ?W (src, dst) = Some w" using w ok by (simp add: bt_get_iff)
    then have "src < dst \<and> dst < length (fb_vertices b) \<and> dw_forward w = width_flow cs src dst \<and> dw_reverse w = width_flow cs dst src \<and> dw_forward w + dw_reverse w < 2 ^ 32"
      using assms unfolding builder_inv_def widths_exact_def by blast
    then show ?thesis by (simp add: e wrap_def)
  qed
  show "s < length (fb_vertices b) \<and> d < length (fb_vertices b) \<and> s \<noteq> d \<and> (\<exists>e \<in> set (finish_edges ?W). pe_src e = min s d \<and> pe_dst e = max s d)" if c: "(s, d, w) \<in> set cs"
  proof -
    obtain e where "bt_get ?W (min s d, max s d) = Some e" using assms c by (auto simp: builder_inv_def widths_exact_def)
    then have "((min s d, max s d), e) \<in> set ?W" by (rule bt_get_Some_in)
    then have "\<exists>e \<in> set (finish_edges ?W). pe_src e = min s d \<and> pe_dst e = max s d" by (force simp: finish_edges_def)
    then show ?thesis using assms c by (auto simp: builder_inv_def in_range_def)
  qed
qed

lemma build_with_scopes_Inr:
  assumes "build_with_scopes flat memory control anchor projection = Inr g"
  obtains t b1 b2 b3 b4 occupied where "bt_get (g_tasks flat) (g_top flat) = Some t"
    "add_task_vertices flat t FloorGraphBuilder_default = Inr b1"
    "cluster_internal_fifos flat t b1 = Inr (b2, streams g)"
    "add_memory_interfaces flat t memory b2 = Inr (b3, axi_nets g)"
    "(b4, control_nets g) = (b3, []) \<or> (\<exists>c. add_control_interface flat t memory c anchor projection b3 = Inr (b4, control_nets g))"
    "occupied_rtl_names t (fb_vertices b4) (fb_co_located b4) = Inr occupied"
    "vertices g = fb_vertices b4" "placement_edges g = finish_edges (fb_placement_widths b4)" "vertex_index g = fb_index b4" "co_located g = fb_co_located b4"
proof -
  obtain t b1 b2 links b3 axi b4 nets occupied where r: "bt_get (g_tasks flat) (g_top flat) = Some t"
    "add_task_vertices flat t FloorGraphBuilder_default = Inr b1" "cluster_internal_fifos flat t b1 = Inr (b2, links)"
    "add_memory_interfaces flat t memory b2 = Inr (b3, axi)"
    "(case control of
         Some c \<Rightarrow> if (case projection of None \<Rightarrow> task_tasks t \<noteq> [] | Some p \<Rightarrow> length (fp_occurrences p) > 1)
           then add_control_interface flat t memory c anchor projection b3 else Inr (b3, [])
       | None \<Rightarrow> Inr (b3, [])) = Inr (b4, nets)"
    "occupied_rtl_names t (fb_vertices b4) (fb_co_located b4) = Inr occupied"
    and g: "g = \<lparr>vertices = fb_vertices b4, placement_edges = finish_edges (fb_placement_widths b4), streams = links, axi_nets = axi,
       control_nets = nets, vertex_index = fb_index b4, co_located = fb_co_located b4\<rparr>"
    using assms unfolding build_with_scopes_def Let_def by (auto simp only: bindR_eq_Inr ok_or_eq_Inr sum.inject case_prod_unfold fst_conv snd_conv option.inject)
  have "(b4, control_nets g) = (b3, []) \<or> (\<exists>c. add_control_interface flat t memory c anchor projection b3 = Inr (b4, control_nets g))"
    using r(5) by (auto simp: g split: option.splits if_splits)
  then show thesis using that [of t b1 b2 b3 b4 occupied] r by (simp add: g)
qed

lemma build_inv:
  assumes "build_with_scopes flat memory control anchor projection = Inr g"
  shows "\<exists>b. builder_inv b (graph_channels g) \<and> vertices g = fb_vertices b \<and> placement_edges g = finish_edges (fb_placement_widths b) \<and>
    vertex_index g = fb_index b \<and> co_located g = fb_co_located b"
  using assms
proof (rule build_with_scopes_Inr)
  fix t b1 b2 b3 b4 occupied
  assume r: "add_task_vertices flat t FloorGraphBuilder_default = Inr b1" "cluster_internal_fifos flat t b1 = Inr (b2, streams g)"
    "add_memory_interfaces flat t memory b2 = Inr (b3, axi_nets g)"
    "(b4, control_nets g) = (b3, []) \<or> (\<exists>c. add_control_interface flat t memory c anchor projection b3 = Inr (b4, control_nets g))"
    and g: "vertices g = fb_vertices b4" "placement_edges g = finish_edges (fb_placement_widths b4)" "vertex_index g = fb_index b4" "co_located g = fb_co_located b4"
  have "builder_inv b3 (stream_channels (streams g) @ axi_channels_of (axi_nets g))"
    by (rule add_memory_interfaces_inv [OF r(3) cluster_internal_fifos_inv [OF r(2) add_task_vertices_inv [OF r(1) builder_inv_default]]])
  note b3 = this
  have "builder_inv b4 (graph_channels g)"
    using r(4) b3 add_control_interface_inv [OF _ b3, of flat t memory _ anchor projection b4 "control_nets g"]
    by (auto simp: graph_channels_def) (simp add: control_channels_def)
  then show ?thesis using g by blast
qed

lemma built_graph_exact:
  assumes "build_with_scopes flat memory control anchor projection = Inr g"
  shows "vertices_exact g \<and> edges_exact g"
proof -
  obtain b where b: "builder_inv b (graph_channels g)" and g: "vertices g = fb_vertices b" "placement_edges g = finish_edges (fb_placement_widths b)"
    "vertex_index g = fb_index b" "co_located g = fb_co_located b" using build_inv [OF assms] by blast
  have "vertices_exact g" using b index_exact_distinct [of b] unfolding vertices_exact_def g builder_inv_def index_exact_def in_range_def by simp
  moreover have "edges_exact g" unfolding edges_exact_def g using finish_edges_exact [OF b] by blast
  ultimately show ?thesis ..
qed

end
