(* ===== verification/Fp_Names.thy ===== *)
theory Fp_Names
  imports Fp_Build_Correct
begin

text \<open>
  The names a placement graph publishes are unique.  Every name and every generated RTL identifier is claimed by one object only
  (\<^verbatim>\<open>occupied_rtl_names\<close>), the generated names are reserved before they are used, and so the regions of the co-located
  instances can always be added to a complete placement.
\<close>

section \<open>Reservation\<close>

definition claimed :: "Occupied \<Rightarrow> string set" where
  "claimed occupied = {n. bt_get occupied n \<noteq> None}"

definition reserves :: "string list \<Rightarrow> Occupied \<Rightarrow> Occupied \<Rightarrow> bool" where
  "reserves names before after \<longleftrightarrow> distinct names \<and> set names \<inter> claimed before = {} \<and> claimed after = claimed before \<union> set names"

lemma claimed_insert: "claimed (bt_insert k v m) = insert k (claimed m)"
  by (auto simp: claimed_def bt_get_insert)

lemma reserves_refl: "reserves [] m m"
  by (simp add: reserves_def)

lemma reserves_trans: "reserves xs a b \<Longrightarrow> reserves ys b c \<Longrightarrow> reserves (xs @ ys) a c"
  by (auto simp: reserves_def)

lemma reserve_generated_name_reserves: "reserve_generated_name m name owner = Inr m' \<Longrightarrow> reserves [name] m m'"
  by (auto simp: reserve_generated_name_def reserves_def claimed_insert) (auto simp: claimed_def bt_get_insert split: option.splits if_splits)

lemma foldR_reserves:
  assumes "foldR f m xs = Inr m'" and "\<And>m x m'. f m x = Inr m' \<Longrightarrow> reserves (g x) m m'"
  shows "reserves (concat (map g xs)) m m'"
  using assms(1)
proof (induction xs arbitrary: m)
  case (Cons x xs)
  then obtain m1 where "f m x = Inr m1" "foldR f m1 xs = Inr m'" by (auto simp: bindR_eq_Inr)
  then show ?case using Cons.IH reserves_trans [OF assms(2)] by simp
qed (simp add: reserves_refl)

definition axi_names :: "MemoryInterface \<Rightarrow> string list" where
  "axi_names interface = map (\<lambda>(channel, _). axi_pipeline_instance_name (mi_endpoint interface) channel) (enabled_channels (mi_channel_widths interface))"

definition child_names :: "string \<Rightarrow> TaskInstance \<Rightarrow> string list" where
  "child_names canonical inst = local_controller_instance_name canonical #
     map (control_pipeline_instance_name canonical) ([Launch, Reset] @ (if inst_step inst \<ge> 0 then [Completion] else []))"

lemma concat_singletons: "concat (map (\<lambda>x. [f x]) xs) = map f xs"
  by (induction xs) simp_all

lemma reserve_axi_pipeline_names_reserves: "reserve_axi_pipeline_names m interface = Inr m' \<Longrightarrow> reserves (axi_names interface) m m'"
  unfolding reserve_axi_pipeline_names_def axi_names_def
  by (drule foldR_reserves [where g = "\<lambda>(channel, _). [axi_pipeline_instance_name (mi_endpoint interface) channel]"])
    (auto dest: reserve_generated_name_reserves simp: concat_singletons case_prod_unfold split: prod.splits)

lemma reserve_child_names_reserves: "reserve_child_names m canonical inst = Inr m' \<Longrightarrow> reserves (child_names canonical inst) m m'"
proof -
  assume "reserve_child_names m canonical inst = Inr m'"
  then obtain m1 where m1: "reserve_generated_name m (local_controller_instance_name canonical) (''local controller for '' @ quoted canonical) = Inr m1"
    and f: "foldR (\<lambda>occupied channel. reserve_generated_name occupied (control_pipeline_instance_name canonical channel)
         (control_debug channel @ '' pipeline for '' @ quoted canonical)) m1 ([Launch, Reset] @ (if inst_step inst \<ge> 0 then [Completion] else [])) = Inr m'"
    unfolding reserve_child_names_def bindR_eq_Inr by blast
  have "reserves (concat (map (\<lambda>channel. [control_pipeline_instance_name canonical channel]) ([Launch, Reset] @ (if inst_step inst \<ge> 0 then [Completion] else [])))) m1 m'"
    using f by (rule foldR_reserves) (rule reserve_generated_name_reserves)
  then show ?thesis using reserves_trans [OF reserve_generated_name_reserves [OF m1]] by (simp only: concat_singletons child_names_def append_Cons append_Nil)
qed

text \<open>Everything the distributed control generates, in the order it is reserved.\<close>

definition control_names :: "Task \<Rightarrow> MemoryInterface list \<Rightarrow> ControlInterface \<Rightarrow> FlatProjection option \<Rightarrow> string list" where
  "control_names t memory control projection =
     concat (map axi_names memory) @ [global_controller_instance_name] @ (if has_s_axi_control control then [CONTROL_S_AXI_INSTANCE] else []) @
     concat (map (\<lambda>(_, canonical, _, inst). child_names canonical inst) (child_instances t)) @ concat (map scope_names (control_scopes projection))"

lemma for_children_reserves:
  assumes "for_children f m t = Inr m'" and "\<And>m d c i inst m'. f m d c i inst = Inr m' \<Longrightarrow> reserves (g c inst) m m'"
  shows "reserves (concat (map (\<lambda>(_, c, _, inst). g c inst) (child_instances t))) m m'"
  using assms(1) unfolding for_children_def
  by (rule foldR_reserves) (use assms(2) in \<open>auto split: prod.splits if_splits\<close>)

lemma validate_control_names_reserves:
  assumes "validate_control_names t memory control vs aliases projection = Inr ()"
  obtains occupied m where "occupied_rtl_names t vs aliases = Inr occupied" "reserves (control_names t memory control projection) occupied m"
proof -
  let ?scope = "\<lambda>occupied scope. foldR (\<lambda>occupied name. reserve_generated_name occupied name
         (''upper controller for '' @ quoted (occ_global_name scope))) occupied (scope_names scope)"
  obtain m0 m1 m2 m3 m4 m5 where r: "occupied_rtl_names t vs aliases = Inr m0" "foldR reserve_axi_pipeline_names m0 memory = Inr m1"
      "reserve_generated_name m1 global_controller_instance_name ''global controller'' = Inr m2"
      "(if has_s_axi_control control then reserve_generated_name m2 CONTROL_S_AXI_INSTANCE ''S-AXI control block'' else Inr m2) = Inr m3"
      "for_children (\<lambda>occupied _ canonical _ inst. reserve_child_names occupied canonical inst) m3 t = Inr m4"
      "foldR ?scope m4 (control_scopes projection) = Inr m5"
    using assms unfolding validate_control_names_def bindR_eq_Inr by blast
  have "reserves (concat (map axi_names memory)) m0 m1" using r(2) by (rule foldR_reserves) (rule reserve_axi_pipeline_names_reserves)
  moreover have "reserves [global_controller_instance_name] m1 m2" by (rule reserve_generated_name_reserves [OF r(3)])
  moreover have "reserves (if has_s_axi_control control then [CONTROL_S_AXI_INSTANCE] else []) m2 m3"
    using r(4) reserve_generated_name_reserves by (auto simp: reserves_refl split: if_splits)
  moreover have "reserves (concat (map (\<lambda>(_, c, _, inst). child_names c inst) (child_instances t))) m3 m4"
    using r(5) by (rule for_children_reserves) (rule reserve_child_names_reserves)
  moreover have "reserves (concat (map scope_names (control_scopes projection))) m4 m5"
  proof -
    have "reserves (scope_names x) m m'" if "?scope m x = Inr m'" for m x m'
      using foldR_reserves [OF that, of "\<lambda>name. [name]"] reserve_generated_name_reserves by (simp add: concat_singletons)
    then show ?thesis by (rule foldR_reserves [OF r(6)])
  qed
  ultimately have "reserves (control_names t memory control projection) m0 m5" unfolding control_names_def by (intro reserves_trans)
  then show thesis using that r(1) by blast
qed

section \<open>Ownership\<close>

definition owned :: "Occupied \<Rightarrow> string \<Rightarrow> string \<Rightarrow> bool" where
  "owned occupied name owner \<longleftrightarrow> map_option occ_owner (bt_get occupied name) = Some owner"

definition owns_all :: "(string \<times> string) list \<Rightarrow> Occupied \<Rightarrow> Occupied \<Rightarrow> bool" where
  "owns_all claims before after \<longleftrightarrow> (\<forall>n c. owned before n c \<longrightarrow> owned after n c) \<and> (\<forall>(n, c) \<in> set claims. owned after n c)"

lemma owned_claimed: "owned m n c \<Longrightarrow> n \<in> claimed m"
  by (auto simp: owned_def claimed_def)

lemma owned_unique: "owned m n c \<Longrightarrow> owned m n c' \<Longrightarrow> c = c'"
  by (auto simp: owned_def)

lemma occupy_owns: "occupy m name owner description = Inr m' \<Longrightarrow> owns_all [(name, owner)] m m'"
  by (auto simp: occupy_def owns_all_def owned_def bt_get_insert split: option.splits if_splits)

lemma owns_trans: "owns_all xs a b \<Longrightarrow> owns_all ys b c \<Longrightarrow> owns_all (xs @ ys) a c"
  by (fastforce simp: owns_all_def)

lemma owns_refl: "owns_all [] m m"
  by (simp add: owns_all_def)

lemma foldR_owns:
  assumes "foldR f m xs = Inr m'" and "\<And>m x m'. f m x = Inr m' \<Longrightarrow> owns_all (g x) m m'"
  shows "owns_all (concat (map g xs)) m m'"
  using assms(1)
proof (induction xs arbitrary: m)
  case (Cons x xs)
  then obtain m1 where "f m x = Inr m1" "foldR f m1 xs = Inr m'" by (auto simp: bindR_eq_Inr)
  then show ?case using Cons.IH owns_trans [OF assms(2)] by simp
qed (simp add: owns_all_def)

definition vertex_claims :: "Vertex \<Rightarrow> (string \<times> string) list" where
  "vertex_claims v = [(v_name v, ''vertex:'' @ v_name v), (sanitize_identifier_name (v_name v), ''vertex:'' @ v_name v)]"

definition fifo_claims :: "string \<Rightarrow> (string \<times> string) list" where
  "fifo_claims fifo = [(fifo, ''stream:'' @ fifo), (sanitize_array_name fifo @ ''_fifo'', ''stream:'' @ fifo)]"

definition alias_claims :: "Task \<Rightarrow> CoLocatedInstance \<Rightarrow> (string \<times> string) list" where
  "alias_claims t a = (if bt_contains (task_fifos t) (co_name a) then []
     else [(co_name a, ''alias:'' @ co_name a), (sanitize_identifier_name (co_name a), ''alias:'' @ co_name a)])"

definition name_claims :: "Task \<Rightarrow> Vertex list \<Rightarrow> CoLocatedInstance list \<Rightarrow> (string \<times> string) list" where
  "name_claims t vs aliases = concat (map vertex_claims vs) @ concat (map fifo_claims (bt_keys (task_fifos t))) @ concat (map (alias_claims t) aliases)"

lemma occupied_rtl_names_owns:
  assumes "occupied_rtl_names t vs aliases = Inr m"
  shows "owns_all (name_claims t vs aliases) [] m"
proof -
  have two: "owns_all [(n, c), (n', c)] m m'" if "bindR (occupy m n c d) (\<lambda>m. occupy m n' c d) = Inr m'" for m m' n n' c d
    using that owns_trans [OF occupy_owns occupy_owns] by (fastforce simp: bindR_eq_Inr)
  obtain m1 m2 where r: "foldR occupy_vertex [] vs = Inr m1" "foldR occupy_fifo m1 (bt_keys (task_fifos t)) = Inr m2" "foldR (occupy_alias t) m2 aliases = Inr m"
    using assms unfolding occupied_rtl_names_def bindR_eq_Inr by blast
  have "owns_all (concat (map vertex_claims vs)) [] m1"
    using r(1) by (rule foldR_owns) (simp add: occupy_vertex_def vertex_claims_def Let_def two)
  moreover have "owns_all (concat (map fifo_claims (bt_keys (task_fifos t)))) m1 m2"
    using r(2) by (rule foldR_owns) (auto simp: occupy_fifo_def fifo_claims_def Let_def two split: if_splits)
  moreover have "owns_all (concat (map (alias_claims t) aliases)) m2 m"
  proof (rule foldR_owns [OF r(3)])
    show "owns_all (alias_claims t a) m m'" if "occupy_alias t m a = Inr m'" for m a m'
      using that by (cases "bt_contains (task_fifos t) (co_name a)") (simp_all add: occupy_alias_def alias_claims_def Let_def two owns_refl)
  qed
  ultimately show ?thesis unfolding name_claims_def by (intro owns_trans)
qed

lemma claims_unique:
  assumes "occupied_rtl_names t vs aliases = Inr m" and "(n, c) \<in> set (name_claims t vs aliases)" and "(n, c') \<in> set (name_claims t vs aliases)"
  shows "c = c'"
  using occupied_rtl_names_owns [OF assms(1)] assms(2,3) owned_unique [of m n c c'] unfolding owns_all_def by blast

lemma claims_claimed:
  assumes "occupied_rtl_names t vs aliases = Inr m"
  shows "v_name ` set vs \<union> set (bt_keys (task_fifos t)) \<union> co_name ` set aliases \<subseteq> claimed m"
proof -
  have own: "n \<in> claimed m" if "(n, c) \<in> set (name_claims t vs aliases)" for n c
    using occupied_rtl_names_owns [OF assms] that owned_claimed unfolding owns_all_def by blast
  have f: "n \<in> claimed m" if "n \<in> set (bt_keys (task_fifos t))" for n using that own [of n "''stream:'' @ n"] by (auto simp: name_claims_def fifo_claims_def)
  have v: "v_name v \<in> claimed m" if "v \<in> set vs" for v using that own [of "v_name v" "''vertex:'' @ v_name v"] by (auto simp: name_claims_def vertex_claims_def)
  have "co_name a \<in> claimed m" if "a \<in> set aliases" for a
  proof (cases "bt_contains (task_fifos t) (co_name a)")
    case True
    then show ?thesis by (intro f) (auto simp: bt_contains_def bt_get_None)
  next
    case False
    then show ?thesis using that own [of "co_name a" "''alias:'' @ co_name a"] by (auto simp: name_claims_def alias_claims_def)
  qed
  then show ?thesis using f v by auto
qed

section \<open>Aliases\<close>

definition alias_names :: "FloorGraphBuilder \<Rightarrow> string list" where
  "alias_names b = map co_name (fb_co_located b)"

lemma alias_names_simps [simp]:
  "alias_names (co_locate name host b) = alias_names b @ [name]" "alias_names (push_vertex v b) = alias_names b"
  "add_placement_width src dst w b = Some b' \<Longrightarrow> alias_names b' = alias_names b"
  "charge_vertex host area e b = Inr b' \<Longrightarrow> alias_names b' = alias_names b"
  by (simp_all add: alias_names_def co_locate_def push_vertex_def add_placement_width_same charge_vertex_same)

lemma add_task_vertices_aliases: "add_task_vertices flat t b = Inr b' \<Longrightarrow> alias_names b' = alias_names b"
  unfolding add_task_vertices_def
  by (drule for_children_invariant [where I = "\<lambda>c. alias_names c = alias_names b"]) (auto simp: bindR_eq_Inr Let_def, simp add: alias_names_def)

lemma cluster_fifo_aliases:
  assumes "cluster_fifo widths (b, links) (name, fifo) = Inr (b', links')"
  shows "alias_names b' = alias_names b @ (if ic_depth fifo = None then [] else [name])"
  using assms by (auto simp: cluster_fifo_def bindR_eq_Inr Let_def split: option.splits if_splits)

definition internal_fifos :: "Task \<Rightarrow> string list" where
  "internal_fifos t = map fst (filter (\<lambda>(_, fifo). ic_depth fifo \<noteq> None) (task_fifos t))"

lemma cluster_fifos_aliases:
  assumes "foldR (cluster_fifo widths) (b, links) fifos = Inr (b', links')"
  shows "alias_names b' = alias_names b @ map fst (filter (\<lambda>(_, fifo). ic_depth fifo \<noteq> None) fifos)"
  using assms
proof (induction fifos arbitrary: b links)
  case (Cons x fifos)
  obtain name fifo where x: "x = (name, fifo)" by force
  obtain b1 links1 where r: "cluster_fifo widths (b, links) (name, fifo) = Inr (b1, links1)" "foldR (cluster_fifo widths) (b1, links1) fifos = Inr (b', links')"
    using Cons.prems x by (auto simp: bindR_eq_Inr)
  show ?case using Cons.IH [OF r(2)] cluster_fifo_aliases [OF r(1)] x by simp
qed simp

lemma claim_interface_aliases:
  assumes "claim_interface provided (b, m) x = Inr (b', m')" and "distinct (alias_names b)" and "set (alias_names b) \<subseteq> claimed m"
  shows "distinct (alias_names b') \<and> set (alias_names b') \<subseteq> claimed m'"
proof -
  obtain endpoint e where x: "x = (endpoint, e)" by force
  obtain interface m1 where r: "bt_get provided endpoint = Some interface" "reserve_axi_pipeline_names m interface = Inr m1"
      "(case mi_bridge_instance interface of None \<Rightarrow> Inr (b, m1)
        | Some bridge \<Rightarrow> bindR (reserve_generated_name m1 bridge (''async mmap bridge for '' @ quoted (axi_top_port endpoint))) (\<lambda>m.
            Inr (co_locate bridge (ex_task_vertex e) b, m))) = Inr (b', m')"
    using assms(1) unfolding claim_interface_def x by (auto simp only: bindR_eq_Inr ok_or_eq_Inr prod.case)
  have m1: "claimed m \<subseteq> claimed m1" using reserve_axi_pipeline_names_reserves [OF r(2)] by (auto simp: reserves_def)
  show ?thesis
  proof (cases "mi_bridge_instance interface")
    case None
    then show ?thesis using r(3) m1 assms(2,3) by auto
  next
    case (Some bridge)
    then have "reserve_generated_name m1 bridge (''async mmap bridge for '' @ quoted (axi_top_port endpoint)) = Inr m'" "b' = co_locate bridge (ex_task_vertex e) b"
      using r(3) by (auto simp only: bindR_eq_Inr option.case sum.inject prod.inject)
    then show ?thesis using reserve_generated_name_reserves m1 assms(2,3) by (fastforce simp: reserves_def)
  qed
qed

lemma connect_interface_aliases:
  assumes "connect_interface provided ((b, ts), nets) x = Inr ((b', ts'), nets')"
  shows "alias_names b' = alias_names b"
proof -
  have ch: "alias_names (fst acc') = alias_names (fst acc)" if "add_axi_channel endpoint bank task terminal acc y = Inr acc'" for endpoint bank task terminal acc y acc'
    using that by (cases acc; cases y; cases "axi_direction (fst y) task terminal") (auto simp: add_axi_channel_def bindR_eq_Inr)
  have chs: "alias_names (fst acc') = alias_names (fst acc)" if "foldR (add_axi_channel endpoint bank task terminal) acc ys = Inr acc'" for endpoint bank task terminal acc ys acc'
    using that by (rule foldR_invariant [where I = "\<lambda>c. alias_names (fst c) = alias_names (fst acc)"]) (auto dest: ch)
  have tm: "alias_names c' = alias_names c" if "bank_terminal bank (c, us) = Inr (terminal, c', us')" for bank c us terminal c' us'
    using that by (auto simp: bank_terminal_def Let_def bindR_eq_Inr split: option.splits)
  show ?thesis using assms chs tm by (fastforce simp: connect_interface_def Let_def bindR_eq_Inr split: prod.splits if_splits)
qed

text \<open>The aliases after the memory interfaces: the internal FIFOs and the bridges.\<close>

lemma memory_aliases:
  assumes "add_memory_interfaces flat t memory b = Inr (b', nets)" and "distinct (alias_names b)"
  shows "distinct (alias_names b')"
proof -
  obtain expected provided m b1 m1 ts where r: "occupied_rtl_names t (fb_vertices b) (fb_co_located b) = Inr m"
      "foldR (claim_interface provided) (b, m) expected = Inr (b1, m1)" "foldR (connect_interface provided) ((b1, []), []) expected = Inr ((b', ts), nets)"
    using assms(1) by (auto simp: add_memory_interfaces_def bindR_eq_Inr split: prod.splits)
  have start: "set (alias_names b) \<subseteq> claimed m" using claims_claimed [OF r(1)] by (simp add: alias_names_def)
  have "case (b1, m1) of (b, m) \<Rightarrow> distinct (alias_names b) \<and> set (alias_names b) \<subseteq> claimed m"
    using r(2)
  proof (rule foldR_invariant)
    show "case acc' of (b, m) \<Rightarrow> distinct (alias_names b) \<and> set (alias_names b) \<subseteq> claimed m"
      if "case acc of (b, m) \<Rightarrow> distinct (alias_names b) \<and> set (alias_names b) \<subseteq> claimed m" "claim_interface provided acc x = Inr acc'" for acc x acc'
      using that claim_interface_aliases [of provided "fst acc" "snd acc" x "fst acc'" "snd acc'"] by (simp add: case_prod_unfold)
  qed (use start assms(2) in simp)
  moreover have "alias_names (fst (fst ((b', ts), nets))) = alias_names b1"
    using r(3)
  proof (rule foldR_invariant [where I = "\<lambda>c. alias_names (fst (fst c)) = alias_names b1"])
    show "alias_names (fst (fst acc')) = alias_names b1" if "alias_names (fst (fst acc)) = alias_names b1" "connect_interface provided acc x = Inr acc'" for acc x acc'
      using that connect_interface_aliases [of provided "fst (fst acc)" "snd (fst acc)" "snd acc" x "fst (fst acc')" "snd (fst acc')" "snd acc'"] by simp
  qed simp
  ultimately show ?thesis by simp
qed

lemma control_child_aliases:
  assumes "control_child flat global (b, nets) d c i inst = Inr (b', nets')"
  shows "alias_names b' = alias_names b @ [local_controller_instance_name c]"
proof -
  have net: "alias_names (fst acc') = alias_names (fst acc)" if "add_control_net name channel src dst w acc = Inr acc'" for name channel src dst w acc acc'
    using that by (cases acc) (auto simp: add_control_net_def bindR_eq_Inr)
  obtain child w acc1 acc2 where r: 
      "add_control_net c Launch global child w (co_locate (local_controller_instance_name c) child b, nets) = Inr acc1"
      "add_control_net c Reset global child 1 acc1 = Inr acc2"
      "(if inst_step inst \<ge> 0 then add_control_net c Completion child global 1 acc2 else Inr acc2) = Inr (b', nets')"
    using assms by (auto simp: control_child_def Let_def bindR_eq_Inr)
  have "alias_names (fst (b', nets')) = alias_names (fst acc2)"
  proof (cases "inst_step inst \<ge> 0")
    case True
    then show ?thesis using net [of c Completion child global 1 acc2 "(b', nets')"] r(3) by simp
  next
    case False
    then show ?thesis using r(3) by simp
  qed
  then show ?thesis using net [OF r(1)] net [OF r(2)] by simp
qed

lemma foldR_children_aliases:
  assumes "foldR (\<lambda>s (d, c, i, inst). if fits 32 i then control_child flat global s d c i inst else Inl Panicked) (b, nets) xs = Inr (b', nets')"
  shows "alias_names b' = alias_names b @ map (\<lambda>(_, c, _, _). local_controller_instance_name c) xs"
  using assms
proof (induction xs arbitrary: b nets)
  case (Cons x xs)
  obtain d c i inst where x: "x = (d, c, i, inst)" by (metis prod_cases4)
  obtain b1 nets1 where r: "control_child flat global (b, nets) d c i inst = Inr (b1, nets1)"
      "foldR (\<lambda>s (d, c, i, inst). if fits 32 i then control_child flat global s d c i inst else Inl Panicked) (b1, nets1) xs = Inr (b', nets')"
    using Cons.prems x by (auto simp: bindR_eq_Inr split: if_splits)
  show ?case using Cons.IH [OF r(2)] control_child_aliases [OF r(1)] x by simp
qed simp

lemma distinct_heads:
  assumes "distinct (concat (map f xs))" and "\<And>x. x \<in> set xs \<Longrightarrow> h x \<in> set (f x)"
  shows "distinct (map h xs) \<and> set (map h xs) \<subseteq> set (concat (map f xs))"
  using assms
proof (induction xs)
  case (Cons x xs)
  have "distinct (map h xs) \<and> set (map h xs) \<subseteq> set (concat (map f xs))" using Cons by simp
  moreover have "h x \<in> set (f x)" "set (f x) \<inter> set (concat (map f xs)) = {}" using Cons.prems by auto
  ultimately have "h x \<notin> set (map h xs)" by blast
  then show ?case using \<open>distinct (map h xs) \<and> set (map h xs) \<subseteq> set (concat (map f xs))\<close> \<open>h x \<in> set (f x)\<close> by auto
qed simp

lemma control_aliases:
  assumes "add_control_interface flat t memory control anchor projection b = Inr (b', nets)" and "builder_inv b cs" and "distinct (alias_names b)"
  shows "distinct (alias_names b')"
proof -
  note r = add_control_interface_Inr [OF assms(1)]
  obtain occupied m where o: "occupied_rtl_names t (fb_vertices b) (fb_co_located b) = Inr occupied" "reserves (control_names t memory control projection) occupied m"
    using validate_control_names_reserves [OF r(1)] by blast
  define s where "s = (if has_s_axi_control control then [CONTROL_S_AXI_INSTANCE] else [])"
  define scopes where "scopes = concat (map scope_names (control_scopes projection))"
  define children where "children = concat (map (\<lambda>(_, c, _, inst). child_names c inst) (child_instances t))"
  define locals where "locals = map (\<lambda>(_, c, _, _). local_controller_instance_name c) (child_instances t)"
  define before where "before = concat (map axi_names memory) @ [global_controller_instance_name]"
  have "alias_names (control_base projection control anchor b) = alias_names b @ s @ scopes"
    using control_base_inv(4) [OF assms(2) r(2)] by (simp add: alias_names_def comp_def s_def scopes_def)
  then have b': "alias_names b' = alias_names b @ s @ scopes @ locals"
    using foldR_children_aliases [OF r(3) [unfolded for_children_def]] by (simp add: locals_def)
  have names: "control_names t memory control projection = before @ s @ children @ scopes"
    by (simp add: control_names_def before_def s_def children_def scopes_def)
  have d: "distinct (s @ children @ scopes)" "set (s @ children @ scopes) \<inter> claimed occupied = {}"
    using o(2) unfolding reserves_def names distinct_append set_append by blast+
  then have "distinct children" unfolding distinct_append by blast
  then have l: "distinct locals \<and> set locals \<subseteq> set children" unfolding children_def locals_def
    by (rule distinct_heads) (simp add: child_names_def split: prod.splits)
  have "set (alias_names b) \<subseteq> claimed occupied" using claims_claimed [OF o(1)] by (simp add: alias_names_def)
  moreover have "distinct (s @ scopes @ locals)" "set (s @ scopes @ locals) \<inter> claimed occupied = {}"
    using d l unfolding distinct_append set_append by blast+
  ultimately show ?thesis unfolding b' distinct_append using assms(3) by blast
qed

section \<open>The names of a built graph\<close>

lemma built_aliases_distinct:
  assumes "build_with_scopes flat memory control anchor projection = Inr g" and "bt_get (g_tasks flat) (g_top flat) = Some t" and "bt_ok (task_fifos t)"
  shows "distinct (map co_name (co_located g)) \<and> (\<exists>m. occupied_rtl_names t (vertices g) (co_located g) = Inr m)"
  using assms(1)
proof (rule build_with_scopes_Inr)
  fix t' b1 b2 b3 b4 m
  assume r: "bt_get (g_tasks flat) (g_top flat) = Some t'" "add_task_vertices flat t' FloorGraphBuilder_default = Inr b1"
    "cluster_internal_fifos flat t' b1 = Inr (b2, streams g)" "add_memory_interfaces flat t' memory b2 = Inr (b3, axi_nets g)"
    "(b4, control_nets g) = (b3, []) \<or> (\<exists>c. add_control_interface flat t' memory c anchor projection b3 = Inr (b4, control_nets g))"
    "occupied_rtl_names t' (fb_vertices b4) (fb_co_located b4) = Inr m"
    and g: "vertices g = fb_vertices b4" "co_located g = fb_co_located b4"
  have t: "t' = t" using r(1) assms(2) by simp
  have "alias_names b1 = []" using add_task_vertices_aliases [OF r(2)] by (simp add: alias_names_def FloorGraphBuilder_default_def)
  then have "alias_names b2 = map fst (filter (\<lambda>(_, fifo). ic_depth fifo \<noteq> None) (task_fifos t))"
    using cluster_fifos_aliases r(3) t unfolding cluster_internal_fifos_def by force
  then have "distinct (alias_names b2)" using bt_ok_distinct [OF assms(3)] by (simp add: distinct_map_filter)
  then have d3: "distinct (alias_names b3)" by (rule memory_aliases [OF r(4)])
  have inv: "builder_inv b3 (stream_channels (streams g) @ axi_channels_of (axi_nets g))"
    by (rule add_memory_interfaces_inv [OF r(4) cluster_internal_fifos_inv [OF r(3) add_task_vertices_inv [OF r(2) builder_inv_default]]])
  have "distinct (alias_names b4)" using r(5) d3 control_aliases [OF _ inv d3] by auto
  then show ?thesis using r(6) g t by (auto simp: alias_names_def)
qed

text \<open>No two objects of a built graph share a name or a sanitised RTL identifier.\<close>

definition names_unique :: "Task \<Rightarrow> FloorGraph \<Rightarrow> bool" where
  "names_unique t g \<longleftrightarrow>
     distinct (map v_name (vertices g) @ map co_name (co_located g)) \<and>
     distinct (map (sanitize_identifier_name \<circ> v_name) (vertices g)) \<and>
     (\<forall>(n, c) \<in> set (name_claims t (vertices g) (co_located g)). \<forall>(n', c') \<in> set (name_claims t (vertices g) (co_located g)). n = n' \<longrightarrow> c = c')"

lemma built_names_unique:
  assumes "build_with_scopes flat memory control anchor projection = Inr g" and "bt_get (g_tasks flat) (g_top flat) = Some t" and "bt_ok (task_fifos t)"
  shows "names_unique t g"
proof -
  obtain m where m: "occupied_rtl_names t (vertices g) (co_located g) = Inr m" and d: "distinct (map co_name (co_located g))"
    using built_aliases_distinct [OF assms] by blast
  note one = claims_unique [OF m]
  have dv: "distinct (map v_name (vertices g))" using built_graph_exact [OF assms(1)] by (simp add: vertices_exact_def)
  have vc: "(v_name v, ''vertex:'' @ v_name v) \<in> set (name_claims t (vertices g) (co_located g))"
      "(sanitize_identifier_name (v_name v), ''vertex:'' @ v_name v) \<in> set (name_claims t (vertices g) (co_located g))" if "v \<in> set (vertices g)" for v
    using that by (auto simp: name_claims_def vertex_claims_def)
  have ac: "(co_name a, ''alias:'' @ co_name a) \<in> set (name_claims t (vertices g) (co_located g)) \<or>
      (co_name a, ''stream:'' @ co_name a) \<in> set (name_claims t (vertices g) (co_located g))" if "a \<in> set (co_located g)" for a
    using that by (auto simp: name_claims_def alias_claims_def fifo_claims_def bt_contains_def bt_get_None)
  have "v_name v \<noteq> co_name a" if "v \<in> set (vertices g)" "a \<in> set (co_located g)" for v a
    using one [OF vc(1) [OF that(1)], of "''alias:'' @ co_name a"] one [OF vc(1) [OF that(1)], of "''stream:'' @ co_name a"] ac [OF that(2)] by auto
  then have "distinct (map v_name (vertices g) @ map co_name (co_located g))" using d dv by auto
  moreover have "inj_on (sanitize_identifier_name \<circ> v_name) (set (vertices g))"
  proof (rule inj_onI)
    fix u v assume uv: "u \<in> set (vertices g)" "v \<in> set (vertices g)" "(sanitize_identifier_name \<circ> v_name) u = (sanitize_identifier_name \<circ> v_name) v"
    then have "v_name u = v_name v" using one [OF vc(2) [OF uv(1)], of "''vertex:'' @ v_name v"] vc(2) [OF uv(2)] by simp
    then show "u = v" using dv uv(1,2) by (auto simp: distinct_map dest: inj_onD)
  qed
  ultimately show ?thesis using dv one by (auto simp: names_unique_def distinct_map)
qed

section \<open>Published regions\<close>

text \<open>The region a plan publishes under a name: that of the vertex, unless it is a transient terminal, or of the host of an alias.\<close>

definition alias_host :: "FloorGraph \<Rightarrow> string \<Rightarrow> nat option" where
  "alias_host g name = map_option co_host (find (\<lambda>a. co_name a = name) (co_located g))"

definition published_region :: "FloorGraph \<Rightarrow> string list \<Rightarrow> string \<Rightarrow> string option" where
  "published_region g regs name =
     (case bt_get (vertex_index g) name of
        Some i \<Rightarrow> if materialize (vertices g ! i) then Some (regs ! i) else None
      | None \<Rightarrow> map_option ((!) regs) (alias_host g name))"

lemma materialize_fold:
  assumes "distinct (map co_name as)" and "\<forall>a \<in> set as. co_host a < length (vertices g) \<and> bt_get m (v_name (vertices g ! co_host a)) = Some (regs ! co_host a)"
    and "\<forall>a \<in> set as. bt_get m (co_name a) = None"
  shows "\<exists>m'. foldR (materialize_co_location g) m as = Inr m' \<and> (\<forall>name. bt_get m' name =
    (case find (\<lambda>a. co_name a = name) as of Some a \<Rightarrow> Some (regs ! co_host a) | None \<Rightarrow> bt_get m name))"
  using assms
proof (induction as arbitrary: m)
  case (Cons a as)
  let ?m = "bt_insert (co_name a) (regs ! co_host a) m"
  have step: "materialize_co_location g m a = Inr ?m" using Cons.prems by (simp add: materialize_co_location_def Let_def)
  have "\<forall>x \<in> set as. co_host x < length (vertices g) \<and> bt_get ?m (v_name (vertices g ! co_host x)) = Some (regs ! co_host x)"
    using Cons.prems(2,3) by (auto simp: bt_get_insert)
  moreover have "\<forall>x \<in> set as. bt_get ?m (co_name x) = None"
  proof
    fix x assume x: "x \<in> set as"
    then have "co_name x \<in> set (map co_name as)" by simp
    then have "co_name x \<noteq> co_name a" using Cons.prems(1) by auto
    then show "bt_get ?m (co_name x) = None" using Cons.prems(3) x by (simp add: bt_get_insert)
  qed
  moreover have "distinct (map co_name as)" using Cons.prems(1) by simp
  ultimately obtain m' where m': "foldR (materialize_co_location g) ?m as = Inr m'"
      "\<forall>name. bt_get m' name = (case find (\<lambda>a. co_name a = name) as of Some a \<Rightarrow> Some (regs ! co_host a) | None \<Rightarrow> bt_get ?m name)"
    using Cons.IH [of ?m] by blast
  have "co_name x \<noteq> co_name a" if "x \<in> set as" for x
    using Cons.prems(1) imageI [OF that, of co_name] by auto
  then have "find (\<lambda>x. co_name x = co_name a) as = None" by (auto simp: find_None_iff)
  then show ?case using step m' by (auto simp: bt_get_insert split: option.splits)
qed simp

lemma bt_get_collect_zip:
  assumes "distinct ks" and "length vs = length ks"
  shows "bt_get (bt_collect (zip ks vs)) k = map_of (zip ks vs) k"
proof -
  have "map_of (rev (zip ks vs)) k = Some v \<longleftrightarrow> map_of (zip ks vs) k = Some v" for v
    using assms by (simp add: map_of_eq_Some_iff rev_map [symmetric])
  then show ?thesis unfolding bt_get_collect by (metis not_None_eq)
qed

lemma regions_published:
  assumes "vertices_exact g" and "distinct (map v_name (vertices g) @ map co_name (co_located g))" and "length regs = length (vertices g)"
  shows "\<exists>r. materialize_co_locations g (bt_collect (zip (map v_name (vertices g)) regs)) = Inr r \<and>
    (\<forall>name. bt_get (remove_transient_regions g r) name = published_region g regs name)"
proof -
  let ?m = "bt_collect (zip (map v_name (vertices g)) regs)"
  have iff: "bt_get (vertex_index g) name = Some i \<longleftrightarrow> i < length (vertices g) \<and> v_name (vertices g ! i) = name" for name i
    using assms(1) unfolding vertices_exact_def by blast
  have named: "bt_get (vertex_index g) name \<noteq> None" if name: "name \<in> set (map v_name (vertices g))" for name
  proof -
    obtain i where "i < length (vertices g)" "v_name (vertices g ! i) = name" using name unfolding in_set_conv_nth by auto
    then have "bt_get (vertex_index g) name = Some i" using iff by blast
    then show ?thesis by simp
  qed
  have get: "bt_get ?m name = (case bt_get (vertex_index g) name of Some i \<Rightarrow> Some (regs ! i) | None \<Rightarrow> None)" for name
  proof (cases "bt_get (vertex_index g) name")
    case None
    then have "name \<notin> set (map v_name (vertices g))" using named by blast
    then show ?thesis using None assms(2,3) by (simp add: bt_get_collect_zip map_of_zip_is_None)
  next
    case (Some i)
    then have i: "i < length (vertices g)" "map v_name (vertices g) ! i = name" using iff by auto
    then show ?thesis using Some assms(2,3) map_of_zip_nth [of "map v_name (vertices g)" regs i] by (simp add: bt_get_collect_zip)
  qed
  have idx: "bt_get (vertex_index g) (v_name (vertices g ! i)) = Some i" if "i < length (vertices g)" for i
    using that iff by blast
  have hosts: "co_host a < length (vertices g)" if "a \<in> set (co_located g)" for a using that assms(1) unfolding vertices_exact_def by blast
  have free: "bt_get (vertex_index g) (co_name a) = None" if "a \<in> set (co_located g)" for a
  proof (rule ccontr)
    assume "bt_get (vertex_index g) (co_name a) \<noteq> None"
    then obtain i where "bt_get (vertex_index g) (co_name a) = Some i" by blast
    then have "i < length (vertices g)" "v_name (vertices g ! i) = co_name a" using iff by blast+
    then have "co_name a \<in> set (map v_name (vertices g))" by (metis length_map nth_map nth_mem)
    then show False using that assms(2) by auto
  qed
  obtain r where r: "foldR (materialize_co_location g) ?m (co_located g) = Inr r"
      "\<forall>name. bt_get r name = (case find (\<lambda>a. co_name a = name) (co_located g) of Some a \<Rightarrow> Some (regs ! co_host a) | None \<Rightarrow> bt_get ?m name)"
  proof -
    have "distinct (map co_name (co_located g))" using assms(2) by simp
    moreover have "\<forall>a \<in> set (co_located g). co_host a < length (vertices g) \<and> bt_get ?m (v_name (vertices g ! co_host a)) = Some (regs ! co_host a)"
      using hosts by (simp add: get idx)
    moreover have "\<forall>a \<in> set (co_located g). bt_get ?m (co_name a) = None" by (simp add: get free)
    ultimately show ?thesis using materialize_fold [of "co_located g" g ?m regs] that by blast
  qed
  have find_free: "find (\<lambda>a. co_name a = name) (co_located g) = None" if "bt_get (vertex_index g) name = Some i" for name i
    using free that by (auto simp: find_None_iff)
  have keep: "bt_get (remove_transient_regions g r) name =
      (case bt_get (vertex_index g) name of None \<Rightarrow> bt_get r name | Some i \<Rightarrow> if materialize (vertices g ! i) then bt_get r name else None)" for name
  proof -
    have "bt_get (filter (\<lambda>(n, _). P n) m) name = (if P name then bt_get m name else None)" for P :: "string \<Rightarrow> bool" and m :: "(string, string) btree"
      by (induction m) (auto simp: bt_get_def)
    from this [of "\<lambda>n. case bt_get (vertex_index g) n of None \<Rightarrow> True | Some vertex \<Rightarrow> materialize (vertices g ! vertex)" r]
    show ?thesis unfolding remove_transient_regions_def by (cases "bt_get (vertex_index g) name") simp_all
  qed
  have "bt_get (remove_transient_regions g r) name = published_region g regs name" for name
  proof (cases "bt_get (vertex_index g) name")
    case None
    then show ?thesis using r(2) keep [of name] get [of name] by (simp add: published_region_def alias_host_def split: option.splits)
  next
    case (Some i)
    then show ?thesis using r(2) keep [of name] get [of name] find_free [OF Some] by (simp add: published_region_def)
  qed
  then show ?thesis using r(1) by (auto simp: materialize_co_locations_def)
qed

section \<open>Properties\<close>

definition demo_pair_task :: "TaskLevel \<Rightarrow> Port list \<Rightarrow> (string, TaskInstance list) btree \<Rightarrow> (string, InterconnectDefinition) btree \<Rightarrow> Task" where
  "demo_pair_task level ports tasks fifos = (demo_task level ports tasks fifos)\<lparr>task_self_area := Some (demo_area 3)\<rparr>"

text \<open>A producer and a consumer on one FIFO, with the distributed control switched on.\<close>

definition demo_pair :: TaskGraph where
  "demo_pair =
     \<lparr>g_schema_version = 3, g_top = ''Top'', g_target = XilinxVitis, g_cflags = [],
      g_tasks = [(''A'', demo_pair_task Lower [demo_port\<lparr>port_cat := Ostream, port_name := ''out'', port_width := 32\<rparr>] [] []),
        (''B'', demo_pair_task Lower [demo_port\<lparr>port_cat := Istream, port_name := ''in'', port_width := 32\<rparr>] [] []),
        (''Top'', demo_pair_task Upper []
          [(''A'', [\<lparr>inst_name = None, inst_args = [(''out'', arg_named ''q'' Ostream)], inst_step = 0\<rparr>]),
           (''B'', [\<lparr>inst_name = None, inst_args = [(''in'', arg_named ''q'' Istream)], inst_step = - 1\<rparr>])]
          [(''q'', \<lparr>ic_depth = Some 2, ic_consumed_by = Some (EndpointRef ''B'' 0), ic_produced_by = Some (EndpointRef ''A'' 0)\<rparr>)])]\<rparr>"

definition demo_pair_top :: Task where
  "demo_pair_top = demo_pair_task Upper []
     [(''A'', [\<lparr>inst_name = None, inst_args = [(''out'', arg_named ''q'' Ostream)], inst_step = 0\<rparr>]),
      (''B'', [\<lparr>inst_name = None, inst_args = [(''in'', arg_named ''q'' Istream)], inst_step = - 1\<rparr>])]
     [(''q'', \<lparr>ic_depth = Some 2, ic_consumed_by = Some (EndpointRef ''B'' 0), ic_produced_by = Some (EndpointRef ''A'' 0)\<rparr>)]"

lemma demo_pair_top_task: "bt_get (g_tasks demo_pair) (g_top demo_pair) = Some demo_pair_top" "bt_ok (task_fifos demo_pair_top)"
  by (simp_all add: demo_pair_def demo_pair_top_def demo_pair_task_def demo_task_def bt_get_def)

definition demo_vertex :: "string \<Rightarrow> Area \<Rightarrow> Vertex" where
  "demo_vertex name area = \<lparr>v_name = name, v_area = area, required_tag = None, materialize = True\<rparr>"

definition demo_tasks_built :: FloorGraphBuilder where
  "demo_tasks_built = \<lparr>fb_vertices = [demo_vertex ''A_0'' (demo_area 3), demo_vertex ''B_0'' (demo_area 3)], fb_index = [(''A_0'', 0), (''B_0'', 1)],
     fb_task_endpoints = [((''A'', 0), 0), ((''B'', 0), 1)], fb_placement_widths = [], fb_co_located = []\<rparr>"

definition demo_fifos_built :: FloorGraphBuilder where
  "demo_fifos_built = demo_tasks_built\<lparr>fb_vertices := [demo_vertex ''A_0'' (demo_area 3),
       demo_vertex ''B_0'' \<lparr>lut = 69, ff = 19, bram_18k = 0, dsp = 1, uram = 0\<rparr>],
     fb_placement_widths := [((0, 1), \<lparr>dw_forward = 35, dw_reverse = 0\<rparr>)], fb_co_located := [\<lparr>co_name = ''q'', co_host = 1\<rparr>]\<rparr>"

definition demo_control_built :: FloorGraphBuilder where
  "demo_control_built = \<lparr>fb_vertices = fb_vertices demo_fifos_built @ [demo_vertex ''__tapa_global_controller'' Area_default],
     fb_index = [(''A_0'', 0), (''B_0'', 1), (''__tapa_global_controller'', 2)], fb_task_endpoints = fb_task_endpoints demo_fifos_built,
     fb_placement_widths = [((0, 1), \<lparr>dw_forward = 35, dw_reverse = 0\<rparr>), ((0, 2), \<lparr>dw_forward = 1, dw_reverse = 3\<rparr>), ((1, 2), \<lparr>dw_forward = 0, dw_reverse = 2\<rparr>)],
     fb_co_located = [\<lparr>co_name = ''q'', co_host = 1\<rparr>, \<lparr>co_name = ''control_s_axi_U'', co_host = 2\<rparr>,
       \<lparr>co_name = ''__tapa_local_controller_A_0'', co_host = 0\<rparr>, \<lparr>co_name = ''__tapa_local_controller_B_0'', co_host = 1\<rparr>]\<rparr>"

definition demo_nets :: "ControlNet list" where
  "demo_nets = (let n = (\<lambda>inst channel src dst width. \<lparr>cn_instance = inst, cn_channel = channel, cn_src = src, cn_dst = dst, cn_width = width\<rparr>) in
     [n ''A_0'' Launch 2 0 2, n ''A_0'' Reset 2 0 1, n ''A_0'' Completion 0 2 1, n ''B_0'' Launch 2 1 1, n ''B_0'' Reset 2 1 1])"

definition demo_links :: "Stream list" where
  "demo_links = [\<lparr>s_link = ''q'', s_src = 0, s_dst = 1, s_width = 35, s_data_width = 33, s_depth = 2\<rparr>]"

lemmas demo_pair_defs = demo_pair_def demo_pair_top_def demo_pair_task_def demo_task_def demo_port_def demo_area_def demo_vertex_def bt_get_def

lemmas child_evals = for_children_def child_instances_def canonical_name_def fits_def Let_def ok_or_def bt_contains_def bt_keys_def less_char_def

lemma demo_names [simp]:
  "sanitize_identifier_name ''A_0'' = ''A_0''" "sanitize_identifier_name ''B_0'' = ''B_0''" "sanitize_array_name ''q'' = ''q''"
  "sanitize_identifier_name ''q_fifo'' = ''q_fifo''" "show_nat 0 = ''0''" "ilog2 7 = 2"
  "sanitize_identifier_name ''__tapa_global_controller'' = ''__tapa_global_controller''" "sanitize_identifier_name ''control_s_axi_U'' = ''control_s_axi_U''"
  "sanitize_identifier_name ''__tapa_local_controller_A_0'' = ''__tapa_local_controller_A_0''" "sanitize_identifier_name ''__tapa_local_controller_B_0'' = ''__tapa_local_controller_B_0''"
  by code_simp+

lemma demo_generated:
  "global_controller_instance_name = ''__tapa_global_controller''" "CONTROL_S_AXI_INSTANCE = ''control_s_axi_U''"
  "local_controller_instance_name ''A_0'' = ''__tapa_local_controller_A_0''" "local_controller_instance_name ''B_0'' = ''__tapa_local_controller_B_0''"
  "control_pipeline_instance_name ''A_0'' c = ''__tapa_control_A_0_'' @ control_rtl_name c" "control_pipeline_instance_name ''B_0'' c = ''__tapa_control_B_0_'' @ control_rtl_name c"
  by (simp_all add: global_controller_instance_name_def CONTROL_S_AXI_INSTANCE_def local_controller_instance_name_def control_pipeline_instance_name_def)

lemma demo_step_tasks: "add_task_vertices demo_pair demo_pair_top FloorGraphBuilder_default = Inr demo_tasks_built"
  by (simp add: demo_tasks_built_def demo_pair_defs child_evals add_task_vertices_def FloorGraphBuilder_default_def push_vertex_def)

lemma demo_step_names: "validate_sanitized_instance_names demo_pair_top = Inr ()"
  by (simp add: demo_pair_defs child_evals validate_sanitized_instance_names_def)

lemma demo_step_fifos: "cluster_internal_fifos demo_pair demo_pair_top demo_tasks_built = Inr (demo_fifos_built, demo_links)"
  by (simp add: demo_tasks_built_def demo_fifos_built_def demo_links_def demo_pair_defs child_evals cluster_internal_fifos_def cluster_fifo_def
      index_fifo_arg_widths_def graph_bindings_def instance_bindings_def index_binding_def resolve_fifo_data_width_def resolve_fifo_endpoint_def
      charge_vertex_def co_locate_def add_placement_width_def checked_add_def fifo_area_def floorplanned_fifo_storage_depth_def area_checked_add_def
      area_checked_add_scaled_def add_scaled_def checked_mul_def arg_named_def arg_name_def task_port_def is_stream_def get_or_insert_def)

lemmas occupy_evals = occupied_rtl_names_def occupy_vertex_def occupy_def quoted_def occupy_fifo_def occupy_alias_def

lemma demo_step_memory: "add_memory_interfaces demo_pair demo_pair_top [] demo_fifos_built = Inr (demo_fifos_built, [])"
proof -
  have "expected_memory_interfaces demo_pair demo_pair_top (fb_task_endpoints demo_fifos_built) = Inr []"
    by (simp add: expected_memory_interfaces_def expect_argument_def demo_tasks_built_def demo_fifos_built_def demo_pair_defs child_evals arg_named_def)
  moreover have "\<exists>m. occupied_rtl_names demo_pair_top (fb_vertices demo_fifos_built) (fb_co_located demo_fifos_built) = Inr m"
    by (simp add: demo_tasks_built_def demo_fifos_built_def demo_pair_defs child_evals occupy_evals)
  ultimately show ?thesis by (auto simp: add_memory_interfaces_def match_interfaces_def bt_keys_def)
qed

lemma demo_step_control_names:
  "validate_control_names demo_pair_top [] \<lparr>has_s_axi_control = True\<rparr> (fb_vertices demo_fifos_built) (fb_co_located demo_fifos_built) None = Inr ()"
  by (simp add: demo_tasks_built_def demo_fifos_built_def demo_pair_defs child_evals occupy_evals demo_generated validate_control_names_def
      reserve_generated_name_def reserve_child_names_def control_scopes_def)

lemma demo_step_control:
  "add_control_interface demo_pair demo_pair_top [] \<lparr>has_s_axi_control = True\<rparr> None None demo_fifos_built = Inr (demo_control_built, demo_nets)"
  unfolding add_control_interface_def demo_step_control_names
  by (simp add: demo_control_built_def demo_tasks_built_def demo_fifos_built_def demo_nets_def demo_pair_defs child_evals demo_generated push_vertex_def co_locate_def
      control_scopes_def control_child_def control_launch_width_def argument_width_def add_control_net_def add_placement_width_def checked_add_def arg_named_def)

lemma demo_step_occupied: "\<exists>m. occupied_rtl_names demo_pair_top (fb_vertices demo_control_built) (fb_co_located demo_control_built) = Inr m"
  by (simp add: demo_control_built_def demo_tasks_built_def demo_fifos_built_def demo_pair_defs child_evals occupy_evals)

lemma demo_pair_built:
  "\<exists>g. build_with_scopes demo_pair [] (Some \<lparr>has_s_axi_control = True\<rparr>) None None = Inr g \<and> vertices g = fb_vertices demo_control_built \<and>
     co_located g = fb_co_located demo_control_built \<and>
     map (\<lambda>e. (pe_src e, pe_dst e, forward_width e, reverse_width e)) (placement_edges g) = [(0, 1, 35, 0), (0, 2, 1, 3), (1, 2, 0, 2)]"
proof -
  have children: "task_tasks demo_pair_top \<noteq> []" by (simp add: demo_pair_defs)
  have edges: "map (\<lambda>e. (pe_src e, pe_dst e, forward_width e, reverse_width e)) (finish_edges (fb_placement_widths demo_control_built)) = [(0, 1, 35, 0), (0, 2, 1, 3), (1, 2, 0, 2)]"
    by (simp add: finish_edges_def demo_control_built_def)
  show ?thesis using demo_step_occupied children edges
    by (auto simp: build_with_scopes_def demo_pair_top_task demo_step_tasks demo_step_names demo_step_fifos demo_step_memory demo_step_control)
qed

text \<open>C22: The placement graph carries exactly the wires of the design.  Names and indices of the vertices agree and every channel runs between
  two different vertices; for every pair of vertices there is at most one placement edge, ordered and below the 32-bit limit, whose forward and
  reverse widths are the sums of the widths of the FIFO, memory and control channels in that direction, and every channel lies on one.\<close>

theorem graph_edges_exact:
  assumes "build_with_scopes flat memory control anchor projection = Inr g"
  shows "vertices_exact g \<and> edges_exact g"
  using assms by (rule built_graph_exact)

theorem graph_edges_exact_witness:
  "\<exists>g. build_with_scopes demo_pair [] (Some \<lparr>has_s_axi_control = True\<rparr>) None None = Inr g \<and> vertices_exact g \<and> edges_exact g \<and>
     map (\<lambda>e. (pe_src e, pe_dst e, forward_width e, reverse_width e)) (placement_edges g) = [(0, 1, 35, 0), (0, 2, 1, 3), (1, 2, 0, 2)]"
proof -
  obtain g where g: "build_with_scopes demo_pair [] (Some \<lparr>has_s_axi_control = True\<rparr>) None None = Inr g"
      "map (\<lambda>e. (pe_src e, pe_dst e, forward_width e, reverse_width e)) (placement_edges g) = [(0, 1, 35, 0), (0, 2, 1, 3), (1, 2, 0, 2)]"
    using demo_pair_built by auto
  then show ?thesis using graph_edges_exact [OF g(1)] by auto
qed

text \<open>C23: No two objects of a placement graph share a name: vertices and co-located instances have distinct names, distinct vertices have distinct
  RTL identifiers, and no name or identifier is claimed by two different vertices, streams or aliases, generated controllers and bridges included.\<close>

theorem graph_names_unique:
  assumes "build_with_scopes flat memory control anchor projection = Inr g" and "bt_get (g_tasks flat) (g_top flat) = Some t" and "bt_ok (task_fifos t)"
  shows "names_unique t g"
  using assms by (rule built_names_unique)

theorem graph_names_unique_witness:
  "\<exists>g. build_with_scopes demo_pair [] (Some \<lparr>has_s_axi_control = True\<rparr>) None None = Inr g \<and> names_unique demo_pair_top g \<and> length (co_located g) = 4"
proof -
  have "length (fb_co_located demo_control_built) = 4" by (simp add: demo_control_built_def)
  then show ?thesis using demo_pair_built graph_names_unique [OF _ demo_pair_top_task] by auto
qed

text \<open>C24: Publishing a complete placement of a built graph never fails, and publishes under every name exactly the region of the vertex of that
  name, or of the host of the co-located instance of that name; the transient memory terminals are not published.\<close>

theorem placement_published:
  assumes "build_with_scopes flat memory control anchor projection = Inr g" and "bt_get (g_tasks flat) (g_top flat) = Some t" and "bt_ok (task_fifos t)"
    and "length regs = length (vertices g)"
  shows "\<exists>r. materialize_co_locations g (bt_collect (zip (map v_name (vertices g)) regs)) = Inr r \<and>
    (\<forall>name. bt_get (remove_transient_regions g r) name = published_region g regs name)"
  using regions_published [OF conjunct1 [OF built_graph_exact [OF assms(1)]] _ assms(4)] built_names_unique [OF assms(1-3)] by (simp add: names_unique_def)

theorem placement_published_witness:
  "\<exists>g r. build_with_scopes demo_pair [] (Some \<lparr>has_s_axi_control = True\<rparr>) None None = Inr g \<and>
     materialize_co_locations g (bt_collect (zip (map v_name (vertices g)) [''SLOT_X0Y0'', ''SLOT_X0Y1'', ''SLOT_X0Y0''])) = Inr r \<and>
     bt_get (remove_transient_regions g r) ''q'' = Some ''SLOT_X0Y1''"
proof -
  obtain g where g: "build_with_scopes demo_pair [] (Some \<lparr>has_s_axi_control = True\<rparr>) None None = Inr g" "vertices g = fb_vertices demo_control_built"
      "co_located g = fb_co_located demo_control_built" using demo_pair_built by blast
  have len: "length [''SLOT_X0Y0'', ''SLOT_X0Y1'', ''SLOT_X0Y0''] = length (vertices g)"
    by (simp add: g demo_control_built_def demo_fifos_built_def demo_tasks_built_def)
  from placement_published [OF g(1) demo_pair_top_task len] obtain r where r:
      "materialize_co_locations g (bt_collect (zip (map v_name (vertices g)) [''SLOT_X0Y0'', ''SLOT_X0Y1'', ''SLOT_X0Y0''])) = Inr r"
      "bt_get (remove_transient_regions g r) ''q'' = published_region g [''SLOT_X0Y0'', ''SLOT_X0Y1'', ''SLOT_X0Y0''] ''q''" by blast
  have "''q'' \<notin> set (map v_name (vertices g))" by (simp add: g demo_control_built_def demo_fifos_built_def demo_tasks_built_def demo_vertex_def)
  then have "bt_get (vertex_index g) ''q'' \<noteq> Some i" for i using built_graph_exact [OF g(1)] unfolding vertices_exact_def in_set_conv_nth by (metis length_map nth_map)
  then have "bt_get (vertex_index g) ''q'' = None" by blast
  then have "published_region g [''SLOT_X0Y0'', ''SLOT_X0Y1'', ''SLOT_X0Y0''] ''q'' = Some ''SLOT_X0Y1''"
    by (simp add: published_region_def alias_host_def g demo_control_built_def)
  then show ?thesis using g(1) r by auto
qed

end
