(* ===== verification/Fp_Plan.thy ===== *)
theory Fp_Plan
  imports Fp_Names Fp_Pipeline Fp_Place_Search Flatten_Correct
begin

text \<open>
  The planner: \<^verbatim>\<open>tapa-core/tapa-floorplan/src/plan/options.rs\<close>, \<^verbatim>\<open>device/select.rs\<close>, \<^verbatim>\<open>error.rs\<close> and
  \<^verbatim>\<open>plan/mod.rs\<close>, which select the device, flatten the design, build the placement graph, place it, route it and publish the
  result.  The embedded device tables and the JSON reader are the parameter \<open>tables\<close>: each key with what the reader makes of its
  text.  The CBC solver is the parameter \<open>solver\<close>; the counting wrapper around it passes every call through.  The result \<open>None\<close>
  is a planner that does not return.
\<close>

section \<open>Options\<close>

record PlanOptions =
  po_usage_limit :: f64
  po_max_seconds :: nat
  po_threads :: nat
  po_partition_strategy :: PartitionStrategy
  po_scheme :: PipelineScheme

definition PlanOptions_default :: PlanOptions where
  "PlanOptions_default =
     \<lparr>po_usage_limit = DEFAULT_USAGE_LIMIT, po_max_seconds = 600, po_threads = 1, po_partition_strategy = Auto, po_scheme = Double\<rparr>"

datatype PlanOptionsError = BadUsageLimit f64 | BadMaxSeconds | BadThreads

definition options_validate :: "PlanOptions \<Rightarrow> PlanOptionsError + unit" where
  "options_validate p =
     (if \<not> is_finite (po_usage_limit p) \<or> f64_le (po_usage_limit p) (Finite 0) \<or> f64_lt (Finite 1) (po_usage_limit p)
      then Inl (BadUsageLimit (po_usage_limit p))
      else if po_max_seconds p = 0 then Inl BadMaxSeconds
      else if po_threads p = 0 then Inl BadThreads
      else Inr ())"

section \<open>Device selection\<close>

type_synonym DeviceTables = "(string \<times> (string + Device)) list"

datatype SelectError =
    UnknownPart string string
  | MalformedTable string string
  | InvalidTable string DeviceValidationError

definition table_keys :: "DeviceTables \<Rightarrow> string list" where
  "table_keys tables = map fst tables"

definition load_table :: "string \<times> (string + Device) \<Rightarrow> SelectError fault + Device" where
  "load_table = (\<lambda>(key, parsed).
     bindR (map_err (\<lambda>source. Err (MalformedTable key source)) parsed) (\<lambda>d.
     bindR (map_err (map_fault (InvalidTable key)) (device_validate d)) (\<lambda>_. Inr d)))"

definition all_devices :: "DeviceTables \<Rightarrow> SelectError fault + Device list" where
  "all_devices tables = mapR load_table tables"

definition to_ascii_lowercase :: "string \<Rightarrow> string" where
  "to_ascii_lowercase s = map (\<lambda>c. if 65 \<le> (of_char c :: nat) \<and> (of_char c :: nat) \<le> 90 then char_of ((of_char c :: nat) + 32) else c) s"

definition part_family :: "string \<Rightarrow> string" where
  "part_family part = takeWhile (\<lambda>c. c \<noteq> CHR ''-'') part"

definition device_matches :: "string \<Rightarrow> Device \<Rightarrow> bool" where
  "device_matches query d \<longleftrightarrow>
     (let key = to_ascii_lowercase (dev_key d);
          part = to_ascii_lowercase (part_num d)
      in query = key \<or> query = part \<or> part_family query = part_family part)"

definition select_device :: "DeviceTables \<Rightarrow> string \<Rightarrow> SelectError fault + Device" where
  "select_device tables part =
     (let query = to_ascii_lowercase (trim part)
      in bindR (all_devices tables) (\<lambda>devices.
           ok_or (Err (UnknownPart part (join '', '' (table_keys tables)))) (find (device_matches query) devices)))"

section \<open>Errors, inputs and caps\<close>

datatype PlanError =
    PlanOptionsInvalid PlanOptionsError
  | NoPartNum
  | PlanDevice SelectError
  | PlanTransform TransformError
  | PlanGraph GraphError
  | PlanIlp IlpError
  | PlanPipeline PipelineError
  | BankTag MemoryBank nat
  | PlatformRequired string
  | PlatformMismatch string string
  | ControlTag string nat

definition EXACT_DSE_CAP_SCALE :: nat where
  "EXACT_DSE_CAP_SCALE = 1000000000"

definition MULTILEVEL_BLOCK_RESOURCE_MARGIN_UNITS :: nat where
  "MULTILEVEL_BLOCK_RESOURCE_MARGIN_UNITS = EXACT_DSE_CAP_SCALE div 10"

record ExactDseResourceCaps =
  logic_utilization_cap :: f64
  effective_block_utilization_cap :: f64
  multilevel_block_margin_applied :: bool

definition for_strategy :: "f64 \<Rightarrow> PartitionStrategy \<Rightarrow> ExactDseResourceCaps" where
  "for_strategy logic strat =
     (let applied = (strat = MultiLevel);
          scale = of_uint EXACT_DSE_CAP_SCALE;
          margin = f64_div (of_uint MULTILEVEL_BLOCK_RESOURCE_MARGIN_UNITS) scale;
          block = (if applied then f64_div (f64_round (f64_mul (f64_min (f64_add logic margin) (Finite 1)) scale)) scale else logic)
      in \<lparr>logic_utilization_cap = logic, effective_block_utilization_cap = block, multilevel_block_margin_applied = applied\<rparr>)"

record PlanInputs =
  inp_memory :: "MemoryInterface list"
  inp_control :: "ControlInterface option"
  inp_projection :: "FlatProjection option"

section \<open>Preparation\<close>

definition select_control_anchor :: "Device \<Rightarrow> ControlInterface \<Rightarrow> PlanError fault + string option" where
  "select_control_anchor d control =
     (let tag = (if has_s_axi_control control then ''S_AXI_CONTROL'' else ''CLK_RST'');
          matches = length (slots_with_tag d tag)
      in if matches = 0 then Inr None else if matches = 1 then Inr (Some tag) else Inl (Err (ControlTag tag matches)))"

text \<open>
  \<^verbatim>\<open>Path::file_name\<close>: the last component of a path, where empty components and \<^verbatim>\<open>.\<close> are skipped and \<^verbatim>\<open>..\<close> is not a name.
\<close>

fun split_char :: "char \<Rightarrow> string \<Rightarrow> string list" where
  "split_char c [] = [[]]"
| "split_char c (x # xs) =
     (if x = c then [] # split_char c xs else (case split_char c xs of [] \<Rightarrow> [[x]] | w # ws \<Rightarrow> (x # w) # ws))"

definition file_name :: "string \<Rightarrow> string option" where
  "file_name path =
     (case rev (filter (\<lambda>w. w \<noteq> [] \<and> w \<noteq> ''.'') (split_char (CHR ''/'') path)) of
        [] \<Rightarrow> None
      | w # _ \<Rightarrow> if w = ''..'' then None else Some w)"

definition platform_basename :: "string \<Rightarrow> string" where
  "platform_basename path = map (\<lambda>c. if c = CHR '':'' \<or> c = CHR ''.'' then CHR ''_'' else c) (case file_name path of None \<Rightarrow> path | Some name \<Rightarrow> name)"

definition validate_memory_platform :: "WorkState \<Rightarrow> Device \<Rightarrow> bool \<Rightarrow> PlanError fault + unit" where
  "validate_memory_platform state d has_memory =
     (case platform_name d of
        None \<Rightarrow> Inr ()
      | Some expected \<Rightarrow>
          if \<not> has_memory then Inr ()
          else bindR (ok_or (Err (PlatformRequired expected)) (flow_platform (ws_flow state))) (\<lambda>path.
               check (platform_basename path = expected) (Err (PlatformMismatch path expected))))"

definition check_bank :: "Device \<Rightarrow> MemoryBank list \<Rightarrow> MemoryBank \<Rightarrow> PlanError fault + MemoryBank list" where
  "check_bank d validated bank =
     (if bank \<in> set validated then Inr validated
      else let matches = length (slots_with_tag d (show_bank bank))
           in if matches \<noteq> 1 then Inl (Err (BankTag bank matches)) else Inr (bank # validated))"

text \<open>The projection the caller passes, else the flattened design; running out of fuel is \<open>None\<close>.\<close>

definition plan_projection :: "nat \<Rightarrow> WorkState \<Rightarrow> PlanInputs \<Rightarrow> (PlanError fault + FlatProjection) option" where
  "plan_projection fuel state inputs =
     (case inp_projection inputs of
        Some p \<Rightarrow> Some (Inr p)
      | None \<Rightarrow> (case flatten_with_origins fuel (ws_graph state) of
            Inr p \<Rightarrow> Some (Inr p)
          | Inl (Fails e) \<Rightarrow> Some (Inl (Err (PlanTransform e)))
          | Inl Panic \<Rightarrow> Some (Inl Panicked)
          | Inl Diverge \<Rightarrow> None))"

definition active_control :: "WorkState \<Rightarrow> PlanInputs \<Rightarrow> ControlInterface option" where
  "active_control state inputs =
     (case bt_get (g_tasks (ws_graph state)) (g_top (ws_graph state)) of
        None \<Rightarrow> None
      | Some t \<Rightarrow> if task_level t = Upper \<and> task_tasks t \<noteq> [] then inp_control inputs else None)"

definition prepare_plan :: "DeviceTables \<Rightarrow> nat \<Rightarrow> WorkState \<Rightarrow> PlanInputs \<Rightarrow> (PlanError fault + Device \<times> FloorGraph) option" where
  "prepare_plan tables fuel state inputs =
     bindI (Some (ok_or (Err NoPartNum) (flow_part_num (ws_flow state)))) (\<lambda>part.
     bindI (Some (map_err (map_fault PlanDevice) (select_device tables part))) (\<lambda>d.
     bindI (Some (validate_memory_platform state d (inp_memory inputs \<noteq> []))) (\<lambda>_.
     bindI (Some (foldR (check_bank d) [] (map mi_bank (inp_memory inputs)))) (\<lambda>_.
     bindI (plan_projection fuel state inputs) (\<lambda>projection.
     let control = active_control state inputs in
     bindI (Some (case control of None \<Rightarrow> Inr None | Some c \<Rightarrow> select_control_anchor d c)) (\<lambda>anchor.
     bindI (Some (map_err (map_fault PlanGraph) (build_with_projection projection (inp_memory inputs) control anchor))) (\<lambda>graph.
     Some (Inr (d, graph)))))))))"

section \<open>Planning\<close>

definition solve_options :: "PlanOptions \<Rightarrow> SolveOpts" where
  "solve_options p = \<lparr>time_limit = Some (po_max_seconds p), threads = Some (po_threads p), mip_gap_abs = None\<rparr>"

definition finish_plan :: "FloorGraph \<Rightarrow> Device \<Rightarrow> PlanOptions \<Rightarrow> Solver \<Rightarrow> SolveOpts \<Rightarrow> Assignment \<Rightarrow> ExactDseResourceCaps
    \<Rightarrow> PlanError fault + FloorplanResult" where
  "finish_plan graph d p solver opts a caps =
     bindR (map_err (map_fault PlanPipeline)
       (plan_routes graph (as_regions a) (as_slot_usage a) d (po_scheme p) (logic_utilization_cap caps) solver opts)) (\<lambda>routes.
     bindR (map_err (map_fault PlanPipeline)
       (if multilevel_block_margin_applied caps
        then realize_slot_usage_with_resource_caps graph (as_regions a) (as_slot_usage a) routes d
               (logic_utilization_cap caps) (effective_block_utilization_cap caps)
        else realize_slot_usage graph (as_regions a) (as_slot_usage a) routes d (logic_utilization_cap caps))) (\<lambda>usage.
     let regions = bt_collect (map (\<lambda>(v, x, y). (v_name v, region_name (Coor_slot x y))) (zip (vertices graph) (as_regions a))) in
     bindR (map_err (map_fault PlanGraph) (materialize_co_locations graph regions)) (\<lambda>regions.
     Inr \<lparr>fp_device = dev_key d, fp_grid = (cols d, rows d), fp_regions = remove_transient_regions graph regions,
          fp_routes = map to_pipeline_route routes,
          fp_slot_usage = bt_collect (map (\<lambda>((x, y), area). (region_name (Coor_slot x y), area)) usage)\<rparr>)))"

definition table_retry_ceiling :: "DeviceTables \<Rightarrow> WorkState \<Rightarrow> PlanOptions \<Rightarrow> unit fault + f64" where
  "table_retry_ceiling tables state p =
     (let fallback = f64_max (po_usage_limit p) MAX_USAGE_LIMIT
      in case flow_part_num (ws_flow state) of
           None \<Rightarrow> Inr fallback
         | Some part \<Rightarrow> (case select_device tables part of
               Inl Panicked \<Rightarrow> Inl Panicked
             | Inl (Err _) \<Rightarrow> Inr fallback
             | Inr d \<Rightarrow> Inr (case usage_ceiling d of None \<Rightarrow> fallback | Some c \<Rightarrow> c)))"

definition relaxed_caps :: "f64 \<Rightarrow> ExactDseResourceCaps" where
  "relaxed_caps upper =
     \<lparr>logic_utilization_cap = upper, effective_block_utilization_cap = upper, multilevel_block_margin_applied = False\<rparr>"

definition plan_with_retry_ceiling_and_solvers :: "DeviceTables \<Rightarrow> nat \<Rightarrow> WorkState \<Rightarrow> PlanOptions \<Rightarrow> PlanInputs \<Rightarrow> f64 \<Rightarrow> Solver \<Rightarrow> Solver
    \<Rightarrow> (PlanError fault + FloorplanResult) option" where
  "plan_with_retry_ceiling_and_solvers tables fuel state p inputs upper placement_solver finish_solver =
     bindI (Some (map_err (Err \<circ> PlanOptionsInvalid) (options_validate p))) (\<lambda>_.
     bindI (prepare_plan tables fuel state inputs) (\<lambda>(d, graph).
     bindI (map_option (map_err (map_fault PlanIlp))
       (floorplan_with_strategy graph d (po_usage_limit p) upper (po_partition_strategy p) placement_solver (solve_options p))) (\<lambda>a.
     Some (finish_plan graph d p finish_solver (solve_options p) a (relaxed_caps upper)))))"

definition plan_with_inputs :: "DeviceTables \<Rightarrow> nat \<Rightarrow> Solver \<Rightarrow> WorkState \<Rightarrow> PlanOptions \<Rightarrow> PlanInputs \<Rightarrow> (PlanError fault + FloorplanResult) option" where
  "plan_with_inputs tables fuel solver state p inputs =
     (case table_retry_ceiling tables state p of
        Inl _ \<Rightarrow> Some (Inl Panicked)
      | Inr upper \<Rightarrow> plan_with_retry_ceiling_and_solvers tables fuel state p inputs upper solver solver)"

record ExactDsePlanAttempt =
  pa_caps :: ExactDseResourceCaps
  pa_result :: "PlanError + FloorplanResult"

text \<open>A failed placement or completion is a value of the attempt; a panic unwinds through it.\<close>

definition attempt_with :: "ExactDseResourceCaps \<Rightarrow> PlanError fault + FloorplanResult \<Rightarrow> PlanError fault + ExactDsePlanAttempt" where
  "attempt_with caps result =
     (case result of
        Inr floorplan \<Rightarrow> Inr \<lparr>pa_caps = caps, pa_result = Inr floorplan\<rparr>
      | Inl (Err e) \<Rightarrow> Inr \<lparr>pa_caps = caps, pa_result = Inl e\<rparr>
      | Inl Panicked \<Rightarrow> Inl Panicked)"

definition plan_with_inputs_at_usage_limit_and_caps :: "DeviceTables \<Rightarrow> nat \<Rightarrow> Solver \<Rightarrow> WorkState \<Rightarrow> PlanOptions \<Rightarrow> PlanInputs
    \<Rightarrow> (PlanError fault + ExactDsePlanAttempt) option" where
  "plan_with_inputs_at_usage_limit_and_caps tables fuel solver state p inputs =
     bindI (Some (map_err (Err \<circ> PlanOptionsInvalid) (options_validate p))) (\<lambda>_.
     bindI (prepare_plan tables fuel state inputs) (\<lambda>(d, graph).
     let strat = resolve_strategy graph d (po_partition_strategy p);
         caps = for_strategy (po_usage_limit p) strat;
         opts = solve_options p
     in map_option (attempt_with caps) (bindI (map_option (map_err (map_fault PlanIlp))
          (floorplan_with_exact_resource_caps graph d (logic_utilization_cap caps) (effective_block_utilization_cap caps) strat solver opts))
          (\<lambda>(a, _). Some (finish_plan graph d p solver opts a caps)))))"

end
