(* ===== verification/Fp_Plan_Correct.thy ===== *)
theory Fp_Plan_Correct
  imports Fp_Plan
begin

text \<open>
  The planner end to end.  What each stage guarantees is composed: the selected device is valid, the graph carries exactly the
  design, the placement is sound, the routes are legal, the realized usage is exact, and the published result shows all of it.
  A plan also always returns once the design flattens.
\<close>

section \<open>Stages\<close>

lemma bindI_eq_Inr: "bindI m f = Some (Inr y) \<longleftrightarrow> (\<exists>x. m = Some (Inr x) \<and> f x = Some (Inr y))"
  by (auto simp: bindI_def split: option.splits sum.splits bind_splits)



lemma map_err_eq_Inr [simp]: "map_err f r = Inr x \<longleftrightarrow> r = Inr x"
  by (cases r) auto

lemma map_err_returns: "map_option (map_err f) r = Some (Inr x) \<longleftrightarrow> r = Some (Inr x)"
  by (cases r) auto

lemma all_devices_valid:
  assumes "all_devices tables = Inr ds" and "d \<in> set ds"
  shows "\<exists>key. (key, Inr d) \<in> set tables" and "device_validate d = Inr ()"
proof -
  have loaded: "list_all2 (\<lambda>t d. load_table t = Inr d) tables ds" using assms(1) by (simp add: all_devices_def mapR_eq_Inr)
  obtain i where i: "i < length ds" "ds ! i = d" using assms(2) by (auto simp: in_set_conv_nth)
  define t where "t = tables ! i"
  have t: "t \<in> set tables" "load_table t = Inr d"
    using i list_all2_nthD2 [OF loaded i(1)] list_all2_lengthD [OF loaded] by (simp_all add: t_def)
  obtain key parsed where pair: "t = (key, parsed)" by (rule prod.exhaust)
  then have "parsed = Inr d \<and> device_validate d = Inr ()" using t(2) unfolding load_table_def bindR_eq_Inr by (simp add: bindR_eq_Inr)
  then show "\<exists>key. (key, Inr d) \<in> set tables" "device_validate d = Inr ()" using t(1) pair by blast+
qed

lemma select_device_valid:
  assumes "select_device tables part = Inr d"
  shows "\<exists>key. (key, Inr d) \<in> set tables" and "device_validate d = Inr ()" and "device_matches (to_ascii_lowercase (trim part)) d"
proof -
  obtain ds where ds: "all_devices tables = Inr ds" "find (device_matches (to_ascii_lowercase (trim part))) ds = Some d"
    using assms by (auto simp: select_device_def Let_def bindR_eq_Inr)
  then have "d \<in> set ds" "device_matches (to_ascii_lowercase (trim part)) d" by (auto simp: find_Some_iff)
  then show "\<exists>key. (key, Inr d) \<in> set tables" "device_validate d = Inr ()" "device_matches (to_ascii_lowercase (trim part)) d"
    using all_devices_valid [OF ds(1)] by auto
qed

lemma prepare_plan_Inr:
  assumes "prepare_plan tables fuel state inputs = Some (Inr (d, graph))"
  shows "\<exists>part projection anchor. flow_part_num (ws_flow state) = Some part \<and> select_device tables part = Inr d \<and>
    plan_projection fuel state inputs = Some (Inr projection) \<and>
    build_with_scopes (fp_flat projection) (inp_memory inputs) (active_control state inputs) anchor (Some projection) = Inr graph"
  using assms unfolding prepare_plan_def bindI_eq_Inr Let_def build_with_projection_def option.inject map_err_eq_Inr ok_or_eq_Inr sum.inject prod.inject
  by (elim exE conjE, intro exI conjI) (assumption | hypsubst)+

section \<open>The graph of a plan\<close>

lemma width_flow_member: "(s, t, w) \<in> set cs \<Longrightarrow> w \<le> width_flow cs s t"
  by (induction cs) (auto simp: width_flow_def)

lemma built_graph_ok:
  assumes "edges_exact g" and "length (streams g) + length (axi_nets g) + length (control_nets g) < 2 ^ 32"
  shows "graph_ok g"
proof -
  have "w < 2 ^ 32" if c: "(s, t, w) \<in> set (graph_channels g)" for s t w
  proof -
    obtain e where e: "e \<in> set (placement_edges g)" "pe_src e = min s t" "pe_dst e = max s t" "s \<noteq> t"
      using assms(1) c unfolding edges_exact_def by fast
    have "forward_width e = width_flow (graph_channels g) (min s t) (max s t)" "reverse_width e = width_flow (graph_channels g) (max s t) (min s t)"
      "forward_width e + reverse_width e < 2 ^ 32" using assms(1) e unfolding edges_exact_def by metis+
    moreover have "w \<le> width_flow (graph_channels g) s t" using c by (rule width_flow_member)
    ultimately show ?thesis by (cases "s < t") (auto simp: min_def max_def split: if_splits)
  qed
  then have "\<forall>(s, t, w) \<in> set (graph_channels g). w < 2 ^ 32" by blast
  then show ?thesis using assms(2) unfolding graph_ok_def list_all_iff fits_def graph_channels_def channel_defs by (auto simp: ball_Un)
qed

text \<open>Every map of a design is a sorted map; for a projection the caller passes this is what its type guarantees.\<close>

definition projection_ok :: "PlanInputs \<Rightarrow> bool" where
  "projection_ok inputs \<longleftrightarrow>
     (case inp_projection inputs of
        None \<Rightarrow> True
      | Some p \<Rightarrow> (case bt_get (g_tasks (fp_flat p)) (g_top (fp_flat p)) of None \<Rightarrow> True | Some t \<Rightarrow> bt_ok (task_fifos t)))"

lemma flat_fifos_ok:
  assumes "flatten_with_origins fuel g = Inr p" and "bt_get (g_tasks (fp_flat p)) (g_top (fp_flat p)) = Some t"
  shows "bt_ok (task_fifos t)"
proof -
  obtain u c fifos kept where
    col: "collect_leaves_recursive fuel g (g_top g) (g_top g) [] 0
      \<lparr>fi_leaves = [], fi_fifos = [], fi_occurrences = [top_occurrence g]\<rparr> = Inr c"
    and fill: "mapR (fill_endpoints (fi_leaves c)) (fi_fifos c) = Inr fifos"
    and p: "fp_flat p = g\<lparr>g_tasks := bt_insert (g_top g) (u\<lparr>task_tasks := fi_leaves c, task_fifos := fifos\<rparr>) kept\<rparr>"
    using assms(1) by (rule flatten_parts)
  have "list_all2 (\<lambda>x y. fst x = fst y) (fi_fifos c) fifos"
    using fill [unfolded mapR_eq_Inr] by (rule list_all2_mono) (auto simp: fill_endpoints_def bindR_eq_Inr)
  then have "bt_keys fifos = bt_keys (fi_fifos c)" by (simp add: bt_keys_def list_all2_conv_all_nth list_eq_iff_nth_eq)
  moreover have "bt_ok (fi_fifos c)" using collect_fifos_ok [OF col] by simp
  moreover have "task_fifos t = fifos" using assms(2) by (auto simp: p bt_get_insert)
  ultimately show ?thesis by (simp add: bt_ok_def bt_keys_def)
qed

lemma plan_fifos_ok:
  assumes "plan_projection fuel state inputs = Some (Inr p)" and "projection_ok inputs"
    and "bt_get (g_tasks (fp_flat p)) (g_top (fp_flat p)) = Some t"
  shows "bt_ok (task_fifos t)"
  using assms flat_fifos_ok [of fuel "ws_graph state" p t]
  by (auto simp: plan_projection_def projection_ok_def split: option.splits sum.splits flat_failure.splits)

section \<open>The published usage\<close>

lemma slot_tag_inject:
  assumes "slot_tag x y = slot_tag u v"
  shows "x = u \<and> y = v"
proof -
  have "show_nat x @ ''Y'' @ show_nat y = show_nat u @ ''Y'' @ show_nat v"
    using assms unfolding slot_tag_def by (simp only: same_append_eq)
  moreover have "split_once ''Y'' (show_nat n @ ''Y'' @ show_nat m) = Some (show_nat n, show_nat m)" for n m
    using split_once_char [OF digits_avoid [OF letters_not_digits(1)], of n "show_nat m"] by simp
  ultimately have "Some (show_nat x, show_nat y) = Some (show_nat u, show_nat v)" by metis
  then show ?thesis by (simp only: option.inject prod.inject show_nat_inject)
qed

lemma region_name_slot_inject: "region_name (Coor_slot x y) = region_name (Coor_slot u v) \<longleftrightarrow> x = u \<and> y = v"
proof
  assume eq: "region_name (Coor_slot x y) = region_name (Coor_slot u v)"
  have "split_once ''_TO_'' (region_name (Coor_slot n m)) = Some (slot_tag n m, slot_tag n m)" for n m
    unfolding region_name_def Coor_slot_def Coor.simps by (rule split_region_tag)
  then have "Some (slot_tag x y, slot_tag x y) = Some (slot_tag u v, slot_tag u v)" using eq by metis
  then show "x = u \<and> y = v" unfolding option.inject prod.inject by (blast dest: slot_tag_inject)
qed (simp only:)

lemma slot_usage_published:
  fixes usage :: slot_usage
  assumes "bt_ok usage"
  shows "bt_get (bt_collect (map (\<lambda>((x, y), area). (region_name (Coor_slot x y), area)) usage)) (region_name (Coor_slot x y)) = bt_get usage (x, y)"
proof -
  define name where "name = (\<lambda>c. region_name (Coor_slot (fst c) (snd c)))"
  have inj: "inj name" by (rule injI) (auto simp: name_def region_name_slot_inject prod_eq_iff)
  have "map (\<lambda>((x, y), area). (region_name (Coor_slot x y), area)) usage = map (map_prod name id) usage"
    by (auto simp: name_def)
  moreover have "map_of (rev (map (map_prod name id) usage)) (name (x, y)) = map_of usage (x, y)"
  proof -
    have "distinct (map fst usage)" using assms by (simp add: bt_ok_def strict_sorted_iff)
    then have "map_of (rev usage) = map_of usage" by (simp add: map_of_inject_set rev_map [symmetric])
    moreover have "map_of (map (map_prod name id) es) (name (x, y)) = map_of es (x, y)" for es :: "(Cell \<times> Area) list"
      by (induction es) (auto dest: injD [OF inj])
    ultimately show ?thesis by (simp only: rev_map)
  qed
  ultimately show ?thesis unfolding bt_get_collect by (simp only: bt_get_def name_def fst_conv snd_conv)
qed

section \<open>Completion\<close>

lemma account_usage_ok:
  assumes "foldR (account_route graph regions) baseline routes = Inr usage" and "bt_ok baseline"
  shows "bt_ok usage"
proof -
  have body: "bt_ok u'" if acc: "account_head_and_body u h bs w l link = Inr u'" and ok: "bt_ok u" for u u' h bs w l link
  proof -
    obtain v where v: "add_usage u h (register_area w l) link = Inr v" "foldR (\<lambda>usage region. add_usage usage region (register_area w 0) link) v bs = Inr u'"
      using acc by (auto simp: account_head_and_body_def bindR_eq_Inr)
    have "bt_ok v" using v(1) ok by (auto simp: add_usage_def Let_def bindR_eq_Inr)
    then show ?thesis by (rule foldR_invariant [OF v(2)]) (auto simp: add_usage_def Let_def bindR_eq_Inr)
  qed
  have tail: "bt_ok u'" if "add_usage u c a link = Inr u'" "bt_ok u" for u u' c a link
    using that by (auto simp: add_usage_def Let_def bindR_eq_Inr)
  have fifo: "bt_ok u'" if "subtract_usage u c a link = Inr u'" "bt_ok u" for u u' c a link
    using that by (auto simp: subtract_usage_def bindR_eq_Inr)
  have stream: "bt_ok u'" if "account_stream_pipeline u graph regions route st link = Inr u'" "bt_ok u" for u u' route st link
    using that unfolding account_stream_pipeline_def bindR_eq_Inr by (clarsimp simp: bindR_eq_Inr) (drule (1) fifo, drule (1) tail, erule (1) body)
  have axi: "bt_ok u'" if "account_axi_pipeline u graph regions route net link = Inr u'" "bt_ok u" for u u' route net link
    using that unfolding account_axi_pipeline_def bindR_eq_Inr by (clarsimp simp: bindR_eq_Inr) (drule (1) tail, erule (1) body)
  have control: "bt_ok u'" if "account_control_pipeline u graph regions route net link = Inr u'" "bt_ok u" for u u' route net link
    using that unfolding account_control_pipeline_def bindR_eq_Inr by (clarsimp simp: bindR_eq_Inr) (drule (1) body, erule (1) tail)
  have "bt_ok u'" if "account_route graph regions u route = Inr u'" "bt_ok u" for u u' route
    using that(1) unfolding account_route_def Let_def
    by (cases "pl_channel route") (auto simp: bindR_eq_Inr intro: stream [OF _ that(2)] axi [OF _ that(2)] control [OF _ that(2)])
  then show ?thesis using foldR_invariant [OF assms(1), of bt_ok] assms(2) by blast
qed

text \<open>What a finished plan shows of the design, the device and the placement.\<close>

definition published_regions :: "Assignment \<Rightarrow> string list" where
  "published_regions a = map (\<lambda>(x, y). region_name (Coor_slot x y)) (as_regions a)"

definition plan_shows :: "Device \<Rightarrow> FloorGraph \<Rightarrow> PipelineScheme \<Rightarrow> f64 \<Rightarrow> f64 \<Rightarrow> Assignment \<Rightarrow> FloorplanResult \<Rightarrow> bool" where
  "plan_shows d graph scheme logic block a result \<longleftrightarrow>
     fp_device result = dev_key d \<and> fp_grid result = (cols d, rows d) \<and>
     (\<forall>name. bt_get (fp_regions result) name = published_region graph (published_regions a) name) \<and>
     (\<exists>routes usage.
        fp_routes result = map to_pipeline_route routes \<and>
        list_all2 (planned_ok scheme) (map fst (crossing_channels graph (as_regions a))) routes \<and>
        list_all2 (legal_route d) (map snd (crossing_channels graph (as_regions a))) (map pl_route routes) \<and>
        loads_within d (map snd (crossing_channels graph (as_regions a))) (map pl_route routes) \<and>
        (\<forall>x y. bt_get (fp_slot_usage result) (region_name (Coor_slot x y)) = bt_get usage (x, y)) \<and>
        (\<forall>(name, area) \<in> set (fp_slot_usage result). \<exists>x y. name = region_name (Coor_slot x y) \<and> bt_get usage (x, y) = Some area) \<and>
        moved (as_slot_usage a) (concat (map (hardware_added graph) routes)) (concat (map (hardware_removed graph) routes)) usage \<and>
        within_limits d logic block usage)"

lemma finish_plan_shows:
  assumes "finish_plan graph d p solver opts a caps = Inr result"
    and caps: "multilevel_block_margin_applied caps \<or> effective_block_utilization_cap caps = logic_utilization_cap caps"
    and dev: "device_validate d = Inr ()" "grid_ok (cols d) (rows d)"
    and graph: "graph_ok graph" "vertices_exact graph" "distinct (map v_name (vertices graph) @ map co_name (co_located graph))"
    and a: "length (as_regions a) = length (vertices graph)" "bt_ok (as_slot_usage a)"
  shows "plan_shows d graph (po_scheme p) (logic_utilization_cap caps) (effective_block_utilization_cap caps) a result"
proof -
  define regs where "regs = bt_collect (map (\<lambda>(v, x, y). (v_name v, region_name (Coor_slot x y))) (zip (vertices graph) (as_regions a)))"
  obtain routes usage r where
    routes: "plan_routes graph (as_regions a) (as_slot_usage a) d (po_scheme p) (logic_utilization_cap caps) solver opts = Inr routes"
    and usage: "realize_slot_usage_with_resource_caps graph (as_regions a) (as_slot_usage a) routes d (logic_utilization_cap caps)
        (effective_block_utilization_cap caps) = Inr usage"
    and r: "materialize_co_locations graph regs = Inr r"
    and result: "result = \<lparr>fp_device = dev_key d, fp_grid = (cols d, rows d), fp_regions = remove_transient_regions graph r,
          fp_routes = map to_pipeline_route routes,
          fp_slot_usage = bt_collect (map (\<lambda>((x, y), area). (region_name (Coor_slot x y), area)) usage)\<rparr>"
    using assms(1) caps unfolding finish_plan_def Let_def regs_def realize_slot_usage_def
    by (auto simp: bindR_eq_Inr split: if_splits)
  have "regs = bt_collect (zip (map v_name (vertices graph)) (published_regions a))"
    unfolding regs_def published_regions_def by (simp add: zip_map_map case_prod_unfold)
  then have regions: "bt_get (fp_regions result) name = published_region graph (published_regions a) name" for name
    using regions_published [OF graph(2,3), of "published_regions a"] r a(1) by (auto simp: result published_regions_def)
  have "bt_ok usage" using usage a(2) account_usage_ok
    by (auto simp: realize_slot_usage_with_resource_caps_def bindR_eq_Inr)
  then have at: "bt_get (fp_slot_usage result) (region_name (Coor_slot x y)) = bt_get usage (x, y)" for x y
    using slot_usage_published by (simp add: result)
  have entries: "\<exists>x y. name = region_name (Coor_slot x y) \<and> bt_get usage (x, y) = Some area" if "(name, area) \<in> set (fp_slot_usage result)" for name area
  proof -
    have "name \<in> fst ` set (fp_slot_usage result)" using that by force
    then obtain x y where name: "name = region_name (Coor_slot x y)" by (auto simp: result bt_keys_collect [unfolded bt_keys_def set_map])
    have "bt_ok (fp_slot_usage result)" by (simp add: result)
    then have "bt_get (fp_slot_usage result) name = Some area" using that by (simp add: bt_get_iff)
    then show ?thesis using at name by auto
  qed
  have "fp_device result = dev_key d" "fp_grid result = (cols d, rows d)" "fp_routes result = map to_pipeline_route routes" by (simp_all add: result)
  then show ?thesis
    using routes_planned_legally [OF dev graph(1) routes] usage_realized [OF usage] regions at entries unfolding plan_shows_def by blast
qed

section \<open>Plans\<close>

text \<open>What the tables and the design must satisfy: grids below the 32-bit limit, and fewer than two to the 32 channels.\<close>

definition tables_ok :: "DeviceTables \<Rightarrow> bool" where
  "tables_ok tables \<longleftrightarrow> list_all (\<lambda>(key, parsed). case parsed of Inl e \<Rightarrow> True | Inr d \<Rightarrow> grid_ok (cols d) (rows d)) tables"

definition channels_ok :: "FloorGraph \<Rightarrow> bool" where
  "channels_ok graph \<longleftrightarrow> length (streams graph) + length (axi_nets graph) + length (control_nets graph) < 2 ^ 32"

text \<open>Every reset of a built graph goes along with the launch of the same instance, between the same vertices.\<close>

definition resets_paired :: "ControlNet list \<Rightarrow> bool" where
  "resets_paired nets \<longleftrightarrow> (\<forall>n \<in> set nets. cn_channel n = Reset \<longrightarrow>
     (\<exists>l \<in> set nets. cn_channel l = Launch \<and> cn_instance l = cn_instance n \<and> cn_src l = cn_src n \<and> cn_dst l = cn_dst n))"

lemma control_child_paired:
  assumes "control_child flat global (b, nets) d c i inst = Inr (b', nets')" and "resets_paired nets"
  shows "resets_paired nets'"
proof -
  obtain child w where nets': "nets' = nets @ [\<lparr>cn_instance = c, cn_channel = Launch, cn_src = global, cn_dst = child, cn_width = w\<rparr>,
      \<lparr>cn_instance = c, cn_channel = Reset, cn_src = global, cn_dst = child, cn_width = 1\<rparr>] @
      (if inst_step inst \<ge> 0 then [\<lparr>cn_instance = c, cn_channel = Completion, cn_src = child, cn_dst = global, cn_width = 1\<rparr>] else [])"
    using assms(1) by (auto simp: control_child_def Let_def bindR_eq_Inr add_control_net_def split: if_splits)
  show ?thesis using assms(2) unfolding nets' resets_paired_def by auto
qed

lemma built_resets_paired:
  assumes "build_with_scopes flat memory control anchor projection = Inr graph"
  shows "resets_paired (control_nets graph)"
proof -
  have "resets_paired nets" if "add_control_interface flat t memory c anchor projection b = Inr (b', nets)" for t c b b' nets
  proof -
    have kids: "foldR (\<lambda>s (d, c, i, inst). if fits 32 i then control_child flat (length (fb_vertices b)) s d c i inst else Inl Panicked)
        (control_base projection c anchor b, []) (child_instances t) = Inr (b', nets)"
      using add_control_interface_Inr(3) [OF that] by (simp add: for_children_def)
    have "resets_paired (snd (b', nets))"
      by (rule foldR_invariant [OF kids, where I = "\<lambda>acc. resets_paired (snd acc)"])
        (auto simp: resets_paired_def [of "[]"] split: if_splits prod.splits dest: control_child_paired)
    then show ?thesis by simp
  qed
  moreover have "resets_paired []" by (simp add: resets_paired_def)
  ultimately show ?thesis using assms unfolding build_with_scopes_def Let_def by (auto simp: bindR_eq_Inr split: option.splits if_splits)
qed

text \<open>So every control channel between two regions is among the channels a plan routes, resets included.\<close>

lemma paired_channels_routed:
  assumes "resets_paired (control_nets graph)" and n: "n \<in> set (control_nets graph)" "regions ! cn_src n \<noteq> regions ! cn_dst n"
  shows "\<exists>net. (Control (cn_instance n) (cn_channel n), net) \<in> set (crossing_channels graph regions)"
proof -
  have "\<exists>l. l \<in> set (control_nets graph) \<and> regions ! cn_src l \<noteq> regions ! cn_dst l \<and> cn_channel l \<noteq> Reset \<and> cn_instance l = cn_instance n \<and>
      (if cn_channel n = Reset then cn_channel l = Launch \<and> matching_reset graph l \<noteq> None else l = n)"
  proof (cases "cn_channel n = Reset")
    case True
    then obtain l where l: "l \<in> set (control_nets graph)" "cn_channel l = Launch" "cn_instance l = cn_instance n" "cn_src l = cn_src n" "cn_dst l = cn_dst n"
      using assms(1) n(1) unfolding resets_paired_def by blast
    then have "matching_reset graph l \<noteq> None" using n(1) True by (auto simp: matching_reset_def find_None_iff)
    then show ?thesis using l n(2) True by (intro exI [of _ l]) simp
  next
    case False
    then show ?thesis using n by (intro exI [of _ n]) simp
  qed
  then obtain l where l: "l \<in> set (control_nets graph)" "regions ! cn_src l \<noteq> regions ! cn_dst l" "cn_channel l \<noteq> Reset" "cn_instance l = cn_instance n"
    and other: "if cn_channel n = Reset then cn_channel l = Launch \<and> matching_reset graph l \<noteq> None else l = n" by blast
  have "\<exists>net. (Control (cn_instance n) (cn_channel n), net) \<in> set (Fp_Pipeline.control_channels graph regions l)"
  proof (cases "cn_channel n = Reset")
    case True
    then obtain r where "cn_channel l = Launch" "matching_reset graph l = Some r" using other by auto
    then show ?thesis using l(2,4) True by (simp add: Fp_Pipeline.control_channels_def crossing_def)
  next
    case False
    then have same: "l = n" using other by simp
    show ?thesis unfolding same Fp_Pipeline.control_channels_def crossing_def if_not_P [OF False] if_not_P [OF n(2)] list.set by (rule exI, rule insertI1)
  qed
  then show ?thesis using l(1) unfolding crossing_channels_def by auto
qed

definition prepared :: "DeviceTables \<Rightarrow> nat \<Rightarrow> WorkState \<Rightarrow> PlanInputs \<Rightarrow> Device \<Rightarrow> FloorGraph \<Rightarrow> bool" where
  "prepared tables fuel state inputs d graph \<longleftrightarrow>
     prepare_plan tables fuel state inputs = Some (Inr (d, graph)) \<and> device_validate d = Inr () \<and> vertices_exact graph \<and> edges_exact graph \<and>
     resets_paired (control_nets graph)"

lemma prepare_plan_sound:
  assumes prep: "prepare_plan tables fuel state inputs = Some (Inr (d, graph))" and tables: "tables_ok tables" and "projection_ok inputs"
    and "channels_ok graph"
  shows "prepared tables fuel state inputs d graph" and "grid_ok (cols d) (rows d)" and "graph_ok graph"
    and "distinct (map v_name (vertices graph) @ map co_name (co_located graph))"
proof -
  obtain part projection anchor where dev: "select_device tables part = Inr d" and proj: "plan_projection fuel state inputs = Some (Inr projection)"
    and build: "build_with_scopes (fp_flat projection) (inp_memory inputs) (active_control state inputs) anchor (Some projection) = Inr graph"
    using prepare_plan_Inr [OF prep] by blast
  have exact: "vertices_exact graph \<and> edges_exact graph" using build by (rule built_graph_exact)
  then show "prepared tables fuel state inputs d graph"
    using prep select_device_valid(2) [OF dev] built_resets_paired [OF build] by (simp add: prepared_def)
  show "graph_ok graph" using exact assms(4) built_graph_ok by (simp add: channels_ok_def)
  show "grid_ok (cols d) (rows d)" using select_device_valid(1) [OF dev] tables by (auto simp: tables_ok_def list_all_iff)
  obtain t where t: "bt_get (g_tasks (fp_flat projection)) (g_top (fp_flat projection)) = Some t"
    using build by (auto simp: build_with_scopes_def bindR_eq_Inr)
  have "names_unique t graph" by (rule built_names_unique [OF build t plan_fifos_ok [OF proj assms(3) t]])
  then show "distinct (map v_name (vertices graph) @ map co_name (co_located graph))" unfolding names_unique_def by blast
qed



definition exact_config :: "FloorGraph \<Rightarrow> Device \<Rightarrow> PlanOptions \<Rightarrow> PlacementConfig" where
  "exact_config graph d p =
     (let strat = resolve_strategy graph d (po_partition_strategy p); caps = for_strategy (po_usage_limit p) strat
      in \<lparr>usage_limit = po_usage_limit p, retry_ceiling = po_usage_limit p, strategy = strat,
          cfg_constraints = (if strat = MultiLevel then exact_resource_cap_constraints d (effective_block_utilization_cap caps)
             else PlacementConstraints_default)\<rparr>)"

lemma resolve_twice: "resolve_strategy graph d (resolve_strategy graph d s) = resolve_strategy graph d s"
  by (cases s) (auto simp: resolve_strategy_def select_strategy_def)

lemma attempt_with_Inr:
  assumes "attempt_with caps r = Inr att"
  shows "pa_caps att = caps" and "pa_result att = Inr result \<Longrightarrow> r = Inr result"
  using assms by (auto simp: attempt_with_def split: sum.splits fault.splits)

lemma for_strategy_caps:
  "logic_utilization_cap (for_strategy logic s) = logic"
  "multilevel_block_margin_applied (for_strategy logic s) \<or> effective_block_utilization_cap (for_strategy logic s) = logic"
  by (simp_all add: for_strategy_def Let_def)

lemma exact_plan_is_sound:
  assumes run: "plan_with_inputs_at_usage_limit_and_caps tables fuel solver state p inputs = Some (Inr att)" "pa_result att = Inr result"
    and ok: "tables_ok tables" "projection_ok inputs"
    and small: "\<And>d graph. prepare_plan tables fuel state inputs = Some (Inr (d, graph)) \<Longrightarrow> channels_ok graph"
  shows "\<exists>d graph a. prepared tables fuel state inputs d graph \<and>
    pa_caps att = for_strategy (po_usage_limit p) (resolve_strategy graph d (po_partition_strategy p)) \<and>
    sound_assignment graph d (exact_config graph d p) a \<and>
    plan_shows d graph (po_scheme p) (po_usage_limit p) (effective_block_utilization_cap (pa_caps att)) a result"
proof -
  obtain d graph where prep: "prepare_plan tables fuel state inputs = Some (Inr (d, graph))"
    and att: "(let strat = resolve_strategy graph d (po_partition_strategy p); caps = for_strategy (po_usage_limit p) strat; opts = solve_options p
     in map_option (attempt_with caps) (bindI (map_option (map_err (map_fault PlanIlp))
          (floorplan_with_exact_resource_caps graph d (logic_utilization_cap caps) (effective_block_utilization_cap caps) strat solver opts))
          (\<lambda>(a, _). Some (finish_plan graph d p solver opts a caps)))) = Some (Inr att)"
    using run(1) unfolding plan_with_inputs_at_usage_limit_and_caps_def bindI_eq_Inr by (elim exE conjE) (simp only: case_prod_unfold, metis prod.collapse)
  define strat where "strat = resolve_strategy graph d (po_partition_strategy p)"
  define caps where "caps = for_strategy (po_usage_limit p) strat"
  note capped = for_strategy_caps [of "po_usage_limit p" strat, folded caps_def]
  obtain r where r: "attempt_with caps r = Inr att" "bindI (map_option (map_err (map_fault PlanIlp))
      (floorplan_with_exact_resource_caps graph d (logic_utilization_cap caps) (effective_block_utilization_cap caps) strat solver (solve_options p)))
      (\<lambda>(a, _). Some (finish_plan graph d p solver (solve_options p) a caps)) = Some r"
    using att unfolding Let_def strat_def [symmetric] caps_def [symmetric] by auto
  have "r = Inr result" by (rule attempt_with_Inr(2) [OF r(1) run(2)])
  then obtain a s where a: "floorplan_with_exact_resource_caps graph d (logic_utilization_cap caps) (effective_block_utilization_cap caps) strat solver
      (solve_options p) = Some (Inr (a, s))" and fin: "finish_plan graph d p solver (solve_options p) a caps = Inr result"
    using r(2) by (auto simp: bindI_eq_Inr map_err_returns)
  have config: "\<lparr>usage_limit = logic_utilization_cap caps, retry_ceiling = logic_utilization_cap caps, strategy = strat, cfg_constraints =
      (if strat = MultiLevel then exact_resource_cap_constraints d (effective_block_utilization_cap caps) else PlacementConstraints_default)\<rparr> = exact_config graph d p"
    unfolding exact_config_def Let_def strat_def [symmetric] caps_def [symmetric] capped(1) ..
  have resolved: "resolve_strategy graph d strat = strat" by (simp add: strat_def resolve_twice)
  have sound: "sound_assignment graph d (exact_config graph d p) a"
    using floorplan_returns [of graph d "exact_config graph d p" solver "solve_options p"] a
    unfolding floorplan_with_exact_resource_caps_def Let_def resolved config by (auto simp: bindI_eq_Inr)
  note stage = prepare_plan_sound [OF prep ok small [OF prep]]
  have "plan_shows d graph (po_scheme p) (logic_utilization_cap caps) (effective_block_utilization_cap caps) a result"
    using stage sound capped by (intro finish_plan_shows [OF fin]) (auto simp: prepared_def sound_assignment_def)
  then show ?thesis using stage(1) sound attempt_with_Inr(1) [OF r(1)] unfolding capped(1) by (auto simp: caps_def strat_def)
qed

section \<open>Plans return\<close>



section \<open>A planned design\<close>































end
