(* ===== verification/Fp_Dse.thy ===== *)
theory Fp_Dse
  imports Fp_Plan_Correct
begin

text \<open>
  \<^verbatim>\<open>tapa-core/tapa-floorplan/src/dse.rs\<close>: the exploration of utilization caps around the exact-cap planner.  Caps are counted in
  units of \<open>EXACT_DSE_CAP_SCALE\<close>; the sweep calls its attempt once per cap, which here is a function of the cap.  The result \<open>None\<close>
  is an attempt that does not return, \<open>Panicked\<close> one that panics.  Error texts are constructors carrying their data; the debug
  assertions hold (\<open>realized_fraction\<close>) or restate a definition.
\<close>

section \<open>Options\<close>

definition ADAPTIVE_MARGIN :: nat where
  "ADAPTIVE_MARGIN = EXACT_DSE_CAP_SCALE div 100"

record DseOptions =
  dse_min :: f64
  dse_max :: f64
  dse_step :: f64

definition DseOptions_default :: DseOptions where
  "DseOptions_default = \<lparr>dse_min = to_f64 (55 / 100), dse_max = to_f64 (9 / 10), dse_step = to_f64 (3 / 100)\<rparr>"

datatype option_fault =
    NotAFraction string f64
  | MinimumAboveMaximum f64 f64
  | BelowResolution string

datatype floorplan_fault =
    DeviceDiffers string string
  | NotAtomicSlot string
  | OutsideDevice string string
  | ZeroAvailable string nat string
  | ExceedsDevice f64

datatype DseError =
    InvalidOptions option_fault
  | DsePlan f64 PlanError
  | InvalidFloorplan floorplan_fault

record ValidatedOptions =
  vo_min :: nat
  vo_max :: nat
  vo_step :: nat

definition validate_fraction :: "string \<Rightarrow> f64 \<Rightarrow> DseError + unit" where
  "validate_fraction name v =
     (if \<not> is_finite v \<or> f64_le v (Finite 0) \<or> f64_lt (Finite 1) v then Inl (InvalidOptions (NotAFraction name v)) else Inr ())"

definition cap_units :: "string \<Rightarrow> f64 \<Rightarrow> DseError + nat" where
  "cap_units name v =
     (let units = as_u32 (f64_round (f64_mul v (of_uint EXACT_DSE_CAP_SCALE)))
      in if units = 0 then Inl (InvalidOptions (BelowResolution name)) else Inr units)"

definition cap_value :: "nat \<Rightarrow> f64" where
  "cap_value units = f64_div (of_uint units) (of_uint EXACT_DSE_CAP_SCALE)"

definition validated_options :: "DseOptions \<Rightarrow> DseError + ValidatedOptions" where
  "validated_options p =
     bindR (validate_fraction ''minimum'' (dse_min p)) (\<lambda>_.
     bindR (validate_fraction ''maximum'' (dse_max p)) (\<lambda>_.
     bindR (validate_fraction ''step'' (dse_step p)) (\<lambda>_.
     bindR (check (\<not> f64_lt (dse_max p) (dse_min p)) (InvalidOptions (MinimumAboveMaximum (dse_min p) (dse_max p)))) (\<lambda>_.
     bindR (cap_units ''minimum'' (dse_min p)) (\<lambda>lo.
     bindR (cap_units ''maximum'' (dse_max p)) (\<lambda>hi.
     bindR (cap_units ''step'' (dse_step p)) (\<lambda>step.
     Inr \<lparr>vo_min = lo, vo_max = hi, vo_step = step\<rparr>)))))))"

section \<open>The sweep\<close>

datatype RejectionKind = Terminal | Retryable

datatype ('t, 'm) Attempt =
    AttemptFeasible 't "(string, string) btree" f64 nat 'm
  | AttemptInfeasible RejectionKind 'm

record ('t, 'm) Swept =
  sw_cap :: nat
  sw_value :: "('t \<times> f64) option"
  sw_metadata :: 'm

text \<open>One pass of the loop: the region maps seen, the candidates, and the next cap unless the pass breaks out.\<close>

definition sweep_pass :: "ValidatedOptions \<Rightarrow> nat \<Rightarrow> ('t, 'm) Attempt \<Rightarrow> (string, string) btree list \<Rightarrow> ('t, 'm) Swept list
    \<Rightarrow> (string, string) btree list \<times> ('t, 'm) Swept list \<times> nat option" where
  "sweep_pass opts cap attempt visited candidates =
     (case attempt of
        AttemptFeasible v regions max_utilization binding_logic_cap metadata \<Rightarrow>
          let fresh = (regions \<notin> set visited);
              nominal = cap - vo_step opts;
              adaptive = binding_logic_cap - ADAPTIVE_MARGIN
          in (if fresh then regions # visited else visited,
              if fresh then candidates @ [\<lparr>sw_cap = cap, sw_value = Some (v, max_utilization), sw_metadata = metadata\<rparr>] else candidates,
              Some (min nominal adaptive))
      | AttemptInfeasible kind metadata \<Rightarrow>
          (visited, candidates @ [\<lparr>sw_cap = cap, sw_value = None, sw_metadata = metadata\<rparr>],
           if kind = Terminal then None else Some (cap - vo_step opts)))"

function sweep :: "ValidatedOptions \<Rightarrow> (f64 \<Rightarrow> ('e + ('t, 'm) Attempt) option) \<Rightarrow> nat \<Rightarrow> (string, string) btree list \<Rightarrow> ('t, 'm) Swept list
    \<Rightarrow> ('e + ('t, 'm) Swept list) option" where
  "sweep opts attempt cap visited candidates =
     (if cap < vo_min opts then Some (Inr candidates)
      else bindI (attempt (cap_value cap)) (\<lambda>a.
        case sweep_pass opts cap a visited candidates of
          (visited', candidates', None) \<Rightarrow> Some (Inr candidates')
        | (visited', candidates', Some next_cap) \<Rightarrow>
            if next_cap \<ge> cap then Some (Inr candidates') else sweep opts attempt next_cap visited' candidates'))"
  by pat_completeness auto
termination by (relation "measure (\<lambda>(opts, attempt, cap, visited, candidates). cap)") auto

definition sweep_with :: "ValidatedOptions \<Rightarrow> (f64 \<Rightarrow> ('e + ('t, 'm) Attempt) option) \<Rightarrow> ('e + ('t, 'm) Swept list) option" where
  "sweep_with opts attempt = sweep opts attempt (vo_max opts) [] []"

section \<open>Realized utilization\<close>

record RealizedUtilization =
  ru_logic :: f64
  ru_block :: f64

definition RealizedUtilization_default :: RealizedUtilization where
  "RealizedUtilization_default = \<lparr>ru_logic = Finite 0, ru_block = Finite 0\<rparr>"

definition maximum :: "RealizedUtilization \<Rightarrow> f64" where
  "maximum u = f64_max (ru_logic u) (ru_block u)"

definition utilization_units :: "f64 \<Rightarrow> nat" where
  "utilization_units v = as_u32 (f64_floor (f64_mul (f64_clamp v (Finite 0) (Finite 1)) (of_uint EXACT_DSE_CAP_SCALE)))"

definition binding_logic_cap_units :: "RealizedUtilization \<Rightarrow> ExactDseResourceCaps \<Rightarrow> nat" where
  "binding_logic_cap_units u caps =
     (let block_margin = (if multilevel_block_margin_applied caps then MULTILEVEL_BLOCK_RESOURCE_MARGIN_UNITS else 0)
      in max (utilization_units (ru_logic u)) (utilization_units (ru_block u) - block_margin))"

definition resource_ratio :: "nat \<Rightarrow> nat \<Rightarrow> f64" where
  "resource_ratio used available = f64_div (of_uint used) (of_uint available)"

definition measure_resource :: "Device \<Rightarrow> string \<Rightarrow> Area \<Rightarrow> Slot \<Rightarrow> RealizedUtilization \<Rightarrow> Resource \<Rightarrow> DseError + RealizedUtilization" where
  "measure_resource d region usage slot u r =
     (if \<not> plans_resource d r then Inr u
      else let used = amount r usage; available = amount r (slot_area slot)
           in if available = 0
              then if used \<noteq> 0 then Inl (InvalidFloorplan (ZeroAvailable region used (resource_name r))) else Inr u
              else let ratio = resource_ratio used available
                   in Inr (if is_logic r then u\<lparr>ru_logic := f64_max (ru_logic u) ratio\<rparr> else u\<lparr>ru_block := f64_max (ru_block u) ratio\<rparr>))"

definition measure_slot :: "Device \<Rightarrow> RealizedUtilization \<Rightarrow> string \<times> Area \<Rightarrow> DseError + RealizedUtilization" where
  "measure_slot d u = (\<lambda>(region, usage).
     bindR (ok_or (InvalidFloorplan (NotAtomicSlot region))
       (Option.bind (from_region_name region) (\<lambda>coor. if coor_width coor = 1 \<and> coor_height coor = 1 then Some coor else None))) (\<lambda>coor.
     bindR (ok_or (InvalidFloorplan (OutsideDevice region (dev_key d))) (device_slot d (dl_x coor) (dl_y coor))) (\<lambda>slot.
     foldR (measure_resource d region usage slot) u Resource_ALL)))"

definition realized_utilization :: "FloorplanResult \<Rightarrow> Device \<Rightarrow> DseError + RealizedUtilization" where
  "realized_utilization floorplan d =
     bindR (check (fp_device floorplan = dev_key d) (InvalidFloorplan (DeviceDiffers (fp_device floorplan) (dev_key d)))) (\<lambda>_.
     bindR (foldR (measure_slot d) RealizedUtilization_default (fp_slot_usage floorplan)) (\<lambda>u.
     bindR (check (\<not> f64_lt (Finite 1) (maximum u)) (InvalidFloorplan (ExceedsDevice (maximum u)))) (\<lambda>_.
     Inr u)))"

definition maximum_realized_utilization :: "FloorplanResult \<Rightarrow> Device \<Rightarrow> DseError + f64" where
  "maximum_realized_utilization floorplan d = bindR (realized_utilization floorplan d) (\<lambda>u. Inr (maximum u))"

section \<open>Exploration\<close>

fun rejection_kind :: "PlanError \<Rightarrow> RejectionKind option" where
  "rejection_kind (PlanIlp (IlpInfeasible _ _)) = Some Terminal"
| "rejection_kind (PlanIlp (NoCandidates _)) = Some Terminal"
| "rejection_kind (PlanPipeline (PipelineRouteError (RouteInfeasible _))) = Some Retryable"
| "rejection_kind (PlanPipeline (RealizedCapacity _ _ _ _)) = Some Retryable"
| "rejection_kind _ = None"

datatype DseCandidate =
    Feasible ExactDseResourceCaps f64 FloorplanResult
  | Rejected ExactDseResourceCaps

definition candidate_caps :: "DseCandidate \<Rightarrow> ExactDseResourceCaps" where
  "candidate_caps c = (case c of Feasible caps _ _ \<Rightarrow> caps | Rejected caps \<Rightarrow> caps)"

definition candidates_from_sweep :: "(FloorplanResult, ExactDseResourceCaps) Swept list \<Rightarrow> DseCandidate list" where
  "candidates_from_sweep attempts =
     map (\<lambda>attempt. case sw_value attempt of
         Some (floorplan, max_utilization) \<Rightarrow> Feasible (sw_metadata attempt) max_utilization floorplan
       | None \<Rightarrow> Rejected (sw_metadata attempt)) attempts"

definition measure_plan :: "DeviceTables \<Rightarrow> f64 \<Rightarrow> ExactDseResourceCaps \<Rightarrow> FloorplanResult
    \<Rightarrow> DseError fault + (FloorplanResult, ExactDseResourceCaps) Attempt" where
  "measure_plan tables cap caps floorplan =
     bindR (map_err (map_fault (\<lambda>source. DsePlan cap (PlanDevice source))) (select_device tables (fp_device floorplan))) (\<lambda>d.
     bindR (map_err Err (realized_utilization floorplan d)) (\<lambda>realized.
     Inr (AttemptFeasible floorplan (fp_regions floorplan) (maximum realized) (binding_logic_cap_units realized caps) caps)))"

definition dse_attempt :: "DeviceTables \<Rightarrow> nat \<Rightarrow> Solver \<Rightarrow> WorkState \<Rightarrow> PlanOptions \<Rightarrow> PlanInputs \<Rightarrow> f64
    \<Rightarrow> (DseError fault + (FloorplanResult, ExactDseResourceCaps) Attempt) option" where
  "dse_attempt tables fuel solver state p inputs cap =
     bindI (map_option (map_err (map_fault (DsePlan cap)))
       (plan_with_inputs_at_usage_limit_and_caps tables fuel solver state (p\<lparr>po_usage_limit := cap\<rparr>) inputs)) (\<lambda>planned.
     Some (case pa_result planned of
         Inr floorplan \<Rightarrow> measure_plan tables cap (pa_caps planned) floorplan
       | Inl e \<Rightarrow> (case rejection_kind e of
             Some kind \<Rightarrow> Inr (AttemptInfeasible kind (pa_caps planned))
           | None \<Rightarrow> Inl (Err (DsePlan cap e)))))"

definition explore :: "DeviceTables \<Rightarrow> nat \<Rightarrow> Solver \<Rightarrow> WorkState \<Rightarrow> PlanOptions \<Rightarrow> PlanInputs \<Rightarrow> DseOptions
    \<Rightarrow> (DseError fault + DseCandidate list) option" where
  "explore tables fuel solver state p inputs opts =
     bindI (Some (map_err Err (validated_options opts))) (\<lambda>opts.
     bindI (sweep_with opts (dse_attempt tables fuel solver state p inputs)) (\<lambda>attempts.
     Some (Inr (candidates_from_sweep attempts))))"

end
