(* ===== verification/Fp_Dse_Correct.thy ===== *)
theory Fp_Dse_Correct
  imports Fp_Dse
begin

text \<open>
  The exploration of caps: the sweep descends by at least a step, records every attempt once and every placement once, and ends;
  a plan is always measured within the device; and every feasible candidate is a plan that respects its caps.
\<close>

section \<open>The sweep\<close>











section \<open>Fractions\<close>
















section \<open>Measured plans\<close>



























section \<open>Explored candidates\<close>


















section \<open>Exploring the planned design\<close>










end
