(* ===== verification/Spec2Isabelle.thy ===== *)
theory Spec2Isabelle
  imports Shm_Spsc Dpi_Behaviour Flatten_Correct Fp_Pipeline Fp_Place_Search Fp_Names Fp_Dse_Correct
begin

text \<open>
  TAPA compiles task-parallel C++ programs for FPGAs.  This development models the parts of it on which the correctness of a
  simulated or planned design rests, and proves them correct: the token queues a host program shares with a simulated kernel, the
  task graph and its flattening, and the floorplanner from the flat graph to a finished plan.

  \<^bold>\<open>How the parts interact.\<close>  A host process and a hardware simulator exchange tokens through queues in shared memory
  (\<^verbatim>\<open>frt-shm\<close>); each clock cycle the simulator calls the DPI library (\<^verbatim>\<open>frt-dpi\<close>), which pushes, pops and peeks those queues and
  reads and writes AXI buffers.  Independently, the compiler keeps a graph of tasks (\<^verbatim>\<open>tapa-ir\<close>), flattens its hierarchy, and
  hands it to the floorplanner (\<^verbatim>\<open>tapa-floorplan\<close>): the device is selected and validated, the placement graph is built, an integer
  program places its vertices, another routes the channels that cross slots, registers are planned and accounted, and an
  exploration repeats this for falling utilization caps.

  \<^bold>\<open>Shared theories.\<close>  \<open>Prelude\<close>: integers with their width written out, results with early return, strings, loops.
  \<open>BTree\<close>: \<^verbatim>\<open>BTreeMap\<close> as a sorted association list, with the locale \<open>ordered_map\<close> of its laws, interpreted on it.
  \<open>Bytes\<close>: little-endian fields and byte ranges.  \<open>F64\<close>: \<^verbatim>\<open>f64\<close> as rationals, infinities and NaN, with round to nearest even
  written out.

  \<^bold>\<open>Runtime\<close> (\<^verbatim>\<open>src/fpga-runtime\<close>).
  \<^item> \<open>Mmap_Segment\<close>, \<open>Shm_Queue\<close>: \<^verbatim>\<open>mmap_segment.rs\<close> and \<^verbatim>\<open>queue.rs\<close> on the bytes of a segment.
  \<^item> \<open>Queue_Contract\<close>: the locale \<open>bounded_queue\<close> of what the clients rely on, interpreted on the byte-level operations; layout
    bounds, no panic after validation, refinement of a first-in first-out list.
  \<^item> \<open>Shm_Spsc\<close>: the step relation \<open>spsc_step\<close> of one producer and one consumer, interleaved down to single copied bytes, with
    the order of tokens as an invariant and delivery as a liveness property of infinite runs.
  \<^item> \<open>Dpi\<close>, \<open>Dpi_Behaviour\<close>: context set-up, AXI spans, stream handshakes and entry points; every sequence of calls is safe, and
    what each call does is stated on the abstract queue.

  \<^bold>\<open>Task graph\<close> (\<^verbatim>\<open>src/tapa-core/tapa-ir\<close>).
  \<^item> \<open>Ir_Port\<close>, \<open>Ir_Connectivity\<close>, \<open>Ir_Memory\<close>, \<open>Ir_Floorplan\<close>: names, categories, memory bindings, geometry, and the records of the
    floorplan contract with areas, regions and generated names.
  \<^item> \<open>Ir_Graph\<close>: graph and work state; validation is characterised both ways, success and every error.
  \<^item> \<open>Ir_Transforms\<close>, \<open>Flatten_Correct\<close>: flattening with fuel.  The flat graph keeps the source but for its hierarchy, origins and
    FIFO endpoints are exact, and a fuel above the rank of the top task is enough; a cycle diverges for every fuel.

  \<^bold>\<open>Floorplanner\<close> (\<^verbatim>\<open>src/tapa-core/tapa-floorplan\<close>).
  \<^item> \<open>Fp_Device\<close> (\<^verbatim>\<open>device/model.rs\<close>), \<open>Fp_Cut\<close> (\<^verbatim>\<open>partition/cut.rs\<close>), \<open>Fp_Paths\<close> (\<^verbatim>\<open>route/paths.rs\<close>): grid, straight cuts, paths.
  \<^item> \<open>Fp_Graph\<close>, \<open>Fp_Build\<close> (\<^verbatim>\<open>graph\<close>); \<open>Fp_Build_Correct\<close> and \<open>Fp_Names\<close> show that a built graph carries exactly the wires of the
    design, that its names are unique, and that publishing a placement never fails.
  \<^item> \<open>Fp_Solver\<close> (\<^verbatim>\<open>solver\<close>): programs, validation of an incumbent and reading it back.
  \<^item> \<open>Fp_Domains\<close>, \<open>Fp_Place_Model\<close>, \<open>Fp_Partition\<close> (\<^verbatim>\<open>partition/ilp.rs\<close>); \<open>Fp_Place_Exact\<close> and \<open>Fp_Place_Search\<close> show that the
    program has a solution exactly if a legal placement exists, that the search finds the lowest usage limit, that it returns, and
    that whatever the solver answers the assignment is sound.
  \<^item> \<open>Fp_Route\<close> (\<^verbatim>\<open>route/ilp.rs\<close>), \<open>Fp_Route_Model\<close>: routes are legal whatever the solver answers; the program is exact.
  \<^item> \<open>Fp_Pipeline\<close> (\<^verbatim>\<open>pipeline/plan.rs\<close>): crossing channels, registers and accounting.
  \<^item> \<open>Fp_Plan\<close> (\<^verbatim>\<open>plan\<close>, \<^verbatim>\<open>device/select.rs\<close>), \<open>Fp_Plan_Correct\<close>: the planner, sound end to end.
  \<^item> \<open>Fp_Dse\<close> (\<^verbatim>\<open>dse.rs\<close>), \<open>Fp_Dse_Correct\<close>: the exploration of caps, sound end to end.

  This theory adds what spans cuts and routes: a cut never rejects a placement that can be routed.

  \<^bold>\<open>Conventions.\<close>  A Rust struct is a record, an enum a datatype, \<^verbatim>\<open>Result\<close> a sum with the error on the left; an error text is a
  constructor carrying the values it prints.  A panic is a value (\<open>None\<close> in the runtime, \<open>Panicked\<close> beside \<open>Err\<close> elsewhere).
  Unsigned integers are natural numbers with \<open>wrap\<close>, \<open>fits\<close> and the checked operations at their width; lengths of vectors held in
  memory are unbounded.  Loops that may not return are partial functions into \<open>option\<close> or carry fuel.

  \<^bold>\<open>Parameters.\<close>  Code outside the repository is an argument: the solver (any function from a program and options to an answer;
  where a theorem needs an exact one it says so and a witness uses the solver defined by the exact answer), the JSON decoders, the
  embedded device tables, and the wall clock.

  \<^bold>\<open>Bounds.\<close>  Grids satisfy \<open>grid_ok\<close>, below the 32-bit limit of coordinates; a graph has fewer than two to the 32 channels
  (\<open>channels_ok\<close>); areas in the exactness theorems are below two to the 53, where \<^verbatim>\<open>f64\<close> is exact.

  \<^bold>\<open>Not modelled.\<close>  The C++ front end \<^verbatim>\<open>tapacc\<close> and the library \<^verbatim>\<open>tapa-lib\<close> (behaviour of Clang and of vendor synthesis);
  \<^verbatim>\<open>tapa-cli\<close>, \<^verbatim>\<open>tapa-xilinx\<close> and \<^verbatim>\<open>frt-cosim\<close> (processes and files); \<^verbatim>\<open>tapa-codegen\<close>, \<^verbatim>\<open>tapa-rtl\<close>, \<^verbatim>\<open>tapa-protocol\<close> and
  \<^verbatim>\<open>xdc.rs\<close> (text for vendor tools, without a semantics of Verilog and Tcl); \<^verbatim>\<open>tapa-ir/src/aie.rs\<close> (a separate back end); the CBC
  back end and the cache fingerprints; \<^verbatim>\<open>frt\<close> and the exported C symbols of the simulators (vendor libraries and raw pointers); the
  decimal parser of \<^verbatim>\<open>clock.rs\<close>.  Weak memory is not modelled: the steps of \<open>spsc_step\<close> are sequentially consistent, which the
  acquire and release orderings of the code provide for this pattern.
\<close>

section \<open>Placement cuts and routes\<close>

definition separated :: "Cut \<Rightarrow> RouteNet \<Rightarrow> bool" where
  "separated k net \<longleftrightarrow> (\<exists>l \<in> set (cut_lhs k). \<exists>r \<in> set (cut_rhs k).
     covers (net_src net) l \<and> covers (net_dst net) r \<or> covers (net_dst net) l \<and> covers (net_src net) r)"

text \<open>A path between the two sides of a line uses one of the unit borders along it.\<close>

lemma path_crosses_row:
  assumes "successively adjacent p" and "p \<noteq> []" and "(snd (hd p) \<le> k) \<noteq> (snd (last p) \<le> k)"
  shows "\<exists>x. crosses_edge (x, k) (x, k + 1) p"
  using assms
proof (induction p rule: induct_list012)
  case (3 u v p)
  show ?case
  proof (cases "(snd u \<le> k) = (snd v \<le> k)")
    case True
    then have "\<exists>x. crosses_edge (x, k) (x, k + 1) (v # p)" using 3 by simp
    then show ?thesis by (auto simp: crosses_edge_def windows2_def)
  next
    case False
    have "adjacent u v" using 3 by simp
    then have "u = (fst u, k) \<and> v = (fst u, k + 1) \<or> v = (fst u, k) \<and> u = (fst u, k + 1)"
      using False by (cases u; cases v) (auto simp: adjacent_def)
    then have "crosses_edge (fst u, k) (fst u, k + 1) (u # v # p)" by (auto simp: crosses_edge_def windows2_def)
    then show ?thesis by blast
  qed
qed simp_all

lemma path_crosses_column:
  assumes "successively adjacent p" and "p \<noteq> []" and "(fst (hd p) \<le> k) \<noteq> (fst (last p) \<le> k)"
  shows "\<exists>y. crosses_edge (k, y) (k + 1, y) p"
  using assms
proof (induction p rule: induct_list012)
  case (3 u v p)
  show ?case
  proof (cases "(fst u \<le> k) = (fst v \<le> k)")
    case True
    then have "\<exists>y. crosses_edge (k, y) (k + 1, y) (v # p)" using 3 by simp
    then show ?thesis by (auto simp: crosses_edge_def windows2_def)
  next
    case False
    have "adjacent u v" using 3 by simp
    then have "u = (k, snd u) \<and> v = (k + 1, snd u) \<or> v = (k, snd u) \<and> u = (k + 1, snd u)"
      using False by (cases u; cases v) (auto simp: adjacent_def)
    then have "crosses_edge (k, snd u) (k + 1, snd u) (u # v # p)" by (auto simp: crosses_edge_def windows2_def)
    then show ?thesis by blast
  qed
qed simp_all

lemma crosses_edge_in_path: "crosses_edge u v p \<Longrightarrow> u \<in> set p \<and> v \<in> set p"
proof -
  have "a \<in> set p \<and> b \<in> set p" if "(a, b) \<in> set (windows2 p)" for a b
    using set_zip_leftD [of a b p "tl p"] set_zip_rightD [of a b p "tl p"] that list.set_sel(2) [of p b]
    by (cases p) (auto simp: windows2_def)
  then show "crosses_edge u v p \<Longrightarrow> u \<in> set p \<and> v \<in> set p" unfolding crosses_edge_def by blast
qed

text \<open>The wires that must cross a line are at most the loads of its unit borders.\<close>

lemma line_load:
  fixes near far :: "nat \<Rightarrow> Cell"
  assumes "length routes = length nets"
    and "\<And>i. i < length nets \<Longrightarrow> sep (nets ! i) \<Longrightarrow> \<exists>t < n. crosses_edge (near t) (far t) (routes ! i)"
  shows "(\<Sum>i < length nets. if sep (nets ! i) then net_width (nets ! i) else 0) \<le> (\<Sum>t < n. edge_load nets routes (near t) (far t))"
proof -
  let ?w = "\<lambda>i t. if crosses_edge (near t) (far t) (routes ! i) then net_width (nets ! i) else 0"
  have "(\<Sum>i < length nets. if sep (nets ! i) then net_width (nets ! i) else 0) \<le> (\<Sum>i < length nets. \<Sum>t < n. ?w i t)"
  proof (rule sum_mono)
    fix i assume i: "i \<in> {..<length nets}"
    show "(if sep (nets ! i) then net_width (nets ! i) else 0) \<le> (\<Sum>t < n. ?w i t)"
    proof (cases "sep (nets ! i)")
      case True
      then obtain t where t: "t < n" "crosses_edge (near t) (far t) (routes ! i)" using assms(2) i by blast
      then have "net_width (nets ! i) = ?w i t" by simp
      also have "\<dots> \<le> (\<Sum>t < n. ?w i t)" by (rule member_le_sum) (use t in auto)
      finally show ?thesis using True by simp
    qed simp
  qed
  also have "\<dots> = (\<Sum>t < n. \<Sum>i < length nets. ?w i t)" by (rule sum.swap)
  also have "\<dots> = (\<Sum>t < n. edge_load nets routes (near t) (far t))" by (simp only: edge_load_sum [OF assms(1)])
  finally show ?thesis .
qed

lemma loads_within_budget:
  assumes "\<And>t. t < n \<Longrightarrow> fits_limit (f t) (g t)" and "None \<notin> set (map g [0..<n])"
  shows "(\<Sum>t < n. f t) \<le> sum_list (map the (map g [0..<n]))"
proof -
  have "f t \<le> the (g t)" if t: "t < n" for t
  proof (cases "g t")
    case None
    then have "None \<in> set (map g [0..<n])" using t by (metis atLeastLessThan_iff image_eqI le0 list.set_map set_upt)
    then show ?thesis using assms(2) by simp
  qed (use assms(1) [OF t] in \<open>simp add: fits_limit_def\<close>)
  then have "(\<Sum>t < n. f t) \<le> (\<Sum>t < n. the (g t))" by (intro sum_mono) simp
  then show ?thesis by (simp add: sum_list_sum_nth atLeast0LessThan comp_def)
qed

lemma spec_cut_cases:
  assumes "k \<in> set (spec_cuts d regions)"
  obtains (row) y where "y + 1 < rows d" "None \<notin> set (row_budget d y)" "cut_capacity k = sum_list (map the (row_budget d y))"
      "\<forall>l \<in> set (cut_lhs k). ur_y l \<le> y" "\<forall>r \<in> set (cut_rhs k). y < dl_y r"
    | (column) x where "x + 1 < cols d" "None \<notin> set (column_budget d x)" "cut_capacity k = sum_list (map the (column_budget d x))"
      "\<forall>l \<in> set (cut_lhs k). ur_x l \<le> x" "\<forall>r \<in> set (cut_rhs k). x < dl_x r"
  using assms unfolding spec_cuts_def set_append Un_iff
proof (elim disjE)
  assume "k \<in> set (concat (map (\<lambda>k. spec_cut (''y='' @ show_nat k) (row_budget d k) regions
      (filter (\<lambda>r. ur_y r \<le> k) regions) (filter (\<lambda>r. dl_y r > k) regions)) [0..<rows d - 1]))"
  then obtain y where "y < rows d - 1" "k \<in> set (spec_cut (''y='' @ show_nat y) (row_budget d y) regions
      (filter (\<lambda>r. ur_y r \<le> y) regions) (filter (\<lambda>r. dl_y r > y) regions))" by auto
  then show thesis by (intro row [of y]) (auto simp: spec_cut_def split: if_splits)
next
  assume "k \<in> set (concat (map (\<lambda>k. spec_cut (''x='' @ show_nat k) (column_budget d k) regions
      (filter (\<lambda>r. ur_x r \<le> k) regions) (filter (\<lambda>r. dl_x r > k) regions)) [0..<cols d - 1]))"
  then obtain x where "x < cols d - 1" "k \<in> set (spec_cut (''x='' @ show_nat x) (column_budget d x) regions
      (filter (\<lambda>r. ur_x r \<le> x) regions) (filter (\<lambda>r. dl_x r > x) regions))" by auto
  then show thesis by (intro column [of x]) (auto simp: spec_cut_def split: if_splits)
qed

lemma legal_routeD:
  assumes "legal_route d net p"
  shows "p \<noteq> []" "hd p = net_src net" "last p = net_dst net" "successively adjacent p" "c \<in> set p \<Longrightarrow> fst c < cols d \<and> snd c < rows d"
  using assms by (auto simp: legal_route_def simple_path_def in_bounds_def)

lemma cut_load:
  assumes "k \<in> set (spec_cuts d regions)" and "list_all2 (legal_route d) nets routes" and "loads_within d nets routes"
  shows "(\<Sum>i < length nets. if separated k (nets ! i) then net_width (nets ! i) else 0) \<le> cut_capacity k"
proof -
  have n: "length routes = length nets" using assms(2) by (simp add: list_all2_lengthD)
  have legal: "legal_route d (nets ! i) (routes ! i)" if "i < length nets" for i using list_all2_nthD [OF assms(2) that] .
  from assms(1) show ?thesis
  proof (cases rule: spec_cut_cases)
    case (row y)
    have "\<exists>x < cols d. crosses_edge (x, y) (x, y + 1) (routes ! i)" if i: "i < length nets" "separated k (nets ! i)" for i
    proof -
      note l = legal_routeD [OF legal [OF i(1)]]
      have "(snd (net_src (nets ! i)) \<le> y) \<noteq> (snd (net_dst (nets ! i)) \<le> y)"
        using i(2) row(4,5) by (fastforce simp: separated_def covers_def)
      then obtain x where x: "crosses_edge (x, y) (x, y + 1) (routes ! i)"
        using path_crosses_row [OF l(4,1)] l(2,3) by metis
      then show ?thesis using l(5) crosses_edge_in_path by fastforce
    qed
    from line_load [OF n, of "separated k" "cols d" "\<lambda>x. (x, y)" "\<lambda>x. (x, y + 1)", OF this]
    have "(\<Sum>i < length nets. if separated k (nets ! i) then net_width (nets ! i) else 0) \<le> (\<Sum>x < cols d. edge_load nets routes (x, y) (x, y + 1))"
      by blast
    also have "\<dots> \<le> cut_capacity k"
      unfolding row(3) row_budget_def using assms(3) row(1,2)
      by (intro loads_within_budget) (auto simp: loads_within_def row_budget_def)
    finally show ?thesis .
  next
    case (column x)
    have "\<exists>y < rows d. crosses_edge (x, y) (x + 1, y) (routes ! i)" if i: "i < length nets" "separated k (nets ! i)" for i
    proof -
      note l = legal_routeD [OF legal [OF i(1)]]
      have "(fst (net_src (nets ! i)) \<le> x) \<noteq> (fst (net_dst (nets ! i)) \<le> x)"
        using i(2) column(4,5) by (fastforce simp: separated_def covers_def)
      then obtain y where y: "crosses_edge (x, y) (x + 1, y) (routes ! i)"
        using path_crosses_column [OF l(4,1)] l(2,3) by metis
      then show ?thesis using l(5) crosses_edge_in_path by fastforce
    qed
    from line_load [OF n, of "separated k" "rows d" "\<lambda>y. (x, y)" "\<lambda>y. (x + 1, y)", OF this]
    have "(\<Sum>i < length nets. if separated k (nets ! i) then net_width (nets ! i) else 0) \<le> (\<Sum>y < rows d. edge_load nets routes (x, y) (x + 1, y))"
      by blast
    also have "\<dots> \<le> cut_capacity k"
      unfolding column(3) column_budget_def using assms(3) column(1,2)
      by (intro loads_within_budget) (auto simp: loads_within_def column_budget_def)
    finally show ?thesis .
  qed
qed

text \<open>C33: The placement cuts are necessary conditions of routing.  If any legal routing of the nets exists, then for every cut the
  partitioner enumerates over regions that tile the device, the total width of the nets with endpoints on opposite sides is at most
  the capacity of the cut: a cut constraint never rejects a placement that could be routed.\<close>

theorem cuts_never_reject_routable:
  assumes "device_validate d = Inr ()" and "rows d < 2 ^ 32" and "cols d < 2 ^ 32" and "tiles d regions"
    and "list_all2 (legal_route d) nets routes" and "loads_within d nets routes"
    and "k \<in> set (find_cuts_for_regions d regions)"
  shows "(\<Sum>i < length nets. if separated k (nets ! i) then net_width (nets ! i) else 0) \<le> cut_capacity k"
proof -
  have "k \<in> set (spec_cuts d regions)" using assms(7) find_cuts_spec [OF assms(1-4)] by simp
  then show ?thesis using assms(5,6) by (rule cut_load)
qed

theorem cuts_never_reject_routable_witness:
  "list_all (\<lambda>k. (\<Sum>i < length [demo_net]. if separated k ([demo_net] ! i) then net_width ([demo_net] ! i) else 0) \<le> cut_capacity k)
     (find_cuts_for_regions demo_device demo_regions)"
  unfolding list_all_iff
proof
  fix k assume k: "k \<in> set (find_cuts_for_regions demo_device demo_regions)"
  have g: "grid_complete demo_device" using demo_device_valid by (auto simp: device_validate_def bindR_eq_Inr validate_grid_Inr)
  have "list_all2 (legal_route demo_device) [demo_net] [[(0, 0), (1, 0)]]"
    using net_paths_legal [OF g demo_inputs(2), of _ demo_net] by (simp add: demo_net_paths)
  moreover have "loads_within demo_device [demo_net] [[(0, 0), (1, 0)]]" by (rule within_capacity_loads [OF demo_inputs(4,1) g])
  moreover have "rows demo_device < 2 ^ 32" "cols demo_device < 2 ^ 32" by (simp_all add: demo_device_def)
  ultimately show "(\<Sum>i < length [demo_net]. if separated k ([demo_net] ! i) then net_width ([demo_net] ! i) else 0) \<le> cut_capacity k"
    using cuts_never_reject_routable [OF demo_device_valid _ _ demo_regions_tile _ _ k] by blast
qed

end
